(* ===== verification/Prelude.thy ===== *)
theory Prelude
  imports Main "HOL-Library.AList" "HOL-Library.List_Lexorder" "HOL-Library.Char_ord"
    "HOL-Library.Word"
begin

text \<open>
  Shared ground of the development: the type names every component uses, the two
  dictionary representations of the Rust standard library (\<open>HashMap\<close> as an association
  list without duplicate keys, \<open>BTreeMap\<close> as an association list sorted by key) behind one
  interface, iterator helpers, and the string functions of \<open>str\<close> the sources call.

  A Rust \<open>str\<close> is its UTF-8 byte sequence, so \<open>string\<close> (a list of 8-bit characters) holds
  exactly what \<open>str::as_bytes\<close> gives and \<open>length\<close> is \<open>str::len\<close>; \<open>chars\<close> decodes it.
\<close>

section \<open>Collections of lemmas\<close>

named_theorems dict_simps \<open>what a dictionary returns after an update\<close>
named_theorems wf_intros \<open>operations keep the invariant of their component\<close>

section \<open>Names of types\<close>

text \<open>
  A \<open>Uuid\<close> is an opaque number here: the sources compare and print it. A point in time
  (\<open>OffsetDateTime\<close>, \<open>timestamptz\<close>) is a number of nanoseconds since 1970 in UTC.
\<close>

type_synonym uuid = nat
type_synonym instant = int
type_synonym u8 = "8 word"
type_synonym u16 = "16 word"
type_synonym u32 = "32 word"
type_synonym u64 = "64 word"
type_synonym ('k, 'v) hashmap = "('k \<times> 'v) list"
type_synonym ('k, 'v) btree = "('k \<times> 'v) list"

section \<open>Dictionaries\<close>

text \<open>
  The interface the components rely on. \<open>ok\<close> is the representation's invariant and
  \<open>entries\<close> what iterating over the dictionary yields.
\<close>

locale dict =
  fixes get :: "'m \<Rightarrow> 'k \<Rightarrow> 'v option"
    and put :: "'k \<Rightarrow> 'v \<Rightarrow> 'm \<Rightarrow> 'm"
    and del :: "'k \<Rightarrow> 'm \<Rightarrow> 'm"
    and entries :: "'m \<Rightarrow> ('k \<times> 'v) list"
    and ok :: "'m \<Rightarrow> bool"
  assumes get_put: "get (put k v m) = (get m)(k \<mapsto> v)"
    and get_del: "ok m \<Longrightarrow> get (del k m) = (get m)(k := None)"
    and ok_put: "ok m \<Longrightarrow> ok (put k v m)"
    and ok_del: "ok m \<Longrightarrow> ok (del k m)"
    and entries_get: "ok m \<Longrightarrow> (k, v) \<in> set (entries m) \<longleftrightarrow> get m k = Some v"
begin

lemma get_put_same: "get (put k v m) k = Some v"
  by (simp add: get_put)

lemma get_put_other: "j \<noteq> k \<Longrightarrow> get (put k v m) j = get m j"
  by (simp add: get_put)

lemma get_del_same: "ok m \<Longrightarrow> get (del k m) k = None"
  by (simp add: get_del)

lemma get_del_other: "ok m \<Longrightarrow> j \<noteq> k \<Longrightarrow> get (del k m) j = get m j"
  by (simp add: get_del)

lemma entries_put:
  "ok m \<Longrightarrow> set (entries (put k v m)) = insert (k, v) {p \<in> set (entries m). fst p \<noteq> k}"
  by (auto simp: entries_get ok_put get_put split: if_splits)

lemma entries_del:
  "ok m \<Longrightarrow> set (entries (del k m)) = {p \<in> set (entries m). fst p \<noteq> k}"
  by (auto simp: entries_get ok_del get_del split: if_splits)

lemma keys_get: "ok m \<Longrightarrow> k \<in> fst ` set (entries m) \<longleftrightarrow> get m k \<noteq> None"
  using entries_get [of m k] by (auto simp: image_iff Bex_def)

lemma fold_put_get:
  "get (fold (\<lambda>(k, v). put k v) ps m) k
    = (case map_of (rev ps) k of None \<Rightarrow> get m k | Some v \<Rightarrow> Some v)"
  by (induction ps arbitrary: m) (auto simp: get_put map_add_def split: option.splits)

lemma fold_put_ok: "ok m \<Longrightarrow> ok (fold (\<lambda>(k, v). put k v) ps m)"
  by (induction ps arbitrary: m) (auto simp: ok_put)

end

subsection \<open>HashMap\<close>

text \<open>\<open>entry(k).or_default()\<close> and \<open>insert\<close> replace in place; keys stay distinct.\<close>

abbreviation hm_get :: "('k, 'v) hashmap \<Rightarrow> 'k \<Rightarrow> 'v option" where
  "hm_get \<equiv> map_of"

abbreviation hm_insert :: "'k \<Rightarrow> 'v \<Rightarrow> ('k, 'v) hashmap \<Rightarrow> ('k, 'v) hashmap" where
  "hm_insert \<equiv> AList.update"

abbreviation hm_remove :: "'k \<Rightarrow> ('k, 'v) hashmap \<Rightarrow> ('k, 'v) hashmap" where
  "hm_remove \<equiv> AList.delete"

definition hm_ok :: "('k, 'v) hashmap \<Rightarrow> bool" where
  "hm_ok m \<longleftrightarrow> distinct (map fst m)"

interpretation hm: dict hm_get hm_insert hm_remove "\<lambda>m. m" hm_ok
proof
  fix k v and m :: "('k, 'v) hashmap"
  show "hm_get (hm_insert k v m) = (hm_get m)(k \<mapsto> v)"
    by (rule update_conv')
  show "hm_get (hm_remove k m) = (hm_get m)(k := None)"
    by (rule delete_conv')
  show "hm_ok m \<Longrightarrow> hm_ok (hm_insert k v m)"
    by (simp add: hm_ok_def distinct_update)
  show "hm_ok m \<Longrightarrow> hm_ok (hm_remove k m)"
    by (simp add: hm_ok_def distinct_delete)
  show "hm_ok m \<Longrightarrow> (k, v) \<in> set m \<longleftrightarrow> hm_get m k = Some v"
    by (auto simp: hm_ok_def map_of_is_SomeI dest: map_of_SomeD)
qed

text \<open>\<open>into_iter().collect()\<close> into a map: of several pairs with one key the last counts.\<close>

text \<open>\<open>retain\<close>.\<close>

lemma hm_get_filter:
  "hm_ok m \<Longrightarrow> hm_get (filter P m) k = (case hm_get m k of Some v \<Rightarrow> if P (k, v) then Some v else None | None \<Rightarrow> None)"
proof (induction m)
  case (Cons p m)
  obtain j v where p: "p = (j, v)" by force
  from Cons.prems have m: "hm_ok m" and j: "hm_get m j = None"
    by (auto simp: hm_ok_def p map_of_eq_None_iff)
  show ?case using Cons.IH [OF m] j by (auto simp: p)
qed simp

lemma hm_ok_filter [simp]: "hm_ok m \<Longrightarrow> hm_ok (filter P m)"
  by (simp add: hm_ok_def distinct_map_filter)

definition hm_collect :: "('k \<times> 'v) list \<Rightarrow> ('k, 'v) hashmap" where
  "hm_collect ps = fold (\<lambda>(k, v). hm_insert k v) ps []"

lemma hm_collect_get [dict_simps]: "hm_get (hm_collect ps) k = map_of (rev ps) k"
  unfolding hm_collect_def hm.fold_put_get by (simp split: option.splits)

lemma hm_collect_ok [wf_intros]: "hm_ok (hm_collect ps)"
  unfolding hm_collect_def by (rule hm.fold_put_ok) (simp add: hm_ok_def)

lemma map_of_rev_None [simp]: "map_of (rev ps) k = None \<longleftrightarrow> k \<notin> fst ` set ps"
  by (simp add: map_of_eq_None_iff)

subsection \<open>BTreeMap\<close>

fun bt_insert :: "'k::linorder \<Rightarrow> 'v \<Rightarrow> ('k, 'v) btree \<Rightarrow> ('k, 'v) btree" where
  "bt_insert k v [] = [(k, v)]"
| "bt_insert k v ((k', v') # m) =
     (if k < k' then (k, v) # (k', v') # m
      else if k = k' then (k, v) # m
      else (k', v') # bt_insert k v m)"

fun bt_remove :: "'k::linorder \<Rightarrow> ('k, 'v) btree \<Rightarrow> ('k, 'v) btree" where
  "bt_remove k [] = []"
| "bt_remove k ((k', v') # m) = (if k = k' then m else (k', v') # bt_remove k m)"

abbreviation bt_get :: "('k::linorder, 'v) btree \<Rightarrow> 'k \<Rightarrow> 'v option" where
  "bt_get \<equiv> map_of"

definition bt_ok :: "('k::linorder, 'v) btree \<Rightarrow> bool" where
  "bt_ok m \<longleftrightarrow> sorted_wrt (<) (map fst m)"

lemma bt_ok_Nil [simp]: "bt_ok []"
  by (simp add: bt_ok_def)

lemma bt_ok_distinct: "bt_ok m \<Longrightarrow> distinct (map fst m)"
  by (simp add: bt_ok_def strict_sorted_iff)

lemma bt_get_insert: "bt_get (bt_insert k v m) = (bt_get m)(k \<mapsto> v)"
  by (induction k v m rule: bt_insert.induct) (auto simp: fun_eq_iff)

lemma fst_set_bt_insert: "fst ` set (bt_insert k v m) = insert k (fst ` set m)"
  by (induction k v m rule: bt_insert.induct) auto

lemma bt_ok_insert: "bt_ok m \<Longrightarrow> bt_ok (bt_insert k v m)"
  unfolding bt_ok_def
proof (induction k v m rule: bt_insert.induct)
  case (2 k v k' v' m)
  then show ?case
    using fst_set_bt_insert [of k v m] by (auto simp: image_iff) (force+)?
qed simp

lemma set_bt_remove_subset: "set (bt_remove k m) \<subseteq> set m"
  by (induction k m rule: bt_remove.induct) auto

lemma bt_ok_remove: "bt_ok m \<Longrightarrow> bt_ok (bt_remove k m)"
  unfolding bt_ok_def
proof (induction k m rule: bt_remove.induct)
  case (2 k k' v' m)
  then show ?case
    using set_bt_remove_subset [of k m] by auto
qed simp

lemma bt_get_remove: "bt_ok m \<Longrightarrow> bt_get (bt_remove k m) = (bt_get m)(k := None)"
  unfolding bt_ok_def
proof (induction k m rule: bt_remove.induct)
  case (2 k k' v' m)
  then show ?case
    by (auto simp: fun_eq_iff map_of_eq_None_iff)
qed (simp add: fun_eq_iff)

interpretation bt: dict bt_get bt_insert bt_remove "\<lambda>m. m" bt_ok
proof
  fix k :: "'k::linorder" and v and m :: "('k, 'v) btree"
  show "bt_get (bt_insert k v m) = (bt_get m)(k \<mapsto> v)"
    by (rule bt_get_insert)
  show "bt_ok m \<Longrightarrow> bt_get (bt_remove k m) = (bt_get m)(k := None)"
    by (rule bt_get_remove)
  show "bt_ok m \<Longrightarrow> bt_ok (bt_insert k v m)"
    by (rule bt_ok_insert)
  show "bt_ok m \<Longrightarrow> bt_ok (bt_remove k m)"
    by (rule bt_ok_remove)
  show "bt_ok m \<Longrightarrow> (k, v) \<in> set m \<longleftrightarrow> bt_get m k = Some v"
    using bt_ok_distinct [of m] by (auto simp: map_of_is_SomeI dest: map_of_SomeD)
qed

lemmas bt_laws [dict_simps] = bt.get_put bt.get_del
lemmas bt_wf [wf_intros] = bt.ok_put bt.ok_del

lemma map_of_Some_snd: "map_of m k = Some v \<Longrightarrow> v \<in> snd ` set m"
  by (drule map_of_SomeD) force

lemma map_of_Some_the: "map_of m k = Some (Some v) \<Longrightarrow> v \<in> the ` snd ` set m"
  by (drule map_of_SomeD) force

lemma distinct_map_inj: "inj h \<Longrightarrow> distinct (map h xs) \<longleftrightarrow> distinct xs"
  by (auto simp: distinct_map intro: inj_on_subset)

section \<open>Iterators\<close>

text \<open>\<open>Iterator::max\<close> and \<open>Iterator::min\<close>: none for no element.\<close>

definition iter_max :: "'a::linorder list \<Rightarrow> 'a option" where
  "iter_max xs = (if xs = [] then None else Some (Max (set xs)))"

definition iter_min :: "'a::linorder list \<Rightarrow> 'a option" where
  "iter_min xs = (if xs = [] then None else Some (Min (set xs)))"

lemma iter_max_None [simp]: "iter_max xs = None \<longleftrightarrow> xs = []"
  by (simp add: iter_max_def)

lemma iter_max_Some_iff:
  "iter_max xs = Some m \<longleftrightarrow> m \<in> set xs \<and> (\<forall>x \<in> set xs. x \<le> m)"
  by (auto simp: iter_max_def Max_eq_iff split: if_splits)

lemma iter_max_ge: "x \<in> set xs \<Longrightarrow> \<exists>m. iter_max xs = Some m \<and> x \<le> m"
  by (auto simp: iter_max_def)

lemma iter_min_None [simp]: "iter_min xs = None \<longleftrightarrow> xs = []"
  by (simp add: iter_min_def)

lemma iter_min_Some_iff:
  "iter_min xs = Some m \<longleftrightarrow> m \<in> set xs \<and> (\<forall>x \<in> set xs. m \<le> x)"
  by (auto simp: iter_min_def Min_eq_iff split: if_splits)

lemma iter_max_cong: "set xs = set ys \<Longrightarrow> iter_max xs = iter_max ys"
  by (auto simp: iter_max_def)

text \<open>\<open>Iterator::filter_map\<close>.\<close>

abbreviation filter_map :: "('a \<Rightarrow> 'b option) \<Rightarrow> 'a list \<Rightarrow> 'b list" where
  "filter_map \<equiv> List.map_filter"

lemma set_filter_map: "set (filter_map f xs) = {y. \<exists>x \<in> set xs. f x = Some y}"
  by (force simp: map_filter_def)

section \<open>Results\<close>

text \<open>The question mark operator: an error returns early.\<close>

lemma bind_Inr_iff:
  "(case x of Inl e \<Rightarrow> Inl e | Inr u \<Rightarrow> f u) = Inr z \<longleftrightarrow> (\<exists>u. x = Inr u \<and> f u = Inr z)"
  by (cases x) auto

lemma bind_unit_Inr_iff:
  "(case x of Inl e \<Rightarrow> Inl e | Inr (u :: unit) \<Rightarrow> y) = Inr z \<longleftrightarrow> x = Inr () \<and> y = Inr z"
  by (cases x) auto

lemma guard_Inr_iff: "(if b then Inl e else x) = Inr z \<longleftrightarrow> \<not> b \<and> x = Inr z"
  by simp

section \<open>State machines\<close>

text \<open>A step relation and what each step keeps: what it keeps holds in every state reached.\<close>

locale machine =
  fixes step :: "'s \<Rightarrow> 's \<Rightarrow> bool"
    and good :: "'s \<Rightarrow> bool"
  assumes step_good: "step s s' \<Longrightarrow> good s \<Longrightarrow> good s'"
begin

lemma reachable_good: "step\<^sup>*\<^sup>* s s' \<Longrightarrow> good s \<Longrightarrow> good s'"
  by (induction rule: rtranclp_induct) (auto intro: step_good)

end

end
