(* ===== verification/Catalog.thy ===== *)
theory Catalog
  imports Prelude
begin

text \<open>
  The permission model, \<^verbatim>\<open>crates/model/src/lib.rs\<close>: roles, objects in two trees, grants,
  and \<open>Catalog::authorize\<close>, the only place that decides permissions. The second half
  shows that the loop-based code computes the declarative reading of its documentation:
  the highest role an active grant gives one of the subject's SIDs on the object or on
  something above it.
\<close>

section \<open>Data\<close>

datatype role = List | Connect | Reveal | Edit | Manage

text \<open>\<open>#[derive(PartialOrd, Ord)]\<close>: the order of the variants.\<close>

fun role_index :: "role \<Rightarrow> nat" where
  "role_index List = 0"
| "role_index Connect = 1"
| "role_index Reveal = 2"
| "role_index Edit = 3"
| "role_index Manage = 4"

lemma role_index_inject [simp]: "role_index a = role_index b \<longleftrightarrow> a = b"
  by (cases a; cases b) simp_all

instantiation role :: linorder
begin

definition less_eq_role :: "role \<Rightarrow> role \<Rightarrow> bool" where
  "less_eq_role a b \<longleftrightarrow> role_index a \<le> role_index b"

definition less_role :: "role \<Rightarrow> role \<Rightarrow> bool" where
  "less_role a b \<longleftrightarrow> role_index a < role_index b"

instance
  by standard (auto simp: less_eq_role_def less_role_def)

end

lemma Manage_top [simp]: "r \<le> Manage"
  by (cases r) (simp_all add: less_eq_role_def)

definition role_all :: "role list" where
  "role_all = [List, Connect, Reveal, Edit, Manage]"

fun role_as_str :: "role \<Rightarrow> string" where
  "role_as_str List = ''list''"
| "role_as_str Connect = ''connect''"
| "role_as_str Reveal = ''reveal''"
| "role_as_str Edit = ''edit''"
| "role_as_str Manage = ''manage''"

definition role_parse :: "string \<Rightarrow> role option" where
  "role_parse value = find (\<lambda>r. role_as_str r = value) role_all"

datatype object_id =
    Folder uuid
  | Device uuid
  | Credential uuid
  | Collection uuid
  | Profile uuid

record subject =
  sids :: "string set"
  admin :: bool

text \<open>\<open>until\<close> is Unix time in seconds, none for a permanent grant.\<close>

record grant =
  object :: object_id
  principal :: string
  grant_role :: role
  until :: "int option"

record catalog =
  folder_parent :: "(uuid, uuid option) hashmap"
  collection_parent :: "(uuid, uuid option) hashmap"
  device_folder :: "(uuid, uuid) hashmap"
  credential_collection :: "(uuid, uuid) hashmap"
  profile_folder :: "(uuid, uuid option) hashmap"
  grants :: "(object_id, (string \<times> role) list) hashmap"

record objects =
  folders :: "(uuid \<times> uuid option) list"
  collections :: "(uuid \<times> uuid option) list"
  devices :: "(uuid \<times> uuid) list"
  credentials :: "(uuid \<times> uuid) list"
  profiles :: "(uuid \<times> uuid option) list"

record visibility =
  roles :: "(object_id \<times> role) list"
  path_only :: "uuid set"
  collections_path_only :: "uuid set"

section \<open>Building a catalog\<close>

text \<open>The loop of \<open>Catalog::new\<close> over the grants.\<close>

fun grants_by_object ::
  "int \<Rightarrow> grant list \<Rightarrow> (object_id, (string \<times> role) list) hashmap
    \<Rightarrow> (object_id, (string \<times> role) list) hashmap" where
  "grants_by_object now [] m = m"
| "grants_by_object now (g # gs) m =
     (if (case until g of Some u \<Rightarrow> u \<le> now | None \<Rightarrow> False) then grants_by_object now gs m
      else
        (let held = (case hm_get m (object g) of Some v \<Rightarrow> v | None \<Rightarrow> [])
         in grants_by_object now gs
              (hm_insert (object g) (held @ [(principal g, grant_role g)]) m)))"

definition catalog_new :: "objects \<Rightarrow> grant list \<Rightarrow> int \<Rightarrow> catalog" where
  "catalog_new objs gs now =
     \<lparr>folder_parent = hm_collect (folders objs),
      collection_parent = hm_collect (collections objs),
      device_folder = hm_collect (devices objs),
      credential_collection = hm_collect (credentials objs),
      profile_folder = hm_collect (profiles objs),
      grants = grants_by_object now gs []\<rparr>"

section \<open>The trees\<close>

fun contains :: "catalog \<Rightarrow> object_id \<Rightarrow> bool" where
  "contains c (Folder i) = (hm_get (folder_parent c) i \<noteq> None)"
| "contains c (Collection i) = (hm_get (collection_parent c) i \<noteq> None)"
| "contains c (Device i) = (hm_get (device_folder c) i \<noteq> None)"
| "contains c (Credential i) = (hm_get (credential_collection c) i \<noteq> None)"
| "contains c (Profile i) = (hm_get (profile_folder c) i \<noteq> None)"

fun container :: "catalog \<Rightarrow> object_id \<Rightarrow> object_id option" where
  "container c (Folder i) = map_option Folder (Option.bind (hm_get (folder_parent c) i) (\<lambda>p. p))"
| "container c (Collection i) =
     map_option Collection (Option.bind (hm_get (collection_parent c) i) (\<lambda>p. p))"
| "container c (Device i) = map_option Folder (hm_get (device_folder c) i)"
| "container c (Credential i) = map_option Collection (hm_get (credential_collection c) i)"
| "container c (Profile i) = map_option Folder (Option.bind (hm_get (profile_folder c) i) (\<lambda>p. p))"

fun object_uuid :: "object_id \<Rightarrow> uuid" where
  "object_uuid (Folder i) = i"
| "object_uuid (Collection i) = i"
| "object_uuid (Device i) = i"
| "object_uuid (Credential i) = i"
| "object_uuid (Profile i) = i"

definition parent :: "catalog \<Rightarrow> object_id \<Rightarrow> uuid option" where
  "parent c x = map_option object_uuid (container c x)"

text \<open>
  Everything that can contain something: finite, so the walk up, which never visits a
  container twice, ends even in a loop.
\<close>

definition containers :: "catalog \<Rightarrow> object_id set" where
  "containers c = {y. \<exists>x. container c x = Some y}"

lemma containers_subset:
  "containers c \<subseteq> Folder ` (the ` snd ` set (folder_parent c) \<union> snd ` set (device_folder c)
      \<union> the ` snd ` set (profile_folder c))
    \<union> Collection ` (the ` snd ` set (collection_parent c) \<union> snd ` set (credential_collection c))"
proof
  fix y
  assume "y \<in> containers c"
  then obtain x where "container c x = Some y"
    by (auto simp: containers_def)
  then show "y \<in> Folder ` (the ` snd ` set (folder_parent c) \<union> snd ` set (device_folder c)
      \<union> the ` snd ` set (profile_folder c))
    \<union> Collection ` (the ` snd ` set (collection_parent c) \<union> snd ` set (credential_collection c))"
    by (cases x) (auto simp: bind_eq_Some_conv dest: map_of_Some_snd map_of_Some_the)
qed

lemma finite_containers [simp]: "finite (containers c)"
  by (rule finite_subset [OF containers_subset]) simp

function path_loop :: "catalog \<Rightarrow> object_id set \<Rightarrow> object_id option \<Rightarrow> object_id list" where
  "path_loop c seen None = []"
| "path_loop c seen (Some x) =
     (if x \<in> seen then [] else x # path_loop c (insert x seen) (container c x))"
  by pat_completeness auto
termination
proof (relation "measure (\<lambda>(c, seen, next). card ((set_option next \<union> containers c) - seen))",
    goal_cases)
  case (2 c seen x)
  have "set_option (container c x) \<union> containers c = containers c"
    by (auto simp: containers_def)
  moreover have "card (containers c - insert x seen) < card (insert x (containers c) - seen)"
    using 2 by (intro psubset_card_mono) auto
  ultimately show ?case by simp
qed simp

definition path :: "catalog \<Rightarrow> object_id \<Rightarrow> object_id list" where
  "path c x = x # path_loop c {} (container c x)"

definition is_within :: "catalog \<Rightarrow> uuid \<Rightarrow> uuid \<Rightarrow> bool" where
  "is_within c folder ancestor \<longleftrightarrow> Folder ancestor \<in> set (path c (Folder folder))"

definition is_within_collection :: "catalog \<Rightarrow> uuid \<Rightarrow> uuid \<Rightarrow> bool" where
  "is_within_collection c collection ancestor \<longleftrightarrow>
     Collection ancestor \<in> set (path c (Collection collection))"

section \<open>Decisions\<close>

definition held_roles :: "catalog \<Rightarrow> subject \<Rightarrow> object_id \<Rightarrow> role list" where
  "held_roles c s x =
     map snd (filter (\<lambda>(p, _). p \<in> sids s)
       (concat (filter_map (hm_get (grants c)) (path c x))))"

definition effective_role :: "catalog \<Rightarrow> subject \<Rightarrow> object_id \<Rightarrow> role option" where
  "effective_role c s x =
     (if \<not> contains c x then None
      else if admin s then Some Manage
      else iter_max (held_roles c s x))"

definition grants_along :: "catalog \<Rightarrow> object_id \<Rightarrow> (object_id \<times> string \<times> role) list" where
  "grants_along c x =
     concat (map (\<lambda>on. map (\<lambda>(p, r). (on, p, r))
       (case hm_get (grants c) on of None \<Rightarrow> [] | Some gs \<Rightarrow> gs)) (path c x))"

definition reasons :: "catalog \<Rightarrow> subject \<Rightarrow> object_id \<Rightarrow> (object_id \<times> string \<times> role) list" where
  "reasons c s x = filter (\<lambda>(_, p, _). p \<in> sids s) (grants_along c x)"

definition authorize :: "catalog \<Rightarrow> subject \<Rightarrow> role \<Rightarrow> object_id \<Rightarrow> bool" where
  "authorize c s needed x =
     (case effective_role c s x of Some role \<Rightarrow> role \<ge> needed | None \<Rightarrow> False)"

definition may_request :: "catalog \<Rightarrow> subject \<Rightarrow> role \<Rightarrow> object_id \<Rightarrow> bool" where
  "may_request c s role x \<longleftrightarrow>
     (role = Connect \<or> role = Reveal)
     \<and> (case effective_role c s x of Some held \<Rightarrow> held < role | None \<Rightarrow> False)"

definition may_approve :: "catalog \<Rightarrow> subject \<Rightarrow> object_id \<Rightarrow> bool" where
  "may_approve c s x = authorize c s Manage x"

definition may_create_top_level :: "catalog \<Rightarrow> subject \<Rightarrow> bool" where
  "may_create_top_level c s = admin s"

definition all_objects :: "catalog \<Rightarrow> object_id list" where
  "all_objects c =
     map (Folder \<circ> fst) (folder_parent c)
     @ map (Collection \<circ> fst) (collection_parent c)
     @ map (Device \<circ> fst) (device_folder c)
     @ map (Credential \<circ> fst) (credential_collection c)
     @ map (Profile \<circ> fst) (profile_folder c)"

definition visible :: "catalog \<Rightarrow> subject \<Rightarrow> visibility" where
  "visible c s =
     (let rs = filter_map (\<lambda>x. map_option (\<lambda>r. (x, r)) (effective_role c s x)) (all_objects c);
          above = filter (\<lambda>a. hm_get rs a = None)
                    (concat (map (\<lambda>(x, _). drop 1 (path c x)) rs))
      in \<lparr>roles = rs,
          path_only = set (filter_map (\<lambda>a. case a of Folder i \<Rightarrow> Some i | _ \<Rightarrow> None) above),
          collections_path_only =
            set (filter_map (\<lambda>a. case a of Collection i \<Rightarrow> Some i | _ \<Rightarrow> None) above)\<rparr>)"

section \<open>The declarative reading\<close>

text \<open>An object and everything above it in its tree.\<close>

definition above :: "catalog \<Rightarrow> object_id \<Rightarrow> object_id \<Rightarrow> bool" where
  "above c = (\<lambda>x y. container c x = Some y)\<^sup>*\<^sup>*"

text \<open>A grant counts at \<open>now\<close> unless it ran out.\<close>

definition active :: "int \<Rightarrow> grant \<Rightarrow> bool" where
  "active now g \<longleftrightarrow> (case until g of None \<Rightarrow> True | Some u \<Rightarrow> now < u)"

lemma above_refl [simp, intro]: "above c x x"
  by (simp add: above_def)

lemma above_trans [trans]: "above c x y \<Longrightarrow> above c y z \<Longrightarrow> above c x z"
  unfolding above_def by (rule rtranclp_trans)

lemma above_step: "container c x = Some y \<Longrightarrow> above c y z \<Longrightarrow> above c x z"
  unfolding above_def by (rule converse_rtranclp_into_rtranclp)

section \<open>The walk up\<close>

lemma path_loop_sound: "y \<in> set (path_loop c seen n) \<Longrightarrow> \<exists>x. n = Some x \<and> above c x y"
proof (induction c seen n rule: path_loop.induct)
  case (2 c seen x)
  then show ?case by (auto split: if_splits intro: above_step)
qed simp

text \<open>
  Everything the walk visited has its container among the visited or is the one to visit
  next; then what is seen at the end is closed under \<open>container\<close>.
\<close>

lemma path_loop_closed:
  assumes "\<forall>z \<in> seen. set_option (container c z) \<subseteq> seen \<union> set_option n"
  shows "\<forall>z \<in> seen \<union> set (path_loop c seen n).
    set_option (container c z) \<subseteq> seen \<union> set (path_loop c seen n)"
  using assms
proof (induction c seen n rule: path_loop.induct)
  case (2 c seen x)
  show ?case
  proof (cases "x \<in> seen")
    case True
    with "2.prems" show ?thesis by auto
  next
    case False
    let ?rest = "path_loop c (insert x seen) (container c x)"
    have "\<forall>z \<in> insert x seen. set_option (container c z) \<subseteq> insert x seen \<union> set_option (container c x)"
      using "2.prems" by auto
    then have "\<forall>z \<in> insert x seen \<union> set ?rest.
        set_option (container c z) \<subseteq> insert x seen \<union> set ?rest"
      by (rule "2.IH" [OF False])
    with False show ?thesis by auto
  qed
qed simp

lemma path_loop_complete:
  assumes "above c x y"
  shows "y \<in> set (path_loop c {} (Some x))"
proof -
  let ?V = "set (path_loop c {} (Some x))"
  have closed: "\<And>z w. z \<in> ?V \<Longrightarrow> container c z = Some w \<Longrightarrow> w \<in> ?V"
    using path_loop_closed [of "{}" c "Some x"] by fastforce
  from assms show ?thesis
    unfolding above_def
  proof (induction rule: rtranclp_induct)
    case base
    show ?case by simp
  next
    case (step y z)
    from step.IH step.hyps(2) show ?case by (rule closed)
  qed
qed

lemma set_path: "set (path c x) = {y. above c x y}"
proof (intro set_eqI iffI)
  fix y
  assume "y \<in> set (path c x)"
  then consider "y = x" | "y \<in> set (path_loop c {} (container c x))"
    by (auto simp: path_def)
  then have "above c x y"
    by cases (auto intro: above_step dest!: path_loop_sound)
  then show "y \<in> {y. above c x y}" by simp
next
  fix y
  assume "y \<in> {y. above c x y}"
  then consider "y = x" | z where "container c x = Some z" "above c z y"
    unfolding above_def by (auto elim: converse_rtranclpE)
  then show "y \<in> set (path c x)"
    by cases (simp_all add: path_def path_loop_complete del: path_loop.simps)
qed

lemma path_loop_distinct: "distinct (path_loop c seen n) \<and> set (path_loop c seen n) \<inter> seen = {}"
  by (induction c seen n rule: path_loop.induct) auto

lemma set_path_loop_containers:
  "set (path_loop c seen n) \<subseteq> set_option n \<union> containers c"
  by (induction c seen n rule: path_loop.induct) (auto simp: containers_def)

section \<open>Roles from grants\<close>

lemma grants_by_object_get:
  "hm_get (grants_by_object now gs m) x =
     (let new = map (\<lambda>g. (principal g, grant_role g)) (filter (\<lambda>g. active now g \<and> object g = x) gs)
      in if new = [] then hm_get m x
         else Some ((case hm_get m x of None \<Rightarrow> [] | Some old \<Rightarrow> old) @ new))"
  by (induction now gs m rule: grants_by_object.induct)
    (auto simp: active_def Let_def hm.get_put split: option.splits if_splits)

lemma set_grants_at:
  "(\<exists>gs'. hm_get (grants (catalog_new objs gs now)) x = Some gs' \<and> (p, r) \<in> set gs')
    \<longleftrightarrow> (\<exists>g \<in> set gs. active now g \<and> object g = x \<and> principal g = p \<and> grant_role g = r)"
  by (auto simp: catalog_new_def grants_by_object_get Let_def filter_empty_conv)

text \<open>The roles of the active grants that name the subject on the object or above it.\<close>

definition granted :: "objects \<Rightarrow> grant list \<Rightarrow> int \<Rightarrow> subject \<Rightarrow> object_id \<Rightarrow> role set" where
  "granted objs gs now s x =
     grant_role ` {g \<in> set gs. active now g \<and> principal g \<in> sids s
       \<and> above (catalog_new objs gs now) x (object g)}"

lemma set_roles_along:
  "set (held_roles (catalog_new objs gs now) s x) = granted objs gs now s x" (is "?lhs = ?rhs")
proof -
  let ?c = "catalog_new objs gs now"
  have "?lhs = {r. \<exists>p y gs'. p \<in> sids s \<and> above ?c x y \<and> hm_get (grants ?c) y = Some gs' \<and> (p, r) \<in> set gs'}"
    by (force simp: held_roles_def set_filter_map set_path)
  also have "\<dots> = {r. \<exists>p y. p \<in> sids s \<and> above ?c x y
      \<and> (\<exists>gs'. hm_get (grants ?c) y = Some gs' \<and> (p, r) \<in> set gs')}"
    by blast
  also have "\<dots> = ?rhs"
    unfolding set_grants_at granted_def by auto
  finally show ?thesis .
qed

lemma effective_role_new:
  "effective_role (catalog_new objs gs now) s x =
     (if \<not> contains (catalog_new objs gs now) x then None
      else if admin s then Some Manage
      else if granted objs gs now s x = {} then None
      else Some (Max (granted objs gs now s x)))"
  unfolding effective_role_def iter_max_def set_roles_along
  unfolding set_empty [symmetric] set_roles_along by simp

lemma finite_granted [simp]: "finite (granted objs gs now s x)"
  by (simp add: granted_def)

lemma authorize_new:
  "authorize (catalog_new objs gs now) s needed x \<longleftrightarrow>
     contains (catalog_new objs gs now) x \<and>
     (admin s \<or> (\<exists>r \<in> granted objs gs now s x. needed \<le> r))"
  by (auto simp: authorize_def effective_role_new Max_ge_iff)

lemma contains_new_cong:
  "contains (catalog_new objs gs now) x = contains (catalog_new objs gs' now') x"
  by (cases x) (simp_all add: catalog_new_def)

lemma container_new_cong:
  "container (catalog_new objs gs now) x = container (catalog_new objs gs' now') x"
  by (cases x) (simp_all add: catalog_new_def)

lemma above_new_cong: "above (catalog_new objs gs now) = above (catalog_new objs gs' now')"
  unfolding above_def container_new_cong [of objs gs now _ gs' now'] ..

lemma granted_mono:
  assumes "\<And>g. g \<in> set gs \<Longrightarrow> active now g \<Longrightarrow> g \<in> set gs' \<and> active now' g"
    and "sids s \<subseteq> sids s'"
  shows "granted objs gs now s x \<subseteq> granted objs gs' now' s' x"
  unfolding granted_def above_new_cong [of objs gs now gs' now']
  using assms by (intro image_mono) auto

lemma authorize_iff_effective:
  "authorize c s needed x \<longleftrightarrow> (\<exists>r. effective_role c s x = Some r \<and> needed \<le> r)"
  by (auto simp: authorize_def split: option.splits)

lemma effective_role_above_le:
  assumes "above c x y" and "contains c x" and "effective_role c s y = Some r"
  shows "\<exists>r'. effective_role c s x = Some r' \<and> r \<le> r'"
proof (cases "admin s")
  case True
  with assms show ?thesis by (simp add: effective_role_def)
next
  case False
  have "set (path c y) \<subseteq> set (path c x)"
    using assms(1) by (auto simp: set_path intro: above_trans)
  then have sub: "set (held_roles c s y) \<subseteq> set (held_roles c s x)"
    by (fastforce simp: held_roles_def set_filter_map)
  have "iter_max (held_roles c s y) = Some r"
    using assms(3) False by (simp add: effective_role_def split: if_splits)
  then have "r \<in> set (held_roles c s x)"
    using sub by (auto simp: iter_max_Some_iff)
  then show ?thesis
    using False assms(2) by (simp add: effective_role_def iter_max_ge)
qed

lemma effective_role_admin:
  "admin s \<Longrightarrow> effective_role c s x = (if contains c x then Some Manage else None)"
  by (simp add: effective_role_def)

section \<open>Properties\<close>

text \<open>
  A role parses from a text exactly when the text is that role's wire name, so
  printing and parsing a role are inverse to each other and no two roles share a name.
\<close>

theorem role_parse_iff: "role_parse value = Some r \<longleftrightarrow> value = role_as_str r"
  by (cases r) (auto simp: role_parse_def role_all_def split: if_splits)

text \<open>
  C1: Authorization is sound and complete for the documented rule: on a catalog built at
  \<open>now\<close>, a subject holds at least \<open>needed\<close> on an object exactly when the object exists and
  the subject is an administrator or some grant that has not run out names one of its
  SIDs, lies on the object or on a folder or collection above it, and gives at least
  \<open>needed\<close>.
\<close>

theorem authorize_sound_complete:
  "authorize (catalog_new objs gs now) s needed x \<longleftrightarrow>
     contains (catalog_new objs gs now) x \<and>
     (admin s \<or> (\<exists>g \<in> set gs. active now g \<and> principal g \<in> sids s \<and> needed \<le> grant_role g
        \<and> above (catalog_new objs gs now) x (object g)))"
  unfolding authorize_new granted_def by blast

text \<open>
  A permission on a folder or collection holds for everything below it: whoever is
  authorized on something above an existing object is authorized on the object.
\<close>

theorem authorize_inherited:
  assumes "above c x y" and "contains c x" and "authorize c s needed y"
  shows "authorize c s needed x"
  using assms effective_role_above_le [OF assms(1,2)]
  unfolding authorize_iff_effective by (blast intro: order_trans)

definition sample_objects :: objects where
  "sample_objects = \<lparr>folders = [(1, None), (2, Some 1)], collections = [(5, None)],
     devices = [(3, 2)], credentials = [(6, 5)], profiles = [(4, Some 1)]\<rparr>"

definition sample_grants :: "grant list" where
  "sample_grants =
     [\<lparr>object = Folder 1, principal = ''S-1'', grant_role = Connect, until = None\<rparr>,
      \<lparr>object = Device 3, principal = ''S-1'', grant_role = Reveal, until = Some 100\<rparr>]"

definition sample_subject :: subject where
  "sample_subject = \<lparr>sids = {''S-1''}, admin = False\<rparr>"

lemmas sample_defs = sample_objects_def sample_grants_def sample_subject_def catalog_new_def
  hm_collect_def

lemma sample_above: "above (catalog_new sample_objects sample_grants 50) (Device 3) (Folder 1)"
  by (rule above_step [of _ _ "Folder 2"], simp add: sample_defs,
      rule above_step [of _ _ "Folder 1"], simp_all add: sample_defs)

theorem authorize_inherited_witness:
  "authorize (catalog_new sample_objects sample_grants 50) sample_subject Connect (Device 3)"
proof (rule authorize_inherited [OF sample_above])
  show "contains (catalog_new sample_objects sample_grants 50) (Device 3)"
    by (simp add: sample_defs)
  show "authorize (catalog_new sample_objects sample_grants 50) sample_subject Connect (Folder 1)"
    by code_simp
qed

text \<open>
  Grants only ever allow: a permission survives adding grants, adding SIDs to the
  subject, becoming an administrator, and evaluating the catalog earlier, when fewer
  grants had run out.
\<close>

theorem authorize_monotone:
  assumes "authorize (catalog_new objs gs now) s needed x"
    and "set gs \<subseteq> set gs'" and "now' \<le> now"
    and "sids s \<subseteq> sids s'" and "admin s \<longrightarrow> admin s'" and "needed' \<le> needed"
  shows "authorize (catalog_new objs gs' now') s' needed' x"
proof -
  have "granted objs gs now s x \<subseteq> granted objs gs' now' s' x"
    using assms(2-4) by (intro granted_mono) (auto simp: active_def split: option.splits)
  then show ?thesis
    using assms(1,5,6) contains_new_cong [of objs gs now x gs' now']
    unfolding authorize_new by (auto intro: order_trans)
qed

theorem authorize_monotone_witness:
  "authorize (catalog_new sample_objects sample_grants 50) sample_subject List (Device 3)"
  by (rule authorize_monotone [of sample_objects "[hd sample_grants]" 70 sample_subject Connect])
    (code_simp, simp_all add: sample_grants_def, simp add: less_eq_role_def)

text \<open>
  The reports explain the decision: for an existing object and a subject who is no
  administrator, the role that decides is the highest one among the listed reasons, and
  there is none exactly when no reason is listed.
\<close>

theorem reasons_explain_effective_role:
  assumes "contains c x" and "\<not> admin s"
  shows "effective_role c s x = iter_max (map (snd \<circ> snd) (reasons c s x))"
proof -
  have "set (map (snd \<circ> snd) (reasons c s x)) = set (held_roles c s x)"
    by (force simp: reasons_def grants_along_def held_roles_def set_filter_map split: option.splits)
  from iter_max_cong [OF this] assms show ?thesis
    by (simp add: effective_role_def)
qed

theorem reasons_explain_effective_role_witness:
  "effective_role (catalog_new sample_objects sample_grants 50) sample_subject (Device 3)
    = iter_max (map (snd \<circ> snd) (reasons (catalog_new sample_objects sample_grants 50) sample_subject (Device 3)))"
  by (rule reasons_explain_effective_role) (simp_all add: sample_defs)

text \<open>
  Just-in-time requests: a subject may ask for a role only if it is connect or reveal,
  they see the object and do not hold the role yet; in particular nobody may ask for what
  they are authorized to do, for an object hidden from them, or, as an administrator, for
  anything.
\<close>

theorem may_request_iff:
  "may_request c s role x \<longleftrightarrow>
     role \<in> {Connect, Reveal} \<and> authorize c s List x \<and> \<not> authorize c s role x \<and> \<not> admin s"
proof -
  have "List \<le> r" for r by (cases r) (simp_all add: less_eq_role_def)
  then show ?thesis
    using effective_role_admin [of s c x]
    by (auto simp: may_request_def authorize_def not_less not_le less_role_def
      split: option.splits if_splits)
qed

section \<open>What a subject sees\<close>

lemma set_all_objects: "x \<in> set (all_objects c) \<longleftrightarrow> contains c x"
  by (cases x) (auto simp: all_objects_def map_of_eq_None_iff image_iff)

lemma effective_role_contains: "effective_role c s x = Some r \<Longrightarrow> contains c x"
  by (simp add: effective_role_def split: if_splits)

lemma set_visible_roles: "set (roles (visible c s)) = {(x, r). effective_role c s x = Some r}"
  by (auto simp: visible_def Let_def set_filter_map set_all_objects dest: effective_role_contains)

lemma visible_roles_None:
  "hm_get (roles (visible c s)) x = None \<longleftrightarrow> effective_role c s x = None"
  unfolding map_of_eq_None_iff set_visible_roles by (cases "effective_role c s x") (auto simp: image_iff)

lemma path_above: "set (drop 1 (path c x)) = {y. \<exists>z. container c x = Some z \<and> above c z y}"
proof (cases "container c x")
  case None
  then show ?thesis by (simp add: path_def)
next
  case (Some z)
  then have "set (drop 1 (path c x)) = set (path_loop c {} (Some z))"
    by (simp add: path_def)
  also have "\<dots> = {y. above c z y}"
    by (auto intro: path_loop_complete dest!: path_loop_sound simp del: path_loop.simps)
  finally show ?thesis using Some by simp
qed

lemma above_cases: "above c x y \<longleftrightarrow> x = y \<or> (\<exists>z. container c x = Some z \<and> above c z y)"
  unfolding above_def by (auto elim: converse_rtranclpE intro: converse_rtranclp_into_rtranclp)

text \<open>What lies above something visible and is not visible itself.\<close>

lemma set_shown_above:
  "set (filter (\<lambda>a. hm_get (roles (visible c s)) a = None)
     (concat (map (\<lambda>(x, _). drop 1 (path c x)) (roles (visible c s)))))
   = {y. effective_role c s y = None \<and> (\<exists>x r. effective_role c s x = Some r \<and> above c x y)}"
  (is "?lhs = ?rhs")
proof -
  have "?lhs = {y. effective_role c s y = None \<and>
      (\<exists>x r. effective_role c s x = Some r \<and> y \<in> set (drop 1 (path c x)))}"
    by (auto simp: visible_roles_None set_visible_roles)
  also have "\<dots> = ?rhs"
  proof -
    have "y \<in> set (drop 1 (path c x)) \<longleftrightarrow> above c x y"
      if "effective_role c s y = None" and "effective_role c s x = Some r" for x y r
    proof -
      from that have "x \<noteq> y" by auto
      then show ?thesis unfolding path_above above_cases [of c x y] by simp
    qed
    then show ?thesis by blast
  qed
  finally show ?thesis .
qed

lemma set_folders: "set (filter_map (\<lambda>a. case a of Folder i \<Rightarrow> Some i | _ \<Rightarrow> None) xs) = {i. Folder i \<in> set xs}"
  by (induction xs) (auto simp: map_filter_def split: object_id.splits)

lemma set_collections:
  "set (filter_map (\<lambda>a. case a of Collection i \<Rightarrow> Some i | _ \<Rightarrow> None) xs) = {i. Collection i \<in> set xs}"
  by (induction xs) (auto simp: map_filter_def split: object_id.splits)

lemma path_only_visible:
  "path_only (visible c s) = {i. Folder i \<in> set (filter (\<lambda>a. hm_get (roles (visible c s)) a = None)
     (concat (map (\<lambda>(x, _). drop 1 (path c x)) (roles (visible c s)))))}"
  "collections_path_only (visible c s) = {i. Collection i \<in> set (filter (\<lambda>a. hm_get (roles (visible c s)) a = None)
     (concat (map (\<lambda>(x, _). drop 1 (path c x)) (roles (visible c s)))))}"
  by (simp_all only: visible_def Let_def visibility.simps set_folders set_collections)

text \<open>
  C17: What a subject sees is exact: the visible objects carry precisely the roles that
  decide, and the folders and collections shown only as a path are precisely those without
  a role that lie above something with one. So everything visible can be reached from the
  top, and nothing else is shown.
\<close>

theorem visible_exact:
  "set (roles (visible c s)) = {(x, r). effective_role c s x = Some r}
   \<and> path_only (visible c s) =
     {i. effective_role c s (Folder i) = None \<and>
         (\<exists>x r. effective_role c s x = Some r \<and> above c x (Folder i))}
   \<and> collections_path_only (visible c s) =
     {i. effective_role c s (Collection i) = None \<and>
         (\<exists>x r. effective_role c s x = Some r \<and> above c x (Collection i))}"
  unfolding set_visible_roles path_only_visible set_shown_above by auto


end
