(* ===== verification/Strings.thy ===== *)
theory Strings
  imports Prelude
begin

text \<open>
  The functions of Rust's \<open>str\<close> and \<open>char\<close> the sources call, on UTF-8 byte strings:
  decoding and encoding of characters, trimming, splitting, ASCII case, parsing and printing
  of unsigned decimal numbers.
\<close>

section \<open>Characters\<close>

text \<open>\<open>chars()\<close>: the Unicode scalar values of a UTF-8 sequence.\<close>

fun decode :: "nat list \<Rightarrow> nat list" where
  "decode [] = []"
| "decode (b # bs) =
     (if b < 128 then b # decode bs
      else if b < 224 then
        (case bs of c1 # r \<Rightarrow> ((b mod 32) * 64 + c1 mod 64) # decode r | [] \<Rightarrow> [b])
      else if b < 240 then
        (case bs of c1 # c2 # r \<Rightarrow> ((b mod 16) * 4096 + (c1 mod 64) * 64 + c2 mod 64) # decode r
          | _ \<Rightarrow> [b])
      else
        (case bs of c1 # c2 # c3 # r \<Rightarrow>
            ((b mod 8) * 262144 + (c1 mod 64) * 4096 + (c2 mod 64) * 64 + c3 mod 64) # decode r
          | _ \<Rightarrow> [b]))"

definition encode_char :: "nat \<Rightarrow> nat list" where
  "encode_char c =
     (if c < 128 then [c]
      else if c < 2048 then [192 + c div 64, 128 + c mod 64]
      else if c < 65536 then [224 + c div 4096, 128 + c div 64 mod 64, 128 + c mod 64]
      else [240 + c div 262144, 128 + c div 4096 mod 64, 128 + c div 64 mod 64, 128 + c mod 64])"

definition chars :: "string \<Rightarrow> nat list" where
  "chars s = decode (map of_char s)"

definition from_chars :: "nat list \<Rightarrow> string" where
  "from_chars cs = map char_of (concat (map encode_char cs))"

text \<open>The scalar values: up to U+10FFFF, without the surrogates.\<close>

definition scalar :: "nat \<Rightarrow> bool" where
  "scalar c \<longleftrightarrow> c < 55296 \<or> (57344 \<le> c \<and> c < 1114112)"

text \<open>\<open>String::from_utf8\<close>: a well-formed sequence encodes scalar values, each the shortest way.\<close>

definition from_utf8 :: "string \<Rightarrow> string option" where
  "from_utf8 bytes =
     (let cs = chars bytes in if list_all scalar cs \<and> from_chars cs = bytes then Some bytes else None)"

lemma div64_twice: "(c::nat) div 4096 * 64 + c div 64 mod 64 = c div 64"
  using div_mult_mod_eq [of "c div 64" 64] div_mult2_eq [of c 64 64] by simp

lemma div64_thrice: "(c::nat) div 262144 * 64 + c div 4096 mod 64 = c div 4096"
  using div_mult_mod_eq [of "c div 4096" 64] div_mult2_eq [of c 4096 64] by simp

lemma join_2: "(c::nat) div 4096 * 4096 + c div 64 mod 64 * 64 + c mod 64 = c"
  using div64_twice [of c] div_mult_mod_eq [of c 64] by linarith

lemma join_3: "(c::nat) div 262144 * 262144 + c div 4096 mod 64 * 4096 + c div 64 mod 64 * 64 + c mod 64 = c"
  using div64_thrice [of c] join_2 [of c] by linarith

lemma lead_mod: "q < m \<Longrightarrow> m dvd k \<Longrightarrow> (k + q) mod m = (q::nat)"
  by (metis mod_add_left_eq dvd_imp_mod_0 add_0 mod_less)

lemma continuation_mod [simp]: "(128 + k mod 64) mod 64 = (k mod 64 :: nat)"
  by (rule lead_mod) simp_all

lemma decode_encode_char: "scalar c \<Longrightarrow> decode (encode_char c @ r) = c # decode r"
proof -
  assume "scalar c"
  then have c: "c < 1114112" by (auto simp: scalar_def)
  consider "c < 128" | "128 \<le> c" "c < 2048" | "2048 \<le> c" "c < 65536" | "65536 \<le> c"
    by linarith
  then show ?thesis
  proof cases
    case 2
    then have q: "c div 64 < 32" by (simp add: less_mult_imp_div_less)
    then have "(192 + c div 64) mod 32 = c div 64" by (rule lead_mod) simp
    moreover have "192 + c div 64 < 224" using q by simp
    ultimately show ?thesis using 2 by (simp add: encode_char_def)
  next
    case 3
    then have q: "c div 4096 < 16" by (simp add: less_mult_imp_div_less)
    then have "(224 + c div 4096) mod 16 = c div 4096" by (rule lead_mod) simp
    moreover have "224 + c div 4096 < 240" using q by simp
    ultimately show ?thesis using 3 join_2 [of c] by (simp add: encode_char_def)
  next
    case 4
    have q: "c div 262144 < 8" using c by (simp add: less_mult_imp_div_less)
    then have "(240 + c div 262144) mod 8 = c div 262144" by (rule lead_mod) simp
    then show ?thesis using 4 join_3 [of c] by (simp add: encode_char_def)
  qed (simp add: encode_char_def)
qed

lemma encode_char_bytes: "scalar c \<Longrightarrow> b \<in> set (encode_char c) \<Longrightarrow> b < 256"
  by (auto simp: encode_char_def scalar_def split: if_splits)

lemma decode_encode: "list_all scalar cs \<Longrightarrow> decode (concat (map encode_char cs)) = cs"
  by (induction cs) (simp_all add: decode_encode_char)

lemma chars_from_chars: "list_all scalar cs \<Longrightarrow> chars (from_chars cs) = cs"
proof -
  assume cs: "list_all scalar cs"
  have "map (of_char \<circ> (char_of :: nat \<Rightarrow> char)) (concat (map encode_char cs)) = concat (map encode_char cs)"
    using cs by (intro map_idI) (auto simp: list_all_iff intro!: mod_less encode_char_bytes)
  then show ?thesis
    using decode_encode [OF cs] by (simp add: chars_def from_chars_def)
qed

lemma from_utf8_iff: "from_utf8 b = Some s \<longleftrightarrow> s = b \<and> (\<exists>cs. list_all scalar cs \<and> b = from_chars cs)"
  by (auto simp: from_utf8_def Let_def chars_from_chars)

lemma from_chars_append: "from_chars (as @ bs) = from_chars as @ from_chars bs"
  by (simp add: from_chars_def)

text \<open>\<open>char::is_control\<close> (category Cc) and \<open>char::is_whitespace\<close> (White\_Space).\<close>

definition is_control :: "nat \<Rightarrow> bool" where
  "is_control c \<longleftrightarrow> c < 32 \<or> (127 \<le> c \<and> c < 160)"

definition is_whitespace :: "nat \<Rightarrow> bool" where
  "is_whitespace c \<longleftrightarrow> (9 \<le> c \<and> c \<le> 13) \<or> c = 32 \<or> c = 133 \<or> c = 160 \<or> c = 5760
     \<or> (8192 \<le> c \<and> c \<le> 8202) \<or> c = 8232 \<or> c = 8233 \<or> c = 8239 \<or> c = 8287 \<or> c = 12288"

definition trim_chars :: "nat list \<Rightarrow> nat list" where
  "trim_chars cs = rev (dropWhile is_whitespace (rev (dropWhile is_whitespace cs)))"

definition trim :: "string \<Rightarrow> string" where
  "trim s = from_chars (trim_chars (chars s))"

lemma set_trim_chars: "set (trim_chars cs) \<subseteq> set cs"
  unfolding trim_chars_def by (metis set_rev subset_iff set_dropWhileD)

lemma trim_chars_ends:
  "trim_chars cs \<noteq> [] \<Longrightarrow> \<not> is_whitespace (last (trim_chars cs))"
  unfolding trim_chars_def by (metis hd_dropWhile last_rev rev_is_Nil_conv)

section \<open>ASCII\<close>

definition ascii_between :: "char \<Rightarrow> char \<Rightarrow> char \<Rightarrow> bool" where
  "ascii_between lo hi c \<longleftrightarrow> (of_char lo :: nat) \<le> of_char c \<and> of_char c \<le> (of_char hi :: nat)"

definition is_ascii_digit :: "char \<Rightarrow> bool" where
  "is_ascii_digit = ascii_between CHR ''0'' CHR ''9''"

definition is_ascii_alphanumeric :: "char \<Rightarrow> bool" where
  "is_ascii_alphanumeric c \<longleftrightarrow> is_ascii_digit c \<or> ascii_between CHR ''A'' CHR ''Z'' c
     \<or> ascii_between CHR ''a'' CHR ''z'' c"

definition ascii_lower :: "char \<Rightarrow> char" where
  "ascii_lower c = (if ascii_between CHR ''A'' CHR ''Z'' c then char_of (of_char c + 32 :: nat) else c)"

definition ascii_upper :: "char \<Rightarrow> char" where
  "ascii_upper c = (if ascii_between CHR ''a'' CHR ''z'' c then char_of (of_char c - 32 :: nat) else c)"

abbreviation to_ascii_lowercase :: "string \<Rightarrow> string" where
  "to_ascii_lowercase \<equiv> map ascii_lower"

abbreviation to_ascii_uppercase :: "string \<Rightarrow> string" where
  "to_ascii_uppercase \<equiv> map ascii_upper"

definition eq_ignore_ascii_case :: "string \<Rightarrow> string \<Rightarrow> bool" where
  "eq_ignore_ascii_case a b \<longleftrightarrow> to_ascii_lowercase a = to_ascii_lowercase b"

section \<open>Splitting\<close>

text \<open>\<open>split(c)\<close> and \<open>split_once(c)\<close> at an ASCII character, \<open>join\<close>.\<close>

fun split_by :: "(char \<Rightarrow> bool) \<Rightarrow> string \<Rightarrow> string list" where
  "split_by p [] = [[]]"
| "split_by p (c # s) =
     (if p c then [] # split_by p s
      else (case split_by p s of [] \<Rightarrow> [[c]] | w # ws \<Rightarrow> (c # w) # ws))"

abbreviation split_on :: "char \<Rightarrow> string \<Rightarrow> string list" where
  "split_on c \<equiv> split_by (\<lambda>x. x = c)"

fun split_once :: "char \<Rightarrow> string \<Rightarrow> (string \<times> string) option" where
  "split_once c [] = None"
| "split_once c (x # s) =
     (if x = c then Some ([], s) else map_option (\<lambda>(a, b). (x # a, b)) (split_once c s))"

fun join :: "string \<Rightarrow> string list \<Rightarrow> string" where
  "join sep [] = []"
| "join sep [s] = s"
| "join sep (s # ss) = s @ sep @ join sep ss"

lemma split_by_nonempty [simp]: "split_by p s \<noteq> []"
  by (cases s) (auto split: list.splits)

lemma split_once_None: "split_once c s = None \<longleftrightarrow> c \<notin> set s"
  by (induction s) auto

lemma split_once_append: "c \<notin> set a \<Longrightarrow> split_once c (a @ c # b) = Some (a, b)"
  by (induction a) auto

lemma split_by_id: "(\<And>c. c \<in> set s \<Longrightarrow> \<not> p c) \<Longrightarrow> split_by p s = [s]"
  by (induction s) auto

lemma split_by_append: "(\<And>c. c \<in> set a \<Longrightarrow> \<not> p c) \<Longrightarrow> p x \<Longrightarrow> split_by p (a @ x # b) = a # split_by p b"
  by (induction a) auto

section \<open>Numbers\<close>

definition digit :: "nat \<Rightarrow> char" where
  "digit d = char_of (48 + d)"

fun show_nat :: "nat \<Rightarrow> string" where
  "show_nat n = (if n < 10 then [digit n] else show_nat (n div 10) @ [digit (n mod 10)])"

declare show_nat.simps [simp del]

definition digit_value :: "char \<Rightarrow> nat option" where
  "digit_value c = (if is_ascii_digit c then Some (of_char c - 48) else None)"

fun parse_digits :: "nat \<Rightarrow> nat \<Rightarrow> string \<Rightarrow> nat option" where
  "parse_digits mx acc [] = Some acc"
| "parse_digits mx acc (c # s) =
     (case digit_value c of None \<Rightarrow> None
      | Some d \<Rightarrow> if 10 * acc + d > mx then None else parse_digits mx (10 * acc + d) s)"

text \<open>
  \<open>str::parse\<close> of an unsigned type with the largest value \<open>mx\<close>: an optional plus sign and at
  least one digit; too large a number is an error.
\<close>

definition parse_unsigned :: "nat \<Rightarrow> string \<Rightarrow> nat option" where
  "parse_unsigned mx s =
     (let digits = (case s of c # r \<Rightarrow> if c = CHR ''+'' then r else s | [] \<Rightarrow> [])
      in if digits = [] then None else parse_digits mx 0 digits)"

text \<open>\<open>str::parse\<close> of a signed type with \<open>bits\<close> value bits.\<close>

definition parse_signed :: "nat \<Rightarrow> string \<Rightarrow> int option" where
  "parse_signed bits s =
     (case s of
        c # r \<Rightarrow>
          if c = CHR ''-'' then
            (if r = [] then None else map_option (\<lambda>n. - int n) (parse_digits (2 ^ bits) 0 r))
          else map_option int (parse_unsigned (2 ^ bits - 1) s)
      | [] \<Rightarrow> None)"

lemma of_char_digit: "d < 10 \<Longrightarrow> (of_char (digit d) :: nat) = 48 + d"
  by (simp add: digit_def)

lemma digit_value_digit [simp]: "d < 10 \<Longrightarrow> digit_value (digit d) = Some d"
  by (simp add: digit_value_def is_ascii_digit_def ascii_between_def of_char_digit)

lemma parse_digits_append:
  "parse_digits mx acc (s @ t) = Option.bind (parse_digits mx acc s) (\<lambda>a. parse_digits mx a t)"
  by (induction mx acc s rule: parse_digits.induct) (auto split: option.splits)

lemma parse_digits_show: "n \<le> mx \<Longrightarrow> parse_digits mx 0 (show_nat n) = Some n"
proof (induction n rule: show_nat.induct)
  case (1 n)
  show ?case
  proof (cases "n < 10")
    case True
    with "1.prems" show ?thesis by (subst show_nat.simps) simp
  next
    case False
    with "1" have "parse_digits mx 0 (show_nat (n div 10)) = Some (n div 10)" by simp
    with False "1.prems" show ?thesis
      by (subst show_nat.simps) (simp add: parse_digits_append)
  qed
qed

lemma show_nat_digits: "c \<in> set (show_nat n) \<Longrightarrow> is_ascii_digit c"
proof (induction n rule: show_nat.induct)
  case (1 n)
  then show ?case
    by (subst (asm) (2) show_nat.simps)
      (auto simp: is_ascii_digit_def ascii_between_def of_char_digit split: if_splits)
qed

lemma show_nat_nonempty [simp]: "show_nat n \<noteq> []"
  by (subst show_nat.simps) simp

lemma parse_unsigned_show: "n \<le> mx \<Longrightarrow> parse_unsigned mx (show_nat n) = Some n"
proof -
  assume n: "n \<le> mx"
  have "CHR ''+'' \<notin> set (show_nat n)"
    using show_nat_digits [of "CHR ''+''" n] by (auto simp: is_ascii_digit_def ascii_between_def)
  then show ?thesis
    using parse_digits_show [OF n] show_nat_nonempty [of n]
    by (cases "show_nat n") (auto simp: parse_unsigned_def simp del: show_nat_nonempty)
qed

lemma length_show_nat: "n < 10 ^ k \<Longrightarrow> 0 < k \<Longrightarrow> length (show_nat n) \<le> k"
proof (induction k arbitrary: n)
  case (Suc k)
  show ?case
  proof (cases "n < 10")
    case True
    then show ?thesis by (subst show_nat.simps) simp
  next
    case False
    then have "0 < k" using Suc.prems by (cases k) auto
    moreover have "n div 10 < 10 ^ k" using Suc.prems by (simp add: less_mult_imp_div_less mult.commute)
    ultimately have "length (show_nat (n div 10)) \<le> k" by (rule Suc.IH [rotated])
    with False show ?thesis by (subst show_nat.simps) simp
  qed
qed simp

lemma parse_digits_le: "parse_digits mx acc s = Some n \<Longrightarrow> acc \<le> mx \<Longrightarrow> n \<le> mx"
  by (induction mx acc s rule: parse_digits.induct) (auto split: option.splits if_splits)

lemma parse_unsigned_le: "parse_unsigned mx s = Some n \<Longrightarrow> n \<le> mx"
  by (auto simp: parse_unsigned_def Let_def dest: parse_digits_le split: if_splits)

section \<open>ASCII texts\<close>

definition ascii :: "string \<Rightarrow> bool" where
  "ascii s \<longleftrightarrow> list_all (\<lambda>c. (of_char c :: nat) < 128) s"

lemma chars_ascii: "ascii s \<Longrightarrow> chars s = map of_char s"
  unfolding chars_def ascii_def by (induction s) auto

lemma from_chars_ascii: "ascii s \<Longrightarrow> from_chars (map of_char s) = s"
  unfolding from_chars_def ascii_def by (induction s) (auto simp: encode_char_def)

lemma trim_chars_id: "list_all (\<lambda>c. \<not> is_whitespace c) cs \<Longrightarrow> trim_chars cs = cs"
proof -
  have drop: "list_all (\<lambda>c. \<not> is_whitespace c) xs \<Longrightarrow> dropWhile is_whitespace xs = xs" for xs
    by (cases xs) auto
  assume "list_all (\<lambda>c. \<not> is_whitespace c) cs"
  then show ?thesis by (simp add: trim_chars_def drop list_all_rev)
qed

text \<open>A text of visible ASCII characters: trimming does not change it.\<close>

definition visible_ascii :: "string \<Rightarrow> bool" where
  "visible_ascii s \<longleftrightarrow> list_all (\<lambda>c. 32 < (of_char c :: nat) \<and> (of_char c :: nat) < 128) s"

lemma trim_visible_ascii: "visible_ascii s \<Longrightarrow> trim s = s"
proof -
  assume v: "visible_ascii s"
  then have "ascii s" by (auto simp: visible_ascii_def ascii_def list_all_iff)
  moreover have "list_all (\<lambda>c. \<not> is_whitespace c) (map of_char s)"
    using v by (auto simp: visible_ascii_def list_all_iff is_whitespace_def)
  ultimately show ?thesis
    by (simp add: trim_def chars_ascii trim_chars_id from_chars_ascii)
qed

lemma visible_ascii_show_nat [simp]: "visible_ascii (show_nat n)"
  unfolding visible_ascii_def list_all_iff
  by (auto dest!: show_nat_digits simp: is_ascii_digit_def ascii_between_def)

lemma visible_ascii_append [simp]: "visible_ascii (a @ b) \<longleftrightarrow> visible_ascii a \<and> visible_ascii b"
  by (simp add: visible_ascii_def)

lemma visible_ascii_Cons [simp]:
  "visible_ascii (c # s) \<longleftrightarrow> 32 < (of_char c :: nat) \<and> (of_char c :: nat) < 128 \<and> visible_ascii s"
  "visible_ascii []"
  by (simp_all add: visible_ascii_def)

lemma show_nat_inject: "show_nat m = show_nat n \<longleftrightarrow> m = n"
  by (metis max.cobounded1 max.cobounded2 option.inject parse_digits_show)

lemma not_in_show_nat: "\<not> is_ascii_digit c \<Longrightarrow> c \<notin> set (show_nat n)"
  using show_nat_digits by blast

lemma punct_not_in_show_nat [simp]:
  "CHR ''-'' \<notin> set (show_nat n)" "CHR '','' \<notin> set (show_nat n)" "CHR '' '' \<notin> set (show_nat n)"
  "CHR ''/'' \<notin> set (show_nat n)" "CHR '':'' \<notin> set (show_nat n)" "CHR ''.'' \<notin> set (show_nat n)"
  by (simp_all add: not_in_show_nat is_ascii_digit_def ascii_between_def)

text \<open>\<open>ends_with\<close>, \<open>starts_with\<close>, \<open>trim_end_matches(c)\<close> and \<open>rsplit_once(c)\<close>.\<close>

definition ends_with :: "string \<Rightarrow> string \<Rightarrow> bool" where
  "ends_with s t \<longleftrightarrow> length t \<le> length s \<and> drop (length s - length t) s = t"

definition starts_with :: "string \<Rightarrow> string \<Rightarrow> bool" where
  "starts_with s t \<longleftrightarrow> take (length t) s = t"

definition trim_end_matches :: "char \<Rightarrow> string \<Rightarrow> string" where
  "trim_end_matches c s = rev (dropWhile (\<lambda>x. x = c) (rev s))"

definition rsplit_once :: "char \<Rightarrow> string \<Rightarrow> (string \<times> string) option" where
  "rsplit_once c s = map_option (\<lambda>(a, b). (rev b, rev a)) (split_once c (rev s))"

lemma rsplit_once_append: "c \<notin> set b \<Longrightarrow> rsplit_once c (a @ c # b) = Some (a, b)"
  using split_once_append [of c "rev b" "rev a"] by (simp add: rsplit_once_def)

lemma ends_with_after_slash:
  assumes "c \<notin> set ds" and "c \<notin> set t"
  shows "ends_with (a @ c # ds) (c # t) \<longleftrightarrow> ds = t"
proof
  assume "ends_with (a @ c # ds) (c # t)"
  then have "\<exists>p. a @ c # ds = p @ c # t"
    unfolding ends_with_def by (metis append_take_drop_id)
  then obtain p where "a @ c # ds = p @ c # t" by blast
  then have "split_once c (rev (a @ c # ds)) = split_once c (rev (p @ c # t))" by simp
  then show "ds = t"
    using assms split_once_append [of c "rev ds" "rev a"] split_once_append [of c "rev t" "rev p"] by simp
next
  assume "ds = t"
  then show "ends_with (a @ c # ds) (c # t)" by (simp add: ends_with_def)
qed

section \<open>Hexadecimal digits and identifiers\<close>

definition hex_digit :: "nat \<Rightarrow> char" where
  "hex_digit d = (if d < 10 then char_of (48 + d) else char_of (87 + d))"

text \<open>\<open>Uuid\<close>'s display: 32 hexadecimal digits in groups of 8, 4, 4, 4 and 12.\<close>

definition uuid_show :: "uuid \<Rightarrow> string" where
  "uuid_show u =
     (let h = map (\<lambda>i. hex_digit (u div 16 ^ i mod 16)) (rev [0..<32])
      in take 8 h @ ''-'' @ take 4 (drop 8 h) @ ''-'' @ take 4 (drop 12 h) @ ''-''
           @ take 4 (drop 16 h) @ ''-'' @ drop 20 h)"

lemma hex_digit_inject: "a < 16 \<Longrightarrow> b < 16 \<Longrightarrow> hex_digit a = hex_digit b \<longleftrightarrow> a = b"
  by (auto simp: hex_digit_def dest: arg_cong [where f = "of_char :: char \<Rightarrow> nat"] split: if_splits)

lemma hex_digit_visible: "d < 16 \<Longrightarrow> hex_digit d \<noteq> CHR ''|'' \<and> visible_ascii [hex_digit d]"
  by (auto simp: hex_digit_def dest: arg_cong [where f = "of_char :: char \<Rightarrow> nat"])

lemma hex_digits_inject:
  "\<forall>i < n. u div 16 ^ i mod 16 = v div 16 ^ i mod (16 :: nat) \<Longrightarrow> u < 16 ^ n \<Longrightarrow> v < 16 ^ n \<Longrightarrow> u = v"
proof (induction n arbitrary: u v)
  case (Suc n)
  have "u div 16 div 16 ^ i mod 16 = v div 16 div 16 ^ i mod 16" if "i < n" for i
    using Suc.prems(1) [rule_format, of "Suc i"] that by (simp add: div_mult2_eq)
  moreover have "u div 16 < 16 ^ n" "v div 16 < 16 ^ n"
    using Suc.prems(2,3) by (simp_all add: less_mult_imp_div_less mult.commute)
  ultimately have "u div 16 = v div 16" using Suc.IH by blast
  moreover have "u mod 16 = v mod 16" using Suc.prems(1) [rule_format, of 0] by simp
  ultimately show ?case by (metis div_mult_mod_eq)
qed simp

lemma hex_list_inject:
  "map (\<lambda>i. hex_digit (u div 16 ^ i mod 16)) is = map (\<lambda>i. hex_digit (v div 16 ^ i mod 16)) is
    \<longleftrightarrow> (\<forall>i \<in> set is. u div 16 ^ i mod 16 = v div 16 ^ i mod (16 :: nat))"
  by (simp add: hex_digit_inject)

lemma length_uuid_show [simp]: "length (uuid_show u) = 36"
  by (simp add: uuid_show_def Let_def)

lemma ungroup:
  fixes h :: string
  assumes "CHR ''-'' \<notin> set h"
  shows "filter (\<lambda>c. c \<noteq> CHR ''-'') (take 8 h @ ''-'' @ take 4 (drop 8 h) @ ''-'' @ take 4 (drop 12 h) @ ''-''
    @ take 4 (drop 16 h) @ ''-'' @ drop 20 h) = h"
proof -
  have all: "filter (\<lambda>c. c \<noteq> CHR ''-'') ys = ys" if "set ys \<subseteq> set h" for ys
    using that assms by (intro filter_True) auto
  have parts: "drop a h = take b (drop a h) @ drop (b + a) h" for a b
    by (metis append_take_drop_id drop_drop)
  have "h = take 8 h @ take 4 (drop 8 h) @ take 4 (drop 12 h) @ take 4 (drop 16 h) @ drop 20 h"
    using parts [of 0 8] parts [of 8 4] parts [of 12 4] parts [of 16 4] by simp
  then show ?thesis
    by (simp add: all set_take_subset set_drop_subset subset_trans [OF set_take_subset set_drop_subset])
qed

lemma uuid_show_digits:
  "filter (\<lambda>c. c \<noteq> CHR ''-'') (uuid_show u) = map (\<lambda>i. hex_digit (u div 16 ^ i mod 16)) (rev [0..<32])"
proof -
  have "hex_digit d \<noteq> CHR ''-''" if "d < 16" for d
    using that by (auto simp: hex_digit_def dest: arg_cong [where f = "of_char :: char \<Rightarrow> nat"])
  then have "CHR ''-'' \<notin> set (map (\<lambda>i. hex_digit (u div 16 ^ i mod 16)) (rev [0..<32]))"
    by (metis (no_types, lifting) imageE list.set_map mod_less_divisor zero_less_numeral)
  then show ?thesis unfolding uuid_show_def Let_def by (rule ungroup)
qed

lemma uuid_show_inject: "u < 16 ^ 32 \<Longrightarrow> v < 16 ^ 32 \<Longrightarrow> uuid_show u = uuid_show v \<longleftrightarrow> u = v"
proof
  assume b: "u < 16 ^ 32" "v < 16 ^ 32" and "uuid_show u = uuid_show v"
  then have "map (\<lambda>i. hex_digit (u div 16 ^ i mod 16)) (rev [0..<32]) = map (\<lambda>i. hex_digit (v div 16 ^ i mod 16)) (rev [0..<32])"
    by (metis uuid_show_digits)
  then have "\<forall>i < 32. u div 16 ^ i mod 16 = v div 16 ^ i mod 16"
    unfolding hex_list_inject by simp
  with b show "u = v" by (rule hex_digits_inject [rotated])
qed simp

lemma uuid_show_plain: "c \<in> set (uuid_show u) \<Longrightarrow> c = CHR ''-'' \<or> c \<in> hex_digit ` {..<16}"
  unfolding uuid_show_def Let_def by (auto dest!: in_set_takeD in_set_dropD)

section \<open>Bytes, lines and signed numbers\<close>

text \<open>\<open>as_bytes\<close> and \<open>into_bytes\<close>, as machine bytes.\<close>

definition as_bytes :: "string \<Rightarrow> u8 list" where
  "as_bytes s = map (\<lambda>c. of_nat (of_char c)) s"

lemma as_bytes_inject [simp]: "as_bytes s = as_bytes t \<longleftrightarrow> s = t"
proof -
  have "(of_nat (of_char a) :: u8) = of_nat (of_char b) \<Longrightarrow> a = b" for a b
  proof -
    assume "(of_nat (of_char a) :: u8) = of_nat (of_char b)"
    then show ?thesis
      by (simp add: word_of_nat_eq_iff take_bit_nat_eq_self nat_of_char_less_256)
  qed
  then show ?thesis
    unfolding as_bytes_def by (intro inj_map_eq_map injI) blast
qed

text \<open>\<open>str::lines\<close>: each line ends with a line feed, and a carriage return before it goes as well.\<close>

definition strip_cr :: "string \<Rightarrow> string" where
  "strip_cr s = (if s \<noteq> [] \<and> last s = CHR 0x0D then butlast s else s)"

definition lines :: "string \<Rightarrow> string list" where
  "lines s =
     (let ls = split_on (CHR 0x0A) s
      in map strip_cr (butlast ls) @ (if last ls = [] then [] else [last ls]))"

lemma lines_Nil [simp]: "lines [] = []"
  by (simp add: lines_def)

lemma lines_append: "CHR 0x0A \<notin> set a \<Longrightarrow> lines (a @ CHR 0x0A # b) = strip_cr a # lines b"
proof -
  assume "CHR 0x0A \<notin> set a"
  then have "split_on (CHR 0x0A) (a @ CHR 0x0A # b) = a # split_on (CHR 0x0A) b"
    by (intro split_by_append) auto
  then show ?thesis by (simp add: lines_def Let_def)
qed

text \<open>The display of a signed number.\<close>

definition show_int :: "int \<Rightarrow> string" where
  "show_int i = (if i < 0 then CHR ''-'' # show_nat (nat (- i)) else show_nat (nat i))"

lemma show_int_chars: "c \<in> set (show_int i) \<Longrightarrow> c = CHR ''-'' \<or> is_ascii_digit c"
  by (auto simp: show_int_def dest: show_nat_digits split: if_splits)

lemma show_int_inject [simp]: "show_int i = show_int j \<longleftrightarrow> i = j"
proof -
  have "CHR ''-'' # s \<noteq> show_nat n" for s n
    using punct_not_in_show_nat(1) [of n] by (metis list.set_intros(1))
  then show ?thesis by (auto simp: show_int_def show_nat_inject) metis?
qed

lemma parse_signed_show: "- (2 ^ bits) \<le> i \<Longrightarrow> i < 2 ^ bits \<Longrightarrow> parse_signed bits (show_int i) = Some i"
proof -
  assume b: "- (2 ^ bits) \<le> i" "i < 2 ^ bits"
  show ?thesis
  proof (cases "i < 0")
    case True
    then have "nat (- i) \<le> 2 ^ bits" using b(1) by (simp add: nat_le_iff)
    with True show ?thesis by (simp add: parse_signed_def show_int_def parse_digits_show)
  next
    case False
    then have n: "nat i \<le> 2 ^ bits - 1" using b(2) by (simp add: nat_le_iff of_nat_diff)
    obtain c r where s: "show_nat (nat i) = c # r" by (metis show_nat_nonempty neq_Nil_conv)
    have "c \<noteq> CHR ''-''" using punct_not_in_show_nat(1) [of "nat i"] s by auto
    with False s parse_unsigned_show [OF n] show ?thesis by (simp add: parse_signed_def show_int_def)
  qed
qed

section \<open>A codec for examples\<close>

text \<open>Two letters a byte.\<close>

fun sample_decode :: "string \<Rightarrow> u8 list option" where
  "sample_decode [] = Some []"
| "sample_decode [_] = None"
| "sample_decode (a # b # r) =
     map_option (\<lambda>s. of_nat ((of_char a - 65) * 16 + (of_char b - 65)) # s) (sample_decode r)"

definition sample_encode :: "u8 list \<Rightarrow> string" where
  "sample_encode s = concat (map (\<lambda>b. [char_of (65 + unat b div 16), char_of (65 + unat b mod 16)]) s)"

lemma byte_nibbles: "unat (b :: u8) div 16 < 16"
  using unsigned_less [where 'a = nat, of b] by (simp add: less_mult_imp_div_less)

lemma sample_decode_encode: "sample_decode (sample_encode s) = Some s"
  by (induction s) (simp_all add: sample_encode_def byte_nibbles less_imp_le
      order.strict_trans1 [OF byte_nibbles [THEN less_imp_le]] mult.commute)

lemma sample_encode_visible: "visible_ascii (sample_encode s)"
proof -
  have v: "visible_ascii [char_of (65 + n)]" if "n < 16" for n :: nat using that by simp
  have "visible_ascii [char_of (65 + unat b div 16), char_of (65 + unat b mod 16)]" for b :: u8
    using v [OF byte_nibbles [of b]] v [of "unat b mod 16"] by (simp add: visible_ascii_def)
  then show ?thesis by (induction s) (auto simp: sample_encode_def visible_ascii_def)
qed

end
