(* ===== verification/Network.thy ===== *)
theory Network
  imports Strings
begin

unbundle bit_operations_syntax

text \<open>
  Address ranges, \<^verbatim>\<open>crates/connector/src/network.rs\<close>, with the part of \<open>std::net::IpAddr\<close>
  it uses: parsing, printing and the canonical form of IPv4-mapped addresses.
\<close>

section \<open>IP addresses\<close>

datatype ip_addr = V4 u32 | V6 "128 word"

text \<open>\<open>IpAddr::to_canonical\<close>: an IPv4-mapped IPv6 address becomes its IPv4 address.\<close>

fun to_canonical :: "ip_addr \<Rightarrow> ip_addr" where
  "to_canonical (V4 a) = V4 a"
| "to_canonical (V6 a) = (if drop_bit 32 a = 0xffff then V4 (ucast a) else V6 a)"

subsection \<open>Parsing\<close>

text \<open>The parser of \<open>core::net::parser\<close>: each reader takes what it reads from the front.\<close>

definition hex_value :: "char \<Rightarrow> nat option" where
  "hex_value c =
     (if is_ascii_digit c then Some (of_char c - 48)
      else if ascii_between CHR ''a'' CHR ''f'' c then Some (of_char c - 87)
      else if ascii_between CHR ''A'' CHR ''F'' c then Some (of_char c - 55)
      else None)"

definition radix_value :: "nat \<Rightarrow> char \<Rightarrow> nat option" where
  "radix_value radix c = (case hex_value c of Some v \<Rightarrow> if v < radix then Some v else None | None \<Rightarrow> None)"

fun value_of :: "nat \<Rightarrow> string \<Rightarrow> nat" where
  "value_of radix s = foldl (\<lambda>acc c. acc * radix + the (hex_value c)) 0 s"

definition read_number :: "nat \<Rightarrow> nat \<Rightarrow> nat \<Rightarrow> bool \<Rightarrow> string \<Rightarrow> (nat \<times> string) option" where
  "read_number radix max_digits largest allow_zero_prefix s =
     (let ds = takeWhile (\<lambda>c. radix_value radix c \<noteq> None) s
      in if ds = [] \<or> length ds > max_digits then None
         else if value_of radix ds > largest then None
         else if \<not> allow_zero_prefix \<and> hd ds = CHR ''0'' \<and> length ds > 1 then None
         else Some (value_of radix ds, drop (length ds) s))"

definition read_char :: "char \<Rightarrow> string \<Rightarrow> string option" where
  "read_char c s = (case s of x # r \<Rightarrow> if x = c then Some r else None | [] \<Rightarrow> None)"

definition read_separator ::
  "char \<Rightarrow> nat \<Rightarrow> (string \<Rightarrow> ('a \<times> string) option) \<Rightarrow> string \<Rightarrow> ('a \<times> string) option" where
  "read_separator sep index inner s =
     (if index > 0 then Option.bind (read_char sep s) inner else inner s)"

fun read_octets :: "nat \<Rightarrow> nat \<Rightarrow> string \<Rightarrow> (nat list \<times> string) option" where
  "read_octets i 0 s = Some ([], s)"
| "read_octets i (Suc n) s =
     (case read_separator CHR ''.'' i (read_number 10 3 255 False) s of
        None \<Rightarrow> None
      | Some (d, r) \<Rightarrow> map_option (\<lambda>(ds, r'). (d # ds, r')) (read_octets (Suc i) n r))"

definition read_ipv4 :: "string \<Rightarrow> (nat list \<times> string) option" where
  "read_ipv4 s = read_octets 0 4 s"

definition be_value :: "nat \<Rightarrow> nat list \<Rightarrow> nat" where
  "be_value base ds = foldl (\<lambda>acc d. acc * base + d) 0 ds"

text \<open>
  \<open>read_groups\<close>: up to \<open>limit\<close> groups of hexadecimal digits, the last two possibly written as
  an IPv4 address. Returns the groups, whether they end in an IPv4 address, and the rest.
\<close>

fun read_groups :: "nat \<Rightarrow> nat \<Rightarrow> string \<Rightarrow> nat list \<times> bool \<times> string" where
  "read_groups i 0 s = ([], False, s)"
| "read_groups i (Suc n) s =
     (case (if n > 0 then read_separator CHR '':'' i read_ipv4 s else None) of
        Some ([a, b, c, d], r) \<Rightarrow> ([a * 256 + b, c * 256 + d], True, r)
      | _ \<Rightarrow>
        (case read_separator CHR '':'' i (read_number 16 4 65535 True) s of
           None \<Rightarrow> ([], False, s)
         | Some (g, r) \<Rightarrow>
             (case read_groups (Suc i) n r of (gs, v4, r') \<Rightarrow> (g # gs, v4, r'))))"

definition read_ipv6 :: "string \<Rightarrow> (nat list \<times> string) option" where
  "read_ipv6 s =
     (case read_groups 0 8 s of (head, v4, r) \<Rightarrow>
        if length head = 8 then Some (head, r)
        else if v4 then None
        else (case Option.bind (read_char CHR '':'' r) (read_char CHR '':'') of
            None \<Rightarrow> None
          | Some r2 \<Rightarrow>
              (case read_groups 0 (8 - (length head + 1)) r2 of (tail, _, r3) \<Rightarrow>
                 Some (head @ replicate (8 - length head - length tail) 0 @ tail, r3))))"

definition parse_ip :: "string \<Rightarrow> ip_addr option" where
  "parse_ip s =
     (case read_ipv4 s of
        Some (ds, r) \<Rightarrow> if r = [] then Some (V4 (of_nat (be_value 256 ds))) else None
      | None \<Rightarrow>
          (case read_ipv6 s of
             Some (gs, r) \<Rightarrow> if r = [] then Some (V6 (of_nat (be_value 65536 gs))) else None
           | None \<Rightarrow> None))"

subsection \<open>Printing\<close>

definition show_v4 :: "u32 \<Rightarrow> string" where
  "show_v4 a = (let n = unat a in
     show_nat (n div 16777216) @ ''.'' @ show_nat (n div 65536 mod 256) @ ''.''
       @ show_nat (n div 256 mod 256) @ ''.'' @ show_nat (n mod 256))"

fun show_hex :: "nat \<Rightarrow> string" where
  "show_hex n = (if n < 16 then [hex_digit n] else show_hex (n div 16) @ [hex_digit (n mod 16)])"

declare show_hex.simps [simp del]

definition segments :: "128 word \<Rightarrow> nat list" where
  "segments a = map (\<lambda>i. unat a div 65536 ^ i mod 65536) [7, 6, 5, 4, 3, 2, 1, 0]"

text \<open>The first longest run of zero segments: its start and length.\<close>

fun longest_zeros :: "nat \<Rightarrow> nat list \<Rightarrow> nat \<times> nat \<Rightarrow> nat \<times> nat \<Rightarrow> nat \<times> nat" where
  "longest_zeros i [] cur best = best"
| "longest_zeros i (x # xs) (cs, cl) (bs, bl) =
     (if x = 0 then
        (let cs' = (if cl = 0 then i else cs); cl' = cl + 1;
             best = (if cl' > bl then (cs', cl') else (bs, bl))
         in longest_zeros (Suc i) xs (cs', cl') best)
      else longest_zeros (Suc i) xs (0, 0) (bs, bl))"

definition show_v6 :: "128 word \<Rightarrow> string" where
  "show_v6 a =
     (if drop_bit 32 a = 0xffff then ''::ffff:'' @ show_v4 (ucast a)
      else
        (let gs = segments a
         in case longest_zeros 0 gs (0, 0) (0, 0) of (start, len) \<Rightarrow>
              if len > 1 then join '':'' (map show_hex (take start gs)) @ ''::''
                @ join '':'' (map show_hex (drop (start + len) gs))
              else join '':'' (map show_hex gs)))"

fun show_ip :: "ip_addr \<Rightarrow> string" where
  "show_ip (V4 a) = show_v4 a"
| "show_ip (V6 a) = show_v6 a"

section \<open>Ranges\<close>

record network =
  address :: ip_addr
  prefix :: nat

text \<open>\<open>u32::MAX.checked_shl(n).unwrap_or(0)\<close>: a shift by the whole width or more gives none.\<close>

definition checked_shl_max :: "nat \<Rightarrow> 'a::len word" where
  "checked_shl_max n = (if n < LENGTH('a) then push_bit n (- 1) else 0)"

fun network_contains :: "network \<Rightarrow> ip_addr \<Rightarrow> bool" where
  "network_contains net ip =
     (case (address net, to_canonical ip) of
        (V4 n, V4 i) \<Rightarrow>
          (let mask = checked_shl_max (32 - prefix net) in n AND mask = i AND mask)
      | (V6 n, V6 i) \<Rightarrow>
          (let mask = checked_shl_max (128 - prefix net) in n AND mask = i AND mask)
      | _ \<Rightarrow> False)"

definition is_ipv4 :: "ip_addr \<Rightarrow> bool" where
  "is_ipv4 a = (case a of V4 _ \<Rightarrow> True | V6 _ \<Rightarrow> False)"

definition network_parse :: "string \<Rightarrow> network option" where
  "network_parse text =
     (let (addr, pre) = (case split_once CHR ''/'' text of
          Some (a, p) \<Rightarrow> (a, Some p)
        | None \<Rightarrow> (text, None))
      in case map_option to_canonical (parse_ip addr) of
           None \<Rightarrow> None
         | Some a \<Rightarrow>
             (let bits = (if is_ipv4 a then 32 else 128)
              in case (case pre of None \<Rightarrow> Some bits | Some p \<Rightarrow> parse_unsigned 255 p) of
                   None \<Rightarrow> None
                 | Some n \<Rightarrow> if n > bits then None else Some \<lparr>address = a, prefix = n\<rparr>))"

definition network_show :: "network \<Rightarrow> string" where
  "network_show net = show_ip (address net) @ ''/'' @ show_nat (prefix net)"

section \<open>What a range covers\<close>

text \<open>The invariant of a parsed range: canonical, and the prefix fits the family.\<close>

definition network_ok :: "network \<Rightarrow> bool" where
  "network_ok net \<longleftrightarrow> to_canonical (address net) = address net
     \<and> prefix net \<le> (if is_ipv4 (address net) then 32 else 128)"

lemma to_canonical_idem [simp]: "to_canonical (to_canonical a) = to_canonical a"
  by (cases a) auto

lemma mask_eq_iff:
  fixes a b :: "'a::len word"
  assumes "p \<le> LENGTH('a)"
  shows "a AND checked_shl_max (LENGTH('a) - p) = b AND checked_shl_max (LENGTH('a) - p)
    \<longleftrightarrow> drop_bit (LENGTH('a) - p) a = drop_bit (LENGTH('a) - p) b"
proof (cases "p = 0")
  case True
  then show ?thesis
    by (simp add: checked_shl_max_def)
next
  case False
  let ?n = "LENGTH('a) - p"
  have m: "checked_shl_max ?n = (push_bit ?n (- 1) :: 'a word)"
    using False assms by (simp add: checked_shl_max_def)
  show ?thesis
  proof
    assume eq: "a AND checked_shl_max ?n = b AND checked_shl_max ?n"
    show "drop_bit ?n a = drop_bit ?n b"
    proof (rule bit_word_eqI)
      fix i
      assume "i < LENGTH('a)"
      have "bit (a AND checked_shl_max ?n) (?n + i) = bit (b AND checked_shl_max ?n) (?n + i)"
        by (simp only: eq)
      then show "bit (drop_bit ?n a) i = bit (drop_bit ?n b) i"
        unfolding m by (auto simp: bit_simps dest: bit_imp_le_length)
    qed
  next
    assume eq: "drop_bit ?n a = drop_bit ?n b"
    show "a AND checked_shl_max ?n = b AND checked_shl_max ?n"
    proof (rule bit_word_eqI)
      fix i
      assume "i < LENGTH('a)"
      have "bit (drop_bit ?n a) (i - ?n) = bit (drop_bit ?n b) (i - ?n)"
        by (simp only: eq)
      then show "bit (a AND checked_shl_max ?n) i = bit (b AND checked_shl_max ?n) i"
        unfolding m by (auto simp: bit_simps)
    qed
  qed
qed

text \<open>
  A range covers an address exactly when both are of the same family, IPv4-mapped
  addresses counting as IPv4, and agree on the first \<open>prefix\<close> bits; the masks never shift
  out of range, also for a prefix of 0 or of the whole width.
\<close>

theorem network_contains_iff:
  assumes "network_ok net"
  shows "network_contains net ip \<longleftrightarrow>
    (case (address net, to_canonical ip) of
       (V4 n, V4 i) \<Rightarrow> drop_bit (32 - prefix net) n = drop_bit (32 - prefix net) i
     | (V6 n, V6 i) \<Rightarrow> drop_bit (128 - prefix net) n = drop_bit (128 - prefix net) i
     | _ \<Rightarrow> False)"
  using assms mask_eq_iff [where ?'a = 32, of "prefix net"] mask_eq_iff [where ?'a = 128, of "prefix net"]
  by (auto simp: network_ok_def is_ipv4_def Let_def split: ip_addr.splits)

theorem network_contains_iff_witness:
  "network_contains \<lparr>address = V4 0x0A010000, prefix = 16\<rparr> (V6 0xffff0A01FFFF) \<longleftrightarrow>
    (case (V4 0x0A010000, to_canonical (V6 0xffff0A01FFFF)) of
       (V4 n, V4 i) \<Rightarrow> drop_bit (32 - 16) n = drop_bit (32 - 16) i
     | (V6 n, V6 i) \<Rightarrow> drop_bit (128 - 16) n = drop_bit (128 - 16) i
     | _ \<Rightarrow> False)"
  using network_contains_iff [of "\<lparr>address = V4 0x0A010000, prefix = 16\<rparr>" "V6 0xffff0A01FFFF"]
  by (simp add: network_ok_def is_ipv4_def)

lemma network_parse_ok [wf_intros]: "network_parse text = Some net \<Longrightarrow> network_ok net"
  by (auto simp: network_parse_def network_ok_def Let_def split: option.splits prod.splits if_splits)

section \<open>Printing and parsing\<close>

lemma radix_value_digit: "d < 10 \<Longrightarrow> radix_value 10 (digit d) = Some d"
  by (simp add: radix_value_def hex_value_def is_ascii_digit_def ascii_between_def of_char_digit)

lemma hex_value_digit: "d < 10 \<Longrightarrow> hex_value (digit d) = Some d"
  by (simp add: hex_value_def is_ascii_digit_def ascii_between_def of_char_digit)

lemma digit_zero_iff: "d < 10 \<Longrightarrow> digit d = CHR ''0'' \<longleftrightarrow> d = 0"
proof -
  assume "d < 10"
  have "digit d = CHR ''0'' \<longleftrightarrow> (of_char (digit d) :: nat) = of_char CHR ''0''"
    by (simp only: of_char_eq_iff)
  then show ?thesis using \<open>d < 10\<close> by (simp add: of_char_digit)
qed

lemma show_octet:
  assumes "d < 256"
  obtains (one) "d < 10" "show_nat d = [digit d]"
  | (two) "10 \<le> d" "d < 100" "show_nat d = [digit (d div 10), digit (d mod 10)]"
  | (three) "100 \<le> d" "show_nat d = [digit (d div 100), digit (d div 10 mod 10), digit (d mod 10)]"
proof -
  have step: "10 \<le> n \<Longrightarrow> show_nat n = show_nat (n div 10) @ [digit (n mod 10)]"
    and last: "n < 10 \<Longrightarrow> show_nat n = [digit n]" for n
    by (subst show_nat.simps, simp)+
  consider "d < 10" | "10 \<le> d" "d < 100" | "100 \<le> d" by linarith
  then show ?thesis
  proof cases
    case 1
    then show ?thesis by (intro one last) simp
  next
    case 2
    then show ?thesis using step [of d] last [of "d div 10"] by (intro two) auto
  next
    case 3
    then have "d div 10 div 10 = d div 100" by (simp add: div_mult2_eq [symmetric])
    with 3 assms show ?thesis
      using step [of d] step [of "d div 10"] last [of "d div 100"] by (intro three) auto
  qed
qed

text \<open>What may follow a number: the end, or a character that is no digit.\<close>

definition no_digit :: "string \<Rightarrow> bool" where
  "no_digit s \<longleftrightarrow> (case s of [] \<Rightarrow> True | c # _ \<Rightarrow> radix_value 10 c = None)"

lemma takeWhile_no_digit:
  "no_digit s \<Longrightarrow> takeWhile (\<lambda>c. \<exists>y. radix_value 10 c = Some y) s = []"
  by (auto simp: no_digit_def split: list.splits)

lemma read_number_show:
  assumes "d < 256" and "no_digit s"
  shows "read_number 10 3 255 False (show_nat d @ s) = Some (d, s)"
  using assms(1)
proof (cases rule: show_octet)
  case one
  then show ?thesis
    using takeWhile_no_digit [OF assms(2)]
    by (simp add: read_number_def radix_value_digit hex_value_digit)
next
  case two
  then show ?thesis
    using takeWhile_no_digit [OF assms(2)] assms(1)
    by (simp add: read_number_def radix_value_digit hex_value_digit digit_zero_iff Let_def)
next
  case three
  have "d div 100 < 10" using assms(1) by simp
  moreover have "(d div 100 * 10 + d div 10 mod 10) * 10 + d mod 10 = d"
    using div_mult_mod_eq [of "d div 10" 10] div_mult_mod_eq [of d 10] div_mult2_eq [of d 10 10]
    by simp
  ultimately show ?thesis
    using three takeWhile_no_digit [OF assms(2)] assms(1)
    by (simp add: read_number_def radix_value_digit hex_value_digit digit_zero_iff Let_def)
qed

lemma no_digit_simps [simp]: "no_digit []" "no_digit (CHR ''.'' # s)" "no_digit (CHR ''/'' # s)"
  by (simp_all add: no_digit_def radix_value_def hex_value_def is_ascii_digit_def ascii_between_def)

lemma parse_show_v4: "parse_ip (show_v4 a) = Some (V4 a)"
proof -
  let ?n = "unat a"
  have b: "?n < 4294967296" using unsigned_less [of a] by simp
  then have q: "?n div 16777216 < 256" by (simp add: less_mult_imp_div_less)
  have "((?n div 16777216 * 256 + ?n div 65536 mod 256) * 256 + ?n div 256 mod 256) * 256 + ?n mod 256 = ?n"
    using div_mult_mod_eq [of "?n div 65536" 256] div_mult_mod_eq [of "?n div 256" 256]
      div_mult_mod_eq [of ?n 256] div_mult2_eq [of ?n 65536 256] div_mult2_eq [of ?n 256 256]
    by simp
  then have "be_value 256 [?n div 16777216, ?n div 65536 mod 256, ?n div 256 mod 256, ?n mod 256] = ?n"
    by (simp add: be_value_def)
  moreover have four: "(4::nat) = Suc (Suc (Suc (Suc 0)))" by simp
  have "read_ipv4 (show_v4 a)
      = Some ([?n div 16777216, ?n div 65536 mod 256, ?n div 256 mod 256, ?n mod 256], [])"
    unfolding read_ipv4_def four using q read_number_show [of "?n mod 256" "[]"]
    by (simp add: show_v4_def Let_def read_separator_def read_char_def read_number_show)
  ultimately show ?thesis by (simp add: parse_ip_def)
qed

end
