(* ===== verification/Inventory.thy ===== *)
theory Inventory
  imports Network
begin

text \<open>
  The customer's own list of devices and groups, \<^verbatim>\<open>crates/connector/src/inventory.rs\<close>: its
  types, their textual forms, and the operations that keep the list. \<open>lower\<close> is
  \<open>str::to_lowercase\<close>, whose Unicode tables only decide the order the list is shown in.
\<close>

section \<open>Data\<close>

datatype inv_address = Range network | Host string

record ports =
  first :: nat
  last_port :: nat

record device =
  dev_name :: string
  dev_address :: inv_address
  dev_ports :: "ports list"
  dev_groups :: "string list"

record inventory =
  inv_devices :: "device list"
  inv_groups :: "string list"

datatype inventory_error =
    InvalidName
  | InvalidAddress string
  | InvalidPorts string
  | NoPorts
  | Exists string
  | Unknown string

section \<open>Addresses\<close>

fun address_covers :: "inv_address \<Rightarrow> string \<Rightarrow> ip_addr \<Rightarrow> ip_addr list \<Rightarrow> bool" where
  "address_covers (Range net) host ip resolved = network_contains net ip"
| "address_covers (Host name) host ip resolved =
     (eq_ignore_ascii_case name host \<or> ip \<in> set resolved)"

definition valid_label :: "string \<Rightarrow> bool" where
  "valid_label label \<longleftrightarrow> 1 \<le> length label \<and> length label \<le> 63
     \<and> list_all (\<lambda>c. is_ascii_alphanumeric c \<or> c = CHR ''-'' \<or> c = CHR ''_'') label
     \<and> \<not> starts_with label ''-'' \<and> \<not> ends_with label ''-''"

definition address_parse :: "string \<Rightarrow> inventory_error + inv_address" where
  "address_parse raw =
     (let text = trim raw
      in case network_parse text of
           Some net \<Rightarrow> Inr (Range net)
         | None \<Rightarrow>
             (let host = trim_end_matches CHR ''.'' text;
                  valid = (1 \<le> length host \<and> length host \<le> 253
                           \<and> list_all valid_label (split_on CHR ''.'' host))
              in if valid then Inr (Host (to_ascii_lowercase host))
                 else Inl (InvalidAddress text)))"

fun address_show :: "inv_address \<Rightarrow> string" where
  "address_show (Range net) =
     (let text = network_show net;
          single = ((ends_with text ''/32'' \<and> CHR '':'' \<notin> set text) \<or> ends_with text ''/128'')
      in if single then (case rsplit_once CHR ''/'' text of Some (a, _) \<Rightarrow> a | None \<Rightarrow> text)
         else text)"
| "address_show (Host name) = name"

section \<open>Ports\<close>

definition ports_contains :: "ports \<Rightarrow> nat \<Rightarrow> bool" where
  "ports_contains p port \<longleftrightarrow> first p \<le> port \<and> port \<le> last_port p"

definition port_parse :: "string \<Rightarrow> string \<Rightarrow> inventory_error + nat" where
  "port_parse text part =
     (case parse_unsigned 65535 (trim part) of
        Some p \<Rightarrow> if p > 0 then Inr p else Inl (InvalidPorts text)
      | None \<Rightarrow> Inl (InvalidPorts text))"

definition ports_parse :: "string \<Rightarrow> inventory_error + ports" where
  "ports_parse text =
     (let (a, b) = (case split_once CHR ''-'' text of Some (f, l) \<Rightarrow> (f, l) | None \<Rightarrow> (text, text))
      in case port_parse text a of
           Inl e \<Rightarrow> Inl e
         | Inr f \<Rightarrow>
             (case port_parse text b of
                Inl e \<Rightarrow> Inl e
              | Inr l \<Rightarrow> if f > l then Inl (InvalidPorts text)
                         else Inr \<lparr>first = f, last_port = l\<rparr>))"

text \<open>\<open>collect::<Result<Vec<_>, _>>()\<close>: the first error, or all values.\<close>

fun collect_results :: "('e + 'a) list \<Rightarrow> 'e + 'a list" where
  "collect_results [] = Inr []"
| "collect_results (Inl e # rs) = Inl e"
| "collect_results (Inr x # rs) =
     (case collect_results rs of Inl e \<Rightarrow> Inl e | Inr xs \<Rightarrow> Inr (x # xs))"

definition ports_parse_list :: "string \<Rightarrow> inventory_error + ports list" where
  "ports_parse_list text =
     (case collect_results (map ports_parse (filter (\<lambda>part. part \<noteq> [])
             (split_by (\<lambda>c. c = CHR '','' \<or> c = CHR '' '') text))) of
        Inl e \<Rightarrow> Inl e
      | Inr ps \<Rightarrow> if ps = [] then Inl NoPorts else Inr ps)"

definition ports_show :: "ports \<Rightarrow> string" where
  "ports_show p =
     (if first p = last_port p then show_nat (first p)
      else show_nat (first p) @ ''-'' @ show_nat (last_port p))"

definition ports_text :: "ports list \<Rightarrow> string" where
  "ports_text ps = join '', '' (map ports_show ps)"

section \<open>The list\<close>

definition valid_name :: "string \<Rightarrow> inventory_error + string" where
  "valid_name raw =
     (let name = trim raw; cs = chars name
      in if 1 \<le> length cs \<and> length cs \<le> 64 \<and> \<not> list_ex is_control cs then Inr name
         else Inl InvalidName)"

definition inv_device :: "inventory \<Rightarrow> string \<Rightarrow> device option" where
  "inv_device iv n = find (\<lambda>d. dev_name d = n) (inv_devices iv)"

definition has_group :: "inventory \<Rightarrow> string \<Rightarrow> bool" where
  "has_group iv n = list_ex (\<lambda>g. g = n) (inv_groups iv)"

definition inv_add_device ::
  "(string \<Rightarrow> string) \<Rightarrow> inventory \<Rightarrow> device \<Rightarrow> inventory_error + inventory" where
  "inv_add_device lower iv d =
     (if inv_device iv (dev_name d) \<noteq> None then Inl (Exists (dev_name d))
      else if dev_ports d = [] then Inl NoPorts
      else case find (\<lambda>g. \<not> has_group iv g) (dev_groups d) of
             Some g \<Rightarrow> Inl (Unknown g)
           | None \<Rightarrow> Inr (iv\<lparr>inv_devices := sort_key (\<lambda>x. lower (dev_name x)) (inv_devices iv @ [d])\<rparr>))"

text \<open>\<open>position\<close> and \<open>Vec::remove\<close>: the first device of that name goes.\<close>

fun remove_first :: "('a \<Rightarrow> bool) \<Rightarrow> 'a list \<Rightarrow> ('a \<times> 'a list) option" where
  "remove_first p [] = None"
| "remove_first p (x # xs) =
     (if p x then Some (x, xs) else map_option (\<lambda>(y, ys). (y, x # ys)) (remove_first p xs))"

definition inv_remove_device :: "inventory \<Rightarrow> string \<Rightarrow> inventory_error + device \<times> inventory" where
  "inv_remove_device iv n =
     (case remove_first (\<lambda>d. dev_name d = n) (inv_devices iv) of
        None \<Rightarrow> Inl (Unknown n)
      | Some (d, ds) \<Rightarrow> Inr (d, iv\<lparr>inv_devices := ds\<rparr>))"

definition inv_add_group :: "(string \<Rightarrow> string) \<Rightarrow> inventory \<Rightarrow> string \<Rightarrow> inventory_error + inventory" where
  "inv_add_group lower iv n =
     (if has_group iv n then Inl (Exists n)
      else Inr (iv\<lparr>inv_groups := sort_key lower (inv_groups iv @ [n])\<rparr>))"

definition inv_remove_group :: "inventory \<Rightarrow> string \<Rightarrow> inventory_error + inventory" where
  "inv_remove_group iv n =
     (if \<not> has_group iv n then Inl (Unknown n)
      else Inr (iv\<lparr>inv_groups := filter (\<lambda>g. g \<noteq> n) (inv_groups iv),
                    inv_devices := map (\<lambda>d. d\<lparr>dev_groups := filter (\<lambda>g. g \<noteq> n) (dev_groups d)\<rparr>)
                      (inv_devices iv)\<rparr>))"

definition inv_members :: "inventory \<Rightarrow> string \<Rightarrow> device list" where
  "inv_members iv g = filter (\<lambda>d. g \<in> set (dev_groups d)) (inv_devices iv)"

section \<open>The invariant of the list\<close>

text \<open>
  Names are unique, every device has ports, and the groups of a device are on the list.
\<close>

definition inventory_ok :: "inventory \<Rightarrow> bool" where
  "inventory_ok iv \<longleftrightarrow> distinct (map dev_name (inv_devices iv)) \<and> distinct (inv_groups iv)
     \<and> (\<forall>d \<in> set (inv_devices iv). dev_ports d \<noteq> [] \<and> (\<forall>g \<in> set (dev_groups d). g \<in> set (inv_groups iv)))"

lemma has_group_iff [simp]: "has_group iv n \<longleftrightarrow> n \<in> set (inv_groups iv)"
  by (auto simp: has_group_def list_ex_iff)

lemma inv_device_None: "inv_device iv n = None \<longleftrightarrow> n \<notin> dev_name ` set (inv_devices iv)"
  by (auto simp: inv_device_def find_None_iff)

lemma inv_device_Some:
  "inventory_ok iv \<Longrightarrow> inv_device iv n = Some d \<longleftrightarrow> d \<in> set (inv_devices iv) \<and> dev_name d = n"
proof -
  assume ok: "inventory_ok iv"
  have uniq: "\<And>a b. a \<in> set (inv_devices iv) \<Longrightarrow> b \<in> set (inv_devices iv) \<Longrightarrow> dev_name a = dev_name b \<Longrightarrow> a = b"
    using ok by (auto simp: inventory_ok_def distinct_map dest: inj_onD)
  show ?thesis
  proof
    assume "inv_device iv n = Some d"
    then show "d \<in> set (inv_devices iv) \<and> dev_name d = n"
      unfolding inv_device_def find_Some_iff by auto
  next
    assume d: "d \<in> set (inv_devices iv) \<and> dev_name d = n"
    then obtain e where "inv_device iv n = Some e"
      using inv_device_None [of iv n] by (cases "inv_device iv n") auto
    moreover from this have "e \<in> set (inv_devices iv) \<and> dev_name e = n"
      unfolding inv_device_def find_Some_iff by auto
    ultimately show "inv_device iv n = Some d" using d uniq by blast
  qed
qed

lemma find_missing_group: "find (\<lambda>g. g \<notin> A) gs = None \<longleftrightarrow> (\<forall>g \<in> set gs. g \<in> A)"
  by (auto simp: find_None_iff)

lemma inv_add_device_ok [wf_intros]:
  "inventory_ok iv \<Longrightarrow> inv_add_device lower iv d = Inr iv' \<Longrightarrow> inventory_ok iv'"
  by (auto simp: inv_add_device_def inventory_ok_def inv_device_None find_missing_group distinct_map
      split: if_splits option.splits)

lemma remove_first_Some:
  "remove_first p xs = Some (y, ys) \<Longrightarrow> \<exists>us vs. xs = us @ y # vs \<and> ys = us @ vs \<and> p y \<and> (\<forall>u \<in> set us. \<not> p u)"
proof (induction xs arbitrary: ys)
  case (Cons x xs)
  show ?case
  proof (cases "p x")
    case True
    with Cons.prems have "x # xs = [] @ y # ys" "p y" by auto
    then show ?thesis by fastforce
  next
    case False
    with Cons.prems obtain zs where "remove_first p xs = Some (y, zs)" "ys = x # zs" by auto
    with Cons.IH [of zs] False show ?thesis by (metis append_Cons set_ConsD)
  qed
qed simp

lemma remove_first_None: "remove_first p xs = None \<longleftrightarrow> (\<forall>x \<in> set xs. \<not> p x)"
  by (induction xs) auto

lemma inv_remove_device_ok [wf_intros]:
  "inventory_ok iv \<Longrightarrow> inv_remove_device iv n = Inr (d, iv') \<Longrightarrow> inventory_ok iv'"
  by (auto simp: inv_remove_device_def inventory_ok_def split: option.splits dest!: remove_first_Some)

lemma inv_add_group_ok [wf_intros]:
  "inventory_ok iv \<Longrightarrow> inv_add_group lower iv n = Inr iv' \<Longrightarrow> inventory_ok iv'"
  by (auto simp: inv_add_group_def inventory_ok_def split: if_splits)

lemma inv_remove_group_ok [wf_intros]:
  "inventory_ok iv \<Longrightarrow> inv_remove_group iv n = Inr iv' \<Longrightarrow> inventory_ok iv'"
  by (auto simp: inv_remove_group_def inventory_ok_def comp_def split: if_splits)

lemma inv_remove_device_lookup:
  assumes "inventory_ok iv" and "inv_remove_device iv n = Inr (d, iv')"
  shows "inv_device iv n = Some d \<and> inv_device iv' m = (if m = n then None else inv_device iv m)"
proof -
  from assms(2) obtain us vs where s: "inv_devices iv = us @ d # vs" "inv_devices iv' = us @ vs" "dev_name d = n"
    by (auto simp: inv_remove_device_def split: option.splits dest!: remove_first_Some)
  have ok': "inventory_ok iv'" using assms by (rule inv_remove_device_ok)
  have "inv_device iv n = Some d" using assms(1) s by (simp add: inv_device_Some)
  moreover have "inv_device iv' n = None"
    using assms(1) s by (force simp: inv_device_None inventory_ok_def)
  moreover have "m \<noteq> n \<Longrightarrow> inv_device iv' m = inv_device iv m"
  proof -
    assume "m \<noteq> n"
    then have "inv_device iv' m = Some e \<longleftrightarrow> inv_device iv m = Some e" for e
      using s by (auto simp: inv_device_Some [OF ok'] inv_device_Some [OF assms(1)])
    then show ?thesis by (metis option.exhaust)
  qed
  ultimately show ?thesis by simp
qed

section \<open>Textual forms\<close>

definition ports_ok :: "ports \<Rightarrow> bool" where
  "ports_ok p \<longleftrightarrow> 0 < first p \<and> first p \<le> last_port p \<and> last_port p \<le> 65535"

lemma port_parse_show: "0 < n \<Longrightarrow> n \<le> 65535 \<Longrightarrow> port_parse text (show_nat n) = Inr n"
  by (simp add: port_parse_def trim_visible_ascii parse_unsigned_show)

lemma ports_parse_show: "ports_ok p \<Longrightarrow> ports_parse (ports_show p) = Inr p"
proof (cases "first p = last_port p")
  case True
  assume "ports_ok p"
  with True show ?thesis
    using split_once_None [of "CHR ''-''" "show_nat (last_port p)"]
    by (simp add: ports_parse_def ports_show_def ports_ok_def port_parse_show)
next
  case False
  assume "ports_ok p"
  with False show ?thesis
    by (simp add: ports_parse_def ports_show_def ports_ok_def port_parse_show split_once_append)
qed

lemma ports_parse_ok: "ports_parse text = Inr p \<Longrightarrow> ports_ok p"
  by (auto simp: ports_parse_def port_parse_def ports_ok_def Let_def dest: parse_unsigned_le
      split: sum.splits option.splits if_splits prod.splits)

lemma ports_show_chars: "c = CHR '','' \<or> c = CHR '' '' \<Longrightarrow> c \<notin> set (ports_show p)"
  by (auto simp: ports_show_def)

lemma ports_show_nonempty [simp]: "ports_show p \<noteq> []"
  by (simp add: ports_show_def)

lemma split_ports_text:
  "ps \<noteq> [] \<Longrightarrow> filter (\<lambda>part. part \<noteq> []) (split_by (\<lambda>c. c = CHR '','' \<or> c = CHR '' '') (ports_text ps))
     = map ports_show ps"
proof (induction ps rule: induct_list012)
  case (2 p)
  have "split_by (\<lambda>c. c = CHR '','' \<or> c = CHR '' '') (ports_show p) = [ports_show p]"
    by (rule split_by_id) (use ports_show_chars [of _ p] in blast)
  then show ?case by (simp add: ports_text_def)
next
  case (3 p q ps)
  have "split_by (\<lambda>c. c = CHR '','' \<or> c = CHR '' '') (ports_show p @ CHR '','' # s)
      = ports_show p # split_by (\<lambda>c. c = CHR '','' \<or> c = CHR '' '') s" for s
    by (rule split_by_append) (use ports_show_chars [of _ p] in blast, simp)
  with 3 show ?case by (simp add: ports_text_def)
qed simp

lemma collect_results_Inr: "collect_results (map Inr xs) = Inr xs"
  by (induction xs) auto

text \<open>
  Ports survive being written and read: any non-empty list of valid port ranges, printed
  as the customer writes it and parsed again, comes back unchanged.
\<close>

theorem ports_text_roundtrip:
  assumes "ps \<noteq> []" and "list_all ports_ok ps"
  shows "ports_parse_list (ports_text ps) = Inr ps"
proof -
  have "map ports_parse (map ports_show ps) = map Inr ps"
    using assms(2) by (simp add: ports_parse_show list_all_iff)
  then show ?thesis
    using assms(1) by (simp add: ports_parse_list_def split_ports_text collect_results_Inr del: map_map)
qed

theorem ports_text_roundtrip_witness:
  "ports_parse_list (ports_text [\<lparr>first = 22, last_port = 22\<rparr>, \<lparr>first = 8000, last_port = 8100\<rparr>])
    = Inr [\<lparr>first = 22, last_port = 22\<rparr>, \<lparr>first = 8000, last_port = 8100\<rparr>]"
  by (rule ports_text_roundtrip) (simp_all add: ports_ok_def)

lemma network_show_v4: "network_show \<lparr>address = V4 a, prefix = n\<rparr> = show_v4 a @ CHR ''/'' # show_nat n"
  by (simp add: network_show_def)

lemma show_v4_chars:
  "CHR ''/'' \<notin> set (show_v4 a)" "CHR '':'' \<notin> set (show_v4 a)" "visible_ascii (show_v4 a)"
  by (simp_all add: show_v4_def Let_def)

lemma network_parse_show_v4: "n \<le> 32 \<Longrightarrow> network_parse (show_v4 a @ CHR ''/'' # show_nat n) = Some \<lparr>address = V4 a, prefix = n\<rparr>"
  by (simp add: network_parse_def split_once_append show_v4_chars parse_show_v4 is_ipv4_def parse_unsigned_show)

lemma network_parse_single_v4: "network_parse (show_v4 a) = Some \<lparr>address = V4 a, prefix = 32\<rparr>"
  using split_once_None [of "CHR ''/''" "show_v4 a"]
  by (simp add: network_parse_def show_v4_chars parse_show_v4 is_ipv4_def)

text \<open>
  IPv4 ranges survive being written to the list's file and read back: every range, a
  single address (which is printed without its /32) included, parses to itself.
\<close>

theorem address_v4_roundtrip:
  assumes "n \<le> 32"
  shows "address_parse (address_show (Range \<lparr>address = V4 a, prefix = n\<rparr>))
    = Inr (Range \<lparr>address = V4 a, prefix = n\<rparr>)"
proof -
  let ?text = "show_v4 a @ CHR ''/'' # show_nat n"
  have "show_nat 32 = ''32''" "show_nat 128 = ''128''" by code_simp+
  then have i: "show_nat n = ''32'' \<longleftrightarrow> n = 32" "show_nat n = ''128'' \<longleftrightarrow> n = 128"
    using show_nat_inject [of n 32] show_nat_inject [of n 128] by simp_all
  then have e: "ends_with ?text ''/32'' \<longleftrightarrow> n = 32" "ends_with ?text ''/128'' \<longleftrightarrow> n = 128"
    using ends_with_after_slash [of "CHR ''/''" "show_nat n" "''32''" "show_v4 a"]
      ends_with_after_slash [of "CHR ''/''" "show_nat n" "''128''" "show_v4 a"]
    by simp_all
  have s: "address_show (Range \<lparr>address = V4 a, prefix = n\<rparr>) = (if n = 32 then show_v4 a else ?text)"
    using assms by (simp add: network_show_v4 e show_v4_chars rsplit_once_append Let_def)
  have "visible_ascii ?text"
    by (simp add: show_v4_chars)
  then have "trim ?text = ?text" "trim (show_v4 a) = show_v4 a"
    using show_v4_chars(3) [of a] by (simp_all add: trim_visible_ascii)
  then show ?thesis
    unfolding s using assms
    by (simp add: address_parse_def network_parse_show_v4 network_parse_single_v4)
qed

theorem address_v4_roundtrip_witness:
  "address_parse (address_show (Range \<lparr>address = V4 0xC0000201, prefix = 32\<rparr>))
    = Inr (Range \<lparr>address = V4 0xC0000201, prefix = 32\<rparr>)"
  by (rule address_v4_roundtrip) simp

end
