(* ===== verification/Journal.thy ===== *)
theory Journal
  imports Strings
begin

text \<open>
  The connector's record of remote access, \<^verbatim>\<open>crates/connector/src/journal.rs\<close>, with the two
  types of \<^verbatim>\<open>access.rs\<close> its events carry. Every entry goes to the log output; the file
  \<open>access.log\<close> gets it as one line and moves aside beyond its size. The JSON form of an entry
  is the field \<open>to_line\<close>, its reader a parameter of \<open>recent\<close>.
\<close>

datatype changer = Web string | CommandLine | Expiry

datatype scope = Network | DeviceScope string | GroupScope string | RequestScope uuid

datatype event =
    Opened changer "instant option" scope
  | ClosedEv changer scope
  | Expired scope
  | DeviceAdded changer string string string "string list"
  | DeviceRemoved changer string
  | GroupAdded changer string
  | GroupRemoved changer string
  | RequestReceived uuid string string nat "string list"
  | RequestApproved changer uuid string string "string list" instant
  | RequestRefused changer uuid string string "string list"
  | ConnectionStarted uuid string "string option" "string option"
  | ConnectionEnded uuid string "string option" "string option" nat nat nat
  | ConnectionRefused string "string option" "string option" string
  | SignedIn string string
  | SignInFailed string string
  | Locked string

record entry =
  at :: instant
  event :: event

text \<open>\<open>log_writable\<close> is whether the file system takes the write.\<close>

record journal =
  to_line :: "entry \<Rightarrow> string"
  log_output :: "entry list"
  log_file :: "string list"
  log_previous :: "string list"
  log_writable :: bool

definition ROTATE_AT :: nat where
  "ROTATE_AT = 10 * 1024 * 1024"

text \<open>The size of the file: each line with its newline.\<close>

definition file_size :: "string list \<Rightarrow> nat" where
  "file_size ls = sum_list (map (\<lambda>l. length l + 1) ls)"

definition journal_write :: "journal \<Rightarrow> string \<Rightarrow> journal" where
  "journal_write j line =
     (if \<not> log_writable j then j
      else
        (let j' = (if file_size (log_file j) > ROTATE_AT
                   then j\<lparr>log_previous := log_file j, log_file := []\<rparr> else j)
         in j'\<lparr>log_file := log_file j' @ [line]\<rparr>))"

definition append :: "journal \<Rightarrow> instant \<Rightarrow> event \<Rightarrow> journal" where
  "append j now ev =
     (let e = \<lparr>at = now, event = ev\<rparr>
      in journal_write (j\<lparr>log_output := log_output j @ [e]\<rparr>) (to_line j e))"

definition recent :: "(string \<Rightarrow> entry option) \<Rightarrow> journal \<Rightarrow> nat \<Rightarrow> entry list" where
  "recent parse j count = take count (filter_map parse (rev (log_file j)))"

lemma append_output [simp]:
  "log_output (append j now ev) = log_output j @ [\<lparr>at = now, event = ev\<rparr>]"
  "to_line (append j now ev) = to_line j"
  "log_writable (append j now ev) = log_writable j"
  by (simp_all add: append_def journal_write_def Let_def)

lemma append_log_file:
  "log_writable j \<Longrightarrow> log_file (append j now ev) =
     (if file_size (log_file j) > ROTATE_AT then [] else log_file j) @ [to_line j \<lparr>at = now, event = ev\<rparr>]"
  by (simp add: append_def journal_write_def Let_def)

text \<open>
  An entry that could be written is the newest one the web interface shows, and the
  journal keeps at most one line beyond its size: the current file never grows past the
  limit by more than the line that crossed it.
\<close>

theorem recent_append:
  assumes "log_writable j" and "parse (to_line j \<lparr>at = now, event = ev\<rparr>) = Some \<lparr>at = now, event = ev\<rparr>"
  shows "recent parse (append j now ev) (Suc n) =
      \<lparr>at = now, event = ev\<rparr> # (if file_size (log_file j) > ROTATE_AT then [] else recent parse j n)
    \<and> file_size (log_file (append j now ev)) \<le> ROTATE_AT + length (to_line j \<lparr>at = now, event = ev\<rparr>) + 1"
  using assms by (simp add: recent_def append_log_file map_filter_def file_size_def not_less)

definition sample_journal :: journal where
  "sample_journal = \<lparr>to_line = (\<lambda>_. ''{}''), log_output = [], log_file = [], log_previous = [],
     log_writable = True\<rparr>"

theorem recent_append_witness:
  "recent (\<lambda>_. Some \<lparr>at = 5, event = Locked ''a''\<rparr>) (append sample_journal 5 (Locked ''a'')) (Suc 1)
    = [\<lparr>at = 5, event = Locked ''a''\<rparr>]"
  using recent_append [of sample_journal "\<lambda>_. Some \<lparr>at = 5, event = Locked ''a''\<rparr>" 5 "Locked ''a''" 1]
  by (simp add: sample_journal_def file_size_def recent_def map_filter_def ROTATE_AT_def)

end
