(* ===== verification/Access.thy ===== *)
theory Access
  imports Inventory Journal
begin

text \<open>
  Whether the customer lets remotehub into the network, \<^verbatim>\<open>crates/connector/src/access.rs\<close>:
  what is open and until when, the operations of the web interface and the command line on
  the data directory, and the gate the running connector decides by.

  The data directory is a record of its two JSON files and the journal. A file is missing,
  cannot be read or parsed, or holds a value; a save replaces it whole or fails (it is
  written beside and renamed). Clock readings are arguments.
\<close>

section \<open>Data\<close>

datatype access = Closed | Open "instant option"

fun is_open :: "access \<Rightarrow> instant \<Rightarrow> bool" where
  "is_open Closed now = False"
| "is_open (Open None) now = True"
| "is_open (Open (Some until)) now = (until > now)"

fun closes_at :: "access \<Rightarrow> instant option" where
  "closes_at (Open until) = until"
| "closes_at Closed = None"

record stored =
  st_access :: access
  changed_by :: "changer option"
  changed_at :: "instant option"

definition stored_default :: stored where
  "stored_default = \<lparr>st_access = Closed, changed_by = None, changed_at = None\<rparr>"

text \<open>Requests and their targets, \<^verbatim>\<open>protocol.rs\<close>.\<close>

record request_target =
  target_name :: string
  target_host :: string
  target_port :: nat

record customer_request =
  req_id :: uuid
  requester :: string
  reason :: string
  minutes :: nat
  targets :: "request_target list"

record access_grant =
  gr_requester :: string
  gr_reason :: string
  gr_targets :: "request_target list"
  gr_stored :: stored

definition grant_devices :: "access_grant \<Rightarrow> device list" where
  "grant_devices g =
     filter_map (\<lambda>t. case address_parse (target_host t) of
         Inl _ \<Rightarrow> None
       | Inr a \<Rightarrow> Some \<lparr>dev_name = target_name t, dev_address = a,
           dev_ports = [\<lparr>first = target_port t, last_port = target_port t\<rparr>], dev_groups = []\<rparr>)
       (gr_targets g)"

record access_file =
  af_network :: stored
  af_devices :: "(string, stored) btree"
  af_groups :: "(string, stored) btree"
  af_requests :: "(uuid, access_grant) btree"

definition access_file_default :: access_file where
  "access_file_default = \<lparr>af_network = stored_default, af_devices = [], af_groups = [], af_requests = []\<rparr>"

definition or_default :: "stored option \<Rightarrow> stored" where
  "or_default s = (case s of Some v \<Rightarrow> v | None \<Rightarrow> stored_default)"

fun af_get :: "access_file \<Rightarrow> scope \<Rightarrow> stored" where
  "af_get f Network = af_network f"
| "af_get f (DeviceScope n) = or_default (bt_get (af_devices f) n)"
| "af_get f (GroupScope n) = or_default (bt_get (af_groups f) n)"
| "af_get f (RequestScope i) = or_default (map_option gr_stored (bt_get (af_requests f) i))"

fun af_set :: "access_file \<Rightarrow> scope \<Rightarrow> stored \<Rightarrow> access_file" where
  "af_set f Network st = f\<lparr>af_network := st\<rparr>"
| "af_set f (DeviceScope n) st = f\<lparr>af_devices := bt_insert n st (af_devices f)\<rparr>"
| "af_set f (GroupScope n) st = f\<lparr>af_groups := bt_insert n st (af_groups f)\<rparr>"
| "af_set f (RequestScope i) st =
     (if st_access st = Closed then f\<lparr>af_requests := bt_remove i (af_requests f)\<rparr>
      else case bt_get (af_requests f) i of
             None \<Rightarrow> f
           | Some g \<Rightarrow> f\<lparr>af_requests := bt_insert i (g\<lparr>gr_stored := st\<rparr>) (af_requests f)\<rparr>)"

definition af_all :: "access_file \<Rightarrow> (scope \<times> stored) list" where
  "af_all f = (Network, af_network f)
     # map (\<lambda>(n, s). (DeviceScope n, s)) (af_devices f)
     @ map (\<lambda>(n, s). (GroupScope n, s)) (af_groups f)
     @ map (\<lambda>(i, g). (RequestScope i, gr_stored g)) (af_requests f)"

section \<open>What is open\<close>

record snapshot =
  sn_access :: access_file
  sn_inventory :: inventory

definition network_open :: "snapshot \<Rightarrow> instant \<Rightarrow> bool" where
  "network_open s now = is_open (st_access (af_network (sn_access s))) now"

definition network_until :: "snapshot \<Rightarrow> instant \<Rightarrow> instant option option" where
  "network_until s now =
     (let a = st_access (af_network (sn_access s))
      in if is_open a now then Some (closes_at a) else None)"

text \<open>The later of two ends: none is closed and loses, \<open>Some None\<close> is without end and wins.\<close>

fun later :: "instant option option \<Rightarrow> instant option option \<Rightarrow> instant option option" where
  "later None b = b"
| "later a None = a"
| "later (Some None) b = Some None"
| "later a (Some None) = Some None"
| "later (Some (Some a)) (Some (Some b)) = Some (Some (max a b))"

definition device_scopes :: "device \<Rightarrow> scope list" where
  "device_scopes d = DeviceScope (dev_name d) # map GroupScope (dev_groups d)"

definition device_until :: "snapshot \<Rightarrow> device \<Rightarrow> instant \<Rightarrow> instant option option" where
  "device_until s d now =
     foldl later None
       (map (\<lambda>a. Some (closes_at a))
         (filter (\<lambda>a. is_open a now)
           (map (\<lambda>sc. st_access (af_get (sn_access s) sc)) (device_scopes d))))"

definition open_devices :: "snapshot \<Rightarrow> instant \<Rightarrow> device list" where
  "open_devices s now = filter (\<lambda>d. device_until s d now \<noteq> None) (inv_devices (sn_inventory s))"

definition open_groups :: "snapshot \<Rightarrow> instant \<Rightarrow> (string \<times> instant option) list" where
  "open_groups s now =
     filter_map (\<lambda>n. case bt_get (af_groups (sn_access s)) n of
         None \<Rightarrow> None
       | Some st \<Rightarrow> if is_open (st_access st) now then Some (n, closes_at (st_access st)) else None)
       (inv_groups (sn_inventory s))"

definition open_requests :: "snapshot \<Rightarrow> instant \<Rightarrow> (uuid \<times> access_grant) list" where
  "open_requests s now =
     filter (\<lambda>(_, g). is_open (st_access (gr_stored g)) now) (af_requests (sn_access s))"

definition any_open :: "snapshot \<Rightarrow> instant \<Rightarrow> bool" where
  "any_open s now \<longleftrightarrow> network_open s now \<or> open_devices s now \<noteq> [] \<or> open_requests s now \<noteq> []"

definition next_end :: "snapshot \<Rightarrow> instant \<Rightarrow> instant option" where
  "next_end s now =
     iter_min (filter_map (\<lambda>(_, st). closes_at (st_access st))
       (filter (\<lambda>(_, st). is_open (st_access st) now) (af_all (sn_access s))))"

definition ran_out :: "snapshot \<Rightarrow> instant \<Rightarrow> scope list" where
  "ran_out s now =
     map fst (filter (\<lambda>(_, st). closes_at (st_access st) \<noteq> None \<and> \<not> is_open (st_access st) now)
       (af_all (sn_access s)))"

section \<open>The data directory\<close>

datatype change_error = InventoryErr inventory_error | Io

datatype 'a content = Missing | Unreadable | Present 'a

record data_dir =
  access_json :: "access_file content"
  inventory_json :: "inventory content"
  access_writable :: bool
  inventory_writable :: bool
  dir_journal :: journal

type_synonym 'a op_result = "data_dir \<times> (change_error + 'a)"

definition inventory_default :: inventory where
  "inventory_default = \<lparr>inv_devices = [], inv_groups = []\<rparr>"

definition load_inventory :: "data_dir \<Rightarrow> change_error + inventory" where
  "load_inventory dir =
     (case inventory_json dir of Missing \<Rightarrow> Inr inventory_default | Unreadable \<Rightarrow> Inl Io | Present v \<Rightarrow> Inr v)"

definition load_access :: "data_dir \<Rightarrow> change_error + access_file" where
  "load_access dir =
     (case access_json dir of Missing \<Rightarrow> Inr access_file_default | Unreadable \<Rightarrow> Inl Io | Present v \<Rightarrow> Inr v)"

definition save_access :: "data_dir \<Rightarrow> access_file \<Rightarrow> unit op_result" where
  "save_access dir f =
     (if access_writable dir then (dir\<lparr>access_json := Present f\<rparr>, Inr ()) else (dir, Inl Io))"

definition save_inventory :: "data_dir \<Rightarrow> inventory \<Rightarrow> unit op_result" where
  "save_inventory dir iv =
     (if inventory_writable dir then (dir\<lparr>inventory_json := Present iv\<rparr>, Inr ()) else (dir, Inl Io))"

definition load :: "data_dir \<Rightarrow> change_error + snapshot" where
  "load dir =
     (case load_access dir of
        Inl e \<Rightarrow> Inl e
      | Inr f \<Rightarrow> (case load_inventory dir of Inl e \<Rightarrow> Inl e | Inr iv \<Rightarrow> Inr \<lparr>sn_access = f, sn_inventory = iv\<rparr>))"

definition journal_event :: "data_dir \<Rightarrow> instant \<Rightarrow> event \<Rightarrow> data_dir" where
  "journal_event dir now ev = dir\<lparr>dir_journal := append (dir_journal dir) now ev\<rparr>"

text \<open>\<open>replace_nanosecond(0)\<close>: whole seconds.\<close>

definition seconds :: "instant \<Rightarrow> instant" where
  "seconds t = t - t mod 1000000000"

fun scope_name :: "scope \<Rightarrow> string" where
  "scope_name (DeviceScope n) = n"
| "scope_name (GroupScope n) = n"
| "scope_name (RequestScope i) = uuid_show i"
| "scope_name Network = ''''"

fun scope_known :: "inventory \<Rightarrow> access_file \<Rightarrow> scope \<Rightarrow> bool" where
  "scope_known iv f Network = True"
| "scope_known iv f (DeviceScope n) = (inv_device iv n \<noteq> None)"
| "scope_known iv f (GroupScope n) = has_group iv n"
| "scope_known iv f (RequestScope i) = (bt_get (af_requests f) i \<noteq> None)"

fun round_access :: "access \<Rightarrow> access" where
  "round_access (Open until) = Open (map_option seconds until)"
| "round_access Closed = Closed"

fun change_event :: "access \<Rightarrow> changer \<Rightarrow> scope \<Rightarrow> event" where
  "change_event Closed by_who sc = (if by_who = Expiry then Expired sc else ClosedEv by_who sc)"
| "change_event (Open until) by_who sc = Opened by_who until sc"

definition change ::
  "data_dir \<Rightarrow> instant \<Rightarrow> scope \<Rightarrow> access \<Rightarrow> changer \<Rightarrow> unit op_result" where
  "change dir now sc acc by_who =
     (case load_inventory dir of
        Inl e \<Rightarrow> (dir, Inl e)
      | Inr iv \<Rightarrow>
     (case load_access dir of
        Inl e \<Rightarrow> (dir, Inl e)
      | Inr f \<Rightarrow>
        if \<not> scope_known iv f sc then (dir, Inl (InventoryErr (Unknown (scope_name sc))))
        else
          (let acc' = round_access acc;
               f' = af_set f sc \<lparr>st_access = acc', changed_by = Some by_who, changed_at = Some (seconds now)\<rparr>
           in case save_access dir f' of
                (dir', Inl e) \<Rightarrow> (dir', Inl e)
              | (dir', Inr _) \<Rightarrow> (journal_event dir' now (change_event acc' by_who sc), Inr ()))))"

definition targets_text :: "request_target list \<Rightarrow> string list" where
  "targets_text ts = map (\<lambda>t. target_name t @ '' ('' @ target_host t @ '':'' @ show_nat (target_port t) @ '')'') ts"

definition approve ::
  "data_dir \<Rightarrow> instant \<Rightarrow> customer_request \<Rightarrow> instant \<Rightarrow> changer \<Rightarrow> unit op_result" where
  "approve dir now rq until_raw by_who =
     (let end_at = seconds until_raw
      in case load_access dir of
           Inl e \<Rightarrow> (dir, Inl e)
         | Inr f \<Rightarrow>
             (let g = \<lparr>gr_requester = requester rq, gr_reason = reason rq, gr_targets = targets rq,
                       gr_stored = \<lparr>st_access = Open (Some end_at), changed_by = Some by_who,
                                    changed_at = Some (seconds now)\<rparr>\<rparr>
              in case save_access dir (f\<lparr>af_requests := bt_insert (req_id rq) g (af_requests f)\<rparr>) of
                   (dir', Inl e) \<Rightarrow> (dir', Inl e)
                 | (dir', Inr _) \<Rightarrow>
                     (journal_event dir' now (RequestApproved by_who (req_id rq) (requester rq) (reason rq)
                        (targets_text (targets rq)) end_at), Inr ())))"

definition refuse :: "data_dir \<Rightarrow> instant \<Rightarrow> customer_request \<Rightarrow> changer \<Rightarrow> data_dir" where
  "refuse dir now rq by_who =
     journal_event dir now (RequestRefused by_who (req_id rq) (requester rq) (reason rq) (targets_text (targets rq)))"

definition received :: "data_dir \<Rightarrow> instant \<Rightarrow> customer_request \<Rightarrow> data_dir" where
  "received dir now rq =
     journal_event dir now (RequestReceived (req_id rq) (requester rq) (reason rq) (minutes rq) (targets_text (targets rq)))"

definition add_device ::
  "(string \<Rightarrow> string) \<Rightarrow> data_dir \<Rightarrow> instant \<Rightarrow> device \<Rightarrow> changer \<Rightarrow> unit op_result" where
  "add_device lower dir now d by_who =
     (case load_inventory dir of
        Inl e \<Rightarrow> (dir, Inl e)
      | Inr iv \<Rightarrow>
        (case inv_add_device lower iv d of
           Inl e \<Rightarrow> (dir, Inl (InventoryErr e))
         | Inr iv' \<Rightarrow>
           (case save_inventory dir iv' of
              (dir', Inl e) \<Rightarrow> (dir', Inl e)
            | (dir', Inr _) \<Rightarrow>
                (journal_event dir' now (DeviceAdded by_who (dev_name d) (address_show (dev_address d))
                   (ports_text (dev_ports d)) (dev_groups d)), Inr ()))))"

definition remove_device :: "data_dir \<Rightarrow> instant \<Rightarrow> string \<Rightarrow> changer \<Rightarrow> unit op_result" where
  "remove_device dir now n by_who =
     (case load_inventory dir of
        Inl e \<Rightarrow> (dir, Inl e)
      | Inr iv \<Rightarrow>
     (case inv_remove_device iv n of
        Inl e \<Rightarrow> (dir, Inl (InventoryErr e))
      | Inr (_, iv') \<Rightarrow>
     (case load_access dir of
        Inl e \<Rightarrow> (dir, Inl e)
      | Inr f \<Rightarrow>
     (case save_access dir (f\<lparr>af_devices := bt_remove n (af_devices f)\<rparr>) of
        (dir1, Inl e) \<Rightarrow> (dir1, Inl e)
      | (dir1, Inr _) \<Rightarrow>
     (case save_inventory dir1 iv' of
        (dir2, Inl e) \<Rightarrow> (dir2, Inl e)
      | (dir2, Inr _) \<Rightarrow> (journal_event dir2 now (DeviceRemoved by_who n), Inr ()))))))"

definition add_group ::
  "(string \<Rightarrow> string) \<Rightarrow> data_dir \<Rightarrow> instant \<Rightarrow> string \<Rightarrow> changer \<Rightarrow> unit op_result" where
  "add_group lower dir now raw by_who =
     (case valid_name raw of
        Inl e \<Rightarrow> (dir, Inl (InventoryErr e))
      | Inr n \<Rightarrow>
     (case load_inventory dir of
        Inl e \<Rightarrow> (dir, Inl e)
      | Inr iv \<Rightarrow>
     (case inv_add_group lower iv n of
        Inl e \<Rightarrow> (dir, Inl (InventoryErr e))
      | Inr iv' \<Rightarrow>
     (case save_inventory dir iv' of
        (dir', Inl e) \<Rightarrow> (dir', Inl e)
      | (dir', Inr _) \<Rightarrow> (journal_event dir' now (GroupAdded by_who n), Inr ())))))"

definition remove_group :: "data_dir \<Rightarrow> instant \<Rightarrow> string \<Rightarrow> changer \<Rightarrow> unit op_result" where
  "remove_group dir now n by_who =
     (case load_inventory dir of
        Inl e \<Rightarrow> (dir, Inl e)
      | Inr iv \<Rightarrow>
     (case inv_remove_group iv n of
        Inl e \<Rightarrow> (dir, Inl (InventoryErr e))
      | Inr iv' \<Rightarrow>
     (case load_access dir of
        Inl e \<Rightarrow> (dir, Inl e)
      | Inr f \<Rightarrow>
     (case save_access dir (f\<lparr>af_groups := bt_remove n (af_groups f)\<rparr>) of
        (dir1, Inl e) \<Rightarrow> (dir1, Inl e)
      | (dir1, Inr _) \<Rightarrow>
     (case save_inventory dir1 iv' of
        (dir2, Inl e) \<Rightarrow> (dir2, Inl e)
      | (dir2, Inr _) \<Rightarrow> (journal_event dir2 now (GroupRemoved by_who n), Inr ()))))))"

section \<open>The gate of the running connector\<close>

record gate =
  gate_dir :: data_dir
  gate_state :: snapshot

definition gate_reload :: "gate \<Rightarrow> gate" where
  "gate_reload g = (case load (gate_dir g) of Inr s \<Rightarrow> g\<lparr>gate_state := s\<rparr> | Inl _ \<Rightarrow> g)"

definition gate_set :: "gate \<Rightarrow> instant \<Rightarrow> scope \<Rightarrow> access \<Rightarrow> changer \<Rightarrow> gate \<times> (change_error + unit)" where
  "gate_set g now sc acc by_who =
     (case change (gate_dir g) now sc acc by_who of
        (dir, Inl e) \<Rightarrow> (g\<lparr>gate_dir := dir\<rparr>, Inl e)
      | (dir, Inr _) \<Rightarrow> (gate_reload (g\<lparr>gate_dir := dir\<rparr>), Inr ()))"

text \<open>One turn of the loop of \<open>follow\<close>: take over the files, close what ran out.\<close>

definition follow_tick :: "gate \<Rightarrow> instant \<Rightarrow> gate" where
  "follow_tick g now =
     (let g1 = gate_reload g
      in fold (\<lambda>sc h. fst (gate_set h now sc Closed Expiry)) (ran_out (gate_state g1) now) g1)"

section \<open>Ends of access\<close>

lemma later_None_right [simp]: "later a None = a"
  by (cases a) auto

text \<open>The ends are ordered: closed, then by time, then without end; \<open>later\<close> is the maximum.\<close>

fun end_le :: "instant option option \<Rightarrow> instant option option \<Rightarrow> bool" where
  "end_le None b = True"
| "end_le (Some None) b = (b = Some None)"
| "end_le (Some (Some t)) None = False"
| "end_le (Some (Some t)) (Some None) = True"
| "end_le (Some (Some t)) (Some (Some u)) = (t \<le> u)"

lemma end_le_refl [simp]: "end_le a a"
  by (cases a; cases "the a") auto

lemma end_le_trans: "end_le a b \<Longrightarrow> end_le b c \<Longrightarrow> end_le a c"
  by (cases a; cases "the a"; cases b; cases "the b"; cases c; cases "the c") auto

lemma later_upper: "end_le a (later a b)" "end_le b (later a b)"
  by (cases a; cases "the a"; cases b; cases "the b"; auto)+

lemma later_cases: "later a b = a \<or> later a b = b"
  by (cases a; cases "the a"; cases b; cases "the b") (auto simp: max_def)

text \<open>
  \<open>u\<close> is the latest end of the accesses \<open>A\<close>, all of them open: none if there is no access, else
  the end of one of them that none of them outlives.
\<close>

definition latest :: "access set \<Rightarrow> instant option option \<Rightarrow> bool" where
  "latest A u \<longleftrightarrow> (case u of
     None \<Rightarrow> A = {}
   | Some e \<Rightarrow> (\<exists>a \<in> A. closes_at a = e) \<and> (\<forall>a \<in> A. end_le (Some (closes_at a)) (Some e)))"

lemma latest_empty [simp]: "latest {} None"
  by (simp add: latest_def)

lemma latest_single [simp]: "latest {a} (Some (closes_at a))"
  by (simp add: latest_def)

lemma latest_later: "latest A u \<Longrightarrow> latest B v \<Longrightarrow> latest (A \<union> B) (later u v)"
  using later_cases [of u v] later_upper [of u v] later_upper [of v u]
  by (cases u; cases v) (auto simp: latest_def split: option.splits intro: end_le_trans)

lemma latest_foldl_later:
  "latest A u \<Longrightarrow> (\<And>x. x \<in> set xs \<Longrightarrow> latest (f x) (g x))
    \<Longrightarrow> latest (A \<union> (\<Union>x \<in> set xs. f x)) (foldl later u (map g xs))"
proof (induction xs arbitrary: A u)
  case (Cons x xs)
  from Cons.IH [of "A \<union> f x" "later u (g x)"] Cons.prems show ?case
    by (simp add: latest_later Un_assoc)
qed simp

lemma latest_network_until:
  "latest {a. a = st_access (af_network (sn_access s)) \<and> is_open a now} (network_until s now)"
  by (auto simp: latest_def network_until_def Let_def)

lemma latest_device_until:
  "latest {a. (\<exists>sc \<in> set (device_scopes d). a = st_access (af_get (sn_access s) sc)) \<and> is_open a now}
     (device_until s d now)"
proof -
  let ?as = "filter (\<lambda>a. is_open a now) (map (\<lambda>sc. st_access (af_get (sn_access s) sc)) (device_scopes d))"
  have "latest ({} \<union> (\<Union>a \<in> set ?as. {a})) (device_until s d now)"
    unfolding device_until_def by (rule latest_foldl_later) simp_all
  moreover have "{} \<union> (\<Union>a \<in> set ?as. {a})
      = {a. (\<exists>sc \<in> set (device_scopes d). a = st_access (af_get (sn_access s) sc)) \<and> is_open a now}"
    by auto
  ultimately show ?thesis by simp
qed

lemma is_open_antitone: "is_open a t \<Longrightarrow> now \<le> t \<Longrightarrow> is_open a now"
  by (cases "(a, t)" rule: is_open.cases) auto

text \<open>
  A device is open exactly while it or one of its groups is, and its end is the latest
  of theirs: the reported end belongs to one of the open scopes, and none of them ends
  later.
\<close>

theorem device_until_latest:
  fixes s d now
  defines "accs \<equiv> {st_access (af_get (sn_access s) sc) | sc. sc \<in> set (device_scopes d)}"
  shows "(device_until s d now = None \<longleftrightarrow> (\<forall>a \<in> accs. \<not> is_open a now)) \<and>
    (\<forall>e. device_until s d now = Some e \<longrightarrow>
       (\<exists>a \<in> accs. is_open a now \<and> closes_at a = e)
       \<and> (\<forall>a \<in> accs. is_open a now \<longrightarrow> end_le (Some (closes_at a)) (Some e)))"
  using latest_device_until [of d s now] unfolding accs_def latest_def
  by (cases "device_until s d now") auto

section \<open>The store of the access file\<close>

definition access_file_ok :: "access_file \<Rightarrow> bool" where
  "access_file_ok f \<longleftrightarrow> bt_ok (af_devices f) \<and> bt_ok (af_groups f) \<and> bt_ok (af_requests f)"

lemma access_file_default_ok [simp]: "access_file_ok access_file_default"
  by (simp add: access_file_ok_def access_file_default_def)

lemma af_set_ok [wf_intros]: "access_file_ok f \<Longrightarrow> access_file_ok (af_set f sc st)"
  by (cases sc) (auto simp: access_file_ok_def bt_wf split: option.splits)

lemma af_get_set_other:
  "access_file_ok f \<Longrightarrow> sc' \<noteq> sc \<Longrightarrow> af_get (af_set f sc st) sc' = af_get f sc'"
  by (cases sc; cases sc') (auto simp: access_file_ok_def dict_simps split: option.splits)

lemma af_get_set_same:
  "access_file_ok f \<Longrightarrow> scope_known iv f sc \<Longrightarrow> st_access (af_get (af_set f sc st) sc) = st_access st"
  by (cases sc) (auto simp: access_file_ok_def dict_simps or_default_def stored_default_def split: option.splits)

lemma or_default_open: "st_access (or_default x) \<noteq> Closed \<Longrightarrow> \<exists>st. x = Some st"
  by (cases x) (auto simp: or_default_def stored_default_def)

lemma af_all_get: "access_file_ok f \<Longrightarrow> (sc, st) \<in> set (af_all f) \<Longrightarrow> af_get f sc = st"
  unfolding access_file_ok_def af_all_def
  by (auto simp: bt.entries_get or_default_def)

lemma af_get_all: "st_access (af_get f sc) \<noteq> Closed \<Longrightarrow> (sc, af_get f sc) \<in> set (af_all f)"
  unfolding af_all_def
  by (cases sc) (auto simp: or_default_def stored_default_def split: option.splits
      dest: map_of_SomeD intro: rev_image_eqI)

lemma set_af_all:
  assumes "access_file_ok f"
  shows "{(sc, st). (sc, st) \<in> set (af_all f) \<and> st_access st \<noteq> Closed}
    = {(sc, st). st = af_get f sc \<and> st_access st \<noteq> Closed}"
  using af_all_get [OF assms] af_get_all by auto

lemma set_ran_out:
  assumes "access_file_ok (sn_access s)"
  shows "set (ran_out s now) = {sc. closes_at (st_access (af_get (sn_access s) sc)) \<noteq> None
    \<and> \<not> is_open (st_access (af_get (sn_access s) sc)) now}"
proof -
  have nc: "closes_at a \<noteq> None \<Longrightarrow> a \<noteq> Closed" for a by auto
  have "sc \<in> set (ran_out s now) \<longleftrightarrow> closes_at (st_access (af_get (sn_access s) sc)) \<noteq> None
      \<and> \<not> is_open (st_access (af_get (sn_access s) sc)) now" for sc
  proof -
    have "sc \<in> set (ran_out s now) \<longleftrightarrow> (\<exists>st. (sc, st) \<in> set (af_all (sn_access s))
        \<and> closes_at (st_access st) \<noteq> None \<and> \<not> is_open (st_access st) now)"
      by (force simp: ran_out_def)
    then show ?thesis
      using nc
        af_all_get [OF assms, of sc] af_get_all [of "sn_access s" sc] by blast
  qed
  then show ?thesis by blast
qed

text \<open>
  The time the connector reports as the next end is exact: it is the earliest end of
  anything open, so until then nothing that is open closes by itself, and with none
  everything open stays open.
\<close>

theorem next_end_exact:
  assumes "access_file_ok (sn_access s)" and "now \<le> t"
  shows "(\<forall>sc. is_open (st_access (af_get (sn_access s) sc)) now
            \<longrightarrow> is_open (st_access (af_get (sn_access s) sc)) t)
    \<longleftrightarrow> (case next_end s now of None \<Rightarrow> True | Some e \<Rightarrow> t < e)"
proof -
  let ?ends = "filter_map (\<lambda>(_, st). closes_at (st_access st))
    (filter (\<lambda>(_, st). is_open (st_access st) now) (af_all (sn_access s)))"
  have open_closed: "is_open a u \<Longrightarrow> a \<noteq> Closed" for a u by auto
  have ends: "set ?ends = {e. \<exists>sc. is_open (st_access (af_get (sn_access s) sc)) now
      \<and> closes_at (st_access (af_get (sn_access s) sc)) = Some e}"
  proof (intro set_eqI iffI)
    fix e
    assume "e \<in> set ?ends"
    then obtain sc st where "(sc, st) \<in> set (af_all (sn_access s))" "is_open (st_access st) now"
      "closes_at (st_access st) = Some e"
      by (auto simp: set_filter_map)
    then show "e \<in> {e. \<exists>sc. is_open (st_access (af_get (sn_access s) sc)) now
        \<and> closes_at (st_access (af_get (sn_access s) sc)) = Some e}"
      using af_all_get [OF assms(1)] by blast
  next
    fix e
    assume "e \<in> {e. \<exists>sc. is_open (st_access (af_get (sn_access s) sc)) now
        \<and> closes_at (st_access (af_get (sn_access s) sc)) = Some e}"
    then obtain sc where sc: "is_open (st_access (af_get (sn_access s) sc)) now"
      "closes_at (st_access (af_get (sn_access s) sc)) = Some e" by blast
    then have "(sc, af_get (sn_access s) sc) \<in> set (af_all (sn_access s))"
      using open_closed by (intro af_get_all) blast
    with sc show "e \<in> set ?ends" by (auto simp: set_filter_map intro!: bexI)
  qed
  have still: "is_open a now \<Longrightarrow> is_open a t \<longleftrightarrow> (\<forall>e. closes_at a = Some e \<longrightarrow> t < e)" for a
    by (cases "(a, now)" rule: is_open.cases) auto
  have "(\<forall>sc. is_open (st_access (af_get (sn_access s) sc)) now
            \<longrightarrow> is_open (st_access (af_get (sn_access s) sc)) t) \<longleftrightarrow> (\<forall>e \<in> set ?ends. t < e)"
    using still unfolding ends by blast
  also have "\<dots> \<longleftrightarrow> (case iter_min ?ends of None \<Rightarrow> True | Some e \<Rightarrow> t < e)"
    by (auto simp: iter_min_Some_iff split: option.splits)
  finally show ?thesis by (simp add: next_end_def)
qed

section \<open>Consistency of the data directory\<close>

text \<open>What is opened by name is on the list.\<close>

definition consistent :: "inventory \<Rightarrow> access_file \<Rightarrow> bool" where
  "consistent iv f \<longleftrightarrow> (\<forall>n. bt_get (af_devices f) n \<noteq> None \<longrightarrow> inv_device iv n \<noteq> None)
     \<and> (\<forall>n. bt_get (af_groups f) n \<noteq> None \<longrightarrow> has_group iv n)"

definition dir_ok :: "data_dir \<Rightarrow> bool" where
  "dir_ok dir \<longleftrightarrow> (\<forall>iv. load_inventory dir = Inr iv \<longrightarrow> inventory_ok iv)
     \<and> (\<forall>f. load_access dir = Inr f \<longrightarrow> access_file_ok f)
     \<and> (\<forall>iv f. load_inventory dir = Inr iv \<longrightarrow> load_access dir = Inr f \<longrightarrow> consistent iv f)"

lemma dir_okI:
  assumes "\<And>iv. load_inventory dir = Inr iv \<Longrightarrow> inventory_ok iv"
    and "\<And>f. load_access dir = Inr f \<Longrightarrow> access_file_ok f"
    and "\<And>iv f. load_inventory dir = Inr iv \<Longrightarrow> load_access dir = Inr f \<Longrightarrow> consistent iv f"
  shows "dir_ok dir"
  using assms by (auto simp: dir_ok_def)

lemma dir_okD:
  assumes "dir_ok dir"
  shows "load_inventory dir = Inr iv \<Longrightarrow> inventory_ok iv"
    and "load_access dir = Inr f \<Longrightarrow> access_file_ok f"
    and "load_inventory dir = Inr iv \<Longrightarrow> load_access dir = Inr f \<Longrightarrow> consistent iv f"
  using assms by (auto simp: dir_ok_def)

lemma journal_event_frame [simp]:
  "load_inventory (journal_event dir now ev) = load_inventory dir"
  "load_access (journal_event dir now ev) = load_access dir"
  "inventory_json (journal_event dir now ev) = inventory_json dir"
  "access_writable (journal_event dir now ev) = access_writable dir"
  "inventory_writable (journal_event dir now ev) = inventory_writable dir"
  "log_output (dir_journal (journal_event dir now ev)) = log_output (dir_journal dir) @ [\<lparr>at = now, event = ev\<rparr>]"
  by (simp_all add: journal_event_def load_inventory_def load_access_def)

lemma dir_ok_journal [simp]: "dir_ok (journal_event dir now ev) = dir_ok dir"
  by (simp add: dir_ok_def)

lemma load_present [simp]:
  "load_access (dir\<lparr>access_json := Present f\<rparr>) = Inr f"
  "load_inventory (dir\<lparr>access_json := c\<rparr>) = load_inventory dir"
  "load_inventory (dir\<lparr>inventory_json := Present iv\<rparr>) = Inr iv"
  "load_access (dir\<lparr>inventory_json := d\<rparr>) = load_access dir"
  by (simp_all add: load_access_def load_inventory_def)

lemma dir_ok_save_access:
  assumes "dir_ok dir" and "access_file_ok f"
    and "\<And>iv. load_inventory dir = Inr iv \<Longrightarrow> consistent iv f"
  shows "dir_ok (dir\<lparr>access_json := Present f\<rparr>)"
  using assms by (auto simp: dir_ok_def)

lemma dir_ok_save_inventory:
  assumes "dir_ok dir" and "inventory_ok iv"
    and "\<And>f. load_access dir = Inr f \<Longrightarrow> consistent iv f"
  shows "dir_ok (dir\<lparr>inventory_json := Present iv\<rparr>)"
  using assms by (auto simp: dir_ok_def)

lemma save_access_cases:
  obtains "access_writable dir" "save_access dir f = (dir\<lparr>access_json := Present f\<rparr>, Inr ())"
  | "\<not> access_writable dir" "save_access dir f = (dir, Inl Io)"
  by (auto simp: save_access_def)

lemma save_inventory_cases:
  obtains "inventory_writable dir" "save_inventory dir iv = (dir\<lparr>inventory_json := Present iv\<rparr>, Inr ())"
  | "\<not> inventory_writable dir" "save_inventory dir iv = (dir, Inl Io)"
  by (auto simp: save_inventory_def)

lemma consistent_set:
  "consistent iv f \<Longrightarrow> scope_known iv f sc \<Longrightarrow> consistent iv (af_set f sc st)"
  by (cases sc) (auto simp: consistent_def dict_simps split: option.splits if_splits)

subsection \<open>The operations, by outcome\<close>

text \<open>Every outcome of \<open>change\<close>: an error that leaves the directory as it was, or the change.\<close>

lemma change_cases:
  obtains (error) e where "change dir now sc acc by_who = (dir, Inl e)"
  | (changed) iv f where "load_inventory dir = Inr iv" "load_access dir = Inr f" "scope_known iv f sc"
      "access_writable dir"
      "change dir now sc acc by_who =
        (journal_event (dir\<lparr>access_json := Present (af_set f sc \<lparr>st_access = round_access acc,
            changed_by = Some by_who, changed_at = Some (seconds now)\<rparr>)\<rparr>)
          now (change_event (round_access acc) by_who sc), Inr ())"
proof (cases "load_inventory dir")
  case (Inr iv)
  show ?thesis
  proof (cases "load_access dir")
    case f: (Inr f)
    show ?thesis
      using Inr f error changed by (cases "scope_known iv f sc"; cases "access_writable dir")
        (auto simp: change_def save_access_def Let_def)
  qed (use Inr in \<open>auto simp: change_def intro: error\<close>)
qed (auto simp: change_def intro: error)

lemma change_ok [wf_intros]: "dir_ok dir \<Longrightarrow> dir_ok (fst (change dir now sc acc by_who))"
proof (cases rule: change_cases [of dir now sc acc by_who])
  case (changed iv f)
  assume "dir_ok dir"
  with changed show ?thesis
    by (auto intro!: dir_ok_save_access af_set_ok consistent_set dest: dir_okD)
qed auto

lemma approve_ok [wf_intros]: "dir_ok dir \<Longrightarrow> dir_ok (fst (approve dir now rq u by_who))"
  by (auto simp: approve_def save_access_def Let_def consistent_def access_file_ok_def bt_wf
      intro!: dir_ok_save_access dest: dir_okD split: sum.splits if_splits)

lemma consistent_default [simp]: "consistent iv access_file_default"
  by (simp add: consistent_def access_file_default_def)

lemma consistent_add_device:
  "consistent iv f \<Longrightarrow> inv_add_device lower iv d = Inr iv' \<Longrightarrow> consistent iv' f"
  by (auto simp: inv_add_device_def consistent_def inv_device_None split: if_splits option.splits)

lemma add_device_ok [wf_intros]: "dir_ok dir \<Longrightarrow> dir_ok (fst (add_device lower dir now d by_who))"
  by (auto simp: add_device_def save_inventory_def split: sum.splits if_splits
      intro!: dir_ok_save_inventory intro: inv_add_device_ok consistent_add_device dest: dir_okD)

lemma consistent_add_group:
  "consistent iv f \<Longrightarrow> inv_add_group lower iv n = Inr iv' \<Longrightarrow> consistent iv' f"
  by (auto simp: inv_add_group_def consistent_def inv_device_def split: if_splits)

lemma add_group_ok [wf_intros]: "dir_ok dir \<Longrightarrow> dir_ok (fst (add_group lower dir now raw by_who))"
  by (auto simp: add_group_def save_inventory_def split: sum.splits if_splits
      intro!: dir_ok_save_inventory intro: inv_add_group_ok consistent_add_group dest: dir_okD)

lemma refuse_received_ok [wf_intros, simp]:
  "dir_ok (refuse dir now rq by_who) = dir_ok dir" "dir_ok (received dir now rq) = dir_ok dir"
  by (simp_all add: refuse_def received_def)

text \<open>
  Every outcome of \<open>remove_device\<close>: nothing happened; the device is closed but the list could
  not be written; or both are done.
\<close>

lemma remove_device_cases:
  obtains (error) e where "remove_device dir now n by_who = (dir, Inl e)"
  | (half) iv d iv' f where "load_inventory dir = Inr iv" "inv_remove_device iv n = Inr (d, iv')"
      "load_access dir = Inr f"
      "remove_device dir now n by_who = (dir\<lparr>access_json := Present (f\<lparr>af_devices := bt_remove n (af_devices f)\<rparr>)\<rparr>, Inl Io)"
  | (removed) iv d iv' f where "load_inventory dir = Inr iv" "inv_remove_device iv n = Inr (d, iv')"
      "load_access dir = Inr f"
      "remove_device dir now n by_who = (journal_event (dir\<lparr>access_json := Present (f\<lparr>af_devices := bt_remove n (af_devices f)\<rparr>),
         inventory_json := Present iv'\<rparr>) now (DeviceRemoved by_who n), Inr ())"
proof (cases "load_inventory dir")
  case iv: (Inr iv)
  show ?thesis
  proof (cases "inv_remove_device iv n")
    case r: (Inr p)
    obtain d iv' where p: "p = (d, iv')" by (cases p)
    show ?thesis
    proof (cases "load_access dir")
      case f: (Inr f)
      show ?thesis
      proof (cases "access_writable dir"; cases "inventory_writable dir")
        assume "access_writable dir" "inventory_writable dir"
        then show ?thesis using iv r p f by (intro removed)
            (simp_all add: remove_device_def save_access_def save_inventory_def)
      next
        assume "access_writable dir" "\<not> inventory_writable dir"
        then show ?thesis using iv r p f by (intro half)
            (simp_all add: remove_device_def save_access_def save_inventory_def)
      qed (use iv r p f in \<open>auto simp: remove_device_def save_access_def intro: error\<close>)
    qed (use iv r p in \<open>auto simp: remove_device_def intro: error\<close>)
  qed (use iv in \<open>auto simp: remove_device_def intro: error\<close>)
qed (auto simp: remove_device_def intro: error)

lemma remove_device_file_ok:
  "access_file_ok f \<Longrightarrow> access_file_ok (f\<lparr>af_devices := bt_remove n (af_devices f)\<rparr>)"
  by (simp add: access_file_ok_def bt_wf)

lemma consistent_remove_device:
  assumes "consistent iv f" and "access_file_ok f"
  shows "consistent iv (f\<lparr>af_devices := bt_remove n (af_devices f)\<rparr>)"
    and "inventory_ok iv \<Longrightarrow> inv_remove_device iv n = Inr (d, iv') \<Longrightarrow>
      consistent iv' (f\<lparr>af_devices := bt_remove n (af_devices f)\<rparr>)"
proof -
  show "consistent iv (f\<lparr>af_devices := bt_remove n (af_devices f)\<rparr>)"
    using assms by (auto simp: consistent_def access_file_ok_def dict_simps)
  assume ok: "inventory_ok iv" and r: "inv_remove_device iv n = Inr (d, iv')"
  then have "inv_groups iv' = inv_groups iv"
    by (auto simp: inv_remove_device_def split: option.splits)
  then show "consistent iv' (f\<lparr>af_devices := bt_remove n (af_devices f)\<rparr>)"
    using assms inv_remove_device_lookup [OF ok r]
    by (auto simp: consistent_def access_file_ok_def dict_simps)
qed

lemma remove_device_ok [wf_intros]: "dir_ok dir \<Longrightarrow> dir_ok (fst (remove_device dir now n by_who))"
proof (cases rule: remove_device_cases [of dir now n by_who])
  case (half iv d iv' f)
  assume "dir_ok dir"
  with half show ?thesis
    by (auto intro!: dir_ok_save_access remove_device_file_ok consistent_remove_device(1) dest: dir_okD)
next
  case (removed iv d iv' f)
  assume ok: "dir_ok dir"
  let ?f = "f\<lparr>af_devices := bt_remove n (af_devices f)\<rparr>"
  have "dir_ok (dir\<lparr>access_json := Present ?f\<rparr>)"
    using ok removed
    by (auto intro!: dir_ok_save_access remove_device_file_ok consistent_remove_device(1) dest: dir_okD)
  then have "dir_ok (dir\<lparr>access_json := Present ?f\<rparr>\<lparr>inventory_json := Present iv'\<rparr>)"
  proof (rule dir_ok_save_inventory)
    show "inventory_ok iv'"
      using removed dir_okD(1) [OF ok] by (auto intro: inv_remove_device_ok)
    fix g
    assume "load_access (dir\<lparr>access_json := Present ?f\<rparr>) = Inr g"
    then show "consistent iv' g"
      using removed consistent_remove_device(2) [of iv f n d iv'] dir_okD [OF ok] by auto
  qed
  with removed show ?thesis by simp
qed auto

lemma consistent_remove_group:
  assumes "consistent iv f" and "access_file_ok f"
  shows "consistent iv (f\<lparr>af_groups := bt_remove n (af_groups f)\<rparr>)"
    and "inv_remove_group iv n = Inr iv' \<Longrightarrow> consistent iv' (f\<lparr>af_groups := bt_remove n (af_groups f)\<rparr>)"
  using assms
  by (auto simp: consistent_def access_file_ok_def dict_simps inv_remove_group_def inv_device_None
      image_image split: if_splits)

lemma remove_group_file_ok:
  "access_file_ok f \<Longrightarrow> access_file_ok (f\<lparr>af_groups := bt_remove n (af_groups f)\<rparr>)"
  by (simp add: access_file_ok_def bt_wf)

lemma remove_group_ok [wf_intros]: "dir_ok dir \<Longrightarrow> dir_ok (fst (remove_group dir now n by_who))"
proof -
  assume ok: "dir_ok dir"
  have "dir_ok (dir\<lparr>access_json := Present (f\<lparr>af_groups := bt_remove n (af_groups f)\<rparr>)\<rparr>)"
    if "load_access dir = Inr f" for f
    using ok that by (auto intro!: dir_ok_save_access remove_group_file_ok consistent_remove_group(1) dest: dir_okD)
  moreover have "dir_ok (dir\<lparr>access_json := Present (f\<lparr>af_groups := bt_remove n (af_groups f)\<rparr>)\<rparr>\<lparr>inventory_json := Present iv'\<rparr>)"
    if "load_access dir = Inr f" "load_inventory dir = Inr iv" "inv_remove_group iv n = Inr iv'" for f iv iv'
    using ok that by (intro dir_ok_save_inventory)
      (auto intro: calculation consistent_remove_group(2) inv_remove_group_ok dest: dir_okD)
  ultimately show ?thesis
    using ok by (auto simp: remove_group_def save_access_def save_inventory_def split: sum.splits if_splits)
qed

subsection \<open>Everything that happens to a directory\<close>

text \<open>
  One step: an operation of the web interface or the command line at some time, with any
  arguments and any outcome, or a change of what can be written.
\<close>

inductive dir_step :: "(string \<Rightarrow> string) \<Rightarrow> data_dir \<Rightarrow> data_dir \<Rightarrow> bool" for lower where
  changing: "dir_step lower dir (fst (change dir now sc acc by_who))"
| approving: "dir_step lower dir (fst (approve dir now rq u by_who))"
| refusing: "dir_step lower dir (refuse dir now rq by_who)"
| receiving: "dir_step lower dir (received dir now rq)"
| adding_device: "dir_step lower dir (fst (add_device lower dir now d by_who))"
| removing_device: "dir_step lower dir (fst (remove_device dir now n by_who))"
| adding_group: "dir_step lower dir (fst (add_group lower dir now n by_who))"
| removing_group: "dir_step lower dir (fst (remove_group dir now n by_who))"
| permissions: "dir_step lower dir (dir\<lparr>access_writable := a, inventory_writable := b\<rparr>)"

definition fresh_dir :: "journal \<Rightarrow> data_dir" where
  "fresh_dir j = \<lparr>access_json = Missing, inventory_json = Missing, access_writable = True,
     inventory_writable = True, dir_journal = j\<rparr>"

lemma dir_step_ok: "dir_step lower dir dir' \<Longrightarrow> dir_ok dir \<Longrightarrow> dir_ok dir'"
proof (induction rule: dir_step.induct)
  case (permissions dir a b)
  then show ?case by (simp add: dir_ok_def load_inventory_def load_access_def)
qed (simp_all add: wf_intros)

interpretation dirs: machine "dir_step lower" dir_ok for lower
  by unfold_locales (rule dir_step_ok)

lemma fresh_dir_ok: "dir_ok (fresh_dir j)"
  by (simp add: dir_ok_def fresh_dir_def load_inventory_def load_access_def inventory_ok_def
      inventory_default_def)

text \<open>
  C15: The data directory stays consistent through any sequence of operations, also when a
  save fails halfway: names on the list are unique, every device has ports and only groups of
  the list, and nothing is stored as opened for a device or group that is not on the list.
\<close>

theorem dir_reachable_ok:
  assumes "(dir_step lower)\<^sup>*\<^sup>* (fresh_dir j) dir"
  shows "dir_ok dir"
  using assms fresh_dir_ok by (rule dirs.reachable_good)

theorem dir_reachable_ok_witness:
  "dir_ok (fst (change (fresh_dir sample_journal) 7 Network (Open None) CommandLine))"
  by (rule dir_reachable_ok [of id sample_journal]) (rule r_into_rtranclp, rule dir_step.changing)

text \<open>
  A change of access does exactly what it says: it fails and leaves the directory as it
  was, or it stores the requested access (to whole seconds) for its scope, leaves every other
  scope and the list alone, and appends the one event that describes it to the journal. A
  device or group that is not on the list is never opened.
\<close>

theorem change_exact:
  assumes "dir_ok dir" and "change dir now sc acc by_who = (dir', r)"
  shows "(\<exists>e. r = Inl e \<and> dir' = dir) \<or>
    (r = Inr () \<and> inventory_json dir' = inventory_json dir
      \<and> log_output (dir_journal dir') = log_output (dir_journal dir)
          @ [\<lparr>at = now, event = change_event (round_access acc) by_who sc\<rparr>]
      \<and> (\<exists>iv f f'. load_inventory dir = Inr iv \<and> load_access dir = Inr f \<and> load_access dir' = Inr f'
          \<and> scope_known iv f sc
          \<and> st_access (af_get f' sc) = round_access acc
          \<and> (\<forall>sc'. sc' \<noteq> sc \<longrightarrow> af_get f' sc' = af_get f sc')))"
proof (cases rule: change_cases [of dir now sc acc by_who])
  case (changed iv f)
  have "access_file_ok f" using dir_okD(2) [OF assms(1)] changed by blast
  with changed assms(2) show ?thesis
    by (auto simp: af_get_set_other af_get_set_same)
qed (use assms(2) in auto)

theorem change_exact_witness:
  "(\<exists>e. snd (change (fresh_dir sample_journal) 7 Network (Open None) CommandLine) = Inl e
      \<and> fst (change (fresh_dir sample_journal) 7 Network (Open None) CommandLine) = fresh_dir sample_journal) \<or>
   (\<exists>f'. load_access (fst (change (fresh_dir sample_journal) 7 Network (Open None) CommandLine)) = Inr f'
      \<and> st_access (af_get f' Network) = Open None)"
  using change_exact [OF fresh_dir_ok, of sample_journal 7 Network "Open None" CommandLine
      "fst (change (fresh_dir sample_journal) 7 Network (Open None) CommandLine)"
      "snd (change (fresh_dir sample_journal) 7 Network (Open None) CommandLine)"]
  by auto

text \<open>
  Removing a device never leaves it open: whatever fails, either nothing changed or the
  device's own access is closed; and when it succeeds the device is off the list, no open
  device has its name, and the journal says who removed it.
\<close>

theorem remove_device_closes:
  assumes "dir_ok dir" and "remove_device dir now n by_who = (dir', r)"
  shows "(dir' = dir \<or>
      (\<exists>f'. load_access dir' = Inr f' \<and> af_get f' (DeviceScope n) = stored_default))
    \<and> (r = Inr () \<longrightarrow> (\<exists>s. load dir' = Inr s \<and> inv_device (sn_inventory s) n = None
      \<and> (\<forall>t. n \<notin> dev_name ` set (open_devices s t))
      \<and> log_output (dir_journal dir') = log_output (dir_journal dir) @ [\<lparr>at = now, event = DeviceRemoved by_who n\<rparr>]))"
proof (intro conjI impI)
  have closed: "bt_get (bt_remove n (af_devices f)) n = None" if "load_access dir = Inr f" for f
    using dir_okD(2) [OF assms(1) that] by (simp add: access_file_ok_def dict_simps)
  show "dir' = dir \<or> (\<exists>f'. load_access dir' = Inr f' \<and> af_get f' (DeviceScope n) = stored_default)"
    using assms(2) closed
    by (cases rule: remove_device_cases [of dir now n by_who]) (auto simp: or_default_def)
  assume r: "r = Inr ()"
  show "\<exists>s. load dir' = Inr s \<and> inv_device (sn_inventory s) n = None
      \<and> (\<forall>t. n \<notin> dev_name ` set (open_devices s t))
      \<and> log_output (dir_journal dir') = log_output (dir_journal dir) @ [\<lparr>at = now, event = DeviceRemoved by_who n\<rparr>]"
  proof (cases rule: remove_device_cases [of dir now n by_who])
    case (removed iv d iv' f)
    then have "inv_device iv' n = None"
      using inv_remove_device_lookup [of iv n d iv' n] dir_okD(1) [OF assms(1)] by simp
    with removed assms(2) show ?thesis
      by (auto simp: load_def inv_device_None open_devices_def)
  qed (use assms(2) r in auto)
qed

abbreviation approval :: "customer_request \<Rightarrow> instant \<Rightarrow> instant \<Rightarrow> changer \<Rightarrow> access_grant" where
  "approval rq now end_at by_who \<equiv> \<lparr>gr_requester = requester rq, gr_reason = reason rq, gr_targets = targets rq,
    gr_stored = \<lparr>st_access = Open (Some end_at), changed_by = Some by_who, changed_at = Some (seconds now)\<rparr>\<rparr>"

lemma approve_Inr:
  assumes "approve dir now rq u by_who = (dir', Inr ())"
  obtains f where "load_access dir = Inr f"
    "load_access dir' = Inr (f\<lparr>af_requests := bt_insert (req_id rq) (approval rq now (seconds u) by_who) (af_requests f)\<rparr>)"
proof -
  from assms obtain f where f: "load_access dir = Inr f" and "access_writable dir"
    by (auto simp: approve_def save_access_def Let_def split: sum.splits if_splits)
  then show ?thesis
    using assms that by (auto simp: approve_def save_access_def Let_def split: if_splits)
qed

text \<open>
  Approving a request opens exactly that request, until the given second, and nothing
  else: every other scope keeps its access, and the request counts as open at a time exactly
  if that time is before its end.
\<close>

theorem approve_opens_request_only:
  assumes "dir_ok dir" and "approve dir now rq u by_who = (dir', Inr ())"
  shows "\<exists>f f'. load_access dir = Inr f \<and> load_access dir' = Inr f'
    \<and> (\<forall>sc. sc \<noteq> RequestScope (req_id rq) \<longrightarrow> af_get f' sc = af_get f sc)
    \<and> (\<forall>t iv. (\<exists>g. (req_id rq, g) \<in> set (open_requests \<lparr>sn_access = f', sn_inventory = iv\<rparr> t)
          \<and> gr_targets g = targets rq) \<longleftrightarrow> t < seconds u)"
proof -
  let ?g = "approval rq now (seconds u) by_who"
  from approve_Inr [OF assms(2)] obtain f where f: "load_access dir = Inr f"
    and l: "load_access dir' = Inr (f\<lparr>af_requests := bt_insert (req_id rq) ?g (af_requests f)\<rparr>)" .
  let ?f = "f\<lparr>af_requests := bt_insert (req_id rq) ?g (af_requests f)\<rparr>"
  have ok: "bt_ok (af_requests f)" using dir_okD(2) [OF assms(1) f] by (simp add: access_file_ok_def)
  have "sc \<noteq> RequestScope (req_id rq) \<Longrightarrow> af_get ?f sc = af_get f sc" for sc
    by (cases sc) (auto simp: dict_simps)
  moreover have "(req_id rq, g) \<in> set (af_requests ?f) \<longleftrightarrow> g = ?g" for g
    using bt.entries_put [OF ok] by auto
  ultimately show ?thesis
    using f l by (auto simp: open_requests_def)
qed

definition sample_device :: device where
  "sample_device = \<lparr>dev_name = ''nas'', dev_address = Host ''nas'', dev_ports = [\<lparr>first = 22, last_port = 22\<rparr>],
     dev_groups = [''lab'']\<rparr>"

definition sample_inventory :: inventory where
  "sample_inventory = \<lparr>inv_devices = [sample_device], inv_groups = [''lab'']\<rparr>"

definition sample_access :: access_file where
  "sample_access = access_file_default\<lparr>
     af_devices := [(''nas'', \<lparr>st_access = Open (Some 10), changed_by = None, changed_at = None\<rparr>)],
     af_groups := [(''lab'', \<lparr>st_access = Open (Some 20), changed_by = None, changed_at = None\<rparr>)]\<rparr>"

definition sample_dir :: data_dir where
  "sample_dir = (fresh_dir sample_journal)\<lparr>inventory_json := Present sample_inventory,
     access_json := Present sample_access\<rparr>"

definition sample_snapshot :: snapshot where
  "sample_snapshot = \<lparr>sn_access = sample_access, sn_inventory = sample_inventory\<rparr>"

definition sample_request :: customer_request where
  "sample_request = \<lparr>req_id = 5, requester = ''alice'', reason = ''update'', minutes = 60,
     targets = [\<lparr>target_name = ''nas'', target_host = ''nas'', target_port = 22\<rparr>]\<rparr>"

lemmas access_sample_defs = sample_device_def sample_inventory_def sample_access_def sample_dir_def
  sample_snapshot_def sample_request_def access_file_default_def stored_default_def

lemma sample_access_ok: "access_file_ok sample_access"
  by (simp add: access_file_ok_def access_sample_defs bt_ok_def)

lemma sample_dir_ok: "dir_ok sample_dir"
proof (rule dir_okI)
  have loads: "load_inventory sample_dir = Inr sample_inventory" "load_access sample_dir = Inr sample_access"
    by (simp_all add: sample_dir_def load_inventory_def load_access_def)
  show "inventory_ok iv" if "load_inventory sample_dir = Inr iv" for iv
    using that loads by (auto simp: inventory_ok_def access_sample_defs)
  show "access_file_ok f" if "load_access sample_dir = Inr f" for f
    using that loads sample_access_ok by simp
  show "consistent iv f" if "load_inventory sample_dir = Inr iv" "load_access sample_dir = Inr f" for iv f
    using that loads by (auto simp: consistent_def inv_device_None access_sample_defs split: if_splits)
qed

theorem device_until_latest_witness:
  "device_until sample_snapshot sample_device 5 = Some (Some 20)
    \<and> (\<exists>a. is_open a 5 \<and> closes_at a = Some 20)"
proof -
  have u: "device_until sample_snapshot sample_device 5 = Some (Some 20)"
    by (simp add: device_until_def device_scopes_def access_sample_defs or_default_def)
  show ?thesis
    using device_until_latest [of sample_snapshot sample_device 5] u by auto
qed

theorem next_end_exact_witness:
  "(\<forall>sc. is_open (st_access (af_get (sn_access sample_snapshot) sc)) 5
            \<longrightarrow> is_open (st_access (af_get (sn_access sample_snapshot) sc)) 9)
    \<longleftrightarrow> (case next_end sample_snapshot 5 of None \<Rightarrow> True | Some e \<Rightarrow> 9 < e)"
  by (rule next_end_exact) (simp_all add: sample_access_ok sample_snapshot_def)

theorem remove_device_closes_witness:
  "\<exists>dir' r. remove_device sample_dir 3 ''nas'' CommandLine = (dir', r) \<and>
    (dir' = sample_dir \<or> (\<exists>f'. load_access dir' = Inr f' \<and> af_get f' (DeviceScope ''nas'') = stored_default))"
  using remove_device_closes [OF sample_dir_ok, of 3 "''nas''" CommandLine] by (metis surj_pair)

theorem approve_opens_request_only_witness:
  "\<exists>f f'. load_access sample_dir = Inr f \<and>
    load_access (fst (approve sample_dir 3 sample_request 4000000000 (Web ''bob''))) = Inr f'
    \<and> af_get f' Network = af_get f Network"
proof -
  have "approve sample_dir 3 sample_request 4000000000 (Web ''bob'')
      = (fst (approve sample_dir 3 sample_request 4000000000 (Web ''bob'')), Inr ())"
    by (simp add: approve_def sample_dir_def fresh_dir_def load_access_def save_access_def Let_def)
  from approve_opens_request_only [OF sample_dir_ok this] show ?thesis by blast
qed

section \<open>Closing what ran out\<close>

text \<open>The gate's snapshot is what the files hold, and the files can be written.\<close>

definition gate_ready :: "gate \<Rightarrow> bool" where
  "gate_ready g \<longleftrightarrow> dir_ok (gate_dir g) \<and> access_writable (gate_dir g) \<and> load (gate_dir g) = Inr (gate_state g)"

abbreviation expired_stored :: "instant \<Rightarrow> stored" where
  "expired_stored now \<equiv> \<lparr>st_access = Closed, changed_by = Some Expiry, changed_at = Some (seconds now)\<rparr>"

lemma load_Inr: "load dir = Inr s \<longleftrightarrow> load_access dir = Inr (sn_access s) \<and> load_inventory dir = Inr (sn_inventory s)"
  by (cases s) (auto simp: load_def split: sum.splits)

lemma gate_set_expiry:
  fixes now
  assumes "gate_ready g" and "scope_known (sn_inventory (gate_state g)) (sn_access (gate_state g)) sc"
  defines "h \<equiv> fst (gate_set g now sc Closed Expiry)"
  shows "gate_ready h \<and> sn_inventory (gate_state h) = sn_inventory (gate_state g)
    \<and> sn_access (gate_state h) = af_set (sn_access (gate_state g)) sc (expired_stored now)"
proof -
  let ?dir = "journal_event ((gate_dir g)\<lparr>access_json := Present (af_set (sn_access (gate_state g)) sc (expired_stored now))\<rparr>)
    now (Expired sc)"
  have c: "change (gate_dir g) now sc Closed Expiry = (?dir, Inr ())"
    using assms(1,2) by (simp add: gate_ready_def load_Inr change_def save_access_def)
  then have ok: "dir_ok ?dir"
    using change_ok [of "gate_dir g" now sc Closed Expiry] assms(1) by (simp add: gate_ready_def)
  have "load ?dir = Inr \<lparr>sn_access = af_set (sn_access (gate_state g)) sc (expired_stored now),
      sn_inventory = sn_inventory (gate_state g)\<rparr>"
    using assms(1) by (simp add: gate_ready_def load_Inr)
  then show ?thesis
    using c ok assms(1) by (simp add: h_def gate_set_def gate_reload_def gate_ready_def)
qed

lemma known_after_set:
  "access_file_ok f \<Longrightarrow> sc' \<noteq> sc \<Longrightarrow> scope_known iv f sc' \<Longrightarrow> scope_known iv (af_set f sc st) sc'"
  by (cases sc; cases sc') (auto simp: access_file_ok_def dict_simps split: option.splits)

lemma gate_expire_all:
  fixes now
  assumes "gate_ready g" and "distinct scs"
    and "\<forall>sc \<in> set scs. scope_known (sn_inventory (gate_state g)) (sn_access (gate_state g)) sc"
  defines "h \<equiv> fold (\<lambda>sc h. fst (gate_set h now sc Closed Expiry)) scs g"
  shows "gate_ready h \<and> sn_inventory (gate_state h) = sn_inventory (gate_state g)
    \<and> (\<forall>sc. if sc \<in> set scs then st_access (af_get (sn_access (gate_state h)) sc) = Closed
             else af_get (sn_access (gate_state h)) sc = af_get (sn_access (gate_state g)) sc)"
  using assms(1-3) unfolding h_def
proof (induction scs arbitrary: g)
  case (Cons sc scs)
  let ?g = "fst (gate_set g now sc Closed Expiry)"
  let ?f = "sn_access (gate_state g)"
  have fok: "access_file_ok ?f"
    using Cons.prems(1) by (auto simp: gate_ready_def load_Inr dest: dir_okD)
  have g: "gate_ready ?g" "sn_inventory (gate_state ?g) = sn_inventory (gate_state g)"
    "sn_access (gate_state ?g) = af_set ?f sc (expired_stored now)"
    using gate_set_expiry [OF Cons.prems(1), of sc now] Cons.prems(3) by auto
  have "\<forall>sc' \<in> set scs. scope_known (sn_inventory (gate_state ?g)) (sn_access (gate_state ?g)) sc'"
    using Cons.prems(2,3) fok by (auto simp: g intro!: known_after_set)
  from Cons.IH [OF g(1) _ this] Cons.prems(2) show ?case
    using g fok Cons.prems(3) by (auto simp: af_get_set_other af_get_set_same)
qed simp

lemma distinct_af_all: "access_file_ok f \<Longrightarrow> distinct (map fst (af_all f))"
proof -
  assume ok: "access_file_ok f"
  have inj: "inj DeviceScope" "inj GroupScope" "inj RequestScope" by (auto intro: injI)
  have keys: "map fst (af_all f) = Network # map DeviceScope (map fst (af_devices f))
      @ map GroupScope (map fst (af_groups f)) @ map RequestScope (map fst (af_requests f))"
    by (simp add: af_all_def case_prod_beta comp_def)
  have "distinct (map fst (af_devices f))" "distinct (map fst (af_groups f))" "distinct (map fst (af_requests f))"
    using ok by (simp_all add: access_file_ok_def bt_ok_distinct)
  then show ?thesis
    unfolding keys by (auto simp: distinct_map_inj inj simp del: map_map)
qed

lemma distinct_ran_out: "access_file_ok (sn_access s) \<Longrightarrow> distinct (ran_out s now)"
  unfolding ran_out_def by (rule distinct_map_filter) (rule distinct_af_all)

lemma ran_out_known:
  assumes "access_file_ok (sn_access s)" and "consistent (sn_inventory s) (sn_access s)"
    and "sc \<in> set (ran_out s now)"
  shows "scope_known (sn_inventory s) (sn_access s) sc"
proof -
  have "closes_at (st_access (af_get (sn_access s) sc)) \<noteq> None"
    using assms(3) set_ran_out [OF assms(1)] by blast
  then have "st_access (af_get (sn_access s) sc) \<noteq> Closed" by auto
  then show ?thesis
    using assms(2) by (cases sc) (auto simp: consistent_def dest!: or_default_open)
qed

text \<open>
  One turn of the connector's loop closes everything whose time ran out and touches
  nothing else: with readable and writable files, afterwards nothing is left that ran out,
  each scope that had run out is closed, every other scope keeps its access, the list is the
  same, and the gate shows what the files hold.
\<close>

theorem follow_tick_closes:
  assumes "dir_ok (gate_dir g)" and "access_writable (gate_dir g)" and "load (gate_dir g) = Inr s"
  shows "load (gate_dir (follow_tick g now)) = Inr (gate_state (follow_tick g now))
    \<and> ran_out (gate_state (follow_tick g now)) now = []
    \<and> sn_inventory (gate_state (follow_tick g now)) = sn_inventory s
    \<and> (\<forall>sc. if sc \<in> set (ran_out s now)
        then st_access (af_get (sn_access (gate_state (follow_tick g now))) sc) = Closed
        else af_get (sn_access (gate_state (follow_tick g now))) sc = af_get (sn_access s) sc)"
proof -
  let ?g = "gate_reload g"
  have g: "gate_ready ?g" "gate_state ?g = s"
    using assms by (simp_all add: gate_reload_def gate_ready_def)
  have ok: "access_file_ok (sn_access s)" "consistent (sn_inventory s) (sn_access s)"
    using assms(1,3) by (auto simp: load_Inr dest: dir_okD)
  have e: "gate_ready (follow_tick g now) \<and> sn_inventory (gate_state (follow_tick g now)) = sn_inventory s
    \<and> (\<forall>sc. if sc \<in> set (ran_out s now)
        then st_access (af_get (sn_access (gate_state (follow_tick g now))) sc) = Closed
        else af_get (sn_access (gate_state (follow_tick g now))) sc = af_get (sn_access s) sc)"
    unfolding follow_tick_def Let_def g(2)
    using gate_expire_all [OF g(1), of "ran_out s now" now] distinct_ran_out [OF ok(1)]
      ran_out_known [OF ok] g(2) by simp
  then have ok': "access_file_ok (sn_access (gate_state (follow_tick g now)))"
    by (auto simp: gate_ready_def load_Inr dest: dir_okD)
  have "sc \<notin> set (ran_out (gate_state (follow_tick g now)) now)" for sc
    using e set_ran_out [OF ok', of now] set_ran_out [OF ok(1), of now]
    by (cases "sc \<in> set (ran_out s now)") (auto split: if_splits)
  then have "ran_out (gate_state (follow_tick g now)) now = []"
    by (metis list.set_intros(1) neq_Nil_conv)
  then show ?thesis using e by (simp add: gate_ready_def)
qed

theorem follow_tick_closes_witness:
  "ran_out (gate_state (follow_tick \<lparr>gate_dir = sample_dir, gate_state = sample_snapshot\<rparr> 15)) 15 = []"
  using follow_tick_closes [of "\<lparr>gate_dir = sample_dir, gate_state = sample_snapshot\<rparr>" sample_snapshot 15]
    sample_dir_ok
  by (simp add: load_Inr sample_dir_def sample_snapshot_def fresh_dir_def load_access_def load_inventory_def)

end
