(* ===== verification/Requests.thy ===== *)
theory Requests
  imports Access
begin

text \<open>
  Requests for access from remotehub, \<^verbatim>\<open>crates/connector/src/requests.rs\<close> with the limits of
  \<^verbatim>\<open>protocol.rs\<close>: the strict reading of remotehub's answer, the texts it may contain, and the
  list of requests and answers the connector keeps. The JSON reader is the parameter
  \<open>from_json\<close>.
\<close>

section \<open>Limits\<close>

definition MAX_PENDING_BYTES :: nat where "MAX_PENDING_BYTES = 64 * 1024"
definition MAX_REQUESTS :: nat where "MAX_REQUESTS = 20"
definition MAX_TARGETS :: nat where "MAX_TARGETS = 20"
definition MAX_REASON :: nat where "MAX_REASON = 500"
definition MAX_NAME :: nat where "MAX_NAME = 200"

definition MINUTES :: "nat \<Rightarrow> bool" where
  "MINUTES m \<longleftrightarrow> 15 \<le> m \<and> m \<le> 1440"

section \<open>Texts\<close>

text \<open>Characters that change the direction of text or take no space.\<close>

definition hidden :: "nat \<Rightarrow> bool" where
  "hidden c \<longleftrightarrow> c = 0x061C \<or> (0x200B \<le> c \<and> c \<le> 0x200F) \<or> (0x202A \<le> c \<and> c \<le> 0x202E)
     \<or> (0x2060 \<le> c \<and> c \<le> 0x2069) \<or> c = 0xFEFF"

definition plain :: "string \<Rightarrow> nat \<Rightarrow> bool" where
  "plain text longest \<longleftrightarrow>
     (let cs = chars text
      in 1 \<le> length cs \<and> length cs \<le> longest \<and> \<not> list_ex (\<lambda>c. is_control c \<or> hidden c) cs)"

definition readable :: "string \<Rightarrow> nat \<Rightarrow> string" where
  "readable text longest =
     (let cs = take longest (map (\<lambda>c. if is_control c \<or> hidden c then 0xFFFD else c) (chars (trim text)))
      in if cs = [] then from_chars [0xFFFD] else from_chars cs)"

definition host_label :: "string \<Rightarrow> bool" where
  "host_label label \<longleftrightarrow> 1 \<le> length label \<and> length label \<le> 63
     \<and> list_all (\<lambda>c. is_ascii_alphanumeric c \<or> c = CHR ''-'') label
     \<and> \<not> starts_with label ''-'' \<and> \<not> ends_with label ''-''"

definition host :: "string \<Rightarrow> bool" where
  "host text \<longleftrightarrow> parse_ip text \<noteq> None
     \<or> (1 \<le> length text \<and> length text \<le> 253 \<and> list_all host_label (split_on CHR ''.'' text))"

section \<open>Reading remotehub's answer\<close>

datatype requests_error =
    TooLong
  | Malformed string
  | TooMany
  | Twice uuid
  | Invalid uuid string

fun check_targets :: "uuid \<Rightarrow> request_target list \<Rightarrow> requests_error + unit" where
  "check_targets i [] = Inr ()"
| "check_targets i (t # ts) =
     (if \<not> plain (target_name t) MAX_NAME then Inl (Invalid i ''target name'')
      else if \<not> host (target_host t) then Inl (Invalid i ''target host'')
      else if target_port t = 0 then Inl (Invalid i ''target port'')
      else check_targets i ts)"

fun check_requests :: "uuid set \<Rightarrow> customer_request list \<Rightarrow> requests_error + unit" where
  "check_requests seen [] = Inr ()"
| "check_requests seen (r # rs) =
     (if req_id r \<in> seen then Inl (Twice (req_id r))
      else if \<not> plain (requester r) MAX_NAME then Inl (Invalid (req_id r) ''requester'')
      else if \<not> plain (reason r) MAX_REASON then Inl (Invalid (req_id r) ''reason'')
      else if \<not> MINUTES (minutes r) then Inl (Invalid (req_id r) ''minutes'')
      else if targets r = [] \<or> length (targets r) > MAX_TARGETS then Inl (Invalid (req_id r) ''targets'')
      else case check_targets (req_id r) (targets r) of
             Inl e \<Rightarrow> Inl e
           | Inr _ \<Rightarrow> check_requests (insert (req_id r) seen) rs)"

definition requests_parse ::
  "(string \<Rightarrow> string + customer_request list) \<Rightarrow> string \<Rightarrow> requests_error + customer_request list" where
  "requests_parse from_json bytes =
     (if length bytes > MAX_PENDING_BYTES then Inl TooLong
      else case from_json bytes of
             Inl e \<Rightarrow> Inl (Malformed e)
           | Inr pending \<Rightarrow>
               if length pending > MAX_REQUESTS then Inl TooMany
               else case check_requests {} pending of Inl e \<Rightarrow> Inl e | Inr _ \<Rightarrow> Inr pending)"

section \<open>The list of requests\<close>

record answer =
  ans_id :: uuid
  approved :: bool
  ans_by :: string
  ans_until :: "string option"

record requests_state =
  rs_listed :: "customer_request list"
  rs_answers :: "answer list"

definition listed :: "requests_state \<Rightarrow> customer_request list \<Rightarrow> requests_state \<times> customer_request list" where
  "listed st rqs =
     (let known = set (map req_id (rs_listed st));
          new = filter (\<lambda>r. req_id r \<notin> known) rqs;
          ids = set (map req_id rqs)
      in (\<lparr>rs_listed = rqs, rs_answers = filter (\<lambda>a. ans_id a \<in> ids) (rs_answers st)\<rparr>, new))"

definition waiting :: "requests_state \<Rightarrow> customer_request list" where
  "waiting st = filter (\<lambda>r. \<not> list_ex (\<lambda>a. ans_id a = req_id r) (rs_answers st)) (rs_listed st)"

definition request_get :: "requests_state \<Rightarrow> uuid \<Rightarrow> customer_request option" where
  "request_get st i = find (\<lambda>r. req_id r = i) (waiting st)"

definition answers :: "requests_state \<Rightarrow> answer list" where
  "answers st = rs_answers st"

definition answer_request :: "requests_state \<Rightarrow> answer \<Rightarrow> requests_state" where
  "answer_request st a = st\<lparr>rs_answers := rs_answers st @ [a]\<rparr>"

section \<open>What an accepted answer satisfies\<close>

definition target_wf :: "request_target \<Rightarrow> bool" where
  "target_wf t \<longleftrightarrow> plain (target_name t) MAX_NAME \<and> host (target_host t) \<and> target_port t \<noteq> 0"

definition request_wf :: "customer_request \<Rightarrow> bool" where
  "request_wf r \<longleftrightarrow> plain (requester r) MAX_NAME \<and> plain (reason r) MAX_REASON \<and> MINUTES (minutes r)
     \<and> targets r \<noteq> [] \<and> length (targets r) \<le> MAX_TARGETS \<and> (\<forall>t \<in> set (targets r). target_wf t)"

lemma check_targets_iff: "check_targets i ts = Inr () \<longleftrightarrow> (\<forall>t \<in> set ts. target_wf t)"
  by (induction i ts rule: check_targets.induct) (auto simp: target_wf_def)

lemma check_requests_iff:
  "check_requests seen rs = Inr () \<longleftrightarrow>
     distinct (map req_id rs) \<and> (\<forall>r \<in> set rs. req_id r \<notin> seen \<and> request_wf r)"
proof (induction rs arbitrary: seen)
  case (Cons r rs)
  have "check_requests seen (r # rs) = Inr () \<longleftrightarrow> req_id r \<notin> seen \<and> request_wf r
      \<and> check_requests (insert (req_id r) seen) rs = Inr ()"
    by (auto simp: request_wf_def bind_unit_Inr_iff check_targets_iff not_less)
  then show ?case unfolding Cons.IH by (auto simp: image_iff)
qed simp

text \<open>
  C16: remotehub's answer is taken whole or not at all, and only within its limits: it is
  accepted exactly if it is at most 64 KiB of the expected JSON with at most 20 requests, no
  two with one id, each with a plain requester and reason, 15 to 1440 minutes and 1 to 20
  targets that have a plain name, an address or host name, and a port.
\<close>

theorem requests_parse_iff:
  "requests_parse from_json bytes = Inr rs \<longleftrightarrow>
     length bytes \<le> MAX_PENDING_BYTES \<and> from_json bytes = Inr rs \<and> length rs \<le> MAX_REQUESTS
     \<and> distinct (map req_id rs) \<and> (\<forall>r \<in> set rs. request_wf r)"
  unfolding requests_parse_def
  by (cases "from_json bytes") (auto simp: bind_unit_Inr_iff check_requests_iff not_less)

lemma sample_request_wf: "request_wf sample_request"
  by (simp add: request_wf_def target_wf_def sample_request_def plain_def chars_def is_control_def hidden_def
      host_def host_label_def is_ascii_alphanumeric_def is_ascii_digit_def ascii_between_def
      starts_with_def ends_with_def MINUTES_def MAX_NAME_def MAX_REASON_def MAX_TARGETS_def)

theorem requests_parse_iff_witness:
  "requests_parse (\<lambda>_. Inr [sample_request]) ''{}'' = Inr [sample_request]"
  using sample_request_wf
  by (intro requests_parse_iff [THEN iffD2]) (simp add: MAX_PENDING_BYTES_def MAX_REQUESTS_def)

section \<open>Readable texts\<close>

lemma scalar_trim: "list_all scalar cs \<Longrightarrow> list_all scalar (trim_chars cs)"
  using set_trim_chars [of cs] by (auto simp: list_all_iff)

text \<open>
  Whatever a name contains, remotehub's readable form of it is plain, so an odd name
  never makes the connector drop an answer.
\<close>

theorem readable_plain:
  assumes "list_all scalar (chars text)" and "1 \<le> longest"
  shows "plain (readable text longest) longest"
proof -
  let ?clean = "\<lambda>c. if is_control c \<or> hidden c then 0xFFFD else c :: nat"
  let ?cs = "take longest (map ?clean (chars (trim text)))"
  have t: "chars (trim text) = trim_chars (chars text)"
    using scalar_trim [OF assms(1)] by (simp add: trim_def chars_from_chars)
  have "list_all scalar ?cs"
    using scalar_trim [OF assms(1)] unfolding t
    by (auto simp: list_all_iff scalar_def dest!: in_set_takeD)
  then have cs: "chars (from_chars ?cs) = ?cs" by (rule chars_from_chars)
  have fffd: "chars (from_chars [0xFFFD]) = [0xFFFD]"
    by (rule chars_from_chars) (simp add: scalar_def)
  have marker: "\<not> is_control 0xFFFD" "\<not> hidden 0xFFFD"
    by (simp_all add: is_control_def hidden_def)
  then have "\<not> list_ex (\<lambda>c. is_control c \<or> hidden c) ?cs"
    by (auto simp: list_ex_iff dest!: in_set_takeD)
  moreover have "length ?cs \<le> longest" by simp
  ultimately have "?cs \<noteq> [] \<Longrightarrow> plain (from_chars ?cs) longest"
    unfolding plain_def cs Let_def by (simp add: Suc_le_eq)
  moreover have "plain (from_chars [0xFFFD]) longest"
    unfolding plain_def fffd Let_def using assms(2) marker by simp
  ultimately show ?thesis
    unfolding readable_def Let_def by presburger
qed

theorem readable_plain_witness: "plain (readable '' a'' 3) 3"
  by (rule readable_plain) (simp_all add: chars_def scalar_def)

section \<open>Answers\<close>

text \<open>
  Taking remotehub's latest list keeps the books: the requests reported as new are those
  not on the list before, an answer is kept exactly while its request is still listed, the
  requests waiting are the listed ones without an answer, and once answered a request no
  longer waits however often remotehub lists it again.
\<close>

theorem listed_exact:
  assumes "listed st rqs = (st', new)"
  shows "set new = {r \<in> set rqs. req_id r \<notin> req_id ` set (rs_listed st)}
    \<and> set (answers st') = {a \<in> set (answers st). ans_id a \<in> req_id ` set rqs}
    \<and> set (waiting st') = {r \<in> set rqs. req_id r \<notin> ans_id ` set (answers st)}
    \<and> (\<forall>a. request_get (answer_request st' a) (ans_id a) = None)"
proof -
  have st': "rs_listed st' = rqs" "rs_answers st' = filter (\<lambda>a. ans_id a \<in> req_id ` set rqs) (rs_answers st)"
    and new: "new = filter (\<lambda>r. req_id r \<notin> req_id ` set (rs_listed st)) rqs"
    using assms by (auto simp: listed_def Let_def)
  have "request_get (answer_request st' a) (ans_id a) = None" for a
    by (auto simp: request_get_def waiting_def answer_request_def find_None_iff list_ex_iff)
  moreover have "set (waiting st') = {r \<in> set rqs. req_id r \<notin> ans_id ` set (answers st)}"
    unfolding waiting_def st' answers_def list_ex_iff set_filter by force
  ultimately show ?thesis
    by (auto simp: new answers_def st')
qed

theorem listed_exact_witness:
  "set (snd (listed \<lparr>rs_listed = [], rs_answers = []\<rparr> [sample_request])) = {sample_request}"
  using listed_exact [of "\<lparr>rs_listed = [], rs_answers = []\<rparr>" "[sample_request]"
      "fst (listed \<lparr>rs_listed = [], rs_answers = []\<rparr> [sample_request])"
      "snd (listed \<lparr>rs_listed = [], rs_answers = []\<rparr> [sample_request])"]
  by simp

end
