(* ===== verification/Agent.thy ===== *)
theory Agent
  imports Requests
begin

text \<open>
  The connector's way to remotehub, \<^verbatim>\<open>crates/connector/src/agent.rs\<close>: the decision whether a
  connection is let through, the targets it resolves to, the sweep that ends connections the
  access no longer lets through, the life of a connection in the table and the journal, and
  the state it reports. Name lookups are parameters (\<open>resolve\<close> for a device's host name,
  \<open>lookup\<close> for a target), and each decision reads the clock once.
\<close>

section \<open>Deciding\<close>

definition resolved_for :: "(string \<Rightarrow> ip_addr list) \<Rightarrow> inv_address \<Rightarrow> ip_addr list" where
  "resolved_for resolve a = (case a of Host n \<Rightarrow> resolve n | Range _ \<Rightarrow> [])"

fun until_devices ::
  "(string \<Rightarrow> ip_addr list) \<Rightarrow> snapshot \<Rightarrow> instant \<Rightarrow> string \<Rightarrow> ip_addr \<Rightarrow> nat
    \<Rightarrow> device list \<Rightarrow> instant option option \<Rightarrow> instant option option" where
  "until_devices resolve s now h ip port [] u = u"
| "until_devices resolve s now h ip port (d # ds) u =
     (if \<not> list_ex (\<lambda>p. ports_contains p port) (dev_ports d) then
        until_devices resolve s now h ip port ds u
      else if address_covers (dev_address d) h ip (resolved_for resolve (dev_address d)) then
        until_devices resolve s now h ip port ds (later u (device_until s d now))
      else until_devices resolve s now h ip port ds u)"

text \<open>Each target of an approved request opens its one port.\<close>

fun until_targets ::
  "(string \<Rightarrow> ip_addr list) \<Rightarrow> access_grant \<Rightarrow> string \<Rightarrow> ip_addr \<Rightarrow> nat
    \<Rightarrow> device list \<Rightarrow> instant option option \<Rightarrow> instant option option" where
  "until_targets resolve g h ip port [] u = u"
| "until_targets resolve g h ip port (d # ds) u =
     (if \<not> ports_contains (hd (dev_ports d)) port then until_targets resolve g h ip port ds u
      else if address_covers (dev_address d) h ip (resolved_for resolve (dev_address d)) then
        until_targets resolve g h ip port ds (later u (Some (closes_at (st_access (gr_stored g)))))
      else until_targets resolve g h ip port ds u)"

fun until_requests ::
  "(string \<Rightarrow> ip_addr list) \<Rightarrow> string \<Rightarrow> ip_addr \<Rightarrow> nat
    \<Rightarrow> (uuid \<times> access_grant) list \<Rightarrow> instant option option \<Rightarrow> instant option option" where
  "until_requests resolve h ip port [] u = u"
| "until_requests resolve h ip port ((_, g) # gs) u =
     until_requests resolve h ip port gs (until_targets resolve g h ip port (grant_devices g) u)"

definition open_until ::
  "(string \<Rightarrow> ip_addr list) \<Rightarrow> snapshot \<Rightarrow> instant \<Rightarrow> string \<Rightarrow> ip_addr \<Rightarrow> nat \<Rightarrow> instant option option" where
  "open_until resolve s now h ip port =
     until_requests resolve h ip port (open_requests s now)
       (until_devices resolve s now h ip port (open_devices s now) (network_until s now))"

definition permitted ::
  "(string \<Rightarrow> ip_addr list) \<Rightarrow> snapshot \<Rightarrow> instant \<Rightarrow> string \<Rightarrow> ip_addr \<Rightarrow> nat \<Rightarrow> bool" where
  "permitted resolve s now h ip port \<longleftrightarrow> open_until resolve s now h ip port \<noteq> None"

section \<open>Resolving a target\<close>

record socket_addr =
  sock_ip :: ip_addr
  sock_port :: nat

datatype lookup_result = LookupTimeout | LookupFailed string | LookedUp "socket_addr list"

record refusal =
  refusal_reason :: string
  not_open :: bool

record resolved =
  res_host :: string
  res_port :: nat
  res_addresses :: "socket_addr list"
  res_until :: "instant option"

definition trim_brackets :: "string \<Rightarrow> string" where
  "trim_brackets s =
     (let bracket = (\<lambda>c. c = CHR ''['' \<or> c = CHR '']'')
      in rev (dropWhile bracket (rev (dropWhile bracket s))))"

definition plain_refusal :: "string \<Rightarrow> refusal" where
  "plain_refusal r = \<lparr>refusal_reason = r, not_open = False\<rparr>"

definition split_target :: "string \<Rightarrow> (string \<times> nat) option" where
  "split_target target =
     (case rsplit_once CHR '':'' target of
        None \<Rightarrow> None
      | Some (h, p) \<Rightarrow> map_option (\<lambda>port. (trim_brackets h, port)) (parse_unsigned 65535 p))"

definition allowed_by :: "network list \<Rightarrow> ip_addr \<Rightarrow> bool" where
  "allowed_by allow ip \<longleftrightarrow> allow = [] \<or> list_ex (\<lambda>n. network_contains n ip) allow"

fun open_addresses ::
  "(socket_addr \<Rightarrow> instant option option) \<Rightarrow> socket_addr list
    \<Rightarrow> socket_addr list \<times> instant option option \<Rightarrow> socket_addr list \<times> instant option option" where
  "open_addresses ends [] acc = acc"
| "open_addresses ends (a # as) (opened, u) =
     (case ends a of
        None \<Rightarrow> open_addresses ends as (opened, u)
      | Some e \<Rightarrow> open_addresses ends as (opened @ [a], later u (Some e)))"

definition resolve_target ::
  "(string \<Rightarrow> ip_addr list) \<Rightarrow> (string \<Rightarrow> lookup_result) \<Rightarrow> instant \<Rightarrow> network list \<Rightarrow> snapshot \<Rightarrow> string
    \<Rightarrow> refusal + resolved" where
  "resolve_target resolve lookup now allow s target =
     (case split_target target of
        None \<Rightarrow> Inl (plain_refusal (''not host:port: '' @ target))
      | Some (h, port) \<Rightarrow>
        (case lookup target of
           LookupTimeout \<Rightarrow> Inl (plain_refusal ''name lookup timed out'')
         | LookupFailed e \<Rightarrow> Inl (plain_refusal (''name lookup: '' @ e))
         | LookedUp addresses \<Rightarrow>
           (let allowed = filter (\<lambda>a. allowed_by allow (sock_ip a)) addresses
            in if allowed = [] then Inl (plain_refusal ''not allowed'')
               else case open_addresses (\<lambda>a. open_until resolve s now h (sock_ip a) port) allowed ([], None) of
                      (opened, Some u) \<Rightarrow>
                        Inr \<lparr>res_host = h, res_port = port, res_addresses = opened, res_until = u\<rparr>
                    | (_, None) \<Rightarrow> Inl \<lparr>refusal_reason = ''not opened'', not_open = True\<rparr>)))"

text \<open>
  \<open>reach\<close>: a TCP connection to one of the addresses. \<open>connect\<close> is the attempt: the address it
  reached, or why it failed.
\<close>

record reached =
  rch_host :: string
  rch_ip :: ip_addr
  rch_port :: nat

definition reach ::
  "(string \<Rightarrow> ip_addr list) \<Rightarrow> (string \<Rightarrow> lookup_result) \<Rightarrow> (socket_addr list \<Rightarrow> string + socket_addr)
    \<Rightarrow> instant \<Rightarrow> network list \<Rightarrow> snapshot \<Rightarrow> string \<Rightarrow> refusal + reached" where
  "reach resolve lookup connect now allow s target =
     (case resolve_target resolve lookup now allow s target of
        Inl r \<Rightarrow> Inl r
      | Inr t \<Rightarrow>
        (case connect (res_addresses t) of
           Inl e \<Rightarrow> Inl (plain_refusal e)
         | Inr a \<Rightarrow> Inr \<lparr>rch_host = res_host t, rch_ip = sock_ip a, rch_port = res_port t\<rparr>))"

datatype report = Failed uuid string bool | Checked uuid bool "string option"

text \<open>The answer to \<open>Control::Check\<close>; \<open>rfc3339\<close> formats a point in time, or fails.\<close>

definition check_report ::
  "(instant \<Rightarrow> string option) \<Rightarrow> (string \<Rightarrow> ip_addr list) \<Rightarrow> (string \<Rightarrow> lookup_result) \<Rightarrow> instant \<Rightarrow> network list \<Rightarrow> snapshot
    \<Rightarrow> uuid \<Rightarrow> string \<Rightarrow> report" where
  "check_report rfc3339 resolve lookup now allow s i target =
     (case resolve_target resolve lookup now allow s target of
        Inr t \<Rightarrow> Checked i True (Option.bind (res_until t) rfc3339)
      | Inl _ \<Rightarrow> Checked i False None)"

section \<open>Connections\<close>

record running =
  run_target :: string
  run_user :: "string option"
  run_device :: "string option"
  run_since :: instant
  run_sent :: nat
  run_received :: nat
  run_reached :: reached
  run_ends :: bool

record site =
  site_journal :: journal
  connections :: "(uuid, running) hashmap"
  sent_reports :: "report list"

record open_request =
  or_id :: uuid
  or_target :: string
  or_user :: "string option"
  or_device :: "string option"

definition connections_list :: "site \<Rightarrow> running list" where
  "connections_list st = sort_key run_since (map snd (connections st))"

text \<open>
  \<open>stream\<close> up to the point where bytes flow: refused, or in the table and the journal.
  \<open>socket_ok\<close> is whether the stream's WebSocket to remotehub opened.
\<close>

definition stream_start :: "site \<Rightarrow> instant \<Rightarrow> open_request \<Rightarrow> refusal + reached \<Rightarrow> bool \<Rightarrow> site" where
  "stream_start st now rq reached socket_ok =
     (case reached of
        Inl r \<Rightarrow>
          st\<lparr>site_journal := append (site_journal st) now
                (ConnectionRefused (or_target rq) (or_device rq) (or_user rq) (refusal_reason r)),
             sent_reports := sent_reports st @ [Failed (or_id rq) (refusal_reason r) (not_open r)]\<rparr>
      | Inr a \<Rightarrow>
          if \<not> socket_ok then st
          else st\<lparr>connections := hm_insert (or_id rq)
                     \<lparr>run_target = or_target rq, run_user = or_user rq, run_device = or_device rq,
                      run_since = now, run_sent = 0, run_received = 0, run_reached = a,
                      run_ends = False\<rparr> (connections st),
                  site_journal := append (site_journal st) now
                     (ConnectionStarted (or_id rq) (or_target rq) (or_device rq) (or_user rq))\<rparr>)"

text \<open>\<open>whole_seconds().unsigned_abs()\<close> of the time it ran.\<close>

definition whole_seconds :: "instant \<Rightarrow> instant \<Rightarrow> nat" where
  "whole_seconds now since = nat (\<bar>now - since\<bar> div 1000000000)"

definition stream_end :: "site \<Rightarrow> instant \<Rightarrow> uuid \<Rightarrow> running \<Rightarrow> site" where
  "stream_end st now i r =
     st\<lparr>connections := hm_remove i (connections st),
        site_journal := append (site_journal st) now
          (ConnectionEnded i (run_target r) (run_device r) (run_user r)
             (whole_seconds now (run_since r)) (run_sent r) (run_received r))\<rparr>"

text \<open>
  One round of \<open>while_open\<close>: none when nothing is open any more, and it returns; else every
  connection the access no longer lets through is cancelled. \<open>run_ends\<close> is the state of the
  connection's token, which the clones of a \<open>Running\<close> share.
\<close>

definition while_open_round ::
  "(string \<Rightarrow> ip_addr list) \<Rightarrow> snapshot \<Rightarrow> instant \<Rightarrow> site \<Rightarrow> site option" where
  "while_open_round resolve s now st =
     (if \<not> any_open s now then None
      else Some (st\<lparr>connections := map (\<lambda>(i, r).
             (i, if \<not> permitted resolve s now (rch_host (run_reached r)) (rch_ip (run_reached r))
                        (rch_port (run_reached r))
                 then r\<lparr>run_ends := True\<rparr> else r)) (connections st)\<rparr>))"

definition BACKOFF :: "nat list" where
  "BACKOFF = [1, 2, 5, 10, 30]"

definition backoff_wait :: "nat \<Rightarrow> nat" where
  "backoff_wait attempt = BACKOFF ! min attempt (length BACKOFF - 1)"

section \<open>The reported state\<close>

definition MAX_LISTED :: nat where
  "MAX_LISTED = 1000"

record open_group =
  og_name :: string
  og_until :: "string option"

record open_device =
  od_name :: string
  od_address :: string
  od_ports :: string
  od_until :: "string option"

record agent_state =
  as_open :: bool
  as_until :: "string option"
  as_partly :: bool
  as_groups :: "open_group list"
  as_devices :: "open_device list"
  as_answers :: "answer list"

definition report_state :: "(instant \<Rightarrow> string option) \<Rightarrow> snapshot \<Rightarrow> instant \<Rightarrow> agent_state" where
  "report_state rfc3339 s now =
     (let text = (\<lambda>at. Option.bind at rfc3339);
          is_open_now = network_open s now;
          approved = concat (map (\<lambda>(_, g). map (\<lambda>t. \<lparr>od_name = target_name t, od_address = target_host t,
              od_ports = show_nat (target_port t), od_until = text (closes_at (st_access (gr_stored g)))\<rparr>)
              (gr_targets g)) (open_requests s now))
      in \<lparr>as_open = is_open_now,
          as_until = Option.bind (network_until s now) text,
          as_partly = (\<not> is_open_now \<and> any_open s now),
          as_groups = map (\<lambda>(n, u). \<lparr>og_name = n, og_until = text u\<rparr>) (take MAX_LISTED (open_groups s now)),
          as_devices = take MAX_LISTED (map (\<lambda>d. \<lparr>od_name = dev_name d, od_address = address_show (dev_address d),
              od_ports = ports_text (dev_ports d),
              od_until = text (Option.bind (device_until s d now) (\<lambda>u. u))\<rparr>) (open_devices s now) @ approved),
          as_answers = []\<rparr>)"

section \<open>What a decision rests on\<close>

definition covers :: "(string \<Rightarrow> ip_addr list) \<Rightarrow> string \<Rightarrow> ip_addr \<Rightarrow> nat \<Rightarrow> device \<Rightarrow> bool" where
  "covers resolve h ip port d \<longleftrightarrow> list_ex (\<lambda>p. ports_contains p port) (dev_ports d)
     \<and> address_covers (dev_address d) h ip (resolved_for resolve (dev_address d))"

text \<open>The accesses that let a connection to \<open>ip\<close> and \<open>port\<close> of host \<open>h\<close> through.\<close>

definition openings ::
  "(string \<Rightarrow> ip_addr list) \<Rightarrow> snapshot \<Rightarrow> instant \<Rightarrow> string \<Rightarrow> ip_addr \<Rightarrow> nat \<Rightarrow> access set" where
  "openings resolve s now h ip port = {a. is_open a now \<and>
     (a = st_access (af_network (sn_access s))
      \<or> (\<exists>d \<in> set (inv_devices (sn_inventory s)). covers resolve h ip port d
            \<and> (\<exists>sc \<in> set (device_scopes d). a = st_access (af_get (sn_access s) sc)))
      \<or> (\<exists>i g. (i, g) \<in> set (af_requests (sn_access s)) \<and> a = st_access (gr_stored g)
            \<and> (\<exists>d \<in> set (grant_devices g). covers resolve h ip port d)))}"

lemma until_devices_foldl:
  "until_devices resolve s now h ip port ds u
    = foldl later u (map (\<lambda>d. device_until s d now) (filter (covers resolve h ip port) ds))"
  by (induction ds arbitrary: u) (auto simp: covers_def)

lemma grant_device_ports: "d \<in> set (grant_devices g) \<Longrightarrow> \<exists>p. dev_ports d = [p]"
proof -
  assume "d \<in> set (grant_devices g)"
  then obtain t :: request_target where "(case address_parse (target_host t) of Inl _ \<Rightarrow> None
      | Inr a \<Rightarrow> Some \<lparr>dev_name = target_name t, dev_address = a,
           dev_ports = [\<lparr>first = target_port t, last_port = target_port t\<rparr>], dev_groups = []\<rparr>) = Some d"
    unfolding grant_devices_def set_filter_map by blast
  then show ?thesis by (cases "address_parse (target_host t)") auto
qed

lemma until_targets_foldl:
  "(\<And>d. d \<in> set ds \<Longrightarrow> \<exists>p. dev_ports d = [p]) \<Longrightarrow>
   until_targets resolve g h ip port ds u
    = foldl later u (map (\<lambda>_. Some (closes_at (st_access (gr_stored g)))) (filter (covers resolve h ip port) ds))"
proof (induction ds arbitrary: u)
  case (Cons d ds)
  from Cons.prems [of d] obtain p where "dev_ports d = [p]" by auto
  with Cons show ?case by (simp add: covers_def)
qed simp

lemma until_requests_foldl:
  "until_requests resolve h ip port gs u
    = foldl later u (map (\<lambda>(g, _). Some (closes_at (st_access (gr_stored g))))
        (concat (map (\<lambda>(_, g). map (Pair g) (filter (covers resolve h ip port) (grant_devices g))) gs)))"
proof (induction gs arbitrary: u)
  case (Cons x gs)
  obtain i g where x: "x = (i, g)" by force
  have "until_targets resolve g h ip port (grant_devices g) u
      = foldl later u (map (\<lambda>_. Some (closes_at (st_access (gr_stored g)))) (filter (covers resolve h ip port) (grant_devices g)))"
    by (rule until_targets_foldl) (rule grant_device_ports)
  with Cons x show ?case by (simp add: comp_def)
qed simp

lemma latest_open_until: "latest (openings resolve s now h ip port) (open_until resolve s now h ip port)"
proof -
  let ?c = "covers resolve h ip port"
  let ?ts = "concat (map (\<lambda>(_, g). map (Pair g) (filter ?c (grant_devices g))) (open_requests s now))"
  let ?D = "\<lambda>d. {a. (\<exists>sc \<in> set (device_scopes d). a = st_access (af_get (sn_access s) sc)) \<and> is_open a now}"
  let ?N = "{a. a = st_access (af_network (sn_access s)) \<and> is_open a now}"
  have closed: "d \<in> set (inv_devices (sn_inventory s)) \<Longrightarrow> a \<in> ?D d \<Longrightarrow> d \<in> set (open_devices s now)" for d a
    using latest_device_until [of d s now] by (auto simp: open_devices_def latest_def split: option.splits)
  have "latest (?N \<union> (\<Union>d \<in> set (filter ?c (open_devices s now)). ?D d))
      (until_devices resolve s now h ip port (open_devices s now) (network_until s now))"
    unfolding until_devices_foldl by (intro latest_foldl_later latest_network_until latest_device_until)
  then have "latest ((?N \<union> (\<Union>d \<in> set (filter ?c (open_devices s now)). ?D d))
      \<union> (\<Union>x \<in> set ?ts. {st_access (gr_stored (fst x))})) (open_until resolve s now h ip port)"
    unfolding open_until_def until_requests_foldl by (rule latest_foldl_later) (simp split: prod.splits)
  moreover have "(\<Union>d \<in> set (filter ?c (open_devices s now)). ?D d)
      = (\<Union>d \<in> {d \<in> set (inv_devices (sn_inventory s)). ?c d}. ?D d)"
    using closed by (auto simp: open_devices_def) blast
  moreover have "(\<Union>x \<in> set ?ts. {st_access (gr_stored (fst x))})
      = {a. is_open a now \<and> (\<exists>i g. (i, g) \<in> set (af_requests (sn_access s)) \<and> a = st_access (gr_stored g)
            \<and> (\<exists>d \<in> set (grant_devices g). ?c d))}"
    by (force simp: open_requests_def)
  moreover have "?N \<union> (\<Union>d \<in> {d \<in> set (inv_devices (sn_inventory s)). ?c d}. ?D d)
      \<union> {a. is_open a now \<and> (\<exists>i g. (i, g) \<in> set (af_requests (sn_access s)) \<and> a = st_access (gr_stored g)
            \<and> (\<exists>d \<in> set (grant_devices g). ?c d))} = openings resolve s now h ip port"
    unfolding openings_def by blast
  ultimately show ?thesis by simp
qed

lemma permitted_iff: "permitted resolve s now h ip port \<longleftrightarrow> openings resolve s now h ip port \<noteq> {}"
  using latest_open_until [of resolve s now h ip port]
  by (auto simp: permitted_def latest_def split: option.splits)

text \<open>
  Until when a connection is let through: the latest end of everything that opens it, the
  network, the devices of the inventory that cover its address and port (through themselves
  or a group) and the approved requests with such a target; not at all if nothing does.
\<close>

theorem open_until_exact: "latest (openings resolve s now h ip port) (open_until resolve s now h ip port)"
  by (rule latest_open_until)

lemma nothing_open:
  assumes "\<not> any_open s now"
  shows "openings resolve s now h ip port = {}"
proof -
  have "\<not> is_open a now" if "d \<in> set (inv_devices (sn_inventory s))"
    "a = st_access (af_get (sn_access s) sc)" "sc \<in> set (device_scopes d)" for a d sc
  proof -
    from assms that(1) have "device_until s d now = None"
      by (auto simp: any_open_def open_devices_def filter_empty_conv)
    with latest_device_until [of d s now] that(2,3) show ?thesis by (auto simp: latest_def)
  qed
  moreover have "\<not> is_open (st_access (gr_stored g)) now" if "(i, g) \<in> set (af_requests (sn_access s))" for i g
    using assms that by (auto simp: any_open_def open_requests_def filter_empty_conv)
  moreover have "\<not> is_open (st_access (af_network (sn_access s))) now"
    using assms by (simp add: any_open_def network_open_def)
  ultimately show ?thesis unfolding openings_def by blast
qed

lemma open_addresses_spec:
  "open_addresses ends as (opened, u)
    = (opened @ filter (\<lambda>a. ends a \<noteq> None) as,
       foldl later u (map ends (filter (\<lambda>a. ends a \<noteq> None) as)))"
proof (induction as arbitrary: opened u)
  case (Cons a as)
  then show ?case by (cases "ends a") auto
qed simp

text \<open>
  A target that parses and resolves is let through exactly if one of its addresses is both
  in the allowed networks and open: those addresses, all of them and no other, are connected to, and the
  end is the latest of theirs. Otherwise the refusal says \<open>not_open\<close> exactly if an address
  was allowed, so that only the customer's access stood in the way.
\<close>

theorem resolve_target_exact:
  fixes allow resolve s now
  assumes "split_target target = Some (h, port)" and "lookup target = LookedUp addresses"
  defines "reachable \<equiv> filter (\<lambda>a. allowed_by allow (sock_ip a)
              \<and> openings resolve s now h (sock_ip a) port \<noteq> {}) addresses"
  shows "case resolve_target resolve lookup now allow s target of
      Inr t \<Rightarrow> res_host t = h \<and> res_port t = port \<and> res_addresses t = reachable \<and> reachable \<noteq> []
        \<and> latest (\<Union>a \<in> set reachable. openings resolve s now h (sock_ip a) port) (Some (res_until t))
    | Inl r \<Rightarrow> reachable = [] \<and> (not_open r \<longleftrightarrow> (\<exists>a \<in> set addresses. allowed_by allow (sock_ip a)))"
proof -
  let ?ends = "\<lambda>a. open_until resolve s now h (sock_ip a) port"
  let ?allowed = "filter (\<lambda>a. allowed_by allow (sock_ip a)) addresses"
  have ends: "?ends a \<noteq> None \<longleftrightarrow> openings resolve s now h (sock_ip a) port \<noteq> {}" for a
    using permitted_iff [of resolve s now h "sock_ip a" port] by (simp add: permitted_def)
  have "filter (\<lambda>a. ?ends a \<noteq> None) ?allowed = reachable"
    unfolding reachable_def ends by (simp add: conj_commute)
  then have opened: "open_addresses ?ends ?allowed ([], None) = (reachable, foldl later None (map ?ends reachable))"
    by (simp add: open_addresses_spec)
  have latest: "latest (\<Union>a \<in> set reachable. openings resolve s now h (sock_ip a) port)
      (foldl later None (map ?ends reachable))"
    using latest_foldl_later [OF latest_empty, of reachable _ ?ends] by (simp add: latest_open_until)
  have none: "foldl later None (map ?ends reachable) = None \<longleftrightarrow> reachable = []"
  proof
    assume "foldl later None (map ?ends reachable) = None"
    with latest have "\<forall>a \<in> set reachable. openings resolve s now h (sock_ip a) port = {}"
      by (simp add: latest_def)
    then show "reachable = []" by (auto simp: reachable_def filter_empty_conv)
  qed simp
  have empty: "?allowed = [] \<Longrightarrow> reachable = []"
    by (auto simp: reachable_def filter_empty_conv)
  show ?thesis
  proof (cases "foldl later None (map ?ends reachable)")
    case None
    with none opened empty show ?thesis
      unfolding resolve_target_def assms(1,2)
      by (auto simp: Let_def plain_refusal_def filter_empty_conv)
  next
    case (Some u)
    with none opened empty latest show ?thesis
      unfolding resolve_target_def assms(1,2) by (auto simp: Let_def)
  qed
qed

text \<open>A snapshot with one device open by its group, and its address.\<close>

abbreviation sample_resolve :: "string \<Rightarrow> ip_addr list" where
  "sample_resolve \<equiv> (\<lambda>n. if n = ''nas'' then [V4 167772161] else [])"

abbreviation sample_lookup :: "string \<Rightarrow> lookup_result" where
  "sample_lookup \<equiv> (\<lambda>_. LookedUp [\<lparr>sock_ip = V4 167772161, sock_port = 22\<rparr>, \<lparr>sock_ip = V4 1, sock_port = 22\<rparr>])"

lemma split_target_text:
  assumes "port \<le> 65535"
  shows "split_target (h @ CHR '':'' # show_nat port) = Some (trim_brackets h, port)"
proof -
  have "CHR '':'' \<notin> set (show_nat port)"
    using show_nat_digits [of "CHR '':''" port] by (auto simp: is_ascii_digit_def ascii_between_def)
  with assms show ?thesis
    by (simp add: split_target_def rsplit_once_append parse_unsigned_show)
qed

abbreviation sample_target :: string where
  "sample_target \<equiv> ''box'' @ CHR '':'' # show_nat 22"

lemma sample_split: "split_target sample_target = Some (''box'', 22)"
  by (simp only: split_target_text) (simp add: trim_brackets_def)

lemma sample_openings:
  "openings sample_resolve sample_snapshot 5 ''box'' (V4 167772161) 22 \<noteq> {}"
  unfolding permitted_iff [symmetric]
  by (simp add: permitted_def open_until_def open_devices_def device_until_def device_scopes_def access_sample_defs
      or_default_def network_until_def open_requests_def ports_contains_def resolved_for_def)

lemma sample_not_open: "openings sample_resolve sample_snapshot 5 ''box'' (V4 1) 22 = {}"
  by (auto simp: openings_def covers_def access_sample_defs resolved_for_def eq_ignore_ascii_case_def
      ascii_lower_def ascii_between_def)

theorem resolve_target_exact_witness:
  "\<exists>t. resolve_target sample_resolve sample_lookup 5 [] sample_snapshot sample_target = Inr t
     \<and> \<lparr>sock_ip = V4 167772161, sock_port = 22\<rparr> \<in> set (res_addresses t)"
  using resolve_target_exact [OF sample_split, of sample_lookup "[\<lparr>sock_ip = V4 167772161, sock_port = 22\<rparr>, \<lparr>sock_ip = V4 1, sock_port = 22\<rparr>]" "[]" sample_resolve sample_snapshot 5]
    sample_openings
  by (auto simp: allowed_by_def split: sum.splits if_splits)

lemma resolve_target_sound:
  assumes "resolve_target resolve lookup now allow s target = Inr t" and "a \<in> set (res_addresses t)"
  shows "allowed_by allow (sock_ip a) \<and> permitted resolve s now (res_host t) (sock_ip a) (res_port t)"
  using assms unfolding resolve_target_def
  by (auto simp: Let_def open_addresses_spec permitted_def split: option.splits lookup_result.splits if_splits)

text \<open>
  C10: The connector only ever connects to an address that is in the allowed networks and that
  the customer's access lets through, whatever the name lookups answer, if a connect only
  reaches one of the addresses it was given.
\<close>

theorem reach_permitted:
  assumes connect: "\<And>as a. connect as = Inr a \<Longrightarrow> a \<in> set as"
    and "reach resolve lookup connect now allow s target = Inr r"
  shows "allowed_by allow (rch_ip r) \<and> openings resolve s now (rch_host r) (rch_ip r) (rch_port r) \<noteq> {}"
proof -
  from assms(2) obtain t a where t: "resolve_target resolve lookup now allow s target = Inr t"
    and a: "connect (res_addresses t) = Inr a"
    and r: "r = \<lparr>rch_host = res_host t, rch_ip = sock_ip a, rch_port = res_port t\<rparr>"
    unfolding reach_def by (auto split: sum.splits)
  from resolve_target_sound [OF t connect [OF a]] r show ?thesis
    unfolding permitted_iff by simp
qed

abbreviation sample_connect :: "socket_addr list \<Rightarrow> string + socket_addr" where
  "sample_connect \<equiv> (\<lambda>as. case as of [] \<Rightarrow> Inl ''no address'' | a # _ \<Rightarrow> Inr a)"

theorem reach_permitted_witness:
  "\<exists>r. reach sample_resolve sample_lookup sample_connect 5 [] sample_snapshot sample_target = Inr r
     \<and> openings sample_resolve sample_snapshot 5 (rch_host r) (rch_ip r) (rch_port r) \<noteq> {}"
proof -
  have end1: "open_until sample_resolve sample_snapshot 5 ''box'' (V4 1) 22 = None"
    using sample_not_open permitted_iff unfolding permitted_def by blast
  have end2: "open_until sample_resolve sample_snapshot 5 ''box'' (V4 167772161) 22 \<noteq> None"
    using sample_openings permitted_iff unfolding permitted_def by blast
  have "reach sample_resolve sample_lookup sample_connect 5 [] sample_snapshot sample_target
      = Inr \<lparr>rch_host = ''box'', rch_ip = V4 167772161, rch_port = 22\<rparr>"
    unfolding reach_def resolve_target_def sample_split
    using end1 end2 by (auto simp: Let_def allowed_by_def)
  moreover have "sample_connect as = Inr a \<Longrightarrow> a \<in> set as" for as a
    by (cases as) auto
  ultimately show ?thesis
    using reach_permitted [of sample_connect sample_resolve sample_lookup 5 "[]" sample_snapshot sample_target]
    by blast
qed

text \<open>
  C11: A round of the supervisor ends only when nothing at all is let through any more.
  Otherwise it cancels exactly the connections the access no longer lets through, and leaves
  the others, and every connection it keeps running is let through.
\<close>

theorem while_open_round_exact:
  "case while_open_round resolve s now st of
     None \<Rightarrow> \<forall>h ip port. openings resolve s now h ip port = {}
   | Some st' \<Rightarrow> map fst (connections st') = map fst (connections st) \<and>
       (\<forall>i r. hm_get (connections st) i = Some r \<longrightarrow>
          (let open_now = openings resolve s now (rch_host (run_reached r)) (rch_ip (run_reached r))
                             (rch_port (run_reached r)) \<noteq> {}
           in hm_get (connections st') i = Some (r\<lparr>run_ends := run_ends r \<or> \<not> open_now\<rparr>)))"
proof (cases "any_open s now")
  case True
  let ?open = "\<lambda>r. openings resolve s now (rch_host (run_reached r)) (rch_ip (run_reached r))
      (rch_port (run_reached r)) \<noteq> {}"
  have upd: "(if \<not> ?open r then r\<lparr>run_ends := True\<rparr> else r) = r\<lparr>run_ends := run_ends r \<or> \<not> ?open r\<rparr>"
    for r :: running by (cases r) simp
  have st': "while_open_round resolve s now st
      = Some (st\<lparr>connections := map (\<lambda>(i, r). (i, r\<lparr>run_ends := run_ends r \<or> \<not> ?open r\<rparr>)) (connections st)\<rparr>)"
    using True by (simp only: while_open_round_def permitted_iff upd) simp
  show ?thesis
    unfolding st' Let_def by (simp add: map_of_map) (simp add: comp_def split_def)
next
  case False
  with nothing_open [OF False] show ?thesis by (simp add: while_open_round_def)
qed

definition sample_running :: running where
  "sample_running = \<lparr>run_target = sample_target, run_user = None, run_device = None, run_since = 0,
     run_sent = 0, run_received = 0, run_reached = \<lparr>rch_host = ''box'', rch_ip = V4 1, rch_port = 22\<rparr>,
     run_ends = False\<rparr>"

definition sample_site :: site where
  "sample_site = \<lparr>site_journal = sample_journal, connections = [(7, sample_running)], sent_reports = []\<rparr>"

lemma sample_any_open: "any_open sample_snapshot 5"
  using sample_openings nothing_open by blast

theorem while_open_round_exact_witness:
  "\<exists>st'. while_open_round sample_resolve sample_snapshot 5 sample_site = Some st'
     \<and> hm_get (connections st') 7 = Some (sample_running\<lparr>run_ends := True\<rparr>)"
proof -
  obtain st' where st': "while_open_round sample_resolve sample_snapshot 5 sample_site = Some st'"
    using sample_any_open by (auto simp: while_open_round_def)
  have "hm_get (connections sample_site) 7 = Some sample_running" by (simp add: sample_site_def)
  with while_open_round_exact [of sample_resolve sample_snapshot 5 sample_site] st' sample_not_open
  have "hm_get (connections st') 7 = Some (sample_running\<lparr>run_ends := True\<rparr>)"
    by (auto simp: Let_def sample_running_def)
  with st' show ?thesis by blast
qed

text \<open>
  The access is read when a connection is reached and swept on every change, but the
  connection enters the table only after its stream to remotehub is open. A change in
  between is missed: a connection whose device has been closed meanwhile runs, uncancelled,
  although the sweep of that very change has taken place.
\<close>

theorem late_start_escapes_sweep:
  "\<exists>resolve lookup connect s s' now now' target rq r st st'.
     reach resolve lookup connect now [] s target = Inr r \<and> or_target rq = target \<and> now \<le> now' \<and>
     openings resolve s' now' (rch_host r) (rch_ip r) (rch_port r) = {} \<and>
     while_open_round resolve s' now' st = Some st' \<and>
     (\<exists>c. hm_get (connections (stream_start st' now' rq (Inr r) True)) (or_id rq) = Some c
          \<and> run_reached c = r \<and> \<not> run_ends c)"
proof -
  let ?r = "\<lparr>rch_host = ''box'', rch_ip = V4 1, rch_port = 22\<rparr> :: reached"
  let ?open = "sample_snapshot\<lparr>sn_access := access_file_default\<lparr>af_network :=
      stored_default\<lparr>st_access := Open None\<rparr>\<rparr>\<rparr>"
  let ?lookup = "\<lambda>_ :: string. LookedUp [\<lparr>sock_ip = V4 1, sock_port = 22\<rparr>]"
  let ?rq = "\<lparr>or_id = 9, or_target = sample_target, or_user = None, or_device = None\<rparr> :: open_request"
  have "openings sample_resolve ?open 5 ''box'' (V4 1) 22 \<noteq> {}"
    unfolding openings_def by (simp add: exI [of _ "Open None"])
  then have "open_until sample_resolve ?open 5 ''box'' (V4 1) 22 \<noteq> None"
    using permitted_iff unfolding permitted_def by blast
  then have "reach sample_resolve ?lookup sample_connect 5 [] ?open sample_target = Inr ?r"
    unfolding reach_def resolve_target_def sample_split by (auto simp: Let_def allowed_by_def)
  moreover obtain st' where "while_open_round sample_resolve sample_snapshot 5 sample_site = Some st'"
    using sample_any_open by (auto simp: while_open_round_def)
  moreover have "openings sample_resolve sample_snapshot 5 (rch_host ?r) (rch_ip ?r) (rch_port ?r) = {}"
    using sample_not_open by simp
  moreover have "or_target ?rq = sample_target" by simp
  moreover have "hm_get (connections (stream_start st' 5 ?rq (Inr ?r) True)) (or_id ?rq)
      = Some \<lparr>run_target = sample_target, run_user = None, run_device = None, run_since = 5, run_sent = 0,
          run_received = 0, run_reached = ?r, run_ends = False\<rparr>"
    by (simp add: stream_start_def hm.get_put)
  ultimately show ?thesis by (metis order_refl running.select_convs(7,8))
qed

text \<open>
  The state the connector reports to remotehub: open exactly if the network is, open or
  partly open exactly if anything is open, at most \<open>MAX_LISTED\<close> groups and devices, every
  listed group one that is open, and all of them while there are no more than that.
\<close>

theorem report_state_exact:
  fixes rfc3339 s now
  defines "r \<equiv> report_state rfc3339 s now"
  shows "(as_open r \<longleftrightarrow> network_open s now) \<and> (as_open r \<or> as_partly r \<longleftrightarrow> any_open s now)
    \<and> \<not> (as_open r \<and> as_partly r)
    \<and> length (as_groups r) = min MAX_LISTED (length (open_groups s now))
    \<and> length (as_devices r) = min MAX_LISTED (length (open_devices s now)
          + sum_list (map (\<lambda>(_, g). length (gr_targets g)) (open_requests s now)))
    \<and> map og_name (as_groups r) = take MAX_LISTED (map fst (open_groups s now))"
proof -
  have count: "length (concat (map (\<lambda>(_, g). map (f g) (gr_targets g)) gs))
      = sum_list (map (\<lambda>(_, g). length (gr_targets g)) gs)"
    for f :: "access_grant \<Rightarrow> request_target \<Rightarrow> open_device" and gs :: "(uuid \<times> access_grant) list"
    by (induction gs) auto
  show ?thesis
    unfolding r_def report_state_def Let_def agent_state.select_convs length_take length_append length_map count
    by (auto simp: any_open_def min.commute take_map comp_def split_def)
qed

end
