(* ===== verification/Guacamole.thy ===== *)
theory Guacamole
  imports Strings "HOL-Library.Sublist"
begin

text \<open>
  The Guacamole protocol between the gateway, guacd and the browser,
  \<^verbatim>\<open>crates/gateway/src/guacamole.rs\<close>: encoding and parsing of instructions on byte streams,
  the handshake, and the relay of \<^verbatim>\<open>crates/server/src/api/display.rs\<close> that decides what a
  browser may send. Bytes are characters of a \<open>string\<close>; sockets are the byte lists read and
  written.
\<close>

section \<open>Instructions\<close>

definition MAX_INSTRUCTION_BYTES :: nat where "MAX_INSTRUCTION_BYTES = 32 * 1024"
definition MAX_ELEMENTS :: nat where "MAX_ELEMENTS = 128"

datatype guac_error =
    Unreachable
  | Timeout
  | Refused string nat
  | Malformed string
  | GuacIo

record instruction =
  opcode :: string
  args :: "string list"

definition push_element :: "string \<Rightarrow> string \<Rightarrow> string" where
  "push_element buf value = buf @ show_nat (length (chars value)) @ ''.'' @ value"

definition encode_into :: "string \<Rightarrow> string \<Rightarrow> string list \<Rightarrow> string" where
  "encode_into buf op as =
     foldl (\<lambda>b a. push_element (b @ '','') a) (push_element buf op) as @ '';''"

definition encode :: "instruction \<Rightarrow> string" where
  "encode i = encode_into [] (opcode i) (args i)"

section \<open>Scanning\<close>

definition incomplete :: "string \<Rightarrow> guac_error + 'a option" where
  "incomplete buffer =
     (if length buffer > MAX_INSTRUCTION_BYTES then Inl (Malformed ''instruction too long'') else Inr None)"

text \<open>The length of a character by its first byte.\<close>

definition lead_length :: "char \<Rightarrow> nat option" where
  "lead_length c =
     (let b = (of_char c :: nat)
      in if b \<le> 127 then Some 1
         else if 192 \<le> b \<and> b \<le> 223 then Some 2
         else if 224 \<le> b \<and> b \<le> 239 then Some 3
         else if 240 \<le> b \<and> b \<le> 247 then Some 4
         else None)"

text \<open>The loop over the characters of a value: the position after them, none if the buffer ends before.\<close>

fun skip_chars :: "string \<Rightarrow> nat \<Rightarrow> nat \<Rightarrow> guac_error + nat option" where
  "skip_chars buffer 0 at = Inr (Some at)"
| "skip_chars buffer (Suc n) at =
     (if at < length buffer then
        (case lead_length (buffer ! at) of
           None \<Rightarrow> Inl (Malformed ''invalid UTF-8'')
         | Some k \<Rightarrow> skip_chars buffer n (at + k))
      else Inr None)"

lemma skip_chars_le: "skip_chars buffer n at = Inr (Some stop) \<Longrightarrow> at \<le> stop"
  by (induction buffer n at rule: skip_chars.induct) (auto split: if_splits option.splits)

function scan_from :: "string \<Rightarrow> nat \<Rightarrow> (nat \<times> nat) list \<Rightarrow> guac_error + (nat \<times> (nat \<times> nat) list) option" where
  "scan_from buffer at elements =
     (let digits = length (takeWhile is_ascii_digit (drop at buffer))
      in if digits > 5 then Inl (Malformed ''element too long'')
         else if at + digits \<ge> length buffer then incomplete buffer
         else if digits = 0 \<or> buffer ! (at + digits) \<noteq> CHR ''.'' then Inl (Malformed ''element without length'')
         else case parse_unsigned (2 ^ 64 - 1) (take digits (drop at buffer)) of
           None \<Rightarrow> Inl (Malformed ''element without length'')
         | Some len \<Rightarrow>
           (let start = at + digits + 1
            in case skip_chars buffer len start of
                 Inl e \<Rightarrow> Inl e
               | Inr None \<Rightarrow> incomplete buffer
               | Inr (Some stop) \<Rightarrow>
                 if stop \<ge> length buffer then incomplete buffer
                 else if length (elements @ [(start, stop)]) > MAX_ELEMENTS then Inl (Malformed ''too many elements'')
                 else if buffer ! stop = CHR '';'' then Inr (Some (stop + 1, elements @ [(start, stop)]))
                 else if buffer ! stop = CHR '','' then scan_from buffer (stop + 1) (elements @ [(start, stop)])
                 else Inl (Malformed ''element without separator'')))"
  by pat_completeness auto
termination
  by (relation "measure (\<lambda>(buffer, at, _). length buffer - at)") (auto dest!: skip_chars_le)

declare scan_from.simps [simp del]

definition scan :: "string \<Rightarrow> guac_error + (nat \<times> (nat \<times> nat) list) option" where
  "scan buffer = scan_from buffer 0 []"

section \<open>The parser\<close>

definition parser_push :: "string \<Rightarrow> string \<Rightarrow> string" where
  "parser_push buffer bytes = buffer @ bytes"

definition element_text :: "string \<Rightarrow> nat \<times> nat \<Rightarrow> guac_error + string" where
  "element_text buffer = (\<lambda>(start, stop).
     case from_utf8 (take (stop - start) (drop start buffer)) of
       None \<Rightarrow> Inl (Malformed ''invalid UTF-8'')
     | Some v \<Rightarrow> Inr v)"

fun collect_texts :: "(guac_error + string) list \<Rightarrow> guac_error + string list" where
  "collect_texts [] = Inr []"
| "collect_texts (Inl e # rs) = Inl e"
| "collect_texts (Inr v # rs) = (case collect_texts rs of Inl e \<Rightarrow> Inl e | Inr vs \<Rightarrow> Inr (v # vs))"

text \<open>The buffer after the call, and the result.\<close>

definition next_instruction :: "string \<Rightarrow> string \<times> (guac_error + instruction option)" where
  "next_instruction buffer =
     (case scan buffer of
        Inl e \<Rightarrow> (buffer, Inl e)
      | Inr None \<Rightarrow> (buffer, Inr None)
      | Inr (Some (end_at, elements)) \<Rightarrow>
          (case map (element_text buffer) elements of
             [] \<Rightarrow> (buffer, Inl (Malformed ''empty instruction''))
           | Inl e # _ \<Rightarrow> (buffer, Inl e)
           | Inr op # rest \<Rightarrow>
               (case collect_texts rest of
                  Inl e \<Rightarrow> (buffer, Inl e)
                | Inr as \<Rightarrow> (drop end_at buffer, Inr (Some \<lparr>opcode = op, args = as\<rparr>)))))"

section \<open>Scanning an element\<close>

lemma scan_from_bounds:
  "scan_from buffer at els = Inr (Some (n, els')) \<Longrightarrow> at < n \<and> n \<le> length buffer"
proof (induction buffer at els rule: scan_from.induct)
  case (1 buffer at els)
  show ?case
    using "1.prems" "1.IH" [OF refl]
    by (subst (asm) scan_from.simps)
      (fastforce simp: Let_def incomplete_def dest!: skip_chars_le split: if_splits option.splits sum.splits)
qed

lemma scan_bounds: "scan buffer = Inr (Some (n, els)) \<Longrightarrow> 0 < n \<and> n \<le> length buffer"
  unfolding scan_def by (drule scan_from_bounds) simp

lemma encode_char_lead:
  assumes "scalar c"
  shows "\<exists>b bs. encode_char c = b # bs \<and> lead_length (char_of b) = Some (Suc (length bs))"
proof -
  have c: "c < 1114112" using assms by (auto simp: scalar_def)
  then have "c div 262144 < 5" "c < 65536 \<Longrightarrow> c div 4096 < 16" "c < 2048 \<Longrightarrow> c div 64 < 32"
    by (simp_all add: less_mult_imp_div_less)
  then show ?thesis
    by (auto simp: encode_char_def lead_length_def Let_def)
qed

lemma length_from_chars_Cons: "length (from_chars (c # cs)) = length (encode_char c) + length (from_chars cs)"
  by (simp add: from_chars_def)

lemma skip_from_chars:
  "list_all scalar cs \<Longrightarrow>
   skip_chars (pre @ from_chars cs @ rest) (length cs) (length pre) = Inr (Some (length pre + length (from_chars cs)))"
proof (induction cs arbitrary: pre)
  case (Cons c cs)
  from Cons.prems encode_char_lead [of c] obtain b bs
    where e: "encode_char c = b # bs" and l: "lead_length (char_of b) = Some (Suc (length bs))" by auto
  let ?pre = "pre @ map char_of (encode_char c)"
  have split: "pre @ from_chars (c # cs) @ rest = ?pre @ from_chars cs @ rest"
    by (simp add: from_chars_def)
  have "(pre @ from_chars (c # cs) @ rest) ! length pre = char_of b"
    by (simp add: from_chars_def e nth_append)
  moreover have "length pre < length (pre @ from_chars (c # cs) @ rest)"
    by (simp add: from_chars_def e)
  ultimately have "skip_chars (pre @ from_chars (c # cs) @ rest) (length (c # cs)) (length pre)
      = skip_chars (?pre @ from_chars cs @ rest) (length cs) (length ?pre)"
    using l unfolding split by (simp add: e)
  also have "\<dots> = Inr (Some (length ?pre + length (from_chars cs)))"
    using Cons.IH [of ?pre] Cons.prems by simp
  finally show ?case by (simp add: length_from_chars_Cons)
qed (simp add: from_chars_def)

text \<open>A text guacd's limit on the digits of a length lets through.\<close>

definition sendable :: "string \<Rightarrow> bool" where
  "sendable v \<longleftrightarrow> from_utf8 v = Some v \<and> length (chars v) \<le> 99999"

definition element :: "string \<Rightarrow> string" where
  "element v = show_nat (length (chars v)) @ CHR ''.'' # v"

lemma scan_from_step:
  assumes "length (takeWhile is_ascii_digit (drop at buffer)) = k" "0 < k" "k \<le> 5" "at + k < length buffer"
    "buffer ! (at + k) = CHR ''.''" "parse_unsigned (2 ^ 64 - 1) (take k (drop at buffer)) = Some n"
    "skip_chars buffer n (at + k + 1) = Inr (Some stop)" "stop < length buffer" "length els < MAX_ELEMENTS"
  shows "scan_from buffer at els =
    (if buffer ! stop = CHR '';'' then Inr (Some (stop + 1, els @ [(at + k + 1, stop)]))
     else if buffer ! stop = CHR '','' then scan_from buffer (stop + 1) (els @ [(at + k + 1, stop)])
     else Inl (Malformed ''element without separator''))"
  using assms by (subst scan_from.simps) (simp add: Let_def)

lemma scan_from_element:
  assumes v: "sendable v" and els: "length els < MAX_ELEMENTS" and sep: "sep = CHR '';'' \<or> sep = CHR '',''"
  defines "k \<equiv> length (show_nat (length (chars v)))"
  shows "scan_from (pre @ element v @ sep # rest) (length pre) els =
    (if sep = CHR '';'' then Inr (Some (Suc (length (pre @ element v)), els @ [(length pre + k + 1, length (pre @ element v))]))
     else scan_from (pre @ element v @ sep # rest) (Suc (length (pre @ element v)))
            (els @ [(length pre + k + 1, length (pre @ element v))]))"
proof -
  let ?buf = "pre @ element v @ sep # rest" and ?ds = "show_nat (length (chars v))"
  obtain cs where cs: "list_all scalar cs" "v = from_chars cs"
    using v by (auto simp: sendable_def from_utf8_iff)
  then have n: "length (chars v) = length cs" by (simp add: chars_from_chars)
  have k5: "k \<le> 5" unfolding k_def using v by (intro length_show_nat) (auto simp: sendable_def)
  have k0: "0 < k" by (simp add: k_def)
  have tw: "takeWhile is_ascii_digit (drop (length pre) ?buf) = ?ds"
    using show_nat_digits [of _ "length (chars v)"]
    by (simp add: element_def takeWhile_append2 is_ascii_digit_def ascii_between_def)
  have at_dot: "?buf ! (length pre + k) = CHR ''.''"
    by (simp add: element_def k_def nth_append)
  have take_ds: "take k (drop (length pre) ?buf) = ?ds" by (simp add: element_def k_def)
  have parse: "parse_unsigned (2 ^ 64 - 1) ?ds = Some (length cs)"
    unfolding n [symmetric] by (rule parse_unsigned_show) (use v in \<open>simp add: sendable_def\<close>)
  have skip: "skip_chars ?buf (length cs) (length pre + k + 1) = Inr (Some (length (pre @ element v)))"
    using skip_from_chars [OF cs(1), of "pre @ ?ds @ [CHR ''.'']" "sep # rest"]
    by (simp add: element_def cs(2) [symmetric] k_def)
  have at_sep: "?buf ! length (pre @ element v) = sep"
    by (metis append.assoc nth_append_length)
  have "length ?buf > length pre + k" by (simp add: element_def k_def)
  moreover have "length ?buf > length (pre @ element v)" by simp
  moreover have "parse_unsigned (2 ^ 64 - 1) (take k (drop (length pre) ?buf)) = Some (length cs)"
    unfolding take_ds by (rule parse)
  moreover have "length (takeWhile is_ascii_digit (drop (length pre) ?buf)) = k"
    unfolding tw by (simp add: k_def)
  ultimately have "scan_from ?buf (length pre) els =
      (if ?buf ! length (pre @ element v) = CHR '';''
       then Inr (Some (length (pre @ element v) + 1, els @ [(length pre + k + 1, length (pre @ element v))]))
       else if ?buf ! length (pre @ element v) = CHR '',''
       then scan_from ?buf (length (pre @ element v) + 1) (els @ [(length pre + k + 1, length (pre @ element v))])
       else Inl (Malformed ''element without separator''))"
    using scan_from_step [of "length pre" ?buf k "length cs" "length (pre @ element v)" els]
      k5 k0 at_dot skip els by blast
  then show ?thesis unfolding at_sep using sep by auto
qed

section \<open>Round trip\<close>

definition body :: "string \<Rightarrow> string list \<Rightarrow> string" where
  "body op as = element op @ concat (map (\<lambda>a. CHR '','' # element a) as)"

lemma body_Cons: "body op (a # as) = element op @ CHR '','' # body a as"
  by (simp add: body_def)

lemma foldl_push_element:
  "foldl (\<lambda>b a. push_element (b @ '','') a) buf as = buf @ concat (map (\<lambda>a. CHR '','' # element a) as)"
  by (induction as arbitrary: buf) (simp_all add: push_element_def element_def)

lemma encode_into_body: "encode_into buf op as = buf @ body op as @ [CHR '';'']"
  by (simp add: encode_into_def foldl_push_element body_def) (simp add: push_element_def element_def)

definition span :: "string \<Rightarrow> nat \<times> nat \<Rightarrow> string" where
  "span buffer = (\<lambda>(start, stop). take (stop - start) (drop start buffer))"

lemma span_element:
  "span (pre @ element v @ rest) (length pre + length (show_nat (length (chars v))) + 1, length (pre @ element v)) = v"
  by (simp add: span_def element_def)

lemma scan_from_body:
  assumes "sendable op" and "\<forall>a \<in> set as. sendable a" and "length els + length as < MAX_ELEMENTS"
  shows "\<exists>spans. scan_from (pre @ body op as @ CHR '';'' # rest) (length pre) els
      = Inr (Some (Suc (length (pre @ body op as)), els @ spans))
    \<and> map (span (pre @ body op as @ CHR '';'' # rest)) spans = op # as"
  using assms
proof (induction as arbitrary: op pre els)
  case Nil
  with scan_from_element [of op els "CHR '';''" pre rest] span_element [of pre op "CHR '';'' # rest"]
  show ?case by (simp add: body_def)
next
  case (Cons a as)
  let ?pre = "pre @ element op @ [CHR '','']" and ?rest = "body a as @ CHR '';'' # rest"
  let ?s = "(length pre + length (show_nat (length (chars op))) + 1, length (pre @ element op))"
  have buf: "pre @ body op (a # as) @ CHR '';'' # rest = ?pre @ ?rest" by (simp add: body_Cons)
  have buf': "?pre @ ?rest = pre @ element op @ CHR '','' # ?rest" by simp
  from Cons.IH [of a "els @ [?s]" ?pre] Cons.prems obtain spans
    where IH: "scan_from (?pre @ ?rest) (length ?pre) (els @ [?s])
        = Inr (Some (Suc (length (?pre @ body a as)), (els @ [?s]) @ spans))"
      "map (span (?pre @ ?rest)) spans = a # as" by auto
  have "scan_from (?pre @ ?rest) (length pre) els = scan_from (?pre @ ?rest) (length ?pre) (els @ [?s])"
    unfolding buf' using scan_from_element [of op els "CHR '',''" pre ?rest] Cons.prems by simp
  also have "\<dots> = Inr (Some (Suc (length (pre @ body op (a # as))), els @ ?s # spans))"
    unfolding IH(1) by (simp add: body_Cons)
  finally have "scan_from (?pre @ ?rest) (length pre) els
      = Inr (Some (Suc (length (pre @ body op (a # as))), els @ ?s # spans))" .
  moreover have "span (?pre @ ?rest) ?s = op"
    unfolding buf' by (rule span_element)
  then have "map (span (?pre @ ?rest)) (?s # spans) = op # a # as"
    by (simp only: list.map(2) IH(2))
  ultimately show ?case unfolding buf by (intro exI [of _ "?s # spans"] conjI)
qed

lemma collect_texts_Inr [simp]: "collect_texts (map Inr vs) = Inr vs"
  by (induction vs) simp_all

definition sendable_instruction :: "instruction \<Rightarrow> bool" where
  "sendable_instruction i \<longleftrightarrow> sendable (opcode i) \<and> (\<forall>a \<in> set (args i). sendable a)
     \<and> length (args i) < MAX_ELEMENTS"

lemma next_instruction_encode:
  assumes "sendable_instruction i"
  shows "next_instruction (encode i @ rest) = (rest, Inr (Some i))"
proof -
  let ?buf = "body (opcode i) (args i) @ CHR '';'' # rest"
  from assms scan_from_body [of "opcode i" "args i" "[]" "[]" rest] obtain spans
    where sc: "scan ?buf = Inr (Some (Suc (length (body (opcode i) (args i))), spans))"
      and sp: "map (span ?buf) spans = opcode i # args i"
    by (auto simp: sendable_instruction_def scan_def)
  have valid: "from_utf8 v = Some v" if "v \<in> set (opcode i # args i)" for v
    using assms that by (auto simp: sendable_instruction_def sendable_def)
  have "element_text ?buf s = Inr (span ?buf s)" if "s \<in> set spans" for s
  proof -
    from that have "span ?buf s \<in> set (map (span ?buf) spans)" by simp
    then have "from_utf8 (span ?buf s) = Some (span ?buf s)" unfolding sp by (rule valid)
    then show ?thesis by (simp add: element_text_def span_def split: prod.splits)
  qed
  then have "map (element_text ?buf) spans = map Inr (map (span ?buf) spans)" by simp
  then have "map (element_text ?buf) spans = Inr (opcode i) # map Inr (args i)" unfolding sp by simp
  with sc have "next_instruction ?buf = (drop (Suc (length (body (opcode i) (args i)))) ?buf, Inr (Some i))"
    by (simp add: next_instruction_def)
  then show ?thesis by (simp add: encode_def encode_into_body)
qed

section \<open>Reads may split an instruction anywhere\<close>

lemma takeWhile_append_stops:
  "length (takeWhile P xs) < length xs \<Longrightarrow> takeWhile P (xs @ ys) = takeWhile P xs"
  by (induction xs) auto

lemma skip_chars_append:
  "skip_chars buffer n at = Inr (Some stop) \<Longrightarrow> skip_chars (buffer @ rest) n at = Inr (Some stop)"
  by (induction buffer n at rule: skip_chars.induct) (auto simp: nth_append split: if_splits option.splits)

lemma scan_from_append:
  "scan_from buffer at els = Inr (Some r) \<Longrightarrow> scan_from (buffer @ rest) at els = Inr (Some r)"
proof (induction buffer at els rule: scan_from.induct)
  case (1 buffer at els)
  let ?k = "length (takeWhile is_ascii_digit (drop at buffer))"
  from "1.prems" obtain n stop where step: "0 < ?k" "?k \<le> 5" "at + ?k < length buffer"
      "buffer ! (at + ?k) = CHR ''.''" "parse_unsigned (2 ^ 64 - 1) (take ?k (drop at buffer)) = Some n"
      "skip_chars buffer n (at + ?k + 1) = Inr (Some stop)" "stop < length buffer" "length els < MAX_ELEMENTS"
    by (subst (asm) scan_from.simps)
      (auto simp: Let_def incomplete_def split: if_splits option.splits sum.splits)
  have len: "length (takeWhile is_ascii_digit (drop at (buffer @ rest))) = ?k"
    using step(3) takeWhile_append_stops [of is_ascii_digit "drop at buffer" rest] by simp
  have more: "at + ?k < length (buffer @ rest)" "(buffer @ rest) ! (at + ?k) = CHR ''.''"
      "parse_unsigned (2 ^ 64 - 1) (take ?k (drop at (buffer @ rest))) = Some n"
      "stop < length (buffer @ rest)" "(buffer @ rest) ! stop = buffer ! stop"
    using step by (simp_all add: nth_append)
  note old = scan_from_step [OF refl step]
  note new = scan_from_step [OF len step(1,2) more(1,2,3) skip_chars_append [OF step(6), of rest] more(4) step(8)]
  show ?case
    using "1.prems" "1.IH" [OF refl _ _ _ step(5) refl step(6) refl] step unfolding new more(5) old
    by (auto split: if_splits)
qed

lemma element_text_append:
  "stop \<le> length buffer \<Longrightarrow> element_text (buffer @ rest) (start, stop) = element_text buffer (start, stop)"
  by (simp add: element_text_def)

text \<open>Every element found lies within the instruction, and its length was counted in its characters.\<close>

lemma skip_chars_length:
  "list_all scalar cs \<Longrightarrow>
   skip_chars (pre @ from_chars cs @ rest) n (length pre) = Inr (Some (length pre + length (from_chars cs)))
   \<Longrightarrow> n = length cs"
proof (induction cs arbitrary: n pre)
  case Nil
  show ?case
  proof (cases n)
    case (Suc m)
    with Nil.prems(2) obtain k where "lead_length ((pre @ rest) ! length pre) = Some k"
      "skip_chars (pre @ rest) m (length pre + k) = Inr (Some (length pre))"
      by (auto simp: from_chars_def split: if_splits option.splits)
    then show ?thesis
      using skip_chars_le [of "pre @ rest" m "length pre + k"] by (auto simp: lead_length_def Let_def split: if_splits)
  qed simp
next
  case (Cons c cs)
  from Cons.prems encode_char_lead [of c] obtain b bs
    where e: "encode_char c = b # bs" and l: "lead_length (char_of b) = Some (Suc (length bs))" by auto
  let ?pre = "pre @ map char_of (encode_char c)"
  have split: "pre @ from_chars (c # cs) @ rest = ?pre @ from_chars cs @ rest"
    by (simp add: from_chars_def)
  have at: "(?pre @ from_chars cs @ rest) ! length pre = char_of b"
    by (simp add: e nth_append)
  obtain m where n: "n = Suc m"
    using Cons.prems(2) by (cases n) (auto simp: length_from_chars_Cons e)
  have "skip_chars (?pre @ from_chars cs @ rest) m (length ?pre) = Inr (Some (length ?pre + length (from_chars cs)))"
    using Cons.prems(2) at l unfolding split n by (simp add: length_from_chars_Cons e)
  then have "m = length cs" using Cons.IH [of ?pre m] Cons.prems(1) by simp
  then show ?case using n by simp
qed

lemma parse_digits_bound: "parse_digits mx acc s = Some n \<Longrightarrow> n < (acc + 1) * 10 ^ length s"
proof (induction mx acc s rule: parse_digits.induct)
  case (2 mx acc c s)
  then obtain d where d: "digit_value c = Some d" "parse_digits mx (10 * acc + d) s = Some n"
    by (auto split: option.splits if_splits)
  then have "d < 10"
    by (auto simp: digit_value_def is_ascii_digit_def ascii_between_def split: if_splits)
  then have "10 * acc + d + 1 \<le> (acc + 1) * 10" by simp
  then have "(10 * acc + d + 1) * 10 ^ length s \<le> (acc + 1) * 10 * 10 ^ length s"
    by (rule mult_le_mono1)
  moreover have "n < (10 * acc + d + 1) * 10 ^ length s" using 2 d by (auto split: if_splits)
  ultimately have "n < (acc + 1) * 10 * 10 ^ length s" by (rule order.strict_trans2 [rotated])
  then show ?case by (simp only: length_Cons power_Suc mult.assoc)
qed simp

lemma parse_unsigned_bound: "parse_unsigned mx s = Some n \<Longrightarrow> n < 10 ^ length s"
proof -
  assume p: "parse_unsigned mx s = Some n"
  then obtain t where t: "parse_digits mx 0 t = Some n" "length t \<le> length s"
    by (auto simp: parse_unsigned_def Let_def split: if_splits list.splits)
  from parse_digits_bound [OF t(1)] have "n < 10 ^ length t" by simp
  also have "(10::nat) ^ length t \<le> 10 ^ length s" using t(2) by (rule power_increasing) simp
  finally show ?thesis .
qed

definition good_element :: "string \<Rightarrow> nat \<Rightarrow> nat \<times> nat \<Rightarrow> bool" where
  "good_element buffer n = (\<lambda>(start, stop). stop < n \<and> start \<le> stop \<and>
     (\<forall>v. element_text buffer (start, stop) = Inr v \<longrightarrow> sendable v))"

lemma good_elementI:
  assumes "skip_chars buffer n start = Inr (Some stop)" "stop < length buffer" "n < 100000" "stop < e"
  shows "good_element buffer e (start, stop)"
proof -
  have "sendable v" if "element_text buffer (start, stop) = Inr v" for v
  proof -
    from that have v: "from_utf8 v = Some v" "v = take (stop - start) (drop start buffer)"
      by (auto simp: element_text_def from_utf8_iff split: option.splits)
    then obtain cs where cs: "list_all scalar cs" "v = from_chars cs" by (auto simp: from_utf8_iff)
    have "start \<le> stop" using assms(1) by (rule skip_chars_le)
    then have len: "length (take start buffer) = start" "length (from_chars cs) = stop - start"
      using assms(2) v(2) cs(2) by auto
    have "buffer = take start buffer @ from_chars cs @ drop stop buffer"
      using \<open>start \<le> stop\<close> unfolding cs(2) [symmetric] v(2)
      by (metis append_take_drop_id drop_drop le_add_diff_inverse2)
    then have "skip_chars (take start buffer @ from_chars cs @ drop stop buffer) n (length (take start buffer))
        = Inr (Some (length (take start buffer) + length (from_chars cs)))"
      using assms(1) len \<open>start \<le> stop\<close> by simp
    from skip_chars_length [OF cs(1) this] have "n = length cs" .
    then show ?thesis using v(1) cs assms(3) by (simp add: sendable_def chars_from_chars)
  qed
  then show ?thesis using assms skip_chars_le [OF assms(1)] by (auto simp: good_element_def)
qed

lemma good_element_mono: "good_element buffer n x \<Longrightarrow> n \<le> m \<Longrightarrow> good_element buffer m x"
  by (auto simp: good_element_def)

lemma scan_from_good:
  "scan_from buffer at els = Inr (Some (n, els')) \<Longrightarrow> list_all (good_element buffer n) els \<Longrightarrow>
   list_all (good_element buffer n) els' \<and> length els' \<le> MAX_ELEMENTS \<and> els' \<noteq> []"
proof (induction buffer at els rule: scan_from.induct)
  case (1 buffer at els)
  let ?k = "length (takeWhile is_ascii_digit (drop at buffer))"
  from "1.prems" obtain m stop where step: "0 < ?k" "?k \<le> 5" "at + ?k < length buffer"
      "buffer ! (at + ?k) = CHR ''.''" "parse_unsigned (2 ^ 64 - 1) (take ?k (drop at buffer)) = Some m"
      "skip_chars buffer m (at + ?k + 1) = Inr (Some stop)" "stop < length buffer" "length els < MAX_ELEMENTS"
    by (subst (asm) scan_from.simps)
      (auto simp: Let_def incomplete_def split: if_splits option.splits sum.splits)
  have "m < 10 ^ ?k" using parse_unsigned_bound [OF step(5)] step(3) by simp
  also have "(10::nat) ^ ?k \<le> 10 ^ 5" using step(2) by (rule power_increasing) simp
  finally have m: "m < 100000" by simp
  note eq = scan_from_step [OF refl step]
  have good: "good_element buffer e (at + ?k + 1, stop)" if "stop < e" for e
    using good_elementI [OF step(6,7) m that] .
  show ?case
  proof (cases "buffer ! stop = CHR '';''")
    case True
    with "1.prems" eq good [of n] step(8) show ?thesis by auto
  next
    case False
    with "1.prems"(1) eq have c: "buffer ! stop = CHR '',''"
      and rec: "scan_from buffer (stop + 1) (els @ [(at + ?k + 1, stop)]) = Inr (Some (n, els'))"
      by (auto split: if_splits)
    have "stop < n" using scan_from_bounds [OF rec] by simp
    then have "list_all (good_element buffer n) (els @ [(at + ?k + 1, stop)])"
      using "1.prems"(2) good by simp
    with "1.IH" [OF refl _ _ _ step(5) refl step(6) refl _ _ False c rec] step show ?thesis by auto
  qed
qed

lemma collect_texts_iff: "collect_texts rs = Inr vs \<longleftrightarrow> rs = map Inr vs"
proof (induction rs arbitrary: vs)
  case (Cons r rs)
  then show ?case by (cases r) (auto split: sum.splits)
qed auto

lemma next_instruction_cases:
  assumes "next_instruction buffer = (buffer', Inr (Some i))"
  obtains n els where "scan buffer = Inr (Some (n, els))" "buffer' = drop n buffer"
    "map (element_text buffer) els = map Inr (opcode i # args i)"
proof -
  from assms obtain n els where sc: "scan buffer = Inr (Some (n, els))"
    by (auto simp: next_instruction_def split: sum.splits option.splits prod.splits)
  with assms show ?thesis
    by (auto simp: next_instruction_def collect_texts_iff split: list.splits sum.splits intro!: that)
qed

lemma next_instruction_sendable:
  assumes "next_instruction buffer = (buffer', Inr (Some i))"
  shows "sendable_instruction i \<and> length buffer' < length buffer"
proof -
  from next_instruction_cases [OF assms] obtain n els where
    sc: "scan buffer = Inr (Some (n, els))" and b: "buffer' = drop n buffer"
    and els: "map (element_text buffer) els = map Inr (opcode i # args i)" .
  from sc have good: "list_all (good_element buffer n) els" "length els \<le> MAX_ELEMENTS"
    using scan_from_good [of buffer 0 "[]"] by (auto simp: scan_def)
  have "sendable v" if "v \<in> set (opcode i # args i)" for v
  proof -
    from that have "Inr v \<in> set (map (element_text buffer) els)" unfolding els by auto
    then obtain x where "x \<in> set els" "element_text buffer x = Inr v" by auto
    with good(1) show ?thesis by (auto simp: good_element_def list_all_iff)
  qed
  moreover have "length els = Suc (length (args i))" using arg_cong [OF els, of length] by simp
  ultimately show ?thesis
    using good(2) scan_bounds [OF sc] b by (auto simp: sendable_instruction_def)
qed

lemma next_instruction_append:
  assumes "next_instruction buffer = (buffer', Inr (Some i))"
  shows "next_instruction (buffer @ rest) = (buffer' @ rest, Inr (Some i))"
proof -
  from next_instruction_cases [OF assms] obtain n els where
    sc: "scan buffer = Inr (Some (n, els))" and b: "buffer' = drop n buffer"
    and els: "map (element_text buffer) els = map Inr (opcode i # args i)" .
  have n: "n \<le> length buffer" using scan_bounds [OF sc] by simp
  have "list_all (good_element buffer n) els"
    using scan_from_good [of buffer 0 "[]"] sc by (auto simp: scan_def)
  then have "element_text (buffer @ rest) x = element_text buffer x" if "x \<in> set els" for x
    using that n by (cases x) (auto simp: good_element_def list_all_iff intro!: element_text_append)
  then have "map (element_text (buffer @ rest)) els = Inr (opcode i) # map Inr (args i)"
    using els by (simp cong: map_cong)
  moreover have "scan (buffer @ rest) = Inr (Some (n, els))"
    using sc unfolding scan_def by (rule scan_from_append)
  ultimately show ?thesis using n b by (simp add: next_instruction_def)
qed

section \<open>Draining the parser\<close>

text \<open>
  The loops over \<open>next_instruction\<close>: all complete instructions, the buffer left, and the error
  that ended the loop, if one did.
\<close>

function drain :: "string \<Rightarrow> instruction list \<times> string \<times> guac_error option" where
  "drain buffer =
     (case next_instruction buffer of
        (buffer', Inr (Some i)) \<Rightarrow> (let (is, r, e) = drain buffer' in (i # is, r, e))
      | (buffer', Inr None) \<Rightarrow> ([], buffer', None)
      | (buffer', Inl e) \<Rightarrow> ([], buffer', Some e))"
  by pat_completeness auto
termination
  by (relation "measure length") (auto dest: next_instruction_sendable [OF sym])

declare drain.simps [simp del]

definition last_error :: "string \<Rightarrow> (string \<times> string) option" where
  "last_error text =
     (let nth_or = (\<lambda>as i. if i < length as then as ! i else [])
      in foldl (\<lambda>l i. if opcode i = ''error'' then Some (nth_or (args i) 0, nth_or (args i) 1) else l)
           None (fst (drain (parser_push [] text))))"

text \<open>\<open>take_complete\<close>: the end of the last complete instruction, and the text up to it.\<close>

function complete_end :: "string \<Rightarrow> nat \<Rightarrow> guac_error + nat" where
  "complete_end buffer end_at =
     (case scan (drop end_at buffer) of
        Inl e \<Rightarrow> Inl e
      | Inr None \<Rightarrow> Inr end_at
      | Inr (Some (n, _)) \<Rightarrow> complete_end buffer (end_at + n))"
  by pat_completeness auto
termination
  by (relation "measure (\<lambda>(buffer, end_at). length buffer - end_at)") (auto dest: scan_bounds)

declare complete_end.simps [simp del]

definition take_complete :: "string \<Rightarrow> string \<times> (guac_error + string option)" where
  "take_complete buffer =
     (case complete_end buffer 0 of
        Inl e \<Rightarrow> (buffer, Inl e)
      | Inr end_at \<Rightarrow>
          if end_at = 0 then (buffer, Inr None)
          else (drop end_at buffer,
                case from_utf8 (take end_at buffer) of
                  None \<Rightarrow> Inl (Malformed ''invalid UTF-8'')
                | Some text \<Rightarrow> Inr (Some text)))"

section \<open>The relay\<close>

definition allowed_from_browser :: "string \<Rightarrow> bool" where
  "allowed_from_browser op \<longleftrightarrow> op \<in> set [''ack'', ''blob'', ''clipboard'', ''disconnect'', ''end'', ''key'',
     ''mouse'', ''nop'', ''size'', ''sync'', ''touch'']"

definition is_input :: "string \<Rightarrow> bool" where
  "is_input op \<longleftrightarrow> op \<in> set [''blob'', ''clipboard'', ''end'', ''key'', ''mouse'', ''touch'']"

text \<open>
  The loop of \<open>relay\<close> over a text message of the browser. \<open>input\<close> is \<open>Activity::input\<close> on its
  state \<open>'a\<close>: whether the session is unlocked, so that input may pass. None when the
  browser's bytes are not Guacamole, which ends the relay.
\<close>

record 'a relay_state =
  activity :: 'a
  from_browser :: string
  forward :: string
  dropped :: nat

fun relay_instruction :: "('a \<Rightarrow> bool \<times> 'a) \<Rightarrow> 'a relay_state \<Rightarrow> instruction \<Rightarrow> 'a relay_state" where
  "relay_instruction input st i =
     (if allowed_from_browser (opcode i) then
        if is_input (opcode i) then
          (let (unlocked, a) = input (activity st)
           in if unlocked then st\<lparr>activity := a, forward := forward st @ encode i\<rparr>
              else st\<lparr>activity := a, dropped := dropped st + 1\<rparr>)
        else st\<lparr>forward := forward st @ encode i\<rparr>
      else st\<lparr>dropped := dropped st + 1\<rparr>)"

function relay_loop :: "('a \<Rightarrow> bool \<times> 'a) \<Rightarrow> 'a relay_state \<Rightarrow> 'a relay_state option" where
  "relay_loop input st =
     (case next_instruction (from_browser st) of
        (b, Inr (Some i)) \<Rightarrow> relay_loop input ((relay_instruction input st i)\<lparr>from_browser := b\<rparr>)
      | (b, Inr None) \<Rightarrow> Some (st\<lparr>from_browser := b\<rparr>)
      | (b, Inl _) \<Rightarrow> None)"
  by pat_completeness auto
termination
  by (relation "measure (\<lambda>(_, st). length (from_browser st))") (auto dest: next_instruction_sendable [OF sym])

declare relay_loop.simps [simp del]

definition relay_text :: "('a \<Rightarrow> bool \<times> 'a) \<Rightarrow> 'a relay_state \<Rightarrow> string \<Rightarrow> 'a relay_state option" where
  "relay_text input st text =
     relay_loop input (st\<lparr>from_browser := parser_push (from_browser st) text, forward := []\<rparr>)"

section \<open>The handshake\<close>

definition PROTOCOL_VERSION :: string where
  "PROTOCOL_VERSION = ''VERSION_1_5_0''"

record handshake =
  protocol :: string
  parameters :: "(string \<times> string) list"
  width :: nat
  height :: nat
  dpi :: nat
  timezone :: "string option"

definition select_text :: "handshake \<Rightarrow> string" where
  "select_text h = encode \<lparr>opcode = ''select'', args = [protocol h]\<rparr>"

definition setup_text :: "handshake \<Rightarrow> string" where
  "setup_text h =
     (let b1 = encode_into [] ''size'' [show_nat (width h), show_nat (height h), show_nat (dpi h)];
          b2 = encode_into b1 ''audio'' [];
          b3 = encode_into b2 ''video'' [];
          b4 = encode_into b3 ''image'' [''image/png'', ''image/jpeg'', ''image/webp'']
      in case timezone h of Some tz \<Rightarrow> encode_into b4 ''timezone'' [tz] | None \<Rightarrow> b4)"

definition connect_value :: "handshake \<Rightarrow> string \<Rightarrow> string" where
  "connect_value h name =
     (if starts_with name ''VERSION_'' then PROTOCOL_VERSION
      else case find (\<lambda>(key, _). key = name) (parameters h) of Some (_, v) \<Rightarrow> v | None \<Rightarrow> [])"

definition connect_text :: "handshake \<Rightarrow> instruction \<Rightarrow> string" where
  "connect_text h asked = encode_into [] ''connect'' (map (connect_value h) (args asked))"

definition refused :: "instruction \<Rightarrow> guac_error" where
  "refused e =
     Refused (case args e of m # _ \<Rightarrow> m | [] \<Rightarrow> [])
       (case args e of _ # s # _ \<Rightarrow> (case parse_unsigned 65535 s of Some n \<Rightarrow> n | None \<Rightarrow> 0) | _ \<Rightarrow> 0)"

text \<open>
  \<open>Connection::expect\<close>: \<open>reads\<close> are the chunks the socket will give, and none left is its end.
\<close>

function expect_loop :: "string \<Rightarrow> string \<Rightarrow> string list \<Rightarrow> (guac_error + instruction) \<times> string \<times> string list" where
  "expect_loop op buffer reads =
     (case next_instruction buffer of
        (b, Inl e) \<Rightarrow> (Inl e, b, reads)
      | (b, Inr (Some i)) \<Rightarrow>
          if opcode i = op then (Inr i, b, reads)
          else if opcode i = ''error'' then (Inl (refused i), b, reads)
          else expect_loop op b reads
      | (b, Inr None) \<Rightarrow>
          (case reads of
             [] \<Rightarrow> (Inl GuacIo, b, [])
           | chunk # rest \<Rightarrow> expect_loop op (parser_push b chunk) rest))"
  by pat_completeness auto
termination
  by (relation "measures [\<lambda>(_, _, reads). length reads, \<lambda>(_, b, _). length b]")
    (auto dest: next_instruction_sendable [OF sym])

declare expect_loop.simps [simp del]

text \<open>\<open>open_now\<close> after the socket is connected: what is sent, and the connection's id or the error.\<close>

definition open_now :: "handshake \<Rightarrow> string list \<Rightarrow> string list \<times> (guac_error + string)" where
  "open_now h reads =
     (case expect_loop ''args'' [] reads of
        (Inl e, _) \<Rightarrow> ([select_text h], Inl e)
      | (Inr asked, b, reads') \<Rightarrow>
          (case expect_loop ''ready'' b reads' of
             (Inl e, _) \<Rightarrow> ([select_text h, setup_text h, connect_text h asked], Inl e)
           | (Inr ready, _) \<Rightarrow>
               ([select_text h, setup_text h, connect_text h asked],
                Inr (case args ready of i # _ \<Rightarrow> i | [] \<Rightarrow> []))))"

section \<open>Properties\<close>

text \<open>
  Every instruction within guacd's limits (UTF-8 texts of at most 99999 characters, at most
  128 elements) is read back from its encoding as it was, whatever its texts contain, and
  the bytes after it stay in the buffer.
\<close>

theorem guac_roundtrip:
  "sendable_instruction i \<Longrightarrow> next_instruction (encode i @ rest) = (rest, Inr (Some i))"
  by (rule next_instruction_encode)

lemma sendable_ascii: "ascii s \<Longrightarrow> length s \<le> 99999 \<Longrightarrow> sendable s"
proof -
  assume a: "ascii s" and l: "length s \<le> 99999"
  have c: "chars s = map of_char s" using a by (rule chars_ascii)
  have "concat (map encode_char (map of_char s)) = map of_char s"
    using a unfolding ascii_def by (induction s) (auto simp: encode_char_def)
  then have "from_chars (chars s) = s" unfolding c from_chars_def by simp
  moreover have "list_all scalar (chars s)" unfolding c using a
    by (auto simp: list_all_iff ascii_def scalar_def)
  ultimately show ?thesis using l by (simp add: sendable_def from_utf8_def c)
qed

definition sample_instruction :: instruction where
  "sample_instruction = \<lparr>opcode = ''key'', args = [''a;b,c'', '''']\<rparr>"

lemma sample_sendable: "sendable_instruction sample_instruction"
  by (auto simp: sendable_instruction_def sample_instruction_def MAX_ELEMENTS_def ascii_def intro!: sendable_ascii)

theorem guac_roundtrip_witness:
  "next_instruction (encode sample_instruction @ ''4.sy'') = (''4.sy'', Inr (Some sample_instruction))"
  using guac_roundtrip [OF sample_sendable] .

lemma drain_Some: "next_instruction b = (b', Inr (Some i)) \<Longrightarrow>
    drain b = (i # fst (drain b'), snd (drain b'))"
  by (subst drain.simps) (simp add: split_def Let_def)

lemma drain_append:
  "drain b = (is, r, None) \<Longrightarrow> drain (b @ c) = (is @ fst (drain (r @ c)), snd (drain (r @ c)))"
proof (induction b arbitrary: "is" rule: measure_induct_rule [of length])
  case (less b)
  obtain b' res where n: "next_instruction b = (b', res)" by force
  show ?case
  proof (cases "\<exists>i. res = Inr (Some i)")
    case True
    then obtain i where i: "res = Inr (Some i)" by blast
    obtain js where js: "drain b' = (js, r, None)" "is = i # js"
      using less.prems drain_Some n i by (metis fst_conv prod.collapse prod.inject)
    have "drain (b' @ c) = (js @ fst (drain (r @ c)), snd (drain (r @ c)))"
      using less.IH [OF _ js(1)] n i next_instruction_sendable by blast
    moreover have "next_instruction (b @ c) = (b' @ c, Inr (Some i))"
      using n i next_instruction_append by blast
    ultimately show ?thesis using drain_Some js(2) by fastforce
  next
    case False
    with n less.prems have "is = []" "r = b'" "res = Inr None"
      by (subst (asm) drain.simps; auto split: sum.splits option.splits)+
    moreover from this n have "b' = b"
      by (auto simp: next_instruction_def split: sum.splits option.splits prod.splits list.splits)
    ultimately show ?thesis by simp
  qed
qed


lemma next_instruction_Nil: "next_instruction [] = ([], Inr None)"
proof -
  have "scan [] = Inr None" unfolding scan_def by (subst scan_from.simps) (simp add: incomplete_def)
  then show ?thesis by (simp add: next_instruction_def)
qed

lemma drain_None: "next_instruction b = (b', Inr None) \<Longrightarrow> drain b = ([], b', None)"
  by (subst drain.simps) simp

lemma drain_Nil: "drain [] = ([], [], None)"
  by (rule drain_None) (rule next_instruction_Nil)

lemma drain_encoded:
  "\<forall>i \<in> set is. sendable_instruction i \<Longrightarrow> drain (concat (map encode is)) = (is, [], None)"
proof (induction "is")
  case (Cons i js)
  from Cons.prems have "next_instruction (encode i @ concat (map encode js)) = (concat (map encode js), Inr (Some i))"
    by (simp add: next_instruction_encode)
  from drain_Some [OF this] Cons show ?case by simp
qed (simp add: drain_Nil)


lemma relay_loop_forwards:
  "relay_loop input st = Some st' \<Longrightarrow> \<exists>is. forward st' = forward st @ concat (map encode is)
     \<and> (\<forall>i \<in> set is. sendable_instruction i \<and> allowed_from_browser (opcode i)
          \<and> (is_input (opcode i) \<longrightarrow> (\<exists>a. fst (input a))))
     \<and> subseq is (fst (drain (from_browser st)))
     \<and> length is + dropped st' = length (fst (drain (from_browser st))) + dropped st"
proof (induction input st rule: relay_loop.induct)
  case (1 input st)
  obtain b res where n: "next_instruction (from_browser st) = (b, res)" by force
  show ?case
  proof (cases "\<exists>i. res = Inr (Some i)")
    case True
    then obtain i where i: "res = Inr (Some i)" by blast
    let ?st = "(relay_instruction input st i)\<lparr>from_browser := b\<rparr>"
    have rec: "relay_loop input ?st = Some st'"
      using "1.prems" n i by (subst (asm) relay_loop.simps) simp
    have ok: "sendable_instruction i" using next_instruction_sendable n i by blast
    have d: "fst (drain (from_browser st)) = i # fst (drain b)" using drain_Some n i by (metis fst_conv)
    from "1.IH" [OF n [symmetric] i _ rec] obtain js where js:
      "forward st' = forward ?st @ concat (map encode js)"
      "\<forall>i \<in> set js. sendable_instruction i \<and> allowed_from_browser (opcode i)
          \<and> (is_input (opcode i) \<longrightarrow> (\<exists>a. fst (input a)))"
      "subseq js (fst (drain b))"
      "length js + dropped st' = length (fst (drain b)) + dropped ?st"
      using i by fastforce
    show ?thesis
    proof (cases "forward ?st = forward st")
      case True
      moreover from this have "dropped ?st = dropped st + 1"
        by (auto simp: encode_def encode_into_body Let_def split: if_splits prod.splits)
      ultimately show ?thesis using js d by (intro exI [of _ js]) auto
    next
      case False
      then have "forward ?st = forward st @ encode i \<and> dropped ?st = dropped st \<and> allowed_from_browser (opcode i)
          \<and> (is_input (opcode i) \<longrightarrow> (\<exists>a. fst (input a)))"
        by (auto simp: Let_def split: if_splits prod.splits) (metis fst_conv)+
      then show ?thesis using js d ok by (intro exI [of _ "i # js"]) auto
    qed
  next
    case False
    with n "1.prems" have "st' = st\<lparr>from_browser := b\<rparr>" "res = Inr None"
      by (subst (asm) relay_loop.simps; auto split: sum.splits option.splits)+
    then show ?thesis using n drain_None [of "from_browser st" b] by (intro exI [of _ "[]"]) simp
  qed
qed


definition sample_relay :: "unit relay_state" where
  "sample_relay = \<lparr>activity = (), from_browser = [], forward = [], dropped = 0\<rparr>"


lemma skip_chars_error_append:
  "skip_chars buffer n at = Inl e \<Longrightarrow> skip_chars (buffer @ rest) n at = Inl e"
  by (induction buffer n at rule: skip_chars.induct) (auto simp: nth_append split: if_splits option.splits)

lemma length_takeWhile_append: "length (takeWhile P xs) \<le> length (takeWhile P (xs @ ys))"
  by (induction xs) auto

lemma scan_from_value:
  assumes "length (takeWhile is_ascii_digit (drop at buffer)) = k" "0 < k" "k \<le> 5" "at + k < length buffer"
    "buffer ! (at + k) = CHR ''.''" "parse_unsigned (2 ^ 64 - 1) (take k (drop at buffer)) = Some n"
  shows "scan_from buffer at els =
    (case skip_chars buffer n (at + k + 1) of
       Inl e \<Rightarrow> Inl e
     | Inr None \<Rightarrow> incomplete buffer
     | Inr (Some stop) \<Rightarrow>
         if stop \<ge> length buffer then incomplete buffer
         else if length (els @ [(at + k + 1, stop)]) > MAX_ELEMENTS then Inl (Malformed ''too many elements'')
         else if buffer ! stop = CHR '';'' then Inr (Some (stop + 1, els @ [(at + k + 1, stop)]))
         else if buffer ! stop = CHR '','' then scan_from buffer (stop + 1) (els @ [(at + k + 1, stop)])
         else Inl (Malformed ''element without separator''))"
proof -
  have "\<not> k > 5" "\<not> at + k \<ge> length buffer" "\<not> (k = 0 \<or> buffer ! (at + k) \<noteq> CHR ''.'')"
    using assms by auto
  then show ?thesis
    by (subst scan_from.simps) (simp only: Let_def assms(1,6) if_False option.case)
qed

text \<open>An error stays an error, whatever follows, unless it is that the instruction is too long.\<close>

lemma scan_from_error_append:
  "scan_from buffer at els = Inl e \<Longrightarrow> length buffer \<le> MAX_INSTRUCTION_BYTES \<Longrightarrow>
   scan_from (buffer @ rest) at els = Inl e"
proof (induction buffer at els rule: scan_from.induct)
  case (1 buffer at els)
  let ?k = "length (takeWhile is_ascii_digit (drop at buffer))"
  let ?k' = "length (takeWhile is_ascii_digit (drop at (buffer @ rest)))"
  have le: "?k \<le> ?k'" by (simp add: length_takeWhile_append)
  have inc: "incomplete buffer = Inr (None :: (nat \<times> (nat \<times> nat) list) option)"
    using "1.prems"(2) by (simp add: incomplete_def)
  consider (long) "5 < ?k" | (short) "?k \<le> 5" "at + ?k < length buffer"
    using "1.prems"(1) inc by (subst (asm) scan_from.simps) (auto simp: Let_def split: if_splits)
  then show ?case
  proof cases
    case long
    then have "e = Malformed ''element too long''"
      using "1.prems"(1) by (subst (asm) scan_from.simps) simp
    moreover have "5 < ?k'" using long le by simp
    ultimately show ?thesis by (subst scan_from.simps) simp
  next
    case short
    then have k: "?k' = ?k" using takeWhile_append_stops [of is_ascii_digit "drop at buffer" rest] by simp
    have same: "(buffer @ rest) ! (at + ?k) = buffer ! (at + ?k)"
      "take ?k (drop at (buffer @ rest)) = take ?k (drop at buffer)" "\<not> length (buffer @ rest) \<le> at + ?k"
      "\<not> length buffer \<le> at + ?k" "\<not> 5 < ?k"
      using short by (simp_all add: nth_append)
    show ?thesis
    proof (cases "?k = 0 \<or> buffer ! (at + ?k) \<noteq> CHR ''.''
        \<or> parse_unsigned (2 ^ 64 - 1) (take ?k (drop at buffer)) = None")
      case True
      then show ?thesis
        using "1.prems"(1) same k
        by (subst scan_from.simps, subst (asm) scan_from.simps) (auto simp: Let_def split: if_splits)
    next
      case False
      then obtain n where n: "parse_unsigned (2 ^ 64 - 1) (take ?k (drop at buffer)) = Some n"
        and dot: "?k \<noteq> 0" "buffer ! (at + ?k) = CHR ''.''" by auto
      note old = scan_from_value [OF refl _ _ _ dot(2) n, of els]
      have n': "parse_unsigned (2 ^ 64 - 1) (take ?k (drop at (buffer @ rest))) = Some n"
        using n same by simp
      note new = scan_from_value [OF k _ _ _ _ n', of els]
      show ?thesis
      proof (cases "skip_chars buffer n (at + ?k + 1)")
        case (Inl e')
        then show ?thesis
          using "1.prems"(1) skip_chars_error_append [OF Inl, of rest] old new dot same short by simp
      next
        case (Inr s)
        then obtain stop where s: "skip_chars buffer n (at + ?k + 1) = Inr (Some stop)" "stop < length buffer"
          using "1.prems"(1) inc old dot same short by (cases s) (auto split: if_splits)
        have "(buffer @ rest) ! stop = buffer ! stop" using s(2) by (simp add: nth_append)
        then show ?thesis
          using "1.prems" "1.IH" [OF refl _ _ _ n refl s(1) refl] s skip_chars_append [OF s(1), of rest] same dot
            old new short by (auto split: if_splits)
      qed
    qed
  qed
qed

lemma scan_encode:
  assumes "sendable_instruction i"
  shows "\<exists>els. scan (encode i @ rest) = Inr (Some (length (encode i), els))"
  using assms scan_from_body [of "opcode i" "args i" "[]" "[]" rest]
  by (auto simp: sendable_instruction_def scan_def encode_def encode_into_body)

lemma scan_proper_prefix:
  assumes i: "sendable_instruction i" and split: "encode i @ x = p @ q"
    and short: "length p < length (encode i)" "length p \<le> MAX_INSTRUCTION_BYTES"
  shows "scan p = Inr None"
proof (cases "scan p")
  case (Inl e)
  from scan_from_error_append [of p 0 "[]" e q] Inl short(2) have "scan (p @ q) = Inl e" by (simp add: scan_def)
  then show ?thesis using scan_encode [OF i, of x] split by auto
next
  case (Inr r)
  show ?thesis
  proof (cases r)
    case (Some s)
    obtain n els where s: "s = (n, els)" by force
    have "scan (p @ q) = Inr (Some (n, els))"
      using Inr Some s scan_from_append [of p 0 "[]" "(n, els)" q] by (simp add: scan_def)
    then have "n = length (encode i)" using scan_encode [OF i, of x] split by auto
    moreover have "n \<le> length p" using scan_bounds [of p n els] Inr Some s by simp
    ultimately show ?thesis using short(1) by simp
  qed (use Inr in simp)
qed

lemma next_instruction_None: "scan p = Inr None \<Longrightarrow> next_instruction p = (p, Inr None)"
  by (simp add: next_instruction_def)

lemma expect_loop_reads:
  assumes i: "sendable_instruction i" and op: "opcode i = op"
    and stream: "buffer @ concat reads = encode i @ rest" and short: "length (encode i) \<le> MAX_INSTRUCTION_BYTES"
  shows "\<exists>b reads'. expect_loop op buffer reads = (Inr i, b, reads') \<and> b @ concat reads' = rest"
  using stream
proof (induction reads arbitrary: buffer)
  case Nil
  then have "next_instruction buffer = (rest, Inr (Some i))" using next_instruction_encode [OF i] by simp
  then show ?case by (subst expect_loop.simps) (simp add: op)
next
  case (Cons chunk reads)
  show ?case
  proof (cases "length buffer < length (encode i)")
    case True
    have "scan buffer = Inr None"
      by (rule scan_proper_prefix [OF i, where q = "concat (chunk # reads)" and x = rest])
        (use Cons.prems True short in auto)
    then have "next_instruction buffer = (buffer, Inr None)" by (rule next_instruction_None)
    then have "expect_loop op buffer (chunk # reads) = expect_loop op (parser_push buffer chunk) reads"
      by (subst expect_loop.simps) simp
    moreover have "parser_push buffer chunk @ concat reads = encode i @ rest"
      using Cons.prems by (simp add: parser_push_def)
    ultimately show ?thesis using Cons.IH by simp
  next
    case False
    then obtain more' where "buffer = encode i @ more'" "more' @ concat (chunk # reads) = rest"
      using Cons.prems by (metis append_eq_append_conv_if append_take_drop_id not_less)
    then show ?thesis
      using next_instruction_encode [OF i, of more'] op by (subst expect_loop.simps) simp
  qed
qed

lemma find_Some_in_set: "find P xs = Some x \<Longrightarrow> x \<in> set xs"
  by (auto simp: find_Some_iff)

text \<open>
  The handshake with guacd: however guacd's \<open>args\<close> and \<open>ready\<close> are split into reads, the
  connection is opened with the id of \<open>ready\<close>, and what was sent last reads as \<open>connect\<close> with
  one value for each parameter guacd asked for, in its order: the given value, nothing for a
  parameter not given, and the protocol version for the version.
\<close>

theorem handshake_opens:
  assumes "sendable_instruction asked" "opcode asked = ''args''" "sendable_instruction ready" "opcode ready = ''ready''"
    and "concat reads = encode asked @ encode ready @ rest"
    and "length (encode asked) \<le> MAX_INSTRUCTION_BYTES" "length (encode ready) \<le> MAX_INSTRUCTION_BYTES"
    and vals: "\<forall>(_, v) \<in> set (parameters h). sendable v"
  shows "open_now h reads = ([select_text h, setup_text h, connect_text h asked],
      Inr (if args ready = [] then [] else hd (args ready)))
    \<and> drain (connect_text h asked) = ([\<lparr>opcode = ''connect'', args = map (connect_value h) (args asked)\<rparr>], [], None)"
proof -
  from expect_loop_reads [OF assms(1,2), of "[]" reads "encode ready @ rest"] assms(5,6)
  obtain b reads' where e1: "expect_loop ''args'' [] reads = (Inr asked, b, reads')"
    and r1: "b @ concat reads' = encode ready @ rest" by auto
  from expect_loop_reads [OF assms(3,4) r1 assms(7)] obtain b2 reads2
    where e2: "expect_loop ''ready'' b reads' = (Inr ready, b2, reads2)" by auto
  have version: "sendable PROTOCOL_VERSION" "sendable []"
    by (rule sendable_ascii; simp add: PROTOCOL_VERSION_def ascii_def)+
  have "sendable (connect_value h name)" for name
    using vals version by (auto simp: connect_value_def split: option.splits dest!: find_Some_in_set)
  moreover have "sendable ''connect''" by (rule sendable_ascii) (simp_all add: ascii_def)
  ultimately have "sendable_instruction \<lparr>opcode = ''connect'', args = map (connect_value h) (args asked)\<rparr>"
    using assms(1) by (auto simp: sendable_instruction_def)
  from drain_encoded [of "[\<lparr>opcode = ''connect'', args = map (connect_value h) (args asked)\<rparr>]"] this
  have "drain (connect_text h asked) = ([\<lparr>opcode = ''connect'', args = map (connect_value h) (args asked)\<rparr>], [], None)"
    by (simp add: connect_text_def encode_def)
  then show ?thesis by (auto simp: open_now_def e1 e2 neq_Nil_conv split: list.splits)
qed

lemma complete_end_encoded:
  assumes "\<forall>i \<in> set is. sendable_instruction i" and "scan r = Inr None"
  shows "complete_end (pre @ concat (map encode is) @ r) (length pre) = Inr (length pre + length (concat (map encode is)))"
  using assms(1)
proof (induction "is" arbitrary: pre)
  case Nil
  show ?case using assms(2) by (subst complete_end.simps) simp
next
  case (Cons i js)
  have "complete_end (pre @ concat (map encode (i # js)) @ r) (length pre)
      = complete_end ((pre @ encode i) @ concat (map encode js) @ r) (length (pre @ encode i))"
    using scan_encode [of i "concat (map encode js) @ r"] Cons.prems by (subst complete_end.simps) auto
  also have "\<dots> = Inr (length (pre @ encode i) + length (concat (map encode js)))"
    using Cons.IH [of "pre @ encode i"] Cons.prems by simp
  finally show ?case by simp
qed

lemma sendable_append_text: "sendable_instruction i \<Longrightarrow> from_utf8 (encode i) = Some (encode i)"
proof -
  assume i: "sendable_instruction i"
  have app: "from_utf8 (a @ b) = Some (a @ b)" if "from_utf8 a = Some a" "from_utf8 b = Some b" for a b
  proof -
    from that obtain x y where "list_all scalar x" "a = from_chars x" "list_all scalar y" "b = from_chars y"
      by (auto simp: from_utf8_iff)
    then show ?thesis
      unfolding from_utf8_iff by (intro conjI refl exI [of _ "x @ y"]) (simp_all add: from_chars_append)
  qed
  have asc: "from_utf8 s = Some s" if "ascii s" "length s \<le> 99999" for s
    using sendable_ascii [OF that] by (simp add: sendable_def)
  have el: "from_utf8 (element v) = Some (element v)" if "sendable v" for v
  proof -
    have "ascii (show_nat (length (chars v)) @ ''.'')"
      using show_nat_digits [of _ "length (chars v)"]
      by (fastforce simp: ascii_def list_all_iff is_ascii_digit_def ascii_between_def)
    moreover have "length (show_nat (length (chars v))) \<le> 5"
      using that by (intro length_show_nat) (auto simp: sendable_def)
    ultimately have "from_utf8 (show_nat (length (chars v)) @ ''.'') = Some (show_nat (length (chars v)) @ ''.'')"
      by (intro asc) simp_all
    from app [OF this, of v] that show ?thesis by (simp add: element_def sendable_def)
  qed
  have "from_utf8 (concat (map (\<lambda>a. CHR '','' # element a) as)) = Some (concat (map (\<lambda>a. CHR '','' # element a) as))"
    if "\<forall>a \<in> set as. sendable a" for as
    using that
  proof (induction as)
    case (Cons a as)
    then show ?case
      using app [OF app [OF asc [of "'',''"] el [of a]]] by (simp add: ascii_def)
  qed (simp add: asc ascii_def)
  then have "from_utf8 (body (opcode i) (args i)) = Some (body (opcode i) (args i))"
    using i unfolding body_def by (intro app el) (auto simp: sendable_instruction_def)
  from app [OF this, of "'';''"] show ?thesis
    by (simp add: encode_def encode_into_body asc ascii_def)
qed

lemma from_utf8_concat:
  "\<forall>i \<in> set is. sendable_instruction i \<Longrightarrow> from_utf8 (concat (map encode is)) = Some (concat (map encode is))"
proof (induction "is")
  case (Cons i js)
  then obtain x y where "list_all scalar x" "encode i = from_chars x" "list_all scalar y"
    "concat (map encode js) = from_chars y"
    using sendable_append_text [of i] by (auto simp: from_utf8_iff)
  then show ?case
    unfolding from_utf8_iff by (intro conjI refl exI [of _ "x @ y"]) (simp_all add: from_chars_append)
qed (simp add: from_utf8_def chars_def from_chars_def)

text \<open>
  What goes to the browser in one frame is exactly the complete instructions guacd has sent,
  unchanged; the start of the next one waits in the buffer.
\<close>

theorem take_complete_whole:
  assumes "\<forall>i \<in> set is. sendable_instruction i" and "is \<noteq> []" and "scan r = Inr None"
  shows "take_complete (concat (map encode is) @ r) = (r, Inr (Some (concat (map encode is))))"
proof -
  have "complete_end (concat (map encode is) @ r) 0 = Inr (length (concat (map encode is)))"
    using complete_end_encoded [OF assms(1,3), of "[]"] by simp
  moreover have "length (concat (map encode is)) \<noteq> 0"
    using assms(2) by (cases "is") (auto simp: encode_def encode_into_body)
  ultimately show ?thesis using from_utf8_concat [OF assms(1)] by (simp add: take_complete_def)
qed

lemma sample_prefix: "scan ''3.ke'' = Inr None"
proof -
  have "sendable_instruction \<lparr>opcode = ''key'', args = []\<rparr>"
    by (auto simp: sendable_instruction_def MAX_ELEMENTS_def ascii_def intro!: sendable_ascii)
  moreover have "encode \<lparr>opcode = ''key'', args = []\<rparr> = ''3.key;''"
    by (simp add: encode_def encode_into_body body_def element_def chars_def show_nat.simps digit_def char_of_def bit_0)
  ultimately show ?thesis
    using scan_proper_prefix [of "\<lparr>opcode = ''key'', args = []\<rparr>" "[]" "''3.ke''" "''y;''"]
    by (simp add: MAX_INSTRUCTION_BYTES_def)
qed

theorem take_complete_whole_witness:
  "take_complete (encode sample_instruction @ ''3.ke'') = (''3.ke'', Inr (Some (encode sample_instruction)))"
  using take_complete_whole [of "[sample_instruction]" "''3.ke''"] sample_sendable sample_prefix by simp

definition sample_handshake :: handshake where
  "sample_handshake = \<lparr>protocol = ''vnc'', parameters = [(''password'', ''secret'')], width = 800, height = 600,
     dpi = 96, timezone = None\<rparr>"

theorem handshake_opens_witness:
  "\<exists>asked ready. open_now sample_handshake [encode asked @ ''5.re'', drop 4 (encode ready)]
      = ([select_text sample_handshake, setup_text sample_handshake, connect_text sample_handshake asked], Inr ''id'')
    \<and> map (connect_value sample_handshake) (args asked) = [PROTOCOL_VERSION, ''secret'', '''']"
proof -
  let ?asked = "\<lparr>opcode = ''args'', args = [''VERSION_1_5_0'', ''password'', ''color'']\<rparr> :: instruction"
  let ?ready = "\<lparr>opcode = ''ready'', args = [''id'']\<rparr> :: instruction"
  have s: "sendable_instruction ?asked" "sendable_instruction ?ready"
    by (auto simp: sendable_instruction_def MAX_ELEMENTS_def ascii_def intro!: sendable_ascii)
  have enc: "encode ?ready = ''5.ready,2.id;''" "length (encode ?asked) \<le> MAX_INSTRUCTION_BYTES"
    by (simp_all add: encode_def encode_into_body body_def element_def chars_def show_nat.simps digit_def char_of_def bit_0
        MAX_INSTRUCTION_BYTES_def)
  have "concat [encode ?asked @ ''5.re'', drop 4 (encode ?ready)] = encode ?asked @ encode ?ready @ []"
    by (simp add: enc(1))
  from handshake_opens [OF s(1) _ s(2) _ this, of sample_handshake] enc
  have "open_now sample_handshake [encode ?asked @ ''5.re'', drop 4 (encode ?ready)]
      = ([select_text sample_handshake, setup_text sample_handshake, connect_text sample_handshake ?asked], Inr ''id'')"
    by (simp add: MAX_INSTRUCTION_BYTES_def sample_handshake_def sendable_ascii ascii_def)
  then show ?thesis
    by (intro exI [of _ ?asked] exI [of _ ?ready])
      (simp add: connect_value_def sample_handshake_def starts_with_def)
qed

end
