(* ===== verification/Totp.thy ===== *)
theory Totp
  imports Strings "HOL-Library.Word"
begin

unbundle bit_operations_syntax

text \<open>
  One-time passwords, \<^verbatim>\<open>crates/totp/src/lib.rs\<close>: the codes of the program's own second factor
  with the clock drift it allows, and the codes of any service from its \<open>otpauth\<close> link.

  The keyed hashes and base32 come from other crates and are parameters: \<open>hmac\<close> gives the
  digest of the algorithm, key and message, \<open>b32_encode\<close> and \<open>b32_decode\<close> are base32 without
  padding.
\<close>

section \<open>Codes\<close>

datatype algorithm = Sha1 | Sha256 | Sha512

type_synonym hmac_fun = "algorithm \<Rightarrow> u8 list \<Rightarrow> u8 list \<Rightarrow> u8 list"

definition PERIOD :: nat where "PERIOD = 30"
definition DIGITS :: nat where "DIGITS = 6"
definition SECRET_BYTES :: nat where "SECRET_BYTES = 20"
definition MIN_SECRET_BYTES :: nat where "MIN_SECRET_BYTES = 10"

text \<open>\<open>u64::to_be_bytes\<close>.\<close>

definition to_be_bytes :: "nat \<Rightarrow> u8 list" where
  "to_be_bytes n = map (\<lambda>i. of_nat (n div 256 ^ i)) (rev [0..<8])"

text \<open>\<open>u32::from_be_bytes\<close> of the four bytes at the offset, the first without its top bit.\<close>

definition truncated :: "u8 list \<Rightarrow> nat" where
  "truncated digest =
     (let offset = unat (last digest AND 15)
      in unat (digest ! offset AND 127) * 2 ^ 24 + unat (digest ! (offset + 1)) * 2 ^ 16
           + unat (digest ! (offset + 2)) * 2 ^ 8 + unat (digest ! (offset + 3)))"

text \<open>\<open>format!("{value:0width$}")\<close>.\<close>

definition zero_padded :: "nat \<Rightarrow> nat \<Rightarrow> string" where
  "zero_padded w n = replicate (w - length (show_nat n)) (CHR ''0'') @ show_nat n"

definition code :: "hmac_fun \<Rightarrow> u8 list \<Rightarrow> nat \<Rightarrow> string" where
  "code hmac secret step =
     (let digest = hmac Sha1 secret (to_be_bytes step)
      in zero_padded DIGITS (truncated digest mod 10 ^ DIGITS))"

text \<open>The comparison that looks at every byte.\<close>

definition same_code :: "string \<Rightarrow> string \<Rightarrow> bool" where
  "same_code expected given \<longleftrightarrow> length expected = length given
     \<and> foldl (\<lambda>acc (a, b). acc OR (of_nat (of_char a) XOR of_nat (of_char b))) (0 :: u8) (zip expected given) = 0"

definition step :: "hmac_fun \<Rightarrow> u8 list \<Rightarrow> string \<Rightarrow> nat \<Rightarrow> nat option" where
  "step hmac secret given unix_seconds =
     (let now = unix_seconds div PERIOD
      in find (\<lambda>s. same_code (code hmac secret s) given) [now, now - 1, now + 1])"

definition decode_secret :: "(string \<Rightarrow> u8 list option) \<Rightarrow> string \<Rightarrow> u8 list option" where
  "decode_secret b32_decode secret =
     (case b32_decode (trim secret) of
        None \<Rightarrow> None
      | Some bytes \<Rightarrow> if length bytes = SECRET_BYTES then Some bytes else None)"

definition uri :: "string \<Rightarrow> string \<Rightarrow> string \<Rightarrow> string" where
  "uri issuer account secret_base32 =
     ''otpauth://totp/'' @ issuer @ '':'' @ account @ ''?secret='' @ secret_base32 @ ''&issuer='' @ issuer
       @ ''&algorithm=SHA1&digits='' @ show_nat DIGITS @ ''&period='' @ show_nat PERIOD"

section \<open>The codes of a service\<close>

record totp_params =
  tp_secret :: "u8 list"
  tp_algorithm :: algorithm
  tp_digits :: nat
  tp_period :: nat

definition is_char_boundary :: "string \<Rightarrow> nat \<Rightarrow> bool" where
  "is_char_boundary s n \<longleftrightarrow> n = length s \<or> (n < length s \<and> of_char (s ! n) div 64 \<noteq> (2 :: nat))"

definition strip_prefix_ignore_case :: "string \<Rightarrow> string \<Rightarrow> string option" where
  "strip_prefix_ignore_case text prefix =
     (if is_char_boundary text (length prefix) \<and> eq_ignore_ascii_case (take (length prefix) text) prefix
      then Some (drop (length prefix) text) else None)"

definition lenient_base32 :: "(string \<Rightarrow> u8 list option) \<Rightarrow> string \<Rightarrow> u8 list option" where
  "lenient_base32 b32_decode text =
     (let clean = to_ascii_uppercase (from_chars (filter (\<lambda>c. \<not> is_whitespace c \<and> c \<noteq> 45 \<and> c \<noteq> 61) (chars text)))
      in case b32_decode clean of
           None \<Rightarrow> None
         | Some bytes \<Rightarrow> if length bytes \<ge> MIN_SECRET_BYTES then Some bytes else None)"

definition algorithm_named :: "string \<Rightarrow> algorithm option" where
  "algorithm_named v =
     (if v = ''SHA1'' then Some Sha1 else if v = ''SHA256'' then Some Sha256
      else if v = ''SHA512'' then Some Sha512 else None)"

definition within :: "nat \<Rightarrow> nat \<Rightarrow> nat option \<Rightarrow> nat option" where
  "within lo hi n = Option.bind n (\<lambda>d. if lo \<le> d \<and> d \<le> hi then Some d else None)"

fun parse_pairs :: "(string \<Rightarrow> u8 list option) \<Rightarrow> string list \<Rightarrow> totp_params \<Rightarrow> totp_params option" where
  "parse_pairs b32 [] p = Some p"
| "parse_pairs b32 (pair # pairs) p =
     (let (key, v) = (case split_once CHR ''='' pair of Some kv \<Rightarrow> kv | None \<Rightarrow> (pair, []));
          k = to_ascii_lowercase key
      in if k = ''secret'' then
           Option.bind (lenient_base32 b32 v) (\<lambda>s. parse_pairs b32 pairs (p\<lparr>tp_secret := s\<rparr>))
         else if k = ''algorithm'' then
           Option.bind (algorithm_named (to_ascii_uppercase v)) (\<lambda>a. parse_pairs b32 pairs (p\<lparr>tp_algorithm := a\<rparr>))
         else if k = ''digits'' then
           Option.bind (within 6 8 (parse_unsigned (2 ^ 32 - 1) v)) (\<lambda>d. parse_pairs b32 pairs (p\<lparr>tp_digits := d\<rparr>))
         else if k = ''period'' then
           Option.bind (within 1 300 (parse_unsigned (2 ^ 64 - 1) v)) (\<lambda>d. parse_pairs b32 pairs (p\<lparr>tp_period := d\<rparr>))
         else parse_pairs b32 pairs p)"

definition params_parse :: "(string \<Rightarrow> u8 list option) \<Rightarrow> string \<Rightarrow> totp_params option" where
  "params_parse b32 raw =
     (let text = trim raw
      in case strip_prefix_ignore_case text ''otpauth://totp/'' of
           None \<Rightarrow> map_option (\<lambda>s. \<lparr>tp_secret = s, tp_algorithm = Sha1, tp_digits = DIGITS, tp_period = PERIOD\<rparr>) (lenient_base32 b32 text)
         | Some rest \<Rightarrow>
             (case split_once CHR ''?'' rest of
                None \<Rightarrow> None
              | Some (_, query) \<Rightarrow>
                  Option.bind (parse_pairs b32 (split_on CHR ''&'' query)
                     \<lparr>tp_secret = [], tp_algorithm = Sha1, tp_digits = DIGITS, tp_period = PERIOD\<rparr>)
                   (\<lambda>p. if tp_secret p \<noteq> [] then Some p else None)))"

definition code_at :: "hmac_fun \<Rightarrow> totp_params \<Rightarrow> nat \<Rightarrow> string \<times> nat" where
  "code_at hmac p unix_seconds =
     (let digest = hmac (tp_algorithm p) (tp_secret p) (to_be_bytes (unix_seconds div tp_period p))
      in (zero_padded (tp_digits p) (truncated digest mod 10 ^ tp_digits p),
          tp_period p - unix_seconds mod tp_period p))"

section \<open>Properties\<close>

lemma foldl_or_0:
  fixes acc :: "'a::len word"
  shows "foldl (\<lambda>acc (a, b). acc OR f a b) acc ps = 0 \<longleftrightarrow> acc = 0 \<and> (\<forall>(a, b) \<in> set ps. f a b = 0)"
  by (induction ps arbitrary: acc) (auto simp: or_eq_0_iff)

lemma byte_xor_0: "(of_nat (of_char a) :: u8) XOR of_nat (of_char b) = 0 \<longleftrightarrow> a = b"
proof -
  have "(x :: u8) XOR y = 0 \<longleftrightarrow> x = y" for x y
    by (auto simp: bit_eq_iff bit_simps)
  moreover have "(of_nat (of_char a) :: u8) = of_nat (of_char b) \<longleftrightarrow> a = b"
  proof
    assume "(of_nat (of_char a) :: u8) = of_nat (of_char b)"
    then have "unat (of_nat (of_char a) :: u8) = unat (of_nat (of_char b) :: u8)" by simp
    then have "(of_char a :: nat) = of_char b" by (simp add: unat_of_nat)
    then show "a = b" by simp
  qed simp
  ultimately show ?thesis by simp
qed

lemma same_code_iff: "same_code a b \<longleftrightarrow> a = b"
  unfolding same_code_def foldl_or_0 byte_xor_0
  by (auto simp: list_eq_iff_zip_eq in_set_zip)

text \<open>
  A code is accepted exactly if it is the code of the current time step, of the one before
  or of the one after, and the step returned is one it belongs to; the comparison over all
  bytes is equality.
\<close>

theorem step_exact:
  "case step hmac secret given t of
     Some s \<Rightarrow> given = code hmac secret s \<and> s \<in> {t div 30, t div 30 - 1, t div 30 + 1}
   | None \<Rightarrow> given \<notin> code hmac secret ` {t div 30, t div 30 - 1, t div 30 + 1}"
  by (auto simp: step_def same_code_iff PERIOD_def Let_def)

lemma length_zero_padded: "n < 10 ^ w \<Longrightarrow> 0 < w \<Longrightarrow> length (zero_padded w n) = w"
  using length_show_nat [of n w] by (simp add: zero_padded_def)

lemma zero_padded_digits: "c \<in> set (zero_padded w n) \<Longrightarrow> is_ascii_digit c"
  using show_nat_digits [of c n] by (auto simp: zero_padded_def is_ascii_digit_def ascii_between_def)

text \<open>A digest of at least 20 bytes, as each of the hashes gives, is never read past its end.\<close>

lemma offset_in_range:
  "20 \<le> length digest \<Longrightarrow> unat (last digest AND 15 :: u8) + 3 < length digest"
proof -
  have "last digest AND 15 \<le> (15 :: u8)" by (rule word_and_le1)
  then have "unat (last digest AND 15 :: u8) \<le> 15" by (simp add: word_le_nat_alt)
  then show "20 \<le> length digest \<Longrightarrow> ?thesis" by simp
qed

text \<open>
  The code of a service holds for as long as reported: it has the number of digits asked
  for, the seconds left are between 1 and the period, and at every moment until they have
  passed the code is the same and the seconds left have gone down by the time elapsed.
\<close>

theorem code_at_holds:
  assumes "1 \<le> tp_period p" and "1 \<le> tp_digits p" and "t \<le> t'" and "t' < t + snd (code_at hmac p t)"
  shows "code_at hmac p t' = (fst (code_at hmac p t), snd (code_at hmac p t) - (t' - t))
    \<and> 1 \<le> snd (code_at hmac p t) \<and> snd (code_at hmac p t) \<le> tp_period p
    \<and> length (fst (code_at hmac p t)) = tp_digits p \<and> (\<forall>c \<in> set (fst (code_at hmac p t)). is_ascii_digit c)"
proof -
  let ?n = "tp_period p"
  have left: "snd (code_at hmac p t) = ?n - t mod ?n" by (simp add: code_at_def Let_def)
  have m: "t mod ?n < ?n" using assms(1) by simp
  then have lt: "t mod ?n + (t' - t) < ?n" using assms(3,4) left by linarith
  have t': "t' = ?n * (t div ?n) + (t mod ?n + (t' - t))" using assms(3) by (metis add.assoc le_add_diff_inverse mult_div_mod_eq)
  have "?n * (t div ?n) \<le> t'" "t' < ?n * Suc (t div ?n)"
    using t' lt by (simp_all only: mult_Suc_right)
  then have d: "t' div ?n = t div ?n" by (rule div_nat_eqI)
  have e: "t' mod ?n = t mod ?n + (t' - t)"
    using t' mult_div_mod_eq [of ?n t'] unfolding d by linarith
  have "code_at hmac p t' = (fst (code_at hmac p t), snd (code_at hmac p t) - (t' - t))"
    using d e by (simp add: code_at_def Let_def)
  then show ?thesis
    using m left assms(2) by (auto simp: code_at_def Let_def length_zero_padded dest: zero_padded_digits)
qed

theorem code_at_holds_witness:
  "code_at (\<lambda>_ _ _. replicate 20 1) \<lparr>tp_secret = [], tp_algorithm = Sha1, tp_digits = 6, tp_period = 30\<rparr> 64
    = (fst (code_at (\<lambda>_ _ _. replicate 20 1) \<lparr>tp_secret = [], tp_algorithm = Sha1, tp_digits = 6, tp_period = 30\<rparr> 61), 26)"
  using code_at_holds [of "\<lparr>tp_secret = [], tp_algorithm = Sha1, tp_digits = 6, tp_period = 30\<rparr>" 61 64 "\<lambda>_ _ _. replicate 20 1"]
  by (simp add: code_at_def Let_def)

text \<open>
  The program's own codes are the ones an authenticator app computes from its link: the
  code of a time step is the one of SHA-1, six digits and thirty seconds.
\<close>

theorem code_is_code_at:
  "code hmac sec (t div 30)
    = fst (code_at hmac \<lparr>tp_secret = sec, tp_algorithm = Sha1, tp_digits = 6, tp_period = 30\<rparr> t)"
  by (simp add: code_def code_at_def Let_def DIGITS_def)

definition params_ok :: "totp_params \<Rightarrow> bool" where
  "params_ok p \<longleftrightarrow> 6 \<le> tp_digits p \<and> tp_digits p \<le> 8 \<and> 1 \<le> tp_period p \<and> tp_period p \<le> 300
     \<and> (tp_secret p = [] \<or> 10 \<le> length (tp_secret p))"

lemma lenient_base32_length: "lenient_base32 b32 v = Some s \<Longrightarrow> 10 \<le> length s"
  by (auto simp: lenient_base32_def MIN_SECRET_BYTES_def Let_def split: option.splits if_splits)

lemma within_bounds: "within lo hi n = Some d \<Longrightarrow> lo \<le> d \<and> d \<le> hi"
  by (auto simp: within_def bind_eq_Some_conv split: if_splits)

lemma parse_pairs_ok: "parse_pairs b32 pairs p = Some q \<Longrightarrow> params_ok p \<Longrightarrow> params_ok q"
proof (induction b32 pairs p rule: parse_pairs.induct)
  case (2 b32 pair pairs p)
  obtain key v where kv: "(case split_once CHR ''='' pair of Some kv \<Rightarrow> kv | None \<Rightarrow> (pair, [])) = (key, v)"
    by force
  note IH = "2.IH" [OF kv [symmetric] refl refl]
  show ?case
    using "2.prems" IH lenient_base32_length [of b32 v] within_bounds
    by (fastforce simp: kv Let_def bind_eq_Some_conv params_ok_def split: if_splits)
qed simp

text \<open>
  Whatever text is given, the parameters taken from it are ones codes can be made from: 6 to 8
  digits, a period of 1 to 300 seconds and a secret of at least 80 bits.
\<close>

theorem params_parse_ok:
  assumes "params_parse b32 raw = Some p"
  shows "6 \<le> tp_digits p \<and> tp_digits p \<le> 8 \<and> 1 \<le> tp_period p \<and> tp_period p \<le> 300 \<and> 10 \<le> length (tp_secret p)"
proof (cases "strip_prefix_ignore_case (trim raw) ''otpauth://totp/''")
  case None
  with assms show ?thesis
    by (auto simp: params_parse_def Let_def DIGITS_def PERIOD_def dest: lenient_base32_length)
next
  case (Some rest)
  with assms obtain query where
    q: "parse_pairs b32 (split_on CHR ''&'' query)
      \<lparr>tp_secret = [], tp_algorithm = Sha1, tp_digits = DIGITS, tp_period = PERIOD\<rparr> = Some p" and "tp_secret p \<noteq> []"
    by (auto simp: params_parse_def Let_def bind_eq_Some_conv split: option.splits if_splits)
  moreover have "params_ok p"
    using parse_pairs_ok [OF q] by (simp add: params_ok_def DIGITS_def PERIOD_def)
  ultimately show ?thesis by (auto simp: params_ok_def)
qed

lemma split_on_append: "c \<notin> set a \<Longrightarrow> split_on c (a @ c # b) = a # split_on c b"
  by (rule split_by_append) auto

lemma split_once_prefix: "CHR ''='' \<notin> set k \<Longrightarrow> split_once CHR ''='' (k @ CHR ''='' # v) = Some (k, v)"
  by (rule split_once_append)

lemma parse_pair_secret:
  "parse_pairs b32 ((''secret='' @ v) # pairs) p
    = Option.bind (lenient_base32 b32 v) (\<lambda>s. parse_pairs b32 pairs (p\<lparr>tp_secret := s\<rparr>))"
  by (simp add: ascii_lower_def ascii_between_def)

lemma parse_pair_issuer: "parse_pairs b32 ((''issuer='' @ v) # pairs) p = parse_pairs b32 pairs p"
  by (simp add: ascii_lower_def ascii_between_def)

lemma parse_pair_algorithm:
  "parse_pairs b32 (''algorithm=SHA1'' # pairs) p = parse_pairs b32 pairs (p\<lparr>tp_algorithm := Sha1\<rparr>)"
  by (simp add: ascii_lower_def ascii_upper_def ascii_between_def algorithm_named_def)

lemma parse_pair_digits:
  "6 \<le> d \<Longrightarrow> d \<le> 8 \<Longrightarrow>
   parse_pairs b32 ((''digits='' @ show_nat d) # pairs) p = parse_pairs b32 pairs (p\<lparr>tp_digits := d\<rparr>)"
  using parse_unsigned_show [of d "2 ^ 32 - 1"]
  by (simp add: ascii_lower_def ascii_between_def within_def)

lemma parse_pair_period:
  "1 \<le> d \<Longrightarrow> d \<le> 300 \<Longrightarrow>
   parse_pairs b32 ((''period='' @ show_nat d) # pairs) p = parse_pairs b32 pairs (p\<lparr>tp_period := d\<rparr>)"
  using parse_unsigned_show [of d "2 ^ 64 - 1"]
  by (simp add: ascii_lower_def ascii_between_def within_def)

definition base32_alphabet :: string where
  "base32_alphabet = ''ABCDEFGHIJKLMNOPQRSTUVWXYZ234567''"

lemma base32_char: "c \<in> set base32_alphabet \<Longrightarrow>
    (32 < (of_char c :: nat) \<and> of_char c < (128 :: nat)) \<and> \<not> is_whitespace (of_char c) \<and> (of_char c :: nat) \<noteq> 45
      \<and> (of_char c :: nat) \<noteq> 61 \<and> ascii_upper c = c \<and> c \<noteq> CHR ''&''"
  unfolding base32_alphabet_def
  by (simp, elim disjE) (simp_all add: is_whitespace_def ascii_upper_def ascii_between_def)

lemma lenient_base32_encoded:
  assumes "set e \<subseteq> set base32_alphabet" and "b32_decode e = Some s" and "10 \<le> length s"
  shows "lenient_base32 b32_decode e = Some s"
proof -
  have e: "\<And>c. c \<in> set e \<Longrightarrow> c \<in> set base32_alphabet" using assms(1) by auto
  have a: "ascii e" unfolding ascii_def list_all_iff using e base32_char by blast
  have "filter (\<lambda>c. \<not> is_whitespace c \<and> c \<noteq> 45 \<and> c \<noteq> 61) (map of_char e) = map of_char e"
    using e base32_char by (intro filter_True) auto
  moreover have "map ascii_upper e = e" using e base32_char by (intro map_idI) blast
  ultimately show ?thesis
    using assms(2,3) by (simp add: lenient_base32_def chars_ascii [OF a] from_chars_ascii [OF a] MIN_SECRET_BYTES_def)
qed

lemma strip_prefix_append:
  assumes "r \<noteq> []" and "(of_char (hd r) :: nat) < 128"
  shows "strip_prefix_ignore_case (p @ r) p = Some r"
proof -
  have "(of_char (hd r) :: nat) div 64 \<noteq> 2" using assms(2) by (simp add: div_eq_dividend_iff less_mult_imp_div_less)
  then have "is_char_boundary (p @ r) (length p)"
    using assms(1) by (simp add: is_char_boundary_def nth_append hd_conv_nth)
  then show ?thesis by (simp add: strip_prefix_ignore_case_def eq_ignore_ascii_case_def)
qed

lemma uri_parses:
  assumes "b32_decode (b32_encode s) = Some s" and "set (b32_encode s) \<subseteq> set base32_alphabet" and "10 \<le> length s"
    and "visible_ascii issuer" and "CHR ''?'' \<notin> set issuer" and "CHR ''&'' \<notin> set issuer"
    and "visible_ascii account" and "CHR ''?'' \<notin> set account"
  shows "params_parse b32_decode (uri issuer account (b32_encode s))
    = Some \<lparr>tp_secret = s, tp_algorithm = Sha1, tp_digits = 6, tp_period = 30\<rparr>"
proof -
  let ?name = "issuer @ CHR '':'' # account"
  let ?query = "(''secret='' @ b32_encode s) @ CHR ''&'' # (''issuer='' @ issuer) @ CHR ''&'' # ''algorithm=SHA1''
      @ CHR ''&'' # (''digits='' @ show_nat 6) @ CHR ''&'' # ''period='' @ show_nat 30"
  have enc: "visible_ascii (b32_encode s)" "CHR ''&'' \<notin> set (b32_encode s)"
    unfolding visible_ascii_def list_all_iff using assms(2) base32_char by blast+
  have uri: "uri issuer account (b32_encode s) = ''otpauth://totp/'' @ ?name @ CHR ''?'' # ?query"
    by (simp add: uri_def DIGITS_def PERIOD_def)
  have trim: "trim (uri issuer account (b32_encode s)) = uri issuer account (b32_encode s)"
    using assms enc unfolding uri by (intro trim_visible_ascii) simp
  have strip: "strip_prefix_ignore_case (uri issuer account (b32_encode s)) ''otpauth://totp/''
      = Some (?name @ CHR ''?'' # ?query)"
    unfolding uri by (rule strip_prefix_append) (use assms(4) in \<open>cases issuer; simp\<close>)+
  have query: "split_once CHR ''?'' (?name @ CHR ''?'' # ?query) = Some (?name, ?query)"
    using assms by (intro split_once_append) auto
  have last: "split_on CHR ''&'' (''period='' @ show_nat 30) = [''period='' @ show_nat 30]"
    using not_in_show_nat [of "CHR ''&''" 30]
    by (intro split_by_id) (auto simp: is_ascii_digit_def ascii_between_def)
  have amp: "CHR ''&'' \<notin> set (show_nat 6)"
    by (rule not_in_show_nat) (simp add: is_ascii_digit_def ascii_between_def)
  have pairs: "split_on CHR ''&'' ?query = [''secret='' @ b32_encode s, ''issuer='' @ issuer, ''algorithm=SHA1'',
      ''digits='' @ show_nat 6, ''period='' @ show_nat 30]"
  proof -
    have "CHR ''&'' \<notin> set (''secret='' @ b32_encode s)" "CHR ''&'' \<notin> set (''issuer='' @ issuer)"
      "CHR ''&'' \<notin> set ''algorithm=SHA1''" "CHR ''&'' \<notin> set (''digits='' @ show_nat 6)"
      using enc(2) assms(6) amp by auto
    then show ?thesis by (simp only: split_on_append last not_False_eq_True)
  qed
  have parsed: "parse_pairs b32_decode (split_on CHR ''&'' ?query)
      \<lparr>tp_secret = [], tp_algorithm = Sha1, tp_digits = DIGITS, tp_period = PERIOD\<rparr>
      = Some \<lparr>tp_secret = s, tp_algorithm = Sha1, tp_digits = 6, tp_period = 30\<rparr>"
    unfolding pairs parse_pair_secret lenient_base32_encoded [where b32_decode = b32_decode, OF assms(2,1,3)]
    by (simp only: parse_pair_issuer parse_pair_algorithm parse_pair_digits parse_pair_period bind.simps) simp
  have "s \<noteq> []" using assms(3) by auto
  then show ?thesis
    unfolding params_parse_def Let_def trim strip option.case query prod.case parsed by simp
qed

text \<open>
  The link shown to a user means the secret it was made from: read as any service's link,
  it gives that secret with SHA-1, six digits and thirty seconds, if the base32 library
  decodes what it encodes and writes only its alphabet.
\<close>

theorem uri_roundtrip:
  assumes "b32_decode (b32_encode s) = Some s" and "set (b32_encode s) \<subseteq> set base32_alphabet" and "10 \<le> length s"
    and "visible_ascii issuer" and "CHR ''?'' \<notin> set issuer" and "CHR ''&'' \<notin> set issuer"
    and "visible_ascii account" and "CHR ''?'' \<notin> set account"
  shows "params_parse b32_decode (uri issuer account (b32_encode s))
    = Some \<lparr>tp_secret = s, tp_algorithm = Sha1, tp_digits = 6, tp_period = 30\<rparr>"
  using assms by (rule uri_parses)

theorem params_parse_ok_witness:
  "\<exists>p. params_parse (\<lambda>_. Some (replicate 10 7)) ''ABC'' = Some p \<and> 10 \<le> length (tp_secret p)"
proof -
  have "trim ''ABC'' = ''ABC''" by (rule trim_visible_ascii) simp
  then have "params_parse (\<lambda>_. Some (replicate 10 7)) ''ABC''
      = Some \<lparr>tp_secret = replicate 10 7, tp_algorithm = Sha1, tp_digits = DIGITS, tp_period = PERIOD\<rparr>"
    by (simp add: params_parse_def strip_prefix_ignore_case_def is_char_boundary_def lenient_base32_def
        MIN_SECRET_BYTES_def Let_def)
  from params_parse_ok [OF this] this show ?thesis by auto
qed

theorem uri_roundtrip_witness:
  "\<exists>(enc :: u8 list \<Rightarrow> string) dec. params_parse dec (uri ''remotehub'' ''alice'' (enc (replicate 20 0)))
    = Some \<lparr>tp_secret = replicate 20 0, tp_algorithm = Sha1, tp_digits = 6, tp_period = 30\<rparr>"
proof -
  have "params_parse (\<lambda>e. Some (replicate (length e) 0))
        (uri ''remotehub'' ''alice'' (map (\<lambda>_. CHR ''A'') (replicate 20 (0 :: u8))))
      = Some \<lparr>tp_secret = replicate 20 0, tp_algorithm = Sha1, tp_digits = 6, tp_period = 30\<rparr>"
    by (rule uri_roundtrip [of "\<lambda>e. Some (replicate (length e) 0)" "map (\<lambda>_. CHR ''A'')" "replicate 20 0"])
      (simp_all add: base32_alphabet_def)
  then show ?thesis by blast
qed

lemma step_accepts:
  "(\<exists>k. step hmac sec given t = Some k) \<longleftrightarrow>
    (\<exists>k. k \<in> {t div 30, t div 30 - 1, t div 30 + 1} \<and> given = code hmac sec k)"
  by (auto simp: step_def same_code_iff PERIOD_def Let_def)

end
