(* ===== verification/Users.thy ===== *)
theory Users
  imports Totp Access
begin

text \<open>
  The people who may use the connector's web interface, \<^verbatim>\<open>crates/connector/src/users.rs\<close>.
  Argon2 and base32 come from other crates and are parameters: \<open>hash\<close> a password's hash,
  \<open>check_password\<close> the check against one, \<open>b32_encode\<close> and \<open>b32_decode\<close>; so are the random
  password and secret of a new user.
\<close>

section \<open>Data\<close>

record user =
  user_password :: string
  user_totp :: "string option"

record issued =
  issued_password :: string
  issued_totp :: "(string \<times> string) option"

datatype user_error = UserExists string | UserUnknown string | UserInvalidName | UserIo

datatype sign_in_refused = WrongCredentials | WrongCode

record users =
  users_json :: "(string, user) btree content"
  users_writable :: bool

record randomness =
  random_password :: string
  random_secret :: "u8 list"

record crypto =
  hash :: "string \<Rightarrow> string"
  check_password :: "string \<Rightarrow> string \<Rightarrow> bool"
  b32_encode :: "u8 list \<Rightarrow> string"
  b32_decode :: "string \<Rightarrow> u8 list option"
  hmac :: hmac_fun

section \<open>Operations\<close>

definition load_users :: "users \<Rightarrow> user_error + (string, user) btree" where
  "load_users us = (case users_json us of Missing \<Rightarrow> Inr [] | Unreadable \<Rightarrow> Inl UserIo | Present v \<Rightarrow> Inr v)"

definition save_users :: "users \<Rightarrow> (string, user) btree \<Rightarrow> users \<times> (user_error + unit)" where
  "save_users us m =
     (if users_writable us then (us\<lparr>users_json := Present m\<rparr>, Inr ()) else (us, Inl UserIo))"

definition list_users :: "users \<Rightarrow> user_error + (string \<times> bool) list" where
  "list_users us =
     (case load_users us of
        Inl e \<Rightarrow> Inl e
      | Inr m \<Rightarrow> Inr (map (\<lambda>(n, u). (n, user_totp u \<noteq> None)) m))"

definition valid :: "string \<Rightarrow> bool" where
  "valid name \<longleftrightarrow> 1 \<le> length name \<and> length name \<le> 64
     \<and> list_all (\<lambda>c. is_ascii_alphanumeric c \<or> c \<in> set ''.-_'') name"

definition issue :: "crypto \<Rightarrow> randomness \<Rightarrow> string \<Rightarrow> bool \<Rightarrow> user \<times> issued" where
  "issue cr rnd name with_totp =
     (let totp = (if with_totp then
            (let s = b32_encode cr (random_secret rnd) in Some (s, uri ''remotehub-connector'' name s)) else None)
      in (\<lparr>user_password = hash cr (random_password rnd), user_totp = map_option fst totp\<rparr>,
          \<lparr>issued_password = random_password rnd, issued_totp = totp\<rparr>))"

definition add_user ::
  "crypto \<Rightarrow> randomness \<Rightarrow> users \<Rightarrow> string \<Rightarrow> bool \<Rightarrow> users \<times> (user_error + issued)" where
  "add_user cr rnd us name with_totp =
     (if \<not> valid name then (us, Inl UserInvalidName)
      else case load_users us of
        Inl e \<Rightarrow> (us, Inl e)
      | Inr m \<Rightarrow>
          if bt_get m name \<noteq> None then (us, Inl (UserExists name))
          else
            (let (u, i) = issue cr rnd name with_totp
             in case save_users us (bt_insert name u m) of
                  (us', Inl e) \<Rightarrow> (us', Inl e)
                | (us', Inr _) \<Rightarrow> (us', Inr i)))"

definition reset_user ::
  "crypto \<Rightarrow> randomness \<Rightarrow> users \<Rightarrow> string \<Rightarrow> bool \<Rightarrow> users \<times> (user_error + issued)" where
  "reset_user cr rnd us name with_totp =
     (case load_users us of
        Inl e \<Rightarrow> (us, Inl e)
      | Inr m \<Rightarrow>
          if bt_get m name = None then (us, Inl (UserUnknown name))
          else
            (let (u, i) = issue cr rnd name with_totp
             in case save_users us (bt_insert name u m) of
                  (us', Inl e) \<Rightarrow> (us', Inl e)
                | (us', Inr _) \<Rightarrow> (us', Inr i)))"

definition delete_user :: "users \<Rightarrow> string \<Rightarrow> users \<times> (user_error + unit)" where
  "delete_user us name =
     (case load_users us of
        Inl e \<Rightarrow> (us, Inl e)
      | Inr m \<Rightarrow>
          if bt_get m name = None then (us, Inl (UserUnknown name))
          else save_users us (bt_remove name m))"

text \<open>\<open>unix\<close> is the clock in seconds.\<close>

definition verify :: "crypto \<Rightarrow> users \<Rightarrow> nat \<Rightarrow> string \<Rightarrow> string \<Rightarrow> string \<Rightarrow> sign_in_refused + unit" where
  "verify cr us unix name password given =
     (let m = (case load_users us of Inr m \<Rightarrow> m | Inl _ \<Rightarrow> [])
      in case bt_get m name of
           None \<Rightarrow> Inl WrongCredentials
         | Some u \<Rightarrow>
             if \<not> check_password cr (user_password u) password then Inl WrongCredentials
             else case user_totp u of
                    None \<Rightarrow> Inr ()
                  | Some s \<Rightarrow>
                      (case decode_secret (b32_decode cr) s of
                         None \<Rightarrow> Inl WrongCode
                       | Some secret \<Rightarrow>
                           (case Totp.step (hmac cr) secret (trim given) unix of
                              None \<Rightarrow> Inl WrongCode
                            | Some _ \<Rightarrow> Inr ())))"

section \<open>Properties\<close>

text \<open>What the users of the parameters' crates rely on.\<close>

definition crypto_ok :: "crypto \<Rightarrow> bool" where
  "crypto_ok cr \<longleftrightarrow> (\<forall>p. check_password cr (hash cr p) p)
     \<and> (\<forall>s. b32_decode cr (b32_encode cr s) = Some s \<and> set (b32_encode cr s) \<subseteq> set base32_alphabet)"

definition users_ok :: "users \<Rightarrow> bool" where
  "users_ok us \<longleftrightarrow> (case load_users us of Inr m \<Rightarrow> bt_ok m \<and> (\<forall>(n, _) \<in> set m. valid n) | Inl _ \<Rightarrow> True)"

lemma trim_base32: "set e \<subseteq> set base32_alphabet \<Longrightarrow> trim e = e"
  using base32_char by (intro trim_visible_ascii) (force simp: visible_ascii_def list_all_iff)

lemma valid_chars:
  "valid name \<Longrightarrow> visible_ascii name \<and> CHR ''?'' \<notin> set name \<and> CHR ''&'' \<notin> set name"
  by (auto simp: valid_def visible_ascii_def list_all_iff is_ascii_alphanumeric_def is_ascii_digit_def
      ascii_between_def)

text \<open>
  A sign-in succeeds exactly for a known name with the right password and, if the user has
  a second factor, a code of the current time step or one of its neighbours; a file that
  cannot be read lets nobody in.
\<close>

theorem verify_iff:
  "verify cr us unix name password given = Inr () \<longleftrightarrow>
    (\<exists>m u. load_users us = Inr m \<and> bt_get m name = Some u \<and> check_password cr (user_password u) password
      \<and> (\<forall>s. user_totp u = Some s \<longrightarrow> (\<exists>secret step. decode_secret (b32_decode cr) s = Some secret
            \<and> step \<in> {unix div 30, unix div 30 - 1, unix div 30 + 1}
            \<and> trim given = Totp.code (hmac cr) secret step)))"
proof (cases "\<exists>m u. load_users us = Inr m \<and> bt_get m name = Some u \<and> check_password cr (user_password u) password")
  case True
  then obtain m u where mu: "load_users us = Inr m" "bt_get m name = Some u"
    "check_password cr (user_password u) password" by blast
  have "verify cr us unix name password given = Inr () \<longleftrightarrow> (\<forall>s. user_totp u = Some s \<longrightarrow>
      (\<exists>secret. decode_secret (b32_decode cr) s = Some secret
        \<and> (\<exists>k. Totp.step (hmac cr) secret (trim given) unix = Some k)))"
    using mu by (auto simp: verify_def split: option.splits)
  then show ?thesis using mu unfolding step_accepts by auto
next
  case False
  then show ?thesis by (auto simp: verify_def Let_def split: sum.splits option.splits if_splits)
qed

text \<open>The operations keep the users sorted and their names valid.\<close>

lemma users_ok_save:
  "bt_ok m \<Longrightarrow> (\<forall>(n, _) \<in> set m. valid n) \<Longrightarrow> users_ok us \<Longrightarrow> users_ok (fst (save_users us m))"
  by (simp add: users_ok_def save_users_def load_users_def)

lemma bt_keys_insert: "bt_ok m \<Longrightarrow> (n, u) \<in> set (bt_insert k v m) \<Longrightarrow> n = k \<or> (\<exists>w. (n, w) \<in> set m)"
  by (metis bt.get_put bt.entries_get bt.ok_put fun_upd_other)

lemma bt_keys_remove: "bt_ok m \<Longrightarrow> (n, u) \<in> set (bt_remove k m) \<Longrightarrow> \<exists>w. (n, w) \<in> set m"
  by (metis bt.get_del bt.entries_get bt.ok_del fun_upd_apply option.distinct(1))

lemma users_ok_D: "users_ok us \<Longrightarrow> load_users us = Inr m \<Longrightarrow> bt_ok m \<and> (\<forall>(n, _) \<in> set m. valid n)"
  by (simp add: users_ok_def)

lemma users_ok_put:
  assumes "users_ok us" "load_users us = Inr m" "valid name"
  shows "users_ok (fst (save_users us (bt_insert name u m)))"
  using users_ok_D [OF assms(1,2)] assms by (intro users_ok_save) (auto dest: bt_keys_insert intro: bt.ok_put)

lemma bt_get_valid: "users_ok us \<Longrightarrow> load_users us = Inr m \<Longrightarrow> bt_get m n = Some u \<Longrightarrow> valid n"
  using users_ok_D bt.entries_get [of m n u] by fastforce

lemma fst_add_user:
  "fst (add_user cr rnd us name with_totp) = us \<or> (\<exists>m u. load_users us = Inr m \<and> valid name
     \<and> fst (add_user cr rnd us name with_totp) = fst (save_users us (bt_insert name u m)))"
  by (cases "load_users us"; cases "issue cr rnd name with_totp")
    (auto simp: add_user_def split: sum.split prod.split, (metis fst_conv)+)

lemma fst_reset_user:
  "fst (reset_user cr rnd us name with_totp) = us \<or> (\<exists>m u v. load_users us = Inr m \<and> bt_get m name = Some v
     \<and> fst (reset_user cr rnd us name with_totp) = fst (save_users us (bt_insert name u m)))"
  by (cases "load_users us"; cases "issue cr rnd name with_totp")
    (auto simp: reset_user_def split: sum.split prod.split, (metis fst_conv)+)

lemma add_user_ok [wf_intros]: "users_ok us \<Longrightarrow> users_ok (fst (add_user cr rnd us name with_totp))"
  using fst_add_user [of cr rnd us name with_totp] users_ok_put by metis

lemma reset_user_ok [wf_intros]: "users_ok us \<Longrightarrow> users_ok (fst (reset_user cr rnd us name with_totp))"
  using fst_reset_user [of cr rnd us name with_totp] users_ok_put bt_get_valid by metis

lemma delete_user_ok [wf_intros]:
  assumes "users_ok us"
  shows "users_ok (fst (delete_user us name))"
proof (cases "load_users us")
  case (Inr m)
  from users_ok_D [OF assms Inr] have "users_ok (fst (save_users us (bt_remove name m)))"
    using assms by (intro users_ok_save) (auto dest: bt_keys_remove intro: bt.ok_del)
  with Inr assms show ?thesis by (simp add: delete_user_def)
qed (use assms in \<open>simp add: delete_user_def\<close>)

lemma save_users_Inr: "save_users us m = (us', Inr x) \<Longrightarrow> load_users us' = Inr m"
  by (auto simp: save_users_def load_users_def split: if_splits)

lemma issued_cases:
  assumes "add_user cr rnd us name with_totp = (us', Inr i) \<or> reset_user cr rnd us name with_totp = (us', Inr i)"
  obtains m where "load_users us = Inr m" "load_users us' = Inr (bt_insert name (fst (issue cr rnd name with_totp)) m)"
    "i = snd (issue cr rnd name with_totp)"
  using assms
  by (auto simp: add_user_def reset_user_def split: sum.splits prod.splits if_splits dest!: save_users_Inr intro: that)

text \<open>
  What is issued works: after a user is added or reset, the password shown signs in, with
  the code the secret shown gives at that time if there is a second factor, and with nothing
  else as code; the link shown means that same secret; and nobody else's sign-in changes.
\<close>

theorem issued_works:
  assumes "crypto_ok cr" and "users_ok us" and "length (random_secret rnd) = 20"
    and "add_user cr rnd us name with_totp = (us', Inr i) \<or> reset_user cr rnd us name with_totp = (us', Inr i)"
    and "visible_ascii given"
  shows "(verify cr us' unix name (issued_password i) given = Inr () \<longleftrightarrow>
      (with_totp \<longrightarrow> given \<in> Totp.code (hmac cr) (random_secret rnd) ` {unix div 30, unix div 30 - 1, unix div 30 + 1}))
    \<and> (\<forall>s link. issued_totp i = Some (s, link) \<longrightarrow> params_parse (b32_decode cr) link
        = Some \<lparr>tp_secret = random_secret rnd, tp_algorithm = Sha1, tp_digits = 6, tp_period = 30\<rparr>)
    \<and> (\<forall>other pw c. other \<noteq> name \<longrightarrow> verify cr us' unix other pw c = verify cr us unix other pw c)"
proof -
  from issued_cases [OF assms(4)] obtain m where m: "load_users us = Inr m"
    "load_users us' = Inr (bt_insert name (fst (issue cr rnd name with_totp)) m)"
    "i = snd (issue cr rnd name with_totp)" .
  have name: "valid name"
    using assms(4) bt_get_valid [OF assms(2) m(1), of name] m(1)
    by (auto simp: add_user_def reset_user_def split: if_splits)
  let ?e = "b32_encode cr (random_secret rnd)"
  have b32: "b32_decode cr ?e = Some (random_secret rnd)" "set ?e \<subseteq> set base32_alphabet"
    "check_password cr (hash cr (random_password rnd)) (random_password rnd)"
    using assms(1) by (auto simp: crypto_ok_def)
  have dec: "decode_secret (b32_decode cr) ?e = Some (random_secret rnd)"
    using b32 assms(3) by (simp add: decode_secret_def trim_base32 SECRET_BYTES_def)
  have "verify cr us' unix name (issued_password i) given = Inr () \<longleftrightarrow>
      (with_totp \<longrightarrow> (\<exists>k. Totp.step (hmac cr) (random_secret rnd) given unix = Some k))"
    using m b32(3) dec trim_visible_ascii [OF assms(5)]
    by (auto simp: verify_def issue_def bt.get_put Let_def split: option.splits)
  then have "verify cr us' unix name (issued_password i) given = Inr () \<longleftrightarrow>
      (with_totp \<longrightarrow> given \<in> Totp.code (hmac cr) (random_secret rnd) ` {unix div 30, unix div 30 - 1, unix div 30 + 1})"
    unfolding step_accepts by auto
  moreover have "params_parse (b32_decode cr) (uri ''remotehub-connector'' name ?e)
      = Some \<lparr>tp_secret = random_secret rnd, tp_algorithm = Sha1, tp_digits = 6, tp_period = 30\<rparr>"
    using b32 assms(3) valid_chars [OF name]
    by (intro uri_parses [where b32_encode = "b32_encode cr"]) simp_all
  then have "issued_totp i = Some (s, link) \<Longrightarrow> params_parse (b32_decode cr) link
        = Some \<lparr>tp_secret = random_secret rnd, tp_algorithm = Sha1, tp_digits = 6, tp_period = 30\<rparr>" for s link
    using m(3) by (auto simp: issue_def Let_def split: if_splits)
  moreover have "other \<noteq> name \<Longrightarrow> verify cr us' unix other pw c = verify cr us unix other pw c" for other pw c
    using m(1,2) by (simp add: verify_def bt.get_put)
  ultimately show ?thesis by blast
qed

text \<open>A user with a second factor.\<close>

definition sample_crypto :: crypto where
  "sample_crypto = \<lparr>hash = (\<lambda>p. p), check_password = (=), b32_encode = sample_encode, b32_decode = sample_decode,
     hmac = (\<lambda>_ _ _. replicate 20 1)\<rparr>"

definition sample_users :: users where
  "sample_users = \<lparr>users_json = Missing, users_writable = True\<rparr>"

lemma nibble_alphabet: "n < 16 \<Longrightarrow> char_of (65 + n :: nat) \<in> set base32_alphabet"
proof -
  assume "n < 16"
  then have "n \<in> set [0..<16]" by simp
  moreover have "\<forall>n \<in> set [0..<16]. char_of (65 + n :: nat) \<in> set base32_alphabet" by code_simp
  ultimately show ?thesis by blast
qed

lemma sample_crypto_ok: "crypto_ok sample_crypto"
proof -
  have "set (sample_encode s) \<subseteq> set base32_alphabet" for s
    by (auto simp: sample_encode_def byte_nibbles intro!: nibble_alphabet)
  then show ?thesis by (simp add: crypto_ok_def sample_crypto_def sample_decode_encode)
qed

theorem issued_works_witness:
  "\<exists>us' i. add_user sample_crypto \<lparr>random_password = ''pw'', random_secret = replicate 20 3\<rparr> sample_users ''bob'' True = (us', Inr i)
     \<and> verify sample_crypto us' 60 ''bob'' (issued_password i) (Totp.code (hmac sample_crypto) (replicate 20 3) 2) = Inr ()"
proof -
  let ?rnd = "\<lparr>random_password = ''pw'', random_secret = replicate 20 3\<rparr> :: randomness"
  have "\<exists>us' i. add_user sample_crypto ?rnd sample_users ''bob'' True = (us', Inr i)"
    by (simp add: add_user_def sample_users_def load_users_def save_users_def valid_def is_ascii_alphanumeric_def
        is_ascii_digit_def ascii_between_def split_def Let_def)
  then obtain us' i where a: "add_user sample_crypto ?rnd sample_users ''bob'' True = (us', Inr i)" by blast
  have "visible_ascii (Totp.code (hmac sample_crypto) (replicate 20 3) 2)"
    unfolding visible_ascii_def list_all_iff Totp.code_def Let_def
    by (auto dest!: zero_padded_digits simp: is_ascii_digit_def ascii_between_def)
  moreover have "users_ok sample_users" by (simp add: users_ok_def sample_users_def load_users_def bt_ok_def)
  ultimately show ?thesis
    using issued_works [OF sample_crypto_ok _ _ disjI1 [OF a], of "Totp.code (hmac sample_crypto) (replicate 20 3) 2" 60] a
    by auto
qed

theorem verify_iff_witness:
  "verify sample_crypto sample_users 60 ''bob'' ''pw'' ''1'' \<noteq> Inr ()"
  using verify_iff [of sample_crypto sample_users 60 "''bob''" "''pw''" "''1''"]
  by (auto simp: sample_users_def load_users_def)

end
