(* ===== verification/WebUi.thy ===== *)
theory WebUi
  imports Users Requests
begin

text \<open>
  The connector's web interface, \<^verbatim>\<open>crates/connector/src/ui.rs\<close>: sessions, the lock on a name after
  failed sign-ins, the guard against other sites' forms, and every handler that changes
  something. Pages are their status only; the texts of forms arrive decoded.

  What a request brings in from outside is a record \<open>ui_env\<close>: the two clocks, the random
  token, the peer's address, and the functions of other crates (passwords and base32,
  lower-casing, RFC 3339, UUIDs and dates).
\<close>

section \<open>State\<close>

definition ATTEMPTS :: nat where "ATTEMPTS = 5"
definition LOCKED_FOR :: instant where "LOCKED_FOR = 5 * 60 * 1000000000"
definition IDLE :: instant where "IDLE = 30 * 60 * 1000000000"
definition LONGEST :: instant where "LONGEST = 8 * 60 * 60 * 1000000000"
definition COOKIE :: string where "COOKIE = ''__Host-connector''"

record ui_session =
  sess_user :: string
  sess_started :: instant
  sess_seen :: instant

record attempts =
  failures :: nat
  last_try :: instant
  locked_until :: "instant option"

record ui =
  ui_gate :: gate
  ui_users :: users
  ui_requests :: requests_state
  ui_sessions :: "(string, ui_session) hashmap"
  ui_attempts :: "(string, attempts) hashmap"

record ui_env =
  env_crypto :: crypto
  env_lower :: "string \<Rightarrow> string"
  env_rfc3339 :: "instant \<Rightarrow> string option"
  env_uuid_parse :: "string \<Rightarrow> uuid option"
  env_parse_local :: "string \<Rightarrow> instant option"
  env_token :: string
  env_peer :: string
  env_mono :: instant
  env_wall :: instant
  env_unix :: nat

record http_headers =
  sec_fetch_site :: "string option"
  host_header :: "string option"
  origin_header :: "string option"
  cookie_headers :: "string list"

datatype response = Redirect string | RedirectCookie string string | Page nat | StatusOnly nat

section \<open>Sessions and attempts\<close>

definition find_map :: "('a \<Rightarrow> 'b option) \<Rightarrow> 'a list \<Rightarrow> 'b option" where
  "find_map f xs = (case filter_map f xs of [] \<Rightarrow> None | x # _ \<Rightarrow> Some x)"

definition cookie :: "http_headers \<Rightarrow> string option" where
  "cookie h =
     find_map (\<lambda>pair. case split_once CHR ''='' (trim pair) of
         None \<Rightarrow> None
       | Some (n, v) \<Rightarrow> if n = COOKIE then Some v else None)
       (concat (map (split_on CHR '';'') (cookie_headers h)))"

definition ui_user :: "ui \<Rightarrow> instant \<Rightarrow> http_headers \<Rightarrow> ui \<times> string option" where
  "ui_user u now h =
     (case cookie h of
        None \<Rightarrow> (u, None)
      | Some token \<Rightarrow>
          (let kept = filter (\<lambda>(_, s). now - sess_seen s < IDLE \<and> now - sess_started s < LONGEST) (ui_sessions u)
           in case hm_get kept token of
                None \<Rightarrow> (u\<lparr>ui_sessions := kept\<rparr>, None)
              | Some s \<Rightarrow> (u\<lparr>ui_sessions := hm_insert token (s\<lparr>sess_seen := now\<rparr>) kept\<rparr>, Some (sess_user s))))"

definition ui_locked :: "(string, attempts) hashmap \<Rightarrow> instant \<Rightarrow> string \<Rightarrow> instant option" where
  "ui_locked m now name =
     Option.bind (hm_get m name) (\<lambda>a. Option.bind (locked_until a) (\<lambda>until.
       if until \<ge> now then Some (until - now) else None))"

definition ui_failed :: "(string, attempts) hashmap \<Rightarrow> instant \<Rightarrow> string \<Rightarrow> (string, attempts) hashmap \<times> bool" where
  "ui_failed m now name =
     (let kept = filter (\<lambda>(_, a). now - last_try a < LOCKED_FOR
             \<or> (case locked_until a of Some until \<Rightarrow> until > now | None \<Rightarrow> False)) m;
          entry = (case hm_get kept name of Some a \<Rightarrow> a
                   | None \<Rightarrow> \<lparr>failures = 0, last_try = now, locked_until = None\<rparr>);
          entry = entry\<lparr>last_try := now, failures := failures entry + 1\<rparr>
      in if failures entry \<ge> ATTEMPTS
         then (hm_insert name (entry\<lparr>failures := 0, locked_until := Some (now + LOCKED_FOR)\<rparr>) kept, True)
         else (hm_insert name entry kept, False))"

section \<open>Guard\<close>

definition same_origin :: "http_headers \<Rightarrow> bool" where
  "same_origin h \<longleftrightarrow>
     (case sec_fetch_site h of Some site \<Rightarrow> site = ''same-origin'' | None \<Rightarrow> True)
     \<and> (case (host_header h, origin_header h) of
          (Some hst, Some origin) \<Rightarrow> origin = ''https://'' @ hst
        | _ \<Rightarrow> False)"

definition escape_char :: "nat \<Rightarrow> string" where
  "escape_char c =
     (if c = 38 then ''&amp;'' else if c = 60 then ''&lt;'' else if c = 62 then ''&gt;''
      else if c = 34 then ''&quot;'' else if c = 39 then ''&#39;'' else from_chars [c])"

definition escape :: "string \<Rightarrow> string" where
  "escape text = concat (map escape_char (chars text))"

section \<open>Handlers\<close>

definition ui_journal :: "ui \<Rightarrow> instant \<Rightarrow> event \<Rightarrow> ui" where
  "ui_journal u now ev =
     u\<lparr>ui_gate := (ui_gate u)\<lparr>gate_dir := journal_event (gate_dir (ui_gate u)) now ev\<rparr>\<rparr>"

definition sign_in :: "ui_env \<Rightarrow> ui \<Rightarrow> string \<Rightarrow> string \<Rightarrow> string \<Rightarrow> ui \<times> response" where
  "sign_in env u raw_name password given =
     (let name = trim raw_name
      in case ui_locked (ui_attempts u) (env_mono env) name of
           Some _ \<Rightarrow> (u, Page 429)
         | None \<Rightarrow>
             (case verify (env_crypto env) (ui_users u) (env_unix env) name password given of
                Inl _ \<Rightarrow>
                  (let u1 = ui_journal u (env_wall env) (SignInFailed name (env_peer env));
                       (m, locks) = ui_failed (ui_attempts u1) (env_mono env) name;
                       u2 = u1\<lparr>ui_attempts := m\<rparr>
                   in (if locks then ui_journal u2 (env_wall env) (Locked name) else u2, Page 401))
              | Inr _ \<Rightarrow>
                  (let u1 = u\<lparr>ui_attempts := hm_remove name (ui_attempts u),
                             ui_sessions := hm_insert (env_token env)
                               \<lparr>sess_user = name, sess_started = env_mono env, sess_seen = env_mono env\<rparr> (ui_sessions u)\<rparr>;
                       u2 = ui_journal u1 (env_wall env) (SignedIn name (env_peer env))
                   in (u2, RedirectCookie (COOKIE @ ''='' @ env_token env @ ''; Path=/; Secure; HttpOnly; SameSite=Strict'') ''/''))))"

definition sign_out :: "ui \<Rightarrow> http_headers \<Rightarrow> ui \<times> response" where
  "sign_out u h =
     (case cookie h of Some token \<Rightarrow> u\<lparr>ui_sessions := hm_remove token (ui_sessions u)\<rparr> | None \<Rightarrow> u,
      RedirectCookie (COOKIE @ ''=; Path=/; Secure; HttpOnly; SameSite=Strict; Max-Age=0'') ''/sign-in'')"

fun after_change :: "change_error + unit \<Rightarrow> response" where
  "after_change (Inr _) = Redirect ''/''"
| "after_change (Inl (InventoryErr _)) = Page 400"
| "after_change (Inl Io) = StatusOnly 500"

record change_form =
  cf_action :: string
  cf_scope :: "string option"
  cf_name :: "string option"
  cf_hours :: "int option"
  cf_duration :: "string option"
  cf_until :: "string option"
  cf_offset :: "int option"

definition for_hours :: "int \<Rightarrow> instant \<Rightarrow> access option" where
  "for_hours hours now =
     (if 1 \<le> hours \<and> hours \<le> 24 * 7 then Some (Open (Some (now + hours * 3600000000000))) else None)"

text \<open>\<open>checked_mul\<close> of an \<open>i32\<close>, and the range of \<open>UtcOffset\<close>, 25:59:59 either way.\<close>

definition local_time :: "ui_env \<Rightarrow> string \<Rightarrow> int \<Rightarrow> instant option" where
  "local_time env text offset =
     Option.bind (env_parse_local env text) (\<lambda>local.
       let secs = offset * 60
       in if secs < - (2 ^ 31) \<or> secs \<ge> 2 ^ 31 then None
          else if \<bar>secs\<bar> > 93599 then None
          else Some (local - secs * 1000000000))"

definition form_access :: "ui_env \<Rightarrow> change_form \<Rightarrow> access option" where
  "form_access env f =
     (let now = env_wall env
      in if cf_action f = ''close'' then Some Closed
         else if cf_action f = ''permanent'' then Some (Open None)
         else if cf_action f = ''hours'' then Option.bind (cf_hours f) (\<lambda>h. for_hours h now)
         else if cf_action f = ''open'' then
           (case cf_duration f of
              None \<Rightarrow> None
            | Some d \<Rightarrow> if d = ''permanent'' then Some (Open None)
                        else Option.bind (parse_signed 63 d) (\<lambda>h. for_hours h now))
         else if cf_action f = ''until'' then
           Option.bind (cf_until f) (\<lambda>t. Option.bind
             (local_time env t (case cf_offset f of Some off \<Rightarrow> off | None \<Rightarrow> 0))
             (\<lambda>until. if until > now then Some (Open (Some until)) else None))
         else None)"

definition form_scope :: "ui_env \<Rightarrow> change_form \<Rightarrow> access option \<Rightarrow> scope option" where
  "form_scope env f acc =
     (let name = (case cf_name f of Some n \<Rightarrow> n | None \<Rightarrow> [])
      in case cf_scope f of
           None \<Rightarrow> Some Network
         | Some s \<Rightarrow>
             if s = ''network'' then Some Network
             else if s = ''device'' then Some (DeviceScope name)
             else if s = ''group'' then Some (GroupScope name)
             else if s = ''request'' \<and> acc = Some Closed then map_option RequestScope (env_uuid_parse env name)
             else None)"

text \<open>A handler behind the sign-in: without a session it only redirects.\<close>

definition signed_in :: "ui_env \<Rightarrow> ui \<Rightarrow> http_headers \<Rightarrow> (ui \<Rightarrow> string \<Rightarrow> ui \<times> response) \<Rightarrow> ui \<times> response" where
  "signed_in env u h handler =
     (case ui_user u (env_mono env) h of
        (u', None) \<Rightarrow> (u', Redirect ''/sign-in'')
      | (u', Some name) \<Rightarrow> handler u' name)"

definition change_access :: "ui_env \<Rightarrow> change_form \<Rightarrow> ui \<Rightarrow> string \<Rightarrow> ui \<times> response" where
  "change_access env f u name =
     (let acc = form_access env f
      in case (acc, form_scope env f acc) of
           (Some a, Some sc) \<Rightarrow>
             (let (g, r) = gate_set (ui_gate u) (env_wall env) sc a (Web name)
              in (u\<lparr>ui_gate := g\<rparr>, after_change r))
         | _ \<Rightarrow> (u, Page 400))"

text \<open>An operation on the data directory, and the gate taking it over.\<close>

definition on_dir :: "ui \<Rightarrow> (data_dir \<Rightarrow> data_dir \<times> (change_error + unit)) \<Rightarrow> ui \<times> response" where
  "on_dir u op =
     (let (dir, r) = op (gate_dir (ui_gate u))
      in (u\<lparr>ui_gate := gate_reload ((ui_gate u)\<lparr>gate_dir := dir\<rparr>)\<rparr>, after_change r))"

definition field :: "(string \<times> string) list \<Rightarrow> string \<Rightarrow> string" where
  "field pairs key = (case find (\<lambda>(k, _). k = key) pairs of Some (_, v) \<Rightarrow> v | None \<Rightarrow> [])"

definition form_device :: "(string \<times> string) list \<Rightarrow> inventory_error + device" where
  "form_device pairs =
     (case valid_name (field pairs ''name'') of
        Inl e \<Rightarrow> Inl e
      | Inr n \<Rightarrow>
     (case address_parse (field pairs ''address'') of
        Inl e \<Rightarrow> Inl e
      | Inr a \<Rightarrow>
     (case ports_parse_list (field pairs ''ports'') of
        Inl e \<Rightarrow> Inl e
      | Inr ps \<Rightarrow>
          Inr \<lparr>dev_name = n, dev_address = a, dev_ports = ps,
               dev_groups = map snd (filter (\<lambda>(k, _). k = ''group'') pairs)\<rparr>)))"

definition ui_add_device :: "ui_env \<Rightarrow> (string \<times> string) list \<Rightarrow> ui \<Rightarrow> string \<Rightarrow> ui \<times> response" where
  "ui_add_device env pairs u name =
     (case form_device pairs of
        Inl e \<Rightarrow> (u, after_change (Inl (InventoryErr e)))
      | Inr d \<Rightarrow> on_dir u (\<lambda>dir. add_device (env_lower env) dir (env_wall env) d (Web name)))"

definition ui_remove_device :: "ui_env \<Rightarrow> string \<Rightarrow> ui \<Rightarrow> string \<Rightarrow> ui \<times> response" where
  "ui_remove_device env n u name = on_dir u (\<lambda>dir. remove_device dir (env_wall env) n (Web name))"

definition ui_add_group :: "ui_env \<Rightarrow> string \<Rightarrow> ui \<Rightarrow> string \<Rightarrow> ui \<times> response" where
  "ui_add_group env n u name = on_dir u (\<lambda>dir. add_group (env_lower env) dir (env_wall env) n (Web name))"

definition ui_remove_group :: "ui_env \<Rightarrow> string \<Rightarrow> ui \<Rightarrow> string \<Rightarrow> ui \<times> response" where
  "ui_remove_group env n u name = on_dir u (\<lambda>dir. remove_group dir (env_wall env) n (Web name))"

definition approve_request :: "ui_env \<Rightarrow> uuid \<Rightarrow> ui \<Rightarrow> string \<Rightarrow> ui \<times> response" where
  "approve_request env i u name =
     (case request_get (ui_requests u) i of
        None \<Rightarrow> (u, Page 409)
      | Some rq \<Rightarrow>
          (let end_at = seconds (env_wall env + int (minutes rq) * 60000000000);
               (dir, r) = approve (gate_dir (ui_gate u)) (env_wall env) rq end_at (Web name);
               u1 = u\<lparr>ui_gate := gate_reload ((ui_gate u)\<lparr>gate_dir := dir\<rparr>)\<rparr>;
               u2 = (case r of
                       Inr _ \<Rightarrow> u1\<lparr>ui_requests := answer_request (ui_requests u1)
                         \<lparr>ans_id = req_id rq, approved = True, ans_by = name, ans_until = env_rfc3339 env end_at\<rparr>\<rparr>
                     | Inl _ \<Rightarrow> u1)
           in (u2, after_change r)))"

definition refuse_request :: "ui_env \<Rightarrow> uuid \<Rightarrow> ui \<Rightarrow> string \<Rightarrow> ui \<times> response" where
  "refuse_request env i u name =
     (case request_get (ui_requests u) i of
        None \<Rightarrow> (u, Page 409)
      | Some rq \<Rightarrow>
          (let dir = refuse (gate_dir (ui_gate u)) (env_wall env) rq (Web name)
           in (u\<lparr>ui_gate := (ui_gate u)\<lparr>gate_dir := dir\<rparr>,
                ui_requests := answer_request (ui_requests u)
                  \<lparr>ans_id = req_id rq, approved = False, ans_by = name, ans_until = None\<rparr>\<rparr>, Redirect ''/'')))"

section \<open>Routes\<close>

datatype ui_request =
    GetStatus
  | GetSignIn
  | PostSignIn string string string
  | PostSignOut
  | PostAccess change_form
  | PostDevice "(string \<times> string) list"
  | PostDeviceRemove string
  | PostGroup string
  | PostGroupRemove string
  | PostApprove uuid
  | PostRefuse uuid

fun is_post :: "ui_request \<Rightarrow> bool" where
  "is_post GetStatus = False"
| "is_post GetSignIn = False"
| "is_post _ = True"

fun ui_handle :: "ui_env \<Rightarrow> ui \<Rightarrow> http_headers \<Rightarrow> ui_request \<Rightarrow> ui \<times> response" where
  "ui_handle env u h GetStatus = signed_in env u h (\<lambda>u _. (u, Page 200))"
| "ui_handle env u h GetSignIn = (u, Page 200)"
| "ui_handle env u h (PostSignIn n p c) = sign_in env u n p c"
| "ui_handle env u h PostSignOut = sign_out u h"
| "ui_handle env u h (PostAccess f) = signed_in env u h (change_access env f)"
| "ui_handle env u h (PostDevice pairs) = signed_in env u h (ui_add_device env pairs)"
| "ui_handle env u h (PostDeviceRemove n) = signed_in env u h (ui_remove_device env n)"
| "ui_handle env u h (PostGroup n) = signed_in env u h (ui_add_group env n)"
| "ui_handle env u h (PostGroupRemove n) = signed_in env u h (ui_remove_group env n)"
| "ui_handle env u h (PostApprove i) = signed_in env u h (approve_request env i)"
| "ui_handle env u h (PostRefuse i) = signed_in env u h (refuse_request env i)"

definition guard :: "ui_env \<Rightarrow> ui \<Rightarrow> http_headers \<Rightarrow> ui_request \<Rightarrow> ui \<times> response" where
  "guard env u h rq =
     (if is_post rq \<and> \<not> same_origin h then (u, StatusOnly 403) else ui_handle env u h rq)"

section \<open>Sessions\<close>

lemma ui_user_cases:
  assumes "hm_ok (ui_sessions u)"
  obtains (none) "snd (ui_user u now h) = None"
      "\<And>t s. hm_get (ui_sessions (fst (ui_user u now h))) t = Some s \<Longrightarrow> hm_get (ui_sessions u) t = Some s"
    | (some) token s where "cookie h = Some token" "hm_get (ui_sessions u) token = Some s"
      "now - sess_seen s < IDLE" "now - sess_started s < LONGEST" "snd (ui_user u now h) = Some (sess_user s)"
      "hm_get (ui_sessions (fst (ui_user u now h))) token = Some (s\<lparr>sess_seen := now\<rparr>)"
      "\<And>t s. t \<noteq> token \<Longrightarrow> hm_get (ui_sessions (fst (ui_user u now h))) t = Some s \<Longrightarrow> hm_get (ui_sessions u) t = Some s"
proof (cases "cookie h")
  case None
  then show ?thesis by (intro none) (simp_all add: ui_user_def)
next
  case (Some token)
  let ?kept = "filter (\<lambda>(_, s). now - sess_seen s < IDLE \<and> now - sess_started s < LONGEST) (ui_sessions u)"
  note get = hm_get_filter [OF assms, of "\<lambda>(_, s). now - sess_seen s < IDLE \<and> now - sess_started s < LONGEST"]
  have sub: "hm_get ?kept t = Some s \<Longrightarrow> hm_get (ui_sessions u) t = Some s
      \<and> now - sess_seen s < IDLE \<and> now - sess_started s < LONGEST" for t s
    unfolding get by (cases "hm_get (ui_sessions u) t") (auto split: if_splits)
  show ?thesis
  proof (cases "hm_get ?kept token")
    case None
    then have "ui_user u now h = (u\<lparr>ui_sessions := ?kept\<rparr>, None)" by (simp add: ui_user_def Some)
    then have eq: "snd (ui_user u now h) = None" "ui_sessions (fst (ui_user u now h)) = ?kept" by simp_all
    from sub show ?thesis by (intro none) (simp only: eq, unfold eq, blast)
  next
    case s: (Some s)
    then have "ui_user u now h = (u\<lparr>ui_sessions := hm_insert token (s\<lparr>sess_seen := now\<rparr>) ?kept\<rparr>, Some (sess_user s))"
      by (simp add: ui_user_def Some)
    then have eq: "snd (ui_user u now h) = Some (sess_user s)"
      "ui_sessions (fst (ui_user u now h)) = hm_insert token (s\<lparr>sess_seen := now\<rparr>) ?kept" by simp_all
    have old: "t \<noteq> token \<Longrightarrow> hm_get (hm_insert token (s\<lparr>sess_seen := now\<rparr>) ?kept) t = Some r
        \<Longrightarrow> hm_get (ui_sessions u) t = Some r" for t r
      using sub [THEN conjunct1, of t r] by (simp only: hm.get_put_other not_False_eq_True)
    note live = sub [OF s]
    show ?thesis
    proof (rule some)
      show "cookie h = Some token" by (rule Some)
      show "hm_get (ui_sessions u) token = Some s" "now - sess_seen s < IDLE" "now - sess_started s < LONGEST"
        using live by simp_all
      show "snd (ui_user u now h) = Some (sess_user s)" by (rule eq)
      show "hm_get (ui_sessions (fst (ui_user u now h))) token = Some (s\<lparr>sess_seen := now\<rparr>)"
        unfolding eq by (rule hm.get_put_same)
      show "hm_get (ui_sessions u) t = Some r"
        if "t \<noteq> token" "hm_get (ui_sessions (fst (ui_user u now h))) t = Some r" for t r
        using old that unfolding eq by blast
    qed
  qed
qed

text \<open>
  Who a request acts for: the user of its cookie's session, if that was used within the
  last half hour and began within the last eight hours, and nobody otherwise. A request only
  touches sessions: each one left keeps its user and its beginning, so no use makes one last
  beyond eight hours.
\<close>

theorem ui_user_exact:
  assumes "hm_ok (ui_sessions u)"
  shows "(snd (ui_user u now h) = Some name \<longleftrightarrow>
      (\<exists>token s. cookie h = Some token \<and> hm_get (ui_sessions u) token = Some s \<and> sess_user s = name
        \<and> now - sess_seen s < IDLE \<and> now - sess_started s < LONGEST))
    \<and> (\<forall>t s'. hm_get (ui_sessions (fst (ui_user u now h))) t = Some s' \<longrightarrow>
      (\<exists>s. hm_get (ui_sessions u) t = Some s \<and> sess_user s' = sess_user s \<and> sess_started s' = sess_started s))"
proof -
  have live: "cookie h = Some token \<Longrightarrow> hm_get (ui_sessions u) token = Some s \<Longrightarrow> now - sess_seen s < IDLE \<Longrightarrow>
      now - sess_started s < LONGEST \<Longrightarrow> snd (ui_user u now h) = Some (sess_user s)" for token s
    by (simp add: ui_user_def Let_def hm_get_filter [OF assms])
  from assms show ?thesis
  proof (cases rule: ui_user_cases [where now = now and h = h])
    case none
    with live show ?thesis by auto
  next
    case (some token s)
    have "\<exists>r. hm_get (ui_sessions u) t = Some r \<and> sess_user s' = sess_user r \<and> sess_started s' = sess_started r"
      if "hm_get (ui_sessions (fst (ui_user u now h))) t = Some s'" for t s'
      using some(2,6,7) that by (cases "t = token") auto
    with some(1-5) show ?thesis by auto
  qed
qed

section \<open>Nothing without a session\<close>

text \<open>What the web interface protects: the access, the inventory, the requests and the users.\<close>

definition protected where
  "protected u = (gate_state (ui_gate u), access_json (gate_dir (ui_gate u)), inventory_json (gate_dir (ui_gate u)),
     ui_requests u, ui_users u)"

lemma protected_user [simp]: "protected (fst (ui_user u now h)) = protected u"
  by (simp add: ui_user_def protected_def Let_def split: option.splits)

lemma protected_journal [simp]: "protected (ui_journal u now ev) = protected u"
  by (simp add: ui_journal_def protected_def journal_event_def)

lemma protected_frame [simp]:
  "protected (u\<lparr>ui_attempts := m\<rparr>) = protected u" "protected (u\<lparr>ui_sessions := ss\<rparr>) = protected u"
  by (simp_all add: protected_def)

lemma protected_sign_in [simp]: "protected (fst (sign_in env u n p c)) = protected u"
proof -
  have "protected (u\<lparr>ui_attempts := a, ui_sessions := b\<rparr>) = protected u" for a b
    by (simp add: protected_def)
  then show ?thesis by (simp add: sign_in_def Let_def split: option.splits sum.splits prod.splits)
qed

lemma protected_sign_out [simp]: "protected (fst (sign_out u h)) = protected u"
  by (simp add: sign_out_def split: option.splits)

lemma signed_in_none:
  "snd (ui_user u (env_mono env) h) = None \<Longrightarrow> signed_in env u h k = (fst (ui_user u (env_mono env) h), Redirect ''/sign-in'')"
  by (cases "ui_user u (env_mono env) h") (simp add: signed_in_def)

text \<open>
  C38: Without a valid session, and for a form of another site even with one, no request changes
  what is open, the inventory, the requests or the users; the other site's form changes
  nothing at all.
\<close>

theorem no_session_no_change:
  assumes "snd (ui_user u (env_mono env) h) = None \<or> (is_post rq \<and> \<not> same_origin h)"
  shows "protected (fst (guard env u h rq)) = protected u
    \<and> (is_post rq \<and> \<not> same_origin h \<longrightarrow> guard env u h rq = (u, StatusOnly 403))"
proof -
  have "protected (fst (ui_handle env u h rq)) = protected u" if "snd (ui_user u (env_mono env) h) = None"
    by (cases rq) (simp_all add: signed_in_none [OF that])
  then show ?thesis using assms by (auto simp: guard_def)
qed

definition sample_headers :: http_headers where
  "sample_headers = \<lparr>sec_fetch_site = Some ''cross-site'', host_header = None, origin_header = None,
     cookie_headers = []\<rparr>"

definition sample_ui :: ui where
  "sample_ui = \<lparr>ui_gate = \<lparr>gate_dir = sample_dir, gate_state = sample_snapshot\<rparr>, ui_users = sample_users,
     ui_requests = \<lparr>rs_listed = [sample_request], rs_answers = []\<rparr>, ui_sessions = [], ui_attempts = []\<rparr>"

definition sample_env :: ui_env where
  "sample_env = \<lparr>env_crypto = sample_crypto, env_lower = (\<lambda>s. s), env_rfc3339 = (\<lambda>_. None),
     env_uuid_parse = (\<lambda>_. None), env_parse_local = (\<lambda>_. None), env_token = ''t'', env_peer = ''1.2.3.4'',
     env_mono = 0, env_wall = 0, env_unix = 0\<rparr>"

theorem ui_user_exact_witness:
  "snd (ui_user (sample_ui\<lparr>ui_sessions := [(''t'', \<lparr>sess_user = ''bob'', sess_started = 0, sess_seen = 0\<rparr>)]\<rparr>) 5
      (sample_headers\<lparr>cookie_headers := [COOKIE @ ''=t'']\<rparr>)) = Some ''bob''"
proof -
  have "cookie (sample_headers\<lparr>cookie_headers := [COOKIE @ ''=t'']\<rparr>) = Some ''t''"
  proof -
    have "trim (COOKIE @ ''=t'') = COOKIE @ ''=t''" by (rule trim_visible_ascii) (simp add: COOKIE_def)
    then show ?thesis by (simp add: cookie_def find_map_def COOKIE_def map_filter_def)
  qed
  then show ?thesis
    by (subst ui_user_exact [THEN conjunct1]) (simp_all add: hm_ok_def IDLE_def LONGEST_def)
qed

theorem no_session_no_change_witness:
  "guard sample_env sample_ui sample_headers (PostGroup ''x'') = (sample_ui, StatusOnly 403)"
  using no_session_no_change [of sample_ui sample_env sample_headers "PostGroup ''x''"]
  by (simp add: same_origin_def sample_headers_def)

section \<open>Locking a name\<close>

text \<open>The name has failed \<open>k\<close> times, last at \<open>t\<close>, and is not locked.\<close>

definition counted :: "(string, attempts) hashmap \<Rightarrow> string \<Rightarrow> nat \<Rightarrow> instant \<Rightarrow> bool" where
  "counted m name k t \<longleftrightarrow> hm_ok m \<and>
     (if k = 0 then hm_get m name = None
      else hm_get m name = Some \<lparr>failures = k, last_try = t, locked_until = None\<rparr>)"

lemma counted_not_locked: "counted m name k t \<Longrightarrow> ui_locked m now name = None"
  by (auto simp: counted_def ui_locked_def split: if_splits)

lemma ui_failed_counted:
  assumes "counted m name k t" and "k = 0 \<or> now - t < LOCKED_FOR"
  shows "Suc k < ATTEMPTS \<Longrightarrow> counted (fst (ui_failed m now name)) name (Suc k) now"
    and "Suc k = ATTEMPTS \<Longrightarrow> hm_get (fst (ui_failed m now name)) name
      = Some \<lparr>failures = 0, last_try = now, locked_until = Some (now + LOCKED_FOR)\<rparr>"
proof -
  let ?P = "\<lambda>(_ :: string, a). now - last_try a < LOCKED_FOR
      \<or> (case locked_until a of Some until \<Rightarrow> until > now | None \<Rightarrow> False)"
  have ok: "hm_ok m" using assms(1) by (simp add: counted_def)
  have "hm_get (filter ?P m) name
      = (if k = 0 then None else Some \<lparr>failures = k, last_try = t, locked_until = None\<rparr>)"
    using assms unfolding hm_get_filter [OF ok] by (auto simp: counted_def split: if_splits)
  moreover have "hm_ok (filter ?P m)" using ok by simp
  ultimately show "Suc k < ATTEMPTS \<Longrightarrow> counted (fst (ui_failed m now name)) name (Suc k) now"
    and "Suc k = ATTEMPTS \<Longrightarrow> hm_get (fst (ui_failed m now name)) name
      = Some \<lparr>failures = 0, last_try = now, locked_until = Some (now + LOCKED_FOR)\<rparr>"
    by (auto simp: ui_failed_def counted_def Let_def hm.get_put_same intro: hm.ok_put)
qed

lemma sign_in_failing:
  assumes "ui_locked (ui_attempts u) (env_mono env) (trim n) = None"
    and "verify (env_crypto env) (ui_users u) (env_unix env) (trim n) p c \<noteq> Inr ()"
  shows "ui_attempts (fst (sign_in env u n p c)) = fst (ui_failed (ui_attempts u) (env_mono env) (trim n))
    \<and> ui_users (fst (sign_in env u n p c)) = ui_users u"
proof -
  obtain e where "verify (env_crypto env) (ui_users u) (env_unix env) (trim n) p c = Inl e"
    using assms(2) by (cases "verify (env_crypto env) (ui_users u) (env_unix env) (trim n) p c") auto
  then show ?thesis using assms(1)
    by (simp add: sign_in_def Let_def ui_journal_def split: prod.split)
qed

definition sign_ins :: "string \<Rightarrow> (ui_env \<times> string \<times> string) list \<Rightarrow> ui \<Rightarrow> ui" where
  "sign_ins n tries u = fold (\<lambda>(env, p, c) u. fst (sign_in env u n p c)) tries u"

fun close_together :: "instant \<Rightarrow> (ui_env \<times> string \<times> string) list \<Rightarrow> bool" where
  "close_together t [] = True"
| "close_together t (x # xs) = (t \<le> env_mono (fst x) \<and> env_mono (fst x) - t < LOCKED_FOR
     \<and> close_together (env_mono (fst x)) xs)"

lemma sign_ins_lock:
  assumes "counted (ui_attempts u) (trim n) k t" and "k + length tries = ATTEMPTS" and "tries \<noteq> []"
    and "if k = 0 then close_together (env_mono (fst (hd tries))) (tl tries) else close_together t tries"
    and "\<forall>(env, p, c) \<in> set tries. verify (env_crypto env) (ui_users u) (env_unix env) (trim n) p c \<noteq> Inr ()"
  shows "\<exists>a. hm_get (ui_attempts (sign_ins n tries u)) (trim n) = Some a
    \<and> locked_until a = Some (env_mono (fst (last tries)) + LOCKED_FOR)"
  using assms
proof (induction tries arbitrary: u k t)
  case (Cons x xs)
  obtain env p c where x: "x = (env, p, c)" by (metis prod_cases3)
  let ?u = "fst (sign_in env u n p c)" and ?now = "env_mono env"
  have step: "ui_attempts ?u = fst (ui_failed (ui_attempts u) ?now (trim n))" "ui_users ?u = ui_users u"
    using sign_in_failing [OF counted_not_locked [OF Cons.prems(1)], of env p c] Cons.prems(5) x by auto
  have near: "k = 0 \<or> ?now - t < LOCKED_FOR" using Cons.prems(4) x by (auto split: if_splits)
  note counted = ui_failed_counted [OF Cons.prems(1) near, folded step(1)]
  have run: "sign_ins n (x # xs) u = sign_ins n xs ?u" by (simp add: sign_ins_def x)
  show ?case
  proof (cases "xs = []")
    case True
    then have "Suc k = ATTEMPTS" using Cons.prems(2) by simp
    from counted(2) [OF this] True show ?thesis unfolding run by (simp add: sign_ins_def x)
  next
    case False
    then have "Suc k < ATTEMPTS" using Cons.prems(2) by (cases xs) auto
    moreover have "close_together ?now xs" using Cons.prems(4) x by (auto split: if_splits)
    ultimately show ?thesis
      using Cons.IH [of ?u "Suc k" ?now] counted(1) Cons.prems(2,5) False step(2) unfolding run by simp
  qed
qed simp

text \<open>
  Guessing is slowed down: five failed sign-ins in a row for a name, each within five minutes
  of the one before, lock it. For the next five minutes every sign-in for it is refused
  before its password is looked at, the right one too, and changes nothing.
\<close>

theorem five_failures_lock:
  assumes "hm_ok (ui_attempts u)" and "hm_get (ui_attempts u) (trim n) = None"
    and "length tries = 5" and "close_together (env_mono (fst (hd tries))) (tl tries)"
    and "\<forall>(env, p, c) \<in> set tries. verify (env_crypto env) (ui_users u) (env_unix env) (trim n) p c \<noteq> Inr ()"
    and "env_mono (fst (last tries)) \<le> env_mono env" "env_mono env \<le> env_mono (fst (last tries)) + LOCKED_FOR"
  shows "sign_in env (sign_ins n tries u) n p c = (sign_ins n tries u, Page 429)"
proof -
  have "counted (ui_attempts u) (trim n) 0 0" using assms(1,2) by (simp add: counted_def)
  moreover have "tries \<noteq> []" using assms(3) by auto
  ultimately obtain a where "hm_get (ui_attempts (sign_ins n tries u)) (trim n) = Some a"
    "locked_until a = Some (env_mono (fst (last tries)) + LOCKED_FOR)"
    using sign_ins_lock [of u n 0 0 tries] assms(3-5) by (auto simp: ATTEMPTS_def)
  with assms(7) show ?thesis by (simp add: sign_in_def ui_locked_def)
qed

theorem five_failures_lock_witness:
  "sign_in sample_env (sign_ins ''bob'' (replicate 5 (sample_env, ''x'', '''')) sample_ui) ''bob'' ''pw'' ''''
    = (sign_ins ''bob'' (replicate 5 (sample_env, ''x'', '''')) sample_ui, Page 429)"
proof (rule five_failures_lock)
  show "close_together (env_mono (fst (hd (replicate 5 (sample_env, ''x'', '''')))))
      (tl (replicate 5 (sample_env, ''x'', '''')))"
    by (simp add: numeral_eq_Suc LOCKED_FOR_def)
  show "\<forall>(env, p, c) \<in> set (replicate 5 (sample_env, ''x'', '''')).
      verify (env_crypto env) (ui_users sample_ui) (env_unix env) (trim ''bob'') p c \<noteq> Inr ()"
    by (simp add: verify_def sample_ui_def sample_users_def load_users_def)
qed (simp_all add: sample_ui_def hm_ok_def LOCKED_FOR_def)

section \<open>The data directory behind the web interface\<close>

definition ui_ok :: "ui \<Rightarrow> bool" where
  "ui_ok u \<longleftrightarrow> dir_ok (gate_dir (ui_gate u)) \<and> hm_ok (ui_sessions u) \<and> hm_ok (ui_attempts u)"

lemma gate_dir_reload [simp]: "gate_dir (gate_reload g) = gate_dir g"
  by (simp add: gate_reload_def split: sum.splits)

lemma gate_dir_set [simp]: "gate_dir (fst (gate_set g now sc a by_who)) = fst (change (gate_dir g) now sc a by_who)"
  by (simp add: gate_set_def split: sum.splits prod.splits)

lemma hm_ok_user [simp]: "ui_ok u \<Longrightarrow> ui_ok (fst (ui_user u now h))"
  by (auto simp: ui_ok_def ui_user_def Let_def intro: hm.ok_put split: option.splits)

lemma ui_ok_journal [simp]: "ui_ok (ui_journal u now ev) = ui_ok u"
  by (simp add: ui_ok_def ui_journal_def)

lemma ui_failed_ok: "hm_ok m \<Longrightarrow> hm_ok (fst (ui_failed m now name))"
  by (simp add: ui_failed_def Let_def hm.ok_put)

lemma ui_ok_sign_in: "ui_ok u \<Longrightarrow> ui_ok (fst (sign_in env u n p c))"
proof -
  assume u: "ui_ok u"
  then have "ui_ok (u\<lparr>ui_attempts := hm_remove k (ui_attempts u), ui_sessions := hm_insert t s (ui_sessions u)\<rparr>)" for k t s
    by (simp add: ui_ok_def hm.ok_put hm.ok_del)
  moreover have "ui_ok ((ui_journal u w ev)\<lparr>ui_attempts := fst (ui_failed (ui_attempts (ui_journal u w ev)) t k)\<rparr>)" for w ev t k
    using u by (simp add: ui_ok_def ui_journal_def ui_failed_ok)
  ultimately show ?thesis using u
    by (auto simp: sign_in_def Let_def split: option.splits sum.splits prod.splits) (metis fst_conv)+
qed

lemma on_dir_ok: "ui_ok u \<Longrightarrow> (\<And>dir. dir_ok dir \<Longrightarrow> dir_ok (fst (op dir))) \<Longrightarrow> ui_ok (fst (on_dir u op))"
  by (auto simp: on_dir_def ui_ok_def Let_def split: prod.splits) (metis fst_conv)

lemma change_access_ok: "ui_ok u \<Longrightarrow> ui_ok (fst (change_access env f u name))"
proof -
  assume u: "ui_ok u"
  have "ui_ok (u\<lparr>ui_gate := fst (gate_set (ui_gate u) now sc a by_who)\<rparr>)" for now sc a by_who
    using u by (simp add: ui_ok_def wf_intros)
  with u show ?thesis
    by (auto simp: change_access_def Let_def split: option.splits prod.splits) (metis fst_conv)
qed

lemma approve_request_ok: "ui_ok u \<Longrightarrow> ui_ok (fst (approve_request env i u name))"
  using approve_ok [of "gate_dir (ui_gate u)"]
  by (auto simp: approve_request_def ui_ok_def Let_def split: option.splits prod.splits sum.splits) (metis fst_conv)+

lemma refuse_request_ok: "ui_ok u \<Longrightarrow> ui_ok (fst (refuse_request env i u name))"
  by (auto simp: refuse_request_def ui_ok_def Let_def split: option.splits)

lemma signed_in_ok:
  "ui_ok u \<Longrightarrow> (\<And>u name. ui_ok u \<Longrightarrow> ui_ok (fst (k u name))) \<Longrightarrow> ui_ok (fst (signed_in env u h k))"
  by (cases "ui_user u (env_mono env) h"; drule hm_ok_user [of u "env_mono env" h])
    (auto simp: signed_in_def split: option.splits)

lemma dir_handlers_ok:
  assumes "ui_ok u"
  shows "ui_ok (fst (ui_add_device env pairs u name))" "ui_ok (fst (ui_remove_device env n u name))"
    "ui_ok (fst (ui_add_group env n u name))" "ui_ok (fst (ui_remove_group env n u name))"
  unfolding ui_add_device_def ui_remove_device_def ui_add_group_def ui_remove_group_def
  using assms by (auto intro!: on_dir_ok split: sum.split simp: wf_intros)

lemma ui_ok_handle: "ui_ok u \<Longrightarrow> ui_ok (fst (ui_handle env u h rq))"
proof (cases rq)
  case PostSignOut
  then show "ui_ok u \<Longrightarrow> ?thesis" by (auto simp: sign_out_def ui_ok_def hm.ok_del split: option.splits)
qed (auto intro!: signed_in_ok ui_ok_sign_in change_access_ok approve_request_ok refuse_request_ok dir_handlers_ok)

text \<open>
  What happens to the running connector's state: a request to the web interface, a tick of the
  gate, requests listed by remotehub, and the command line changing the users or the
  directory.
\<close>

inductive ui_step :: "ui \<Rightarrow> ui \<Rightarrow> bool" where
  serving: "ui_step u (fst (guard env u h rq))"
| ticking: "ui_step u (u\<lparr>ui_gate := follow_tick (ui_gate u) now\<rparr>)"
| listing: "ui_step u (u\<lparr>ui_requests := fst (listed (ui_requests u) rqs)\<rparr>)"
| users_changed: "ui_step u (u\<lparr>ui_users := us\<rparr>)"
| command_line: "dir_step lower (gate_dir (ui_gate u)) dir \<Longrightarrow> ui_step u (u\<lparr>ui_gate := (ui_gate u)\<lparr>gate_dir := dir\<rparr>\<rparr>)"

lemma follow_tick_dir_ok: "dir_ok (gate_dir g) \<Longrightarrow> dir_ok (gate_dir (follow_tick g now))"
proof -
  have "dir_ok (gate_dir h) \<Longrightarrow> dir_ok (gate_dir (fold (\<lambda>sc h. fst (gate_set h now sc Closed Expiry)) scs h))" for scs h
    by (induction scs arbitrary: h) (simp_all add: wf_intros)
  then show "dir_ok (gate_dir g) \<Longrightarrow> ?thesis" by (simp add: follow_tick_def Let_def)
qed

lemma ui_step_ok: "ui_step u u' \<Longrightarrow> ui_ok u \<Longrightarrow> ui_ok u'"
proof (induction rule: ui_step.induct)
  case (serving u env h rq)
  then show ?case by (simp add: guard_def ui_ok_handle)
qed (auto simp: ui_ok_def follow_tick_dir_ok dir_step_ok)

interpretation uis: machine ui_step ui_ok
  by unfold_locales (rule ui_step_ok)

text \<open>
  Whatever requests reach the web interface, in whatever order, while the gate ticks,
  remotehub lists requests and the command line works beside it: the data directory stays
  consistent, and no session token or name is in a table twice.
\<close>

theorem ui_reachable_ok:
  assumes "ui_step\<^sup>*\<^sup>* u u'" and "ui_ok u"
  shows "dir_ok (gate_dir (ui_gate u')) \<and> hm_ok (ui_sessions u') \<and> hm_ok (ui_attempts u')"
  using uis.reachable_good [OF assms] by (simp add: ui_ok_def)

theorem ui_reachable_ok_witness:
  "dir_ok (gate_dir (ui_gate (fst (guard sample_env sample_ui sample_headers GetStatus))))"
proof -
  have "ui_ok sample_ui" by (simp add: ui_ok_def sample_ui_def sample_dir_ok hm_ok_def)
  then show ?thesis
    using ui_reachable_ok [OF r_into_rtranclp [of ui_step]] ui_step.serving by blast
qed

section \<open>Approved requests\<close>

text \<open>
  A change of access through its form never opens a request: whatever the form says, each
  approved request is afterwards as it was before, or closed. Only approving opens one.
\<close>

theorem form_only_closes_requests:
  assumes "dir_ok (gate_dir (ui_gate u))" and "load_access (gate_dir (ui_gate u)) = Inr f"
    and "load_access (gate_dir (ui_gate (fst (change_access env form u name)))) = Inr f'"
  shows "af_get f' (RequestScope i) = af_get f (RequestScope i) \<or> st_access (af_get f' (RequestScope i)) = Closed"
proof (cases "(form_access env form, form_scope env form (form_access env form))")
  case (Pair acc sc)
  show ?thesis
  proof (cases "\<exists>a s. acc = Some a \<and> sc = Some s")
    case False
    then have "fst (change_access env form u name) = u"
      using Pair by (auto simp: change_access_def Let_def split: option.splits)
    with assms show ?thesis by simp
  next
    case True
    then obtain a s where as: "acc = Some a" "sc = Some s" by blast
    then have "ui_gate (fst (change_access env form u name))
        = fst (gate_set (ui_gate u) (env_wall env) s a (Web name))"
      using Pair by (auto simp: change_access_def Let_def split: prod.split option.split)
    then have f': "load_access (fst (change (gate_dir (ui_gate u)) (env_wall env) s a (Web name))) = Inr f'"
      using assms(3) by simp
    have ok: "access_file_ok f" using dir_okD(2) [OF assms(1,2)] .
    have closes: "s = RequestScope i \<Longrightarrow> a = Closed"
      using as Pair by (auto simp: form_scope_def Let_def split: option.splits if_splits)
    show ?thesis
    proof (cases rule: change_cases [of "gate_dir (ui_gate u)" "env_wall env" s a "Web name"])
      case (error e)
      with f' assms(2) show ?thesis by simp
    next
      case (changed iv g)
      let ?st = "\<lparr>st_access = round_access a, changed_by = Some (Web name), changed_at = Some (seconds (env_wall env))\<rparr>"
      have f'_eq: "f' = af_set f s ?st" using f' changed assms(2) by (simp add: load_access_def journal_event_def)
      show ?thesis
      proof (cases "s = RequestScope i")
        case True
        then have "st_access (af_get f' s) = round_access a"
          using af_get_set_same [OF ok, of iv s ?st] changed(2,3) assms(2) f'_eq
          by (metis old.sum.inject(2) stored.select_convs(1))
        with closes [OF True] True show ?thesis by simp
      next
        case False
        then show ?thesis using af_get_set_other [OF ok, of "RequestScope i" s ?st] f'_eq by auto
      qed
    qed
  qed
qed

theorem form_only_closes_requests_witness:
  "\<exists>f'. load_access (gate_dir (ui_gate (fst (change_access sample_env
        \<lparr>cf_action = ''permanent'', cf_scope = None, cf_name = None, cf_hours = None, cf_duration = None,
         cf_until = None, cf_offset = None\<rparr> sample_ui ''bob'')))) = Inr f'
    \<and> (af_get f' (RequestScope 5) = af_get sample_access (RequestScope 5) \<or> st_access (af_get f' (RequestScope 5)) = Closed)"
proof -
  let ?form = "\<lparr>cf_action = ''permanent'', cf_scope = None, cf_name = None, cf_hours = None, cf_duration = None,
      cf_until = None, cf_offset = None\<rparr> :: change_form"
  have ok: "dir_ok (gate_dir (ui_gate sample_ui))" by (simp add: sample_ui_def sample_dir_ok)
  have f: "load_access (gate_dir (ui_gate sample_ui)) = Inr sample_access"
    by (simp add: sample_ui_def sample_dir_def load_access_def)
  obtain f' where f': "load_access (gate_dir (ui_gate (fst (change_access sample_env ?form sample_ui ''bob'')))) = Inr f'"
    using dir_okD change_access_ok [of sample_ui sample_env ?form "''bob''"]
    by (auto simp: change_access_def form_access_def form_scope_def sample_ui_def gate_set_def change_def sample_dir_def
        load_inventory_def load_access_def save_access_def journal_event_def fresh_dir_def split: prod.splits)
  from form_only_closes_requests [OF ok f f', of 5] f' show ?thesis by blast
qed

lemma answered_not_waiting:
  "request_get st i = Some rq \<Longrightarrow> request_get (answer_request st \<lparr>ans_id = i, approved = a, ans_by = b, ans_until = u\<rparr>) i = None"
  by (auto simp: request_get_def waiting_def answer_request_def find_None_iff)

text \<open>
  Approving a waiting request opens exactly that request, for exactly its targets, from now
  for the minutes it asked for, rounded to the second, so never for more than a day; every
  other scope stays as it was, and the request waits no longer. If storing it fails, it keeps
  waiting and nothing is opened.
\<close>

theorem approve_request_exact:
  fixes env name
  assumes "dir_ok (gate_dir (ui_gate u))" and "request_get (ui_requests u) i = Some rq" and "request_wf rq"
  defines "u' \<equiv> fst (approve_request env i u name)"
  shows "case snd (approve_request env i u name) of
      Redirect _ \<Rightarrow> request_get (ui_requests u') i = None \<and>
        (\<exists>f f' end_at. load_access (gate_dir (ui_gate u)) = Inr f \<and> load_access (gate_dir (ui_gate u')) = Inr f'
          \<and> bt_get (af_requests f') i = Some (approval rq (env_wall env) end_at (Web name))
          \<and> end_at \<le> env_wall env + 24 * 60 * 60000000000
          \<and> env_wall env + int (minutes rq) * 60000000000 - end_at \<in> {0 ..< 1000000000}
          \<and> (\<forall>sc. sc \<noteq> RequestScope i \<longrightarrow> af_get f' sc = af_get f sc))
    | _ \<Rightarrow> request_get (ui_requests u') i = Some rq
          \<and> access_json (gate_dir (ui_gate u')) = access_json (gate_dir (ui_gate u))"
proof -
  let ?fin = "seconds (env_wall env + int (minutes rq) * 60000000000)" and ?dir = "gate_dir (ui_gate u)"
  have id: "req_id rq = i"
    using assms(2) by (auto simp: request_get_def find_Some_iff)
  have bounds: "x - seconds x \<in> {0 ..< 1000000000}" for x by (simp add: seconds_def)
  have minutes: "minutes rq \<le> 1440" using assms(3) by (simp add: request_wf_def MINUTES_def)
  have twice: "seconds (seconds x) = seconds x" for x
    by (simp add: seconds_def minus_mod_eq_mult_div)
  obtain dir' r where r: "approve ?dir (env_wall env) rq ?fin (Web name) = (dir', r)" by force
  show ?thesis
  proof (cases r)
    case (Inl e)
    then have "access_json dir' = access_json ?dir"
      using r by (auto simp: approve_def save_access_def Let_def split: sum.splits if_splits)
    with Inl show ?thesis
      using assms(2) r unfolding u'_def
      by (cases e) (simp_all add: approve_request_def Let_def)
  next
    case (Inr x)
    then have ap: "approve ?dir (env_wall env) rq ?fin (Web name) = (dir', Inr ())" using r by simp
    from approve_Inr [OF ap] obtain f where f: "load_access ?dir = Inr f"
      and f': "load_access dir' = Inr (f\<lparr>af_requests := bt_insert i (approval rq (env_wall env) ?fin (Web name)) (af_requests f)\<rparr>)"
      unfolding id twice .
    have gate: "gate_dir (ui_gate u') = dir'"
      "ui_requests u' = answer_request (ui_requests u) \<lparr>ans_id = i, approved = True, ans_by = name,
          ans_until = env_rfc3339 env ?fin\<rparr>"
      "snd (approve_request env i u name) = Redirect ''/''"
      unfolding u'_def using assms(2) ap id by (simp_all add: approve_request_def Let_def)
    have "?fin \<le> env_wall env + 24 * 60 * 60000000000"
      using bounds [of "env_wall env + int (minutes rq) * 60000000000"] minutes by simp
    moreover have "sc \<noteq> RequestScope i \<Longrightarrow>
        af_get (f\<lparr>af_requests := bt_insert i (approval rq (env_wall env) ?fin (Web name)) (af_requests f)\<rparr>) sc = af_get f sc" for sc
      by (cases sc) (auto simp: dict_simps)
    moreover have "bt_get (bt_insert i (approval rq (env_wall env) ?fin (Web name)) (af_requests f)) i
        = Some (approval rq (env_wall env) ?fin (Web name))" by (rule bt.get_put_same)
    ultimately show ?thesis
      unfolding gate response.case using f f' bounds answered_not_waiting [OF assms(2)] by auto
  qed
qed

theorem approve_request_exact_witness:
  "request_get (ui_requests (fst (approve_request sample_env 5 sample_ui ''bob''))) 5 = None"
proof -
  have rq: "request_get (ui_requests sample_ui) 5 = Some sample_request"
    by (simp add: sample_ui_def request_get_def waiting_def sample_request_def)
  have "snd (approve_request sample_env 5 sample_ui ''bob'') = Redirect ''/''"
    using rq by (simp add: approve_request_def approve_def sample_ui_def sample_dir_def load_access_def save_access_def
        fresh_dir_def Let_def)
  then show ?thesis
    using approve_request_exact [OF _ rq sample_request_wf, of sample_env "''bob''"] by (simp add: sample_ui_def sample_dir_ok)
qed

section \<open>Escaping\<close>

text \<open>What a browser reads: the five entities back as their characters.\<close>

fun unescape :: "nat list \<Rightarrow> nat list" where
  "unescape [] = []"
| "unescape (c # cs) =
     (if c = 38 then
        if take 4 cs = [97, 109, 112, 59] then 38 # unescape (drop 4 cs)
        else if take 3 cs = [108, 116, 59] then 60 # unescape (drop 3 cs)
        else if take 3 cs = [103, 116, 59] then 62 # unescape (drop 3 cs)
        else if take 5 cs = [113, 117, 111, 116, 59] then 34 # unescape (drop 5 cs)
        else if take 4 cs = [35, 51, 57, 59] then 39 # unescape (drop 4 cs)
        else c # unescape cs
      else c # unescape cs)"

definition escaped :: "nat \<Rightarrow> nat list" where
  "escaped c =
     (if c = 38 then [38, 97, 109, 112, 59] else if c = 60 then [38, 108, 116, 59] else if c = 62 then [38, 103, 116, 59]
      else if c = 34 then [38, 113, 117, 111, 116, 59] else if c = 39 then [38, 35, 51, 57, 59] else [c])"

lemma escape_char_escaped: "escape_char c = from_chars (escaped c)"
  by (simp add: escape_char_def escaped_def from_chars_def encode_char_def char_of_def bit_0)

lemma escape_chars: "escape text = from_chars (concat (map escaped (chars text)))"
proof -
  have "concat (map escape_char cs) = from_chars (concat (map escaped cs))" for cs
    by (induction cs) (simp_all add: from_chars_append escape_char_escaped from_chars_def)
  then show ?thesis by (simp add: escape_def)
qed

lemma scalar_escaped: "scalar c \<Longrightarrow> list_all scalar (escaped c)"
  by (simp add: escaped_def scalar_def)

lemma unescape_escaped: "unescape (escaped c @ cs) = c # unescape cs"
  by (simp add: escaped_def numeral_eq_Suc)

text \<open>
  A text shown on a page cannot become markup: what is written for it has no angle bracket
  and no quote, and a browser reads it back as exactly the text.
\<close>

theorem escape_safe:
  assumes "from_utf8 text = Some text"
  shows "unescape (chars (escape text)) = chars text
    \<and> set (chars (escape text)) \<inter> {60, 62, 34, 39} = {}"
proof -
  have sc: "list_all scalar (chars text)" using assms by (auto simp: from_utf8_def Let_def split: if_splits)
  then have all: "list_all scalar (concat (map escaped (chars text)))"
    using scalar_escaped by (fastforce simp: list_all_iff)
  have "unescape (concat (map escaped cs)) = cs" for cs
    by (induction cs) (simp_all add: unescape_escaped)
  moreover have "set (escaped c) \<inter> {60, 62, 34, 39} = {}" for c by (simp add: escaped_def)
  ultimately show ?thesis
    unfolding escape_chars chars_from_chars [OF all] by auto
qed

theorem escape_safe_witness:
  "unescape (chars (escape ''<a&b>'')) = chars ''<a&b>''"
  using escape_safe [of "''<a&b>''"]
  by (simp add: from_utf8_def chars_def from_chars_def scalar_def encode_char_def char_of_def bit_0)

end
