(* ===== verification/Switchboard.thy ===== *)
theory Switchboard
  imports Agent
begin

text \<open>
  Site connectors on the server's side, \<^verbatim>\<open>crates/server/src/connectors.rs\<close>: which connectors are
  online, the streams and checks asked of them, and the connections they carry. Many tasks work on
  the one table; each takes a lock for one statement, so their interleavings are the sequences of
  the operations below. A generation is a \<open>u64\<close> counted up; that it does not come around is the one
  thing assumed of it, and it is a number here.
\<close>

section \<open>State\<close>

datatype control = ControlOpen uuid string "string option" "string option" | ControlCheck uuid string

datatype connector_error = Offline | Timeout | StreamRefused string | NotOpen

record requester =
  rr_user :: string
  rr_device :: string

record checked =
  ck_open :: bool
  ck_until :: "string option"

text \<open>
  The sender of a control socket's channel is named by its generation; \<open>sw_sent\<close> is what went into
  the channels, in order.
\<close>

record switchboard =
  sw_online :: "(uuid, nat) hashmap"
  sw_pending :: "(uuid, uuid) hashmap"
  sw_generation :: nat
  sw_carrying :: "(uuid, nat) hashmap"
  sw_carried :: "(uuid, nat) hashmap"
  sw_access :: "(uuid, agent_state \<times> instant) hashmap"
  sw_checks :: "(uuid, uuid) hashmap"
  sw_sent :: "(nat \<times> control) list"

definition switchboard_default :: switchboard where
  "switchboard_default = \<lparr>sw_online = [], sw_pending = [], sw_generation = 0, sw_carrying = [], sw_carried = [],
     sw_access = [], sw_checks = [], sw_sent = []\<rparr>"

section \<open>Operations\<close>

definition utc :: "(string \<Rightarrow> instant option) \<Rightarrow> (instant \<Rightarrow> string option) \<Rightarrow> string \<Rightarrow> string option" where
  "utc rfc3339 rfc3339_utc t = Option.bind (rfc3339 t) rfc3339_utc"

definition REPORT_STALE :: instant where
  "REPORT_STALE = 180 * 1000000000"

definition sw_register :: "uuid \<Rightarrow> switchboard \<Rightarrow> switchboard \<times> nat" where
  "sw_register c b =
     (let g = sw_generation b
      in (b\<lparr>sw_generation := g + 1, sw_online := hm_insert c g (sw_online b)\<rparr>, g))"

text \<open>\<open>Drop for Registration\<close>.\<close>

definition drop_registration :: "uuid \<Rightarrow> nat \<Rightarrow> switchboard \<Rightarrow> switchboard" where
  "drop_registration c g b = (if hm_get (sw_online b) c = Some g then b\<lparr>sw_online := hm_remove c (sw_online b)\<rparr> else b)"

definition is_online :: "switchboard \<Rightarrow> uuid \<Rightarrow> bool" where
  "is_online b c \<longleftrightarrow> hm_get (sw_online b) c \<noteq> None"

definition streams :: "switchboard \<Rightarrow> uuid \<Rightarrow> nat" where
  "streams b c = (case hm_get (sw_carrying b) c of Some n \<Rightarrow> n | None \<Rightarrow> 0)"

definition streams_carried :: "switchboard \<Rightarrow> uuid \<Rightarrow> nat" where
  "streams_carried b c = (case hm_get (sw_carried b) c of Some n \<Rightarrow> n | None \<Rightarrow> 0)"

definition count_stream :: "uuid \<Rightarrow> switchboard \<Rightarrow> switchboard" where
  "count_stream c b =
     b\<lparr>sw_carrying := hm_insert c (streams b c + 1) (sw_carrying b), sw_carried := hm_insert c (streams_carried b c + 1) (sw_carried b)\<rparr>"

text \<open>\<open>Drop for Carrying\<close>; subtracting from zero would panic.\<close>

definition drop_carrying :: "uuid \<Rightarrow> switchboard \<Rightarrow> switchboard option" where
  "drop_carrying c b =
     (case hm_get (sw_carrying b) c of
        None \<Rightarrow> Some b
      | Some n \<Rightarrow>
          if n = 0 then None
          else if n = 1 then Some (b\<lparr>sw_carrying := hm_remove c (sw_carrying b)\<rparr>)
          else Some (b\<lparr>sw_carrying := hm_insert c (n - 1) (sw_carrying b)\<rparr>))"

definition sw_access_of :: "switchboard \<Rightarrow> instant \<Rightarrow> uuid \<Rightarrow> agent_state option" where
  "sw_access_of b now c =
     (case hm_get (sw_access b) c of
        Some (st, since) \<Rightarrow> if now - since < REPORT_STALE then Some st else None
      | None \<Rightarrow> None)"

definition sw_report :: "uuid \<Rightarrow> agent_state \<Rightarrow> instant \<Rightarrow> switchboard \<Rightarrow> switchboard \<times> agent_state option" where
  "sw_report c st now b = (b\<lparr>sw_access := hm_insert c (st, now) (sw_access b)\<rparr>, sw_access_of b now c)"

text \<open>
  \<open>stream\<close> up to where it waits, with the identifier drawn; \<open>sent\<close> is whether the channel's other end
  is still there. When the wait ends, by an answer, a lost channel or the time-out, the entry goes.
\<close>

definition stream_ask :: "uuid \<Rightarrow> string \<Rightarrow> requester option \<Rightarrow> uuid \<Rightarrow> switchboard \<Rightarrow> connector_error + switchboard" where
  "stream_ask c target whom i b =
     (case hm_get (sw_online b) c of
        None \<Rightarrow> Inl Offline
      | Some g \<Rightarrow> Inr (b\<lparr>sw_pending := hm_insert i c (sw_pending b),
            sw_sent := sw_sent b @ [(g, ControlOpen i target (map_option rr_user whom) (map_option rr_device whom))]\<rparr>))"

definition stream_end :: "uuid \<Rightarrow> switchboard \<Rightarrow> switchboard" where
  "stream_end i b = b\<lparr>sw_pending := hm_remove i (sw_pending b)\<rparr>"

text \<open>\<open>claim\<close>: whether \<open>c\<close> was asked for stream \<open>i\<close> and nobody answered yet; then the answer is its to give.\<close>

definition claim :: "uuid \<Rightarrow> uuid \<Rightarrow> switchboard \<Rightarrow> switchboard \<times> bool" where
  "claim c i b =
     (if hm_get (sw_pending b) i = Some c then (b\<lparr>sw_pending := hm_remove i (sw_pending b)\<rparr>, True) else (b, False))"

definition fail_error :: "string \<Rightarrow> bool \<Rightarrow> connector_error" where
  "fail_error why shut = (if shut then NotOpen else StreamRefused why)"

definition sw_fail :: "uuid \<Rightarrow> uuid \<Rightarrow> string \<Rightarrow> bool \<Rightarrow> switchboard \<Rightarrow> switchboard \<times> connector_error option" where
  "sw_fail c i why shut b =
     (let (b', mine) = claim c i b in (b', if mine then Some (fail_error why shut) else None))"

definition check_ask :: "uuid \<Rightarrow> string \<Rightarrow> uuid \<Rightarrow> switchboard \<Rightarrow> connector_error + switchboard" where
  "check_ask c target i b =
     (case hm_get (sw_online b) c of
        None \<Rightarrow> Inl Offline
      | Some g \<Rightarrow> Inr (b\<lparr>sw_checks := hm_insert i c (sw_checks b), sw_sent := sw_sent b @ [(g, ControlCheck i target)]\<rparr>))"

definition check_end :: "uuid \<Rightarrow> switchboard \<Rightarrow> switchboard" where
  "check_end i b = b\<lparr>sw_checks := hm_remove i (sw_checks b)\<rparr>"

definition sw_checked :: "uuid \<Rightarrow> uuid \<Rightarrow> checked \<Rightarrow> switchboard \<Rightarrow> switchboard \<times> checked option" where
  "sw_checked c i answer b =
     (if hm_get (sw_checks b) i = Some c then (b\<lparr>sw_checks := hm_remove i (sw_checks b)\<rparr>, Some answer) else (b, None))"

section \<open>The tasks\<close>

text \<open>
  What the tasks hold beside the table: the registrations of live control sockets, of all there ever
  were, and the counted connections; what was asked of whom, and which answers reached whoever asked, with the connector
  they came from. Identifiers are drawn at random; that a new one was never drawn before is the
  condition of asking.
\<close>

datatype reply = StreamOpen | StreamFailed connector_error | CheckAnswer checked

record exchange =
  ex_board :: switchboard
  ex_registered :: "(uuid \<times> nat) list"
  ex_held :: "(uuid \<times> nat) list"
  ex_counted :: "uuid list"
  ex_asked :: "(uuid \<times> uuid) list"
  ex_replies :: "(uuid \<times> uuid \<times> reply) list"

datatype exchange_event =
    SocketUp uuid
  | SocketDown uuid nat
  | AskStream uuid uuid string "requester option"
  | CallBack uuid uuid
  | ReportFailed uuid uuid string bool
  | StopWaiting uuid
  | AskCheck uuid uuid string
  | ReportChecked uuid uuid checked
  | StopChecking uuid
  | Carry uuid
  | CarryEnds uuid
  | ReportState uuid agent_state instant

definition fresh :: "exchange \<Rightarrow> uuid \<Rightarrow> bool" where
  "fresh x i \<longleftrightarrow> i \<notin> fst ` set (ex_asked x)"

fun exchange_handle :: "exchange \<Rightarrow> exchange_event \<Rightarrow> exchange option" where
  "exchange_handle x (SocketUp c) =
     (let (b, g) = sw_register c (ex_board x) in Some (x\<lparr>ex_board := b, ex_registered := ex_registered x @ [(c, g)], ex_held := ex_held x @ [(c, g)]\<rparr>))"
| "exchange_handle x (SocketDown c g) =
     (if (c, g) \<in> set (ex_held x)
      then Some (x\<lparr>ex_board := drop_registration c g (ex_board x), ex_held := filter (\<lambda>h. h \<noteq> (c, g)) (ex_held x)\<rparr>)
      else None)"
| "exchange_handle x (AskStream i c target whom) =
     (if fresh x i then
        (case stream_ask c target whom i (ex_board x) of
           Inl _ \<Rightarrow> Some x
         | Inr b \<Rightarrow> Some (x\<lparr>ex_board := b, ex_asked := ex_asked x @ [(i, c)]\<rparr>))
      else None)"
| "exchange_handle x (CallBack c i) =
     (let (b, mine) = claim c i (ex_board x)
      in Some (x\<lparr>ex_board := b, ex_replies := ex_replies x @ (if mine then [(i, c, StreamOpen)] else [])\<rparr>))"
| "exchange_handle x (ReportFailed c i why shut) =
     (let (b, e) = sw_fail c i why shut (ex_board x)
      in Some (x\<lparr>ex_board := b, ex_replies := ex_replies x @ (case e of Some e \<Rightarrow> [(i, c, StreamFailed e)] | None \<Rightarrow> [])\<rparr>))"
| "exchange_handle x (StopWaiting i) = Some (x\<lparr>ex_board := stream_end i (ex_board x)\<rparr>)"
| "exchange_handle x (AskCheck i c target) =
     (if fresh x i then
        (case check_ask c target i (ex_board x) of
           Inl _ \<Rightarrow> Some x
         | Inr b \<Rightarrow> Some (x\<lparr>ex_board := b, ex_asked := ex_asked x @ [(i, c)]\<rparr>))
      else None)"
| "exchange_handle x (ReportChecked c i answer) =
     (let (b, a) = sw_checked c i answer (ex_board x)
      in Some (x\<lparr>ex_board := b, ex_replies := ex_replies x @ (case a of Some a \<Rightarrow> [(i, c, CheckAnswer a)] | None \<Rightarrow> [])\<rparr>))"
| "exchange_handle x (StopChecking i) = Some (x\<lparr>ex_board := check_end i (ex_board x)\<rparr>)"
| "exchange_handle x (Carry c) = Some (x\<lparr>ex_board := count_stream c (ex_board x), ex_counted := ex_counted x @ [c]\<rparr>)"
| "exchange_handle x (CarryEnds c) =
     (if c \<in> set (ex_counted x)
      then map_option (\<lambda>b. x\<lparr>ex_board := b, ex_counted := remove1 c (ex_counted x)\<rparr>) (drop_carrying c (ex_board x))
      else None)"
| "exchange_handle x (ReportState c st now) = Some (x\<lparr>ex_board := fst (sw_report c st now (ex_board x))\<rparr>)"

inductive exchange_step :: "exchange \<Rightarrow> exchange \<Rightarrow> bool" where
  handled: "exchange_handle x e = Some x' \<Longrightarrow> exchange_step x x'"

inductive_cases exchange_stepE: "exchange_step x x'"

definition exchange_start :: exchange where
  "exchange_start = \<lparr>ex_board = switchboard_default, ex_registered = [], ex_held = [], ex_counted = [], ex_asked = [], ex_replies = []\<rparr>"

section \<open>The invariant\<close>

definition board_ok :: "switchboard \<Rightarrow> bool" where
  "board_ok b \<longleftrightarrow> hm_ok (sw_online b) \<and> hm_ok (sw_pending b) \<and> hm_ok (sw_carrying b) \<and> hm_ok (sw_carried b)
     \<and> hm_ok (sw_access b) \<and> hm_ok (sw_checks b)"

text \<open>A connector is online through its newest control socket, as long as that is there.\<close>

definition online_ok :: "exchange \<Rightarrow> bool" where
  "online_ok x \<longleftrightarrow> (\<forall>(c, g) \<in> set (ex_registered x). g < sw_generation (ex_board x)) \<and> set (ex_held x) \<subseteq> set (ex_registered x)
     \<and> (\<forall>c g. hm_get (sw_online (ex_board x)) c = Some g
          \<longleftrightarrow> (c, g) \<in> set (ex_held x) \<and> (\<forall>g'. (c, g') \<in> set (ex_registered x) \<longrightarrow> g' \<le> g))"

definition waiting_ok :: "exchange \<Rightarrow> (uuid, uuid) hashmap \<Rightarrow> bool" where
  "waiting_ok x m \<longleftrightarrow> (\<forall>i c. hm_get m i = Some c \<longrightarrow> (i, c) \<in> set (ex_asked x) \<and> i \<notin> fst ` set (ex_replies x))"

definition replies_ok :: "exchange \<Rightarrow> bool" where
  "replies_ok x \<longleftrightarrow> distinct (map fst (ex_replies x)) \<and> (\<forall>(i, c, _) \<in> set (ex_replies x). (i, c) \<in> set (ex_asked x))
     \<and> waiting_ok x (sw_pending (ex_board x)) \<and> waiting_ok x (sw_checks (ex_board x))
     \<and> (\<forall>i. hm_get (sw_pending (ex_board x)) i = None \<or> hm_get (sw_checks (ex_board x)) i = None)"

definition positive :: "nat \<Rightarrow> nat option" where
  "positive n = (if n = 0 then None else Some n)"

definition counts_ok :: "exchange \<Rightarrow> bool" where
  "counts_ok x \<longleftrightarrow> (\<forall>c. hm_get (sw_carrying (ex_board x)) c = positive (count_list (ex_counted x) c))"

definition exchange_ok :: "exchange \<Rightarrow> bool" where
  "exchange_ok x \<longleftrightarrow> board_ok (ex_board x) \<and> online_ok x \<and> replies_ok x \<and> counts_ok x"

lemmas board_ops = sw_register_def drop_registration_def count_stream_def drop_carrying_def sw_report_def stream_ask_def stream_end_def
  claim_def sw_fail_def check_ask_def check_end_def sw_checked_def

lemma board_step: "exchange_handle x e = Some x' \<Longrightarrow> board_ok (ex_board x) \<Longrightarrow> board_ok (ex_board x')"
  by (cases e) (auto simp: board_ok_def board_ops Let_def intro: hm.ok_put hm.ok_del split: if_splits option.splits sum.splits)

lemma online_step:
  assumes "exchange_handle x e = Some x'" and b: "board_ok (ex_board x)" and x: "online_ok x"
  shows "online_ok x'"
proof -
  have on: "hm_ok (sw_online (ex_board x))" using b by (simp add: board_ok_def)
  have same: "online_ok y" if "sw_online (ex_board y) = sw_online (ex_board x)" "sw_generation (ex_board y) = sw_generation (ex_board x)"
    "ex_held y = ex_held x" "ex_registered y = ex_registered x" for y
    using x that by (simp add: online_ok_def)
  show ?thesis
  proof (cases e)
    case (SocketUp c)
    let ?g = "sw_generation (ex_board x)"
    have x': "ex_registered x' = ex_registered x @ [(c, ?g)]" "ex_held x' = ex_held x @ [(c, ?g)]"
      "sw_generation (ex_board x') = Suc ?g" "hm_get (sw_online (ex_board x')) = (hm_get (sw_online (ex_board x)))(c \<mapsto> ?g)"
      using SocketUp assms(1) by (auto simp: sw_register_def Let_def hm.get_put)
    have old: "\<And>d g. (d, g) \<in> set (ex_registered x) \<Longrightarrow> g < ?g" and sub: "set (ex_held x) \<subseteq> set (ex_registered x)"
      and iff: "\<And>d g. hm_get (sw_online (ex_board x)) d = Some g
        \<longleftrightarrow> (d, g) \<in> set (ex_held x) \<and> (\<forall>g'. (d, g') \<in> set (ex_registered x) \<longrightarrow> g' \<le> g)"
      using x unfolding online_ok_def by blast+
    have "hm_get (sw_online (ex_board x')) d = Some g
        \<longleftrightarrow> (d, g) \<in> set (ex_held x') \<and> (\<forall>g'. (d, g') \<in> set (ex_registered x') \<longrightarrow> g' \<le> g)" for d g
    proof (cases "d = c")
      case True
      have "g = ?g" if "(c, g) \<in> set (ex_held x')" "\<forall>g'. (c, g') \<in> set (ex_registered x') \<longrightarrow> g' \<le> g"
        using that old [of c g] sub by (fastforce simp: x' dest: spec [of _ ?g])
      then show ?thesis using True old [of c] by (auto simp: x' less_imp_le)
    qed (simp add: x' iff)
    moreover have "\<forall>(d, g) \<in> set (ex_registered x'). g < sw_generation (ex_board x')" using old by (fastforce simp: x')
    moreover have "set (ex_held x') \<subseteq> set (ex_registered x')" using sub by (auto simp: x')
    ultimately show ?thesis unfolding online_ok_def by blast
  next
    case (SocketDown c g)
    with assms(1) have held: "(c, g) \<in> set (ex_held x)"
      and x': "x' = x\<lparr>ex_board := drop_registration c g (ex_board x), ex_held := filter (\<lambda>h. h \<noteq> (c, g)) (ex_held x)\<rparr>"
      by (auto split: if_splits)
    have "hm_get (sw_online (drop_registration c g (ex_board x))) d = Some k
        \<longleftrightarrow> hm_get (sw_online (ex_board x)) d = Some k \<and> (d, k) \<noteq> (c, g)" for d k
      by (auto simp: drop_registration_def hm.get_del [OF on])
    moreover have "sw_generation (drop_registration c g (ex_board x)) = sw_generation (ex_board x)"
      by (simp add: drop_registration_def)
    moreover have "hm_get (sw_online (ex_board x)) d = Some k
        \<longleftrightarrow> (d, k) \<in> set (ex_held x) \<and> (\<forall>g'. (d, g') \<in> set (ex_registered x) \<longrightarrow> g' \<le> k)" for d k
      using x unfolding online_ok_def by blast
    moreover have "set (ex_held x) \<subseteq> set (ex_registered x)" "\<forall>(c, g) \<in> set (ex_registered x). g < sw_generation (ex_board x)"
      using x unfolding online_ok_def by blast+
    ultimately show ?thesis unfolding online_ok_def x' by (simp add: subset_eq) blast
  qed (use assms(1) in \<open>auto intro!: same simp: board_ops Let_def split: if_splits option.splits sum.splits\<close>)
qed

lemma waiting_once: "replies_ok x \<Longrightarrow> hm_get (sw_pending (ex_board x)) i = Some c \<Longrightarrow> hm_get (sw_checks (ex_board x)) i = None"
  unfolding replies_ok_def by (metis option.distinct(1))

lemma removed_get: "hm_ok m \<Longrightarrow> hm_get (hm_remove i m) j = Some d \<Longrightarrow> hm_get m j = Some d"
  by (simp add: hm.get_del split: if_splits)

lemma stop_ok:
  assumes x: "replies_ok x" and "\<And>j d. hm_get p j = Some d \<Longrightarrow> hm_get (sw_pending (ex_board x)) j = Some d"
    and "\<And>j d. hm_get k j = Some d \<Longrightarrow> hm_get (sw_checks (ex_board x)) j = Some d"
  shows "replies_ok (x\<lparr>ex_board := (ex_board x)\<lparr>sw_pending := p, sw_checks := k\<rparr>\<rparr>)"
proof -
  have "hm_get p j = None \<or> hm_get k j = None" for j
    using waiting_once [OF x, of j] assms(2,3) [of j] by (cases "hm_get p j"; cases "hm_get k j") auto
  moreover have "waiting_ok x p" "waiting_ok x k"
    using x assms(2,3) unfolding replies_ok_def waiting_ok_def by blast+
  ultimately show ?thesis using x by (simp add: replies_ok_def waiting_ok_def)
qed

text \<open>An answer to something that was waiting, by the one that was asked.\<close>

lemma reply_ok:
  assumes x: "replies_ok x" and asked: "(i, c) \<in> set (ex_asked x)" and new: "i \<notin> fst ` set (ex_replies x)"
    and less: "\<And>j d. hm_get (sw_pending (ex_board x')) j = Some d \<Longrightarrow> hm_get (sw_pending (ex_board x)) j = Some d \<and> j \<noteq> i"
      "\<And>j d. hm_get (sw_checks (ex_board x')) j = Some d \<Longrightarrow> hm_get (sw_checks (ex_board x)) j = Some d \<and> j \<noteq> i"
    and tables: "ex_asked x' = ex_asked x" "ex_replies x' = ex_replies x @ [(i, c, r)]"
  shows "replies_ok x'"
proof -
  have "waiting_ok x' (sw_pending (ex_board x'))" "waiting_ok x' (sw_checks (ex_board x'))"
    using x less unfolding replies_ok_def waiting_ok_def tables set_append image_Un by auto
  moreover have "hm_get (sw_pending (ex_board x')) j = None \<or> hm_get (sw_checks (ex_board x')) j = None" for j
  proof (rule ccontr)
    assume "\<not> ?thesis"
    then obtain a b where "hm_get (sw_pending (ex_board x')) j = Some a" "hm_get (sw_checks (ex_board x')) j = Some b" by auto
    with less have "hm_get (sw_pending (ex_board x)) j = Some a" "hm_get (sw_checks (ex_board x)) j = Some b" by blast+
    then show False using waiting_once [OF x] by fastforce
  qed
  ultimately show ?thesis using x asked new by (auto simp: replies_ok_def tables)
qed

lemma waiting_asked:
  assumes "replies_ok x" and "hm_get (sw_pending (ex_board x)) i = Some c \<or> hm_get (sw_checks (ex_board x)) i = Some c"
  shows "(i, c) \<in> set (ex_asked x)" and "i \<notin> fst ` set (ex_replies x)"
  using assms unfolding replies_ok_def waiting_ok_def by blast+

lemma stream_reply_ok:
  assumes x: "replies_ok x" and i: "hm_get (sw_pending (ex_board x)) i = Some c" and "hm_ok (sw_pending (ex_board x))"
  shows "replies_ok (x\<lparr>ex_board := (ex_board x)\<lparr>sw_pending := hm_remove i (sw_pending (ex_board x))\<rparr>, ex_replies := ex_replies x @ [(i, c, r)]\<rparr>)"
  using waiting_asked [OF x, of i c] waiting_once [OF x i] i
  by (intro reply_ok [OF x, of i c]) (auto simp: hm.get_del [OF assms(3)] split: if_splits)

lemma check_reply_ok:
  assumes x: "replies_ok x" and i: "hm_get (sw_checks (ex_board x)) i = Some c" and "hm_ok (sw_checks (ex_board x))"
  shows "replies_ok (x\<lparr>ex_board := (ex_board x)\<lparr>sw_checks := hm_remove i (sw_checks (ex_board x))\<rparr>, ex_replies := ex_replies x @ [(i, c, r)]\<rparr>)"
  using waiting_asked [OF x, of i c] waiting_once [OF x, of i] i
  by (intro reply_ok [OF x, of i c]) (auto simp: hm.get_del [OF assms(3)] split: if_splits)

text \<open>Something asked under an identifier never drawn before.\<close>

lemma ask_ok:
  assumes x: "replies_ok x" and new: "fresh x i"
    and p: "sw_pending (ex_board x') = (if stream then hm_insert i c (sw_pending (ex_board x)) else sw_pending (ex_board x))"
    and k: "sw_checks (ex_board x') = (if stream then sw_checks (ex_board x) else hm_insert i c (sw_checks (ex_board x)))"
    and tables: "ex_asked x' = ex_asked x @ [(i, c)]" "ex_replies x' = ex_replies x"
  shows "replies_ok x'"
proof -
  have unused: "i \<notin> fst ` set (ex_replies x)" "hm_get (sw_pending (ex_board x)) i = None" "hm_get (sw_checks (ex_board x)) i = None"
  proof -
    show "i \<notin> fst ` set (ex_replies x)" using x new unfolding replies_ok_def fresh_def by force
    have "hm_get m i = None" if "waiting_ok x m" for m
      using that new by (cases "hm_get m i") (force simp: waiting_ok_def fresh_def)+
    then show "hm_get (sw_pending (ex_board x)) i = None" "hm_get (sw_checks (ex_board x)) i = None"
      using x unfolding replies_ok_def by blast+
  qed
  have "waiting_ok x' (sw_pending (ex_board x'))" "waiting_ok x' (sw_checks (ex_board x'))"
    using x unused unfolding replies_ok_def waiting_ok_def p k tables
    by (cases stream; simp add: hm.get_put)+
  moreover have "hm_get (sw_pending (ex_board x')) j = None \<or> hm_get (sw_checks (ex_board x')) j = None" for j
    using x unused by (auto simp: replies_ok_def p k hm.get_put)
  ultimately show ?thesis using x by (auto simp: replies_ok_def tables)
qed

lemma replies_step:
  assumes "exchange_handle x e = Some x'" and b: "board_ok (ex_board x)" and x: "replies_ok x"
  shows "replies_ok x'"
proof -
  have oks: "hm_ok (sw_pending (ex_board x))" "hm_ok (sw_checks (ex_board x))" using b by (simp_all add: board_ok_def)
  have same: "replies_ok y" if "sw_pending (ex_board y) = sw_pending (ex_board x)" "sw_checks (ex_board y) = sw_checks (ex_board x)"
    "ex_asked y = ex_asked x" "ex_replies y = ex_replies x" for y
    using x that by (simp add: replies_ok_def waiting_ok_def)
  show ?thesis
  proof (cases e)
    case (AskStream i c target whom)
    with assms(1) show ?thesis
      by (auto simp: stream_ask_def split: if_splits option.splits intro: same ask_ok [OF x, of i _ True c])
  next
    case (CallBack c i)
    with assms(1) show ?thesis
      by (auto simp: claim_def split: if_splits intro: same stream_reply_ok [OF x _ oks(1)])
  next
    case (ReportFailed c i why shut)
    with assms(1) show ?thesis
      by (auto simp: sw_fail_def claim_def split: if_splits intro: same stream_reply_ok [OF x _ oks(1)])
  next
    case (StopWaiting i)
    then have "x' = x\<lparr>ex_board := (ex_board x)\<lparr>sw_pending := hm_remove i (sw_pending (ex_board x)), sw_checks := sw_checks (ex_board x)\<rparr>\<rparr>"
      using assms(1) by (simp add: stream_end_def)
    then show ?thesis by (simp only:) (rule stop_ok [OF x removed_get [OF oks(1)]])
  next
    case (AskCheck i c target)
    with assms(1) show ?thesis
      by (auto simp: check_ask_def split: if_splits option.splits intro: same ask_ok [OF x, of i _ False c])
  next
    case (ReportChecked c i answer)
    with assms(1) show ?thesis
      by (auto simp: sw_checked_def split: if_splits intro: same check_reply_ok [OF x _ oks(2)])
  next
    case (StopChecking i)
    then have "x' = x\<lparr>ex_board := (ex_board x)\<lparr>sw_pending := sw_pending (ex_board x), sw_checks := hm_remove i (sw_checks (ex_board x))\<rparr>\<rparr>"
      using assms(1) by (simp add: check_end_def)
    then show ?thesis by (simp only:) (rule stop_ok [OF x _ removed_get [OF oks(2)]])
  qed (use assms(1) in \<open>auto intro!: same simp: board_ops Let_def split: if_splits option.splits\<close>)
qed

lemma count_remove1: "c \<in> set cs \<Longrightarrow> count_list (remove1 c cs) d = (if d = c then count_list cs d - 1 else count_list cs d)"
  by (induction cs) auto

lemma positive_snoc: "positive (count_list (cs @ [c]) d) = (if d = c then Some (Suc (count_list cs d)) else positive (count_list cs d))"
  by (induction cs) (auto simp: positive_def)

lemma count_pos: "c \<in> set cs \<Longrightarrow> count_list cs c > 0"
  by (induction cs) auto

lemma counts_step:
  assumes "exchange_handle x e = Some x'" and b: "board_ok (ex_board x)" and x: "counts_ok x"
  shows "counts_ok x'"
proof -
  have ok: "hm_ok (sw_carrying (ex_board x))" using b by (simp add: board_ok_def)
  have same: "counts_ok y" if "sw_carrying (ex_board y) = sw_carrying (ex_board x)" "ex_counted y = ex_counted x" for y
    using x that by (simp add: counts_ok_def)
  show ?thesis
  proof (cases e)
    case (Carry c)
    have "streams (ex_board x) c = count_list (ex_counted x) c" using x by (simp add: streams_def counts_ok_def positive_def)
    then have "hm_get (sw_carrying (count_stream c (ex_board x))) d = positive (count_list (ex_counted x @ [c]) d)" for d
      unfolding positive_snoc using x by (simp add: counts_ok_def count_stream_def hm.get_put)
    with Carry assms(1) show ?thesis unfolding counts_ok_def by (simp only: exchange_handle.simps option.inject exchange.simps) auto
  next
    case (CarryEnds c)
    with assms(1) have c: "c \<in> set (ex_counted x)" and d: "drop_carrying c (ex_board x) = Some (ex_board x')"
      and x': "ex_counted x' = remove1 c (ex_counted x)"
      by (auto split: if_splits)
    have n: "hm_get (sw_carrying (ex_board x)) c = Some (count_list (ex_counted x) c)"
      using x count_pos [OF c] by (simp add: counts_ok_def positive_def)
    have "hm_get (sw_carrying (ex_board x')) e = (if e = c then positive (count_list (ex_counted x) c - 1) else hm_get (sw_carrying (ex_board x)) e)" for e
      using d count_pos [OF c] unfolding drop_carrying_def n
      by (auto simp: hm.get_put hm.get_del [OF ok] positive_def split: if_splits dest!: sym [of _ "ex_board x'"])
    with x show ?thesis unfolding counts_ok_def x' count_remove1 [OF c] by simp
  qed (use assms(1) in \<open>auto intro!: same simp: board_ops Let_def split: if_splits option.splits sum.splits\<close>)
qed

interpretation exchanges: machine exchange_step exchange_ok
proof
  show "exchange_ok x'" if "exchange_step x x'" "exchange_ok x" for x x'
    using that(1)
  proof (rule exchange_stepE)
    fix e
    assume "exchange_handle x e = Some x'"
    with that(2) show ?thesis
      unfolding exchange_ok_def by (blast intro: board_step online_step replies_step counts_step)
  qed
qed

lemma exchange_start_ok: "exchange_ok exchange_start"
  by (simp add: exchange_ok_def exchange_start_def switchboard_default_def board_ok_def online_ok_def replies_ok_def waiting_ok_def counts_ok_def positive_def hm_ok_def)

section \<open>Properties\<close>



definition sample_exchange :: exchange where
  "sample_exchange = the (Option.bind (exchange_handle exchange_start (SocketUp 7)) (\<lambda>x.
     Option.bind (exchange_handle x (AskStream 20 7 ''db:22'' None)) (\<lambda>x. exchange_handle x (CallBack 7 20))))"

lemma sample_exchange: "exchange_step\<^sup>*\<^sup>* exchange_start sample_exchange"
proof -
  let ?a = "the (exchange_handle exchange_start (SocketUp 7))"
  let ?b = "the (exchange_handle ?a (AskStream 20 7 ''db:22'' None))"
  have "exchange_handle exchange_start (SocketUp 7) = Some ?a" "exchange_handle ?a (AskStream 20 7 ''db:22'' None) = Some ?b"
    "exchange_handle ?b (CallBack 7 20) = Some sample_exchange"
    by code_simp+
  then show ?thesis by (meson handled rtranclp.rtrancl_refl rtranclp.rtrancl_into_rtrancl)
qed



end
