(* ===== verification/Vault.thy ===== *)
theory Vault
  imports Strings "HOL-Library.Product_Lexorder"
begin

text \<open>
  Sealing of stored secrets: \<^verbatim>\<open>crates/vault/src\<close> (the vault, the key file and the master keys kept
  for the recovery key) and the server's tables of sealed fields and kept master keys,
  \<^verbatim>\<open>crates/server/src/secrets.rs\<close> and \<^verbatim>\<open>escrow.rs\<close>.

  The cipher, the curve, base64 and base32 come from other crates and are parameters; random
  keys and nonces are arguments.
\<close>

section \<open>The cipher\<close>

type_synonym bytes = "u8 list"

text \<open>\<open>XChaCha20Poly1305\<close>: key, nonce, associated data and message.\<close>

record aead =
  aead_encrypt :: "bytes \<Rightarrow> bytes \<Rightarrow> bytes \<Rightarrow> bytes \<Rightarrow> bytes"
  aead_decrypt :: "bytes \<Rightarrow> bytes \<Rightarrow> bytes \<Rightarrow> bytes \<Rightarrow> bytes option"

datatype vault_error =
  VaultOpen | UnknownScheme string | UnknownKey string int | KeyFile string | InvalidPublicKey

definition SCHEME :: string where "SCHEME = ''xchacha20poly1305-v1''"
definition KEY_LEN :: nat where "KEY_LEN = 32"
definition NONCE_LEN :: nat where "NONCE_LEN = 24"

definition encrypt :: "aead \<Rightarrow> bytes \<Rightarrow> bytes \<Rightarrow> bytes \<Rightarrow> bytes \<Rightarrow> bytes" where
  "encrypt ci nonce key aad plaintext = nonce @ aead_encrypt ci key nonce aad plaintext"

definition decrypt :: "aead \<Rightarrow> bytes \<Rightarrow> bytes \<Rightarrow> bytes \<Rightarrow> vault_error + bytes" where
  "decrypt ci key aad sealed =
     (if length sealed < NONCE_LEN then Inl VaultOpen
      else case aead_decrypt ci key (take NONCE_LEN sealed) aad (drop NONCE_LEN sealed) of
             Some plain \<Rightarrow> Inr plain
           | None \<Rightarrow> Inl VaultOpen)"

subsection \<open>Keys the server does not keep\<close>

definition detached_aad :: "bytes \<Rightarrow> bytes" where
  "detached_aad context = as_bytes ''remotehub|detached|'' @ context"

definition detached_seal :: "aead \<Rightarrow> bytes \<Rightarrow> bytes \<Rightarrow> bytes \<Rightarrow> bytes \<Rightarrow> bytes" where
  "detached_seal ci nonce key context plaintext = encrypt ci nonce key (detached_aad context) plaintext"

definition detached_open :: "aead \<Rightarrow> bytes \<Rightarrow> bytes \<Rightarrow> bytes \<Rightarrow> vault_error + bytes" where
  "detached_open ci key context sealed = decrypt ci key (detached_aad context) sealed"

section \<open>Master keys\<close>

text \<open>A \<open>FileKeyring\<close>; its keys by version, the highest current.\<close>

record keyring =
  kr_keys :: "(int, bytes) btree"
  kr_current :: int

definition FILE_KEYRING_ID :: string where "FILE_KEYRING_ID = ''file''"

definition current_key :: "keyring \<Rightarrow> string \<times> int" where
  "current_key kr = (FILE_KEYRING_ID, kr_current kr)"

definition master_key :: "keyring \<Rightarrow> string \<Rightarrow> int \<Rightarrow> vault_error + bytes" where
  "master_key kr i version =
     (case bt_get (kr_keys kr) version of
        Some key \<Rightarrow> if i = FILE_KEYRING_ID then Inr key else Inl (UnknownKey i version)
      | None \<Rightarrow> Inl (UnknownKey i version))"

definition all_keys :: "keyring \<Rightarrow> (string \<times> int) list" where
  "all_keys kr = map (\<lambda>(version, _). (FILE_KEYRING_ID, version)) (kr_keys kr)"

text \<open>\<open>base64\<close>'s standard alphabet with padding.\<close>

record base64 =
  b64_encode :: "bytes \<Rightarrow> string"
  b64_decode :: "string \<Rightarrow> bytes option"

definition invalid_line :: "nat \<Rightarrow> vault_error" where
  "invalid_line number = KeyFile (''line '' @ show_nat (number + 1) @ '' is not <version>:<base64 key>'')"

definition parse_line :: "base64 \<Rightarrow> nat \<Rightarrow> string \<Rightarrow> (int, bytes) btree \<Rightarrow> vault_error + (int, bytes) btree" where
  "parse_line b64 number raw keys =
     (let line = trim raw
      in if line = [] \<or> starts_with line ''#'' then Inr keys
         else case split_once CHR '':'' line of
           None \<Rightarrow> Inl (invalid_line number)
         | Some (version, encoded) \<Rightarrow>
         (case parse_signed 31 (trim version) of
           None \<Rightarrow> Inl (invalid_line number)
         | Some version \<Rightarrow>
           if version < 1 then Inl (invalid_line number)
           else case b64_decode b64 (trim encoded) of
             None \<Rightarrow> Inl (invalid_line number)
           | Some key \<Rightarrow>
               if length key \<noteq> KEY_LEN then
                 Inl (KeyFile (''line '' @ show_nat (number + 1) @ '': a key has '' @ show_nat KEY_LEN @ '' bytes''))
               else if bt_get keys version \<noteq> None then
                 Inl (KeyFile (''version '' @ show_int version @ '' appears twice''))
               else Inr (bt_insert version key keys)))"

fun parse_lines :: "base64 \<Rightarrow> nat \<Rightarrow> string list \<Rightarrow> (int, bytes) btree \<Rightarrow> vault_error + (int, bytes) btree" where
  "parse_lines b64 number [] keys = Inr keys"
| "parse_lines b64 number (line # ls) keys =
     (case parse_line b64 number line keys of
        Inl e \<Rightarrow> Inl e
      | Inr keys \<Rightarrow> parse_lines b64 (number + 1) ls keys)"

definition keyring_parse :: "base64 \<Rightarrow> string \<Rightarrow> vault_error + keyring" where
  "keyring_parse b64 content =
     (case parse_lines b64 0 (lines content) [] of
        Inl e \<Rightarrow> Inl e
      | Inr keys \<Rightarrow>
          if keys = [] then Inl (KeyFile ''no key found'')
          else Inr \<lparr>kr_keys = keys, kr_current = fst (last keys)\<rparr>)"

definition generate_key_line :: "base64 \<Rightarrow> int \<Rightarrow> bytes \<Rightarrow> string" where
  "generate_key_line b64 version key = show_int version @ '':'' @ b64_encode b64 key"

section \<open>The vault\<close>

record seal_context =
  cx_owner :: uuid
  cx_version :: int
  cx_field :: string

record sealed =
  se_scheme :: string
  se_kek_id :: string
  se_kek_version :: int
  se_wrapped_key :: bytes
  se_ciphertext :: bytes

text \<open>What the system's randomness gives for one seal: a data key and two nonces.\<close>

record seal_randomness =
  sr_data_key :: bytes
  sr_key_nonce :: bytes
  sr_value_nonce :: bytes

definition associated_data :: "seal_context \<Rightarrow> string \<Rightarrow> int \<Rightarrow> bytes" where
  "associated_data cx kek_id kek_version =
     as_bytes (''remotehub|'' @ SCHEME @ ''|'' @ uuid_show (cx_owner cx) @ ''|'' @ show_int (cx_version cx) @ ''|''
       @ cx_field cx @ ''|'' @ kek_id @ ''|'' @ show_int kek_version)"

definition seal :: "aead \<Rightarrow> keyring \<Rightarrow> seal_randomness \<Rightarrow> seal_context \<Rightarrow> bytes \<Rightarrow> vault_error + sealed" where
  "seal ci kr rnd cx plaintext =
     (let (kek_id, kek_version) = current_key kr
      in case master_key kr kek_id kek_version of
           Inl e \<Rightarrow> Inl e
         | Inr master \<Rightarrow>
             (let aad = associated_data cx kek_id kek_version
              in Inr \<lparr>se_scheme = SCHEME, se_kek_id = kek_id, se_kek_version = kek_version,
                   se_wrapped_key = encrypt ci (sr_key_nonce rnd) master aad (sr_data_key rnd),
                   se_ciphertext = encrypt ci (sr_value_nonce rnd) (sr_data_key rnd) aad plaintext\<rparr>))"

definition open_sealed :: "aead \<Rightarrow> keyring \<Rightarrow> seal_context \<Rightarrow> sealed \<Rightarrow> vault_error + bytes" where
  "open_sealed ci kr cx se =
     (if se_scheme se \<noteq> SCHEME then Inl (UnknownScheme (se_scheme se))
      else case master_key kr (se_kek_id se) (se_kek_version se) of
        Inl e \<Rightarrow> Inl e
      | Inr master \<Rightarrow>
          (let aad = associated_data cx (se_kek_id se) (se_kek_version se)
           in case decrypt ci master aad (se_wrapped_key se) of
                Inl e \<Rightarrow> Inl e
              | Inr data_key \<Rightarrow>
                  if length data_key \<noteq> KEY_LEN then Inl VaultOpen
                  else decrypt ci data_key aad (se_ciphertext se)))"

definition rewrap :: "aead \<Rightarrow> keyring \<Rightarrow> seal_randomness \<Rightarrow> seal_context \<Rightarrow> sealed \<Rightarrow> vault_error + sealed option" where
  "rewrap ci kr rnd cx se =
     (let (kek_id, kek_version) = current_key kr
      in if se_kek_id se = kek_id \<and> se_kek_version se = kek_version then Inr None
         else case open_sealed ci kr cx se of
           Inl e \<Rightarrow> Inl e
         | Inr plaintext \<Rightarrow>
             (case seal ci kr rnd cx plaintext of Inl e \<Rightarrow> Inl e | Inr se' \<Rightarrow> Inr (Some se')))"

section \<open>Sealed fields in the database\<close>

type_synonym secret_fields = "((uuid \<times> int \<times> string), sealed) hashmap"

datatype secret_error = SecretDatabase | SecretVault vault_error

text \<open>The primary key is the owner, version and field; versions are positive.\<close>

definition store ::
  "aead \<Rightarrow> keyring \<Rightarrow> seal_randomness \<Rightarrow> secret_fields \<Rightarrow> uuid \<Rightarrow> int \<Rightarrow> string \<Rightarrow> bytes \<Rightarrow> secret_error + secret_fields" where
  "store ci kr rnd db owner version fld plaintext =
     (case seal ci kr rnd \<lparr>cx_owner = owner, cx_version = version, cx_field = fld\<rparr> plaintext of
        Inl e \<Rightarrow> Inl (SecretVault e)
      | Inr se \<Rightarrow>
          if version \<le> 0 \<or> hm_get db (owner, version, fld) \<noteq> None then Inl SecretDatabase
          else Inr (hm_insert (owner, version, fld) se db))"

definition load_secret ::
  "aead \<Rightarrow> keyring \<Rightarrow> secret_fields \<Rightarrow> uuid \<Rightarrow> int \<Rightarrow> string \<Rightarrow> secret_error + bytes option" where
  "load_secret ci kr db owner version fld =
     (case hm_get db (owner, version, fld) of
        None \<Rightarrow> Inr None
      | Some se \<Rightarrow>
          (case open_sealed ci kr \<lparr>cx_owner = owner, cx_version = version, cx_field = fld\<rparr> se of
             Inl e \<Rightarrow> Inl (SecretVault e)
           | Inr plain \<Rightarrow> Inr (Some plain)))"

section \<open>Master keys for the recovery key\<close>

text \<open>
  P-256: whether 32 bytes are a private key, its public key as an uncompressed point, whether
  bytes are a point, the sealing key two parties agree on (the shared secret through HKDF).
\<close>

record curve =
  scalar_ok :: "bytes \<Rightarrow> bool"
  public_point :: "bytes \<Rightarrow> bytes"
  point_ok :: "bytes \<Rightarrow> bool"
  agreed_key :: "bytes \<Rightarrow> bytes \<Rightarrow> bytes"

definition POINT_LEN :: nat where "POINT_LEN = 65"
definition SCALAR_LEN :: nat where "SCALAR_LEN = 32"

record escrowed =
  esc_ephemeral :: bytes
  esc_sealed :: bytes

definition escrow_aad :: "string \<Rightarrow> int \<Rightarrow> bytes" where
  "escrow_aad kek_id version = as_bytes (''remotehub|escrow|'' @ kek_id @ ''|'' @ show_int version)"

definition point :: "curve \<Rightarrow> bytes \<Rightarrow> vault_error + bytes" where
  "point cv bs = (if length bs \<noteq> POINT_LEN \<or> \<not> point_ok cv bs then Inl InvalidPublicKey else Inr bs)"

definition is_public_key :: "curve \<Rightarrow> bytes \<Rightarrow> bool" where
  "is_public_key cv bs \<longleftrightarrow> (\<exists>p. point cv bs = Inr p)"

definition public_key_of :: "curve \<Rightarrow> bytes \<Rightarrow> vault_error + bytes" where
  "public_key_of cv private = (if scalar_ok cv private then Inr (public_point cv private) else Inl VaultOpen)"

text \<open>
  The loop draws until the bytes are a private key: \<open>draws\<close> are the bytes the system's
  randomness gives, and none of them being one (the loop goes on) is no result.
\<close>

definition seal_for ::
  "aead \<Rightarrow> curve \<Rightarrow> bytes list \<Rightarrow> bytes \<Rightarrow> bytes \<Rightarrow> string \<Rightarrow> int \<Rightarrow> bytes \<Rightarrow> (vault_error + escrowed) option" where
  "seal_for ci cv draws nonce public_key kek_id version master =
     (case point cv public_key of
        Inl e \<Rightarrow> Some (Inl e)
      | Inr recipient \<Rightarrow>
          map_option (\<lambda>ephemeral. Inr \<lparr>esc_ephemeral = public_point cv ephemeral,
              esc_sealed = encrypt ci nonce (agreed_key cv ephemeral recipient) (escrow_aad kek_id version) master\<rparr>)
            (find (scalar_ok cv) draws))"

definition open_with :: "aead \<Rightarrow> curve \<Rightarrow> bytes \<Rightarrow> escrowed \<Rightarrow> string \<Rightarrow> int \<Rightarrow> vault_error + bytes" where
  "open_with ci cv private es kek_id version =
     (if \<not> scalar_ok cv private then Inl VaultOpen
      else case point cv (esc_ephemeral es) of
        Inl e \<Rightarrow> Inl e
      | Inr p \<Rightarrow>
          (case decrypt ci (agreed_key cv private p) (escrow_aad kek_id version) (esc_sealed es) of
             Inl e \<Rightarrow> Inl e
           | Inr plain \<Rightarrow> if length plain = KEY_LEN then Inr plain else Inl VaultOpen))"

definition parse_printed :: "(string \<Rightarrow> bytes option) \<Rightarrow> string \<Rightarrow> bytes option" where
  "parse_printed b32_decode text =
     (let clean = to_ascii_uppercase (from_chars (filter (\<lambda>c. \<not> is_whitespace c \<and> c \<noteq> 45) (chars text)))
      in case b32_decode clean of
           None \<Rightarrow> None
         | Some bs \<Rightarrow> if length bs = SCALAR_LEN then Some bs else None)"

subsection \<open>In the database\<close>

record recovery_key =
  rk_id :: uuid
  rk_public :: bytes
  rk_created :: instant

record escrow_db =
  ed_keys :: "recovery_key list"
  ed_escrow :: "(uuid \<times> string \<times> int, escrowed) btree"

text \<open>\<open>ORDER BY created_at DESC, id LIMIT 1\<close>.\<close>

definition newest_key :: "recovery_key list \<Rightarrow> recovery_key option" where
  "newest_key ks = (case sort_key (\<lambda>k. (- rk_created k, rk_id k)) ks of [] \<Rightarrow> None | k # _ \<Rightarrow> Some k)"

datatype escrow_error = EscrowVault vault_error | NoPrivateKey | NoRecoveryKey | NoMasterKey | OtherProvider string

text \<open>
  One round of the loop in \<open>keep\<close>, with the randomness of each master key: the bytes drawn and
  the nonce. A key that is kept already stays as it is.
\<close>

fun keep_loop ::
  "aead \<Rightarrow> curve \<Rightarrow> (string \<times> int \<Rightarrow> bytes list \<times> bytes) \<Rightarrow> keyring \<Rightarrow> recovery_key \<Rightarrow> (string \<times> int) list
    \<Rightarrow> escrow_db \<Rightarrow> nat \<Rightarrow> (escrow_db \<times> (escrow_error + nat)) option" where
  "keep_loop ci cv rnd kr rk [] db n = Some (db, Inr n)"
| "keep_loop ci cv rnd kr rk ((kek_id, version) # ks) db n =
     (case master_key kr kek_id version of
        Inl e \<Rightarrow> Some (db, Inl (EscrowVault e))
      | Inr master \<Rightarrow>
     (case seal_for ci cv (fst (rnd (kek_id, version))) (snd (rnd (kek_id, version))) (rk_public rk) kek_id version master of
        None \<Rightarrow> None
      | Some (Inl e) \<Rightarrow> Some (db, Inl (EscrowVault e))
      | Some (Inr es) \<Rightarrow>
          if bt_get (ed_escrow db) (rk_id rk, kek_id, version) \<noteq> None then keep_loop ci cv rnd kr rk ks db n
          else keep_loop ci cv rnd kr rk ks (db\<lparr>ed_escrow := bt_insert (rk_id rk, kek_id, version) es (ed_escrow db)\<rparr>) (n + 1)))"

definition keep ::
  "aead \<Rightarrow> curve \<Rightarrow> (string \<times> int \<Rightarrow> bytes list \<times> bytes) \<Rightarrow> keyring \<Rightarrow> escrow_db \<Rightarrow> (escrow_db \<times> (escrow_error + nat)) option" where
  "keep ci cv rnd kr db =
     (case newest_key (ed_keys db) of
        None \<Rightarrow> Some (db, Inr 0)
      | Some rk \<Rightarrow> keep_loop ci cv rnd kr rk (all_keys kr) db 0)"

fun recover_loop ::
  "aead \<Rightarrow> curve \<Rightarrow> base64 \<Rightarrow> bytes \<Rightarrow> ((string \<times> int) \<times> escrowed) list \<Rightarrow> string \<Rightarrow> escrow_error + string" where
  "recover_loop ci cv b64 private [] file = Inr file"
| "recover_loop ci cv b64 private (((kek_id, version), es) # rows) file =
     (if kek_id \<noteq> FILE_KEYRING_ID then Inl (OtherProvider kek_id)
      else case open_with ci cv private es kek_id version of
        Inl e \<Rightarrow> Inl (EscrowVault e)
      | Inr master \<Rightarrow>
          recover_loop ci cv b64 private rows (file @ show_int version @ '':'' @ b64_encode b64 master @ [CHR 0x0A]))"

text \<open>The rows of one recovery key, by key id and version as the table is ordered.\<close>

definition escrow_rows :: "escrow_db \<Rightarrow> uuid \<Rightarrow> ((string \<times> int) \<times> escrowed) list" where
  "escrow_rows db i = map (\<lambda>((_, k), es). (k, es)) (filter (\<lambda>((j, _), _). j = i) (ed_escrow db))"

definition recover :: "aead \<Rightarrow> curve \<Rightarrow> base64 \<Rightarrow> escrow_db \<Rightarrow> bytes \<Rightarrow> escrow_error + string" where
  "recover ci cv b64 db private =
     (case public_key_of cv private of
        Inl _ \<Rightarrow> Inl NoPrivateKey
      | Inr public \<Rightarrow>
     (case find (\<lambda>k. rk_public k = public) (ed_keys db) of
        None \<Rightarrow> Inl NoRecoveryKey
      | Some rk \<Rightarrow>
          (let rows = escrow_rows db (rk_id rk)
           in if rows = [] then Inl NoMasterKey
              else recover_loop ci cv b64 private rows (''# remotehub master keys'' @ [CHR 0x0A]))))"

section \<open>Laws of the parameters\<close>

text \<open>
  What the ciphers promise: decrypting gives back what was encrypted with the same key, nonce
  and associated data; with another key or other associated data it fails.
\<close>

definition aead_ok :: "aead \<Rightarrow> bool" where
  "aead_ok ci \<longleftrightarrow> (\<forall>k n a m. length k = KEY_LEN \<longrightarrow> length n = NONCE_LEN \<longrightarrow>
     aead_decrypt ci k n a (aead_encrypt ci k n a m) = Some m)"

definition aead_binds :: "aead \<Rightarrow> bool" where
  "aead_binds ci \<longleftrightarrow> (\<forall>k k' n a a' m. k \<noteq> k' \<or> a \<noteq> a' \<longrightarrow> aead_decrypt ci k' n a' (aead_encrypt ci k n a m) = None)"

definition base64_ok :: "base64 \<Rightarrow> bool" where
  "base64_ok b64 \<longleftrightarrow> (\<forall>bs. b64_decode b64 (b64_encode b64 bs) = Some bs \<and> visible_ascii (b64_encode b64 bs))"

definition curve_ok :: "curve \<Rightarrow> bool" where
  "curve_ok cv \<longleftrightarrow>
     (\<forall>a. scalar_ok cv a \<longrightarrow> length (public_point cv a) = POINT_LEN \<and> point_ok cv (public_point cv a))
     \<and> (\<forall>a b. scalar_ok cv a \<longrightarrow> scalar_ok cv b \<longrightarrow>
          agreed_key cv a (public_point cv b) = agreed_key cv b (public_point cv a)
          \<and> length (agreed_key cv a (public_point cv b)) = KEY_LEN)"

definition randomness_ok :: "seal_randomness \<Rightarrow> bool" where
  "randomness_ok rnd \<longleftrightarrow> length (sr_data_key rnd) = KEY_LEN \<and> length (sr_key_nonce rnd) = NONCE_LEN
     \<and> length (sr_value_nonce rnd) = NONCE_LEN"

lemma decrypt_encrypt:
  "aead_ok ci \<Longrightarrow> length key = KEY_LEN \<Longrightarrow> length nonce = NONCE_LEN \<Longrightarrow>
    decrypt ci key aad (encrypt ci nonce key aad plain) = Inr plain"
  by (simp add: decrypt_def encrypt_def aead_ok_def)

lemma decrypt_other_aad:
  "aead_binds ci \<Longrightarrow> length nonce = NONCE_LEN \<Longrightarrow> key \<noteq> key' \<or> aad \<noteq> aad' \<Longrightarrow>
    decrypt ci key' aad' (encrypt ci nonce key aad plain) = Inl VaultOpen"
  by (simp add: decrypt_def encrypt_def aead_binds_def)

section \<open>Providers of master keys\<close>

text \<open>What the vault relies on of a \<open>KeyProvider\<close>.\<close>

locale key_provider =
  fixes current :: "'p \<Rightarrow> string \<times> int"
    and master :: "'p \<Rightarrow> string \<Rightarrow> int \<Rightarrow> vault_error + bytes"
    and every :: "'p \<Rightarrow> (string \<times> int) list"
    and ok :: "'p \<Rightarrow> bool"
  assumes every_available: "ok p \<Longrightarrow> (i, v) \<in> set (every p) \<longleftrightarrow> (\<exists>k. master p i v = Inr k)"
    and current_every: "ok p \<Longrightarrow> current p \<in> set (every p)"
    and key_length: "ok p \<Longrightarrow> master p i v = Inr k \<Longrightarrow> length k = KEY_LEN"
    and named: "ok p \<Longrightarrow> (i, v) \<in> set (every p) \<Longrightarrow> CHR ''|'' \<notin> set i"
begin

lemma current_available:
  assumes "ok p"
  obtains k where "master p (fst (current p)) (snd (current p)) = Inr k" "length k = KEY_LEN"
  using every_available [OF assms, of "fst (current p)" "snd (current p)"] current_every [OF assms] key_length [OF assms]
  by auto

lemma available_named: "ok p \<Longrightarrow> master p i v = Inr k \<Longrightarrow> CHR ''|'' \<notin> set i"
  using every_available named by blast

end

text \<open>A version fits an \<open>i32\<close> and starts at one; a key has its length.\<close>

fun key_entry :: "int \<times> bytes \<Rightarrow> bool" where
  "key_entry (v, k) \<longleftrightarrow> 1 \<le> v \<and> v < 2 ^ 31 \<and> length k = KEY_LEN"

definition keyring_ok :: "keyring \<Rightarrow> bool" where
  "keyring_ok kr \<longleftrightarrow> bt_ok (kr_keys kr) \<and> kr_keys kr \<noteq> [] \<and> kr_current kr = fst (last (kr_keys kr))
     \<and> list_all key_entry (kr_keys kr)"

lemma master_key_Inr: "master_key kr i v = Inr k \<longleftrightarrow> i = FILE_KEYRING_ID \<and> bt_get (kr_keys kr) v = Some k"
  by (auto simp: master_key_def split: option.splits)

interpretation file_keys: key_provider current_key master_key all_keys keyring_ok
proof
  fix p i v k
  assume ok: "keyring_ok p"
  then have entries: "(v, k) \<in> set (kr_keys p) \<longleftrightarrow> bt_get (kr_keys p) v = Some k" for v k
    unfolding keyring_ok_def by (intro bt.entries_get) blast
  then show "(i, v) \<in> set (all_keys p) \<longleftrightarrow> (\<exists>k. master_key p i v = Inr k)"
    by (auto simp: all_keys_def master_key_Inr image_iff Bex_def)
  show "current_key p \<in> set (all_keys p)"
    using ok by (auto simp: current_key_def all_keys_def keyring_ok_def image_iff split_def intro!: bexI [OF _ last_in_set])
  show "master_key p i v = Inr k \<Longrightarrow> length k = KEY_LEN"
    using ok entries by (force simp: master_key_Inr keyring_ok_def list_all_iff)
  show "(i, v) \<in> set (all_keys p) \<Longrightarrow> CHR ''|'' \<notin> set i"
    by (auto simp: all_keys_def FILE_KEYRING_ID_def)
qed

section \<open>Sealing and opening\<close>

lemma open_sealed_wrapped:
  assumes "open_sealed ci kr cx se = Inr plain"
  obtains master data_key where "master_key kr (se_kek_id se) (se_kek_version se) = Inr master"
    "decrypt ci master (associated_data cx (se_kek_id se) (se_kek_version se)) (se_wrapped_key se) = Inr data_key"
  using assms by (auto simp: open_sealed_def Let_def split: if_splits sum.splits)

lemma seal_Inr:
  assumes "keyring_ok kr"
  obtains master where "master_key kr FILE_KEYRING_ID (kr_current kr) = Inr master" "length master = KEY_LEN"
    "seal ci kr rnd cx plain = Inr \<lparr>se_scheme = SCHEME, se_kek_id = FILE_KEYRING_ID, se_kek_version = kr_current kr,
       se_wrapped_key = encrypt ci (sr_key_nonce rnd) master (associated_data cx FILE_KEYRING_ID (kr_current kr)) (sr_data_key rnd),
       se_ciphertext = encrypt ci (sr_value_nonce rnd) (sr_data_key rnd) (associated_data cx FILE_KEYRING_ID (kr_current kr)) plain\<rparr>"
  by (rule file_keys.current_available [OF assms]) (simp add: current_key_def seal_def Let_def that)

lemma seal_opens:
  assumes "aead_ok ci" and "keyring_ok kr" and "randomness_ok rnd"
    and "\<And>k. bt_get (kr_keys kr) (kr_current kr) = Some k \<Longrightarrow> bt_get (kr_keys kr') (kr_current kr) = Some k"
  obtains se where "seal ci kr rnd cx plain = Inr se" "se_kek_id se = FILE_KEYRING_ID" "se_kek_version se = kr_current kr"
    "open_sealed ci kr' cx se = Inr plain"
proof -
  obtain master where m: "master_key kr FILE_KEYRING_ID (kr_current kr) = Inr master" "length master = KEY_LEN"
    and s: "seal ci kr rnd cx plain = Inr \<lparr>se_scheme = SCHEME, se_kek_id = FILE_KEYRING_ID, se_kek_version = kr_current kr,
       se_wrapped_key = encrypt ci (sr_key_nonce rnd) master (associated_data cx FILE_KEYRING_ID (kr_current kr)) (sr_data_key rnd),
       se_ciphertext = encrypt ci (sr_value_nonce rnd) (sr_data_key rnd) (associated_data cx FILE_KEYRING_ID (kr_current kr)) plain\<rparr>"
    using seal_Inr [OF assms(2)] by blast
  have m': "master_key kr' FILE_KEYRING_ID (kr_current kr) = Inr master"
    using m(1) assms(4) by (simp add: master_key_Inr)
  from s show ?thesis
    by (rule that) (use m' m(2) assms(1,3) in \<open>simp_all add: open_sealed_def decrypt_encrypt randomness_ok_def\<close>)
qed

text \<open>
  C29: A sealed secret opens. What is sealed with a key file's current key opens in the same
  place with every later key file that still has that key; and after a newer key has become
  current, rewrapping gives a value sealed with it that opens to the same secret, or nothing to
  do if the key has not changed.
\<close>

theorem seal_survives_rotation:
  assumes "aead_ok ci" and "keyring_ok kr" and "randomness_ok rnd" and "keyring_ok kr'" and "randomness_ok rnd'"
    and "map_of (kr_keys kr) \<subseteq>\<^sub>m map_of (kr_keys kr')"
  shows "\<exists>se. seal ci kr rnd cx plain = Inr se \<and> open_sealed ci kr' cx se = Inr plain
    \<and> (if kr_current kr' = kr_current kr then rewrap ci kr' rnd' cx se = Inr None
       else \<exists>se'. rewrap ci kr' rnd' cx se = Inr (Some se') \<and> se_kek_version se' = kr_current kr'
              \<and> open_sealed ci kr' cx se' = Inr plain)"
proof -
  have sub: "bt_get (kr_keys kr) v = Some k \<Longrightarrow> bt_get (kr_keys kr') v = Some k" for v k
    using assms(6) by (auto simp: map_le_def dom_def)
  obtain se where se: "seal ci kr rnd cx plain = Inr se" "se_kek_id se = FILE_KEYRING_ID"
    "se_kek_version se = kr_current kr" "open_sealed ci kr' cx se = Inr plain"
    using seal_opens [OF assms(1-3) sub] by blast
  obtain se' where se': "seal ci kr' rnd' cx plain = Inr se'" "se_kek_version se' = kr_current kr'"
    "open_sealed ci kr' cx se' = Inr plain"
    using seal_opens [OF assms(1,4,5)] by metis
  show ?thesis
    using se se' by (auto simp: rewrap_def current_key_def)
qed

subsection \<open>Bound to one place\<close>

lemma bar_not_in_show_int [simp]: "CHR ''|'' \<notin> set (show_int i)"
  using show_int_chars [of "CHR ''|''" i] by (auto simp: is_ascii_digit_def ascii_between_def)

lemma split_bar:
  "(c :: char) \<notin> set a \<Longrightarrow> c \<notin> set b \<Longrightarrow> a @ c # s = b @ c # t \<Longrightarrow> a = b \<and> s = t"
proof -
  assume n: "c \<notin> set a" "c \<notin> set b" and "a @ c # s = b @ c # t"
  then have "split_once c (a @ c # s) = split_once c (b @ c # t)" by simp
  then show ?thesis unfolding split_once_append [OF n(1)] split_once_append [OF n(2)] by simp
qed

lemma rsplit_bar:
  "(c :: char) \<notin> set b \<Longrightarrow> c \<notin> set d \<Longrightarrow> a @ c # b = e @ c # d \<Longrightarrow> a = e \<and> b = d"
proof -
  assume n: "c \<notin> set b" "c \<notin> set d" and "a @ c # b = e @ c # d"
  then have "rsplit_once c (a @ c # b) = rsplit_once c (e @ c # d)" by simp
  then show ?thesis unfolding rsplit_once_append [OF n(1)] rsplit_once_append [OF n(2)] by simp
qed

lemma associated_data_inject:
  assumes "CHR ''|'' \<notin> set i" "CHR ''|'' \<notin> set i'" "cx_owner cx < 16 ^ 32" "cx_owner cx' < 16 ^ 32"
  shows "associated_data cx i v = associated_data cx' i' v' \<longleftrightarrow> cx = cx' \<and> i = i' \<and> v = v'"
proof
  assume "associated_data cx i v = associated_data cx' i' v'"
  then have "uuid_show (cx_owner cx) @ ''|'' @ show_int (cx_version cx) @ ''|'' @ cx_field cx @ ''|'' @ i @ ''|'' @ show_int v
    = uuid_show (cx_owner cx') @ ''|'' @ show_int (cx_version cx') @ ''|'' @ cx_field cx' @ ''|'' @ i' @ ''|'' @ show_int v'"
    by (simp add: associated_data_def)
  then have o: "uuid_show (cx_owner cx) = uuid_show (cx_owner cx')"
    and r: "show_int (cx_version cx) @ CHR ''|'' # cx_field cx @ ''|'' @ i @ ''|'' @ show_int v
      = show_int (cx_version cx') @ CHR ''|'' # cx_field cx' @ ''|'' @ i' @ ''|'' @ show_int v'"
    by (simp_all add: append_eq_append_conv)
  from r have ver: "cx_version cx = cx_version cx'"
    and r: "cx_field cx @ ''|'' @ i @ ''|'' @ show_int v = cx_field cx' @ ''|'' @ i' @ ''|'' @ show_int v'"
    using split_bar [OF _ _ r] by simp_all
  from r have "(cx_field cx @ CHR ''|'' # i) @ CHR ''|'' # show_int v = (cx_field cx' @ CHR ''|'' # i') @ CHR ''|'' # show_int v'"
    by simp
  from rsplit_bar [OF _ _ this] have fi: "cx_field cx @ CHR ''|'' # i = cx_field cx' @ CHR ''|'' # i'" and v: "v = v'"
    by simp_all
  have "cx_field cx = cx_field cx'" "i = i'" using rsplit_bar [OF assms(1,2) fi] by simp_all
  with o ver v show "cx = cx' \<and> i = i' \<and> v = v'"
    using assms(3,4) by (cases cx; cases cx') (simp add: uuid_show_inject)
qed simp

text \<open>
  C30: A sealed value is bound to its place: moved to another owner, version or field, or
  relabelled with another master key, or with a key file that has another key there, it does
  not open.
\<close>

theorem sealed_bound_to_place:
  assumes "aead_binds ci" and "randomness_ok rnd" and "keyring_ok kr" and "keyring_ok kr'"
    and "seal ci kr rnd cx plain = Inr se" and "se_wrapped_key se' = se_wrapped_key se"
    and "cx_owner cx < 16 ^ 32" and "cx_owner cx' < 16 ^ 32"
    and "cx' \<noteq> cx \<or> se_kek_version se' \<noteq> se_kek_version se
      \<or> bt_get (kr_keys kr') (se_kek_version se') \<noteq> bt_get (kr_keys kr) (se_kek_version se)"
  shows "open_sealed ci kr' cx' se' \<noteq> Inr opened"
proof
  assume "open_sealed ci kr' cx' se' = Inr opened"
  then obtain master data_key where m: "master_key kr' (se_kek_id se') (se_kek_version se') = Inr master"
    "decrypt ci master (associated_data cx' (se_kek_id se') (se_kek_version se')) (se_wrapped_key se') = Inr data_key"
    by (rule open_sealed_wrapped)
  obtain master0 where k: "master_key kr FILE_KEYRING_ID (kr_current kr) = Inr master0"
    "se_kek_version se = kr_current kr"
    "se_wrapped_key se = encrypt ci (sr_key_nonce rnd) master0 (associated_data cx FILE_KEYRING_ID (kr_current kr)) (sr_data_key rnd)"
    using seal_Inr [OF assms(3)] assms(5) by (metis sealed.select_convs(3,4) sum.inject(2))
  have "se_kek_id se' = FILE_KEYRING_ID" using m(1) by (simp add: master_key_Inr)
  moreover have "master0 \<noteq> master
      \<or> associated_data cx FILE_KEYRING_ID (kr_current kr) \<noteq> associated_data cx' FILE_KEYRING_ID (se_kek_version se')"
    using assms(7-9) k(1,2) m(1) by (subst associated_data_inject) (auto simp: FILE_KEYRING_ID_def master_key_Inr)
  ultimately show False
    using m(2) k(3) assms(1,2,6) by (auto simp: decrypt_other_aad randomness_ok_def)
qed

section \<open>The key file\<close>

lemma bt_insert_last:
  "\<forall>(w, _) \<in> set m. w < v \<Longrightarrow> bt_insert v k m = m @ [(v, k)]"
  by (induction v k m rule: bt_insert.induct) auto

lemma keyring_parse_line_ok:
  assumes "parse_line b64 n line m = Inr m'" "bt_ok m" "list_all key_entry m"
  shows "bt_ok m' \<and> list_all key_entry m'"
proof -
  have "parse_signed 31 s = Some v \<Longrightarrow> v < 2 ^ 31" for s v
    by (auto simp: parse_signed_def split: list.splits if_splits dest!: parse_unsigned_le)
  then have "m' = m \<or> (\<exists>v k. m' = bt_insert v k m \<and> key_entry (v, k))"
    using assms(1) by (auto simp: parse_line_def Let_def split: if_splits option.splits) (metis not_less)
  then show ?thesis
    using assms(2,3) bt.entries_put [OF assms(2)] by (auto simp: list_all_iff simp del: key_entry.simps intro: bt.ok_put)
qed

lemma parse_lines_ok:
  "parse_lines b64 n ls m = Inr m' \<Longrightarrow> bt_ok m \<Longrightarrow> list_all key_entry m
    \<Longrightarrow> bt_ok m' \<and> list_all key_entry m'"
proof (induction b64 n ls m rule: parse_lines.induct)
  case (2 b64 n line ls m)
  then show ?case using keyring_parse_line_ok [of b64 n line m] by (auto split: sum.splits)
qed simp

lemma keyring_parse_ok: "keyring_parse b64 content = Inr kr \<Longrightarrow> keyring_ok kr"
  using parse_lines_ok [of b64 0 "lines content" "[]"]
  by (auto simp: keyring_parse_def keyring_ok_def split: sum.splits if_splits)

lemma show_int_visible: "visible_ascii (show_int i)"
  by (simp add: show_int_def)

lemma parse_key_line:
  assumes "base64_ok b64" and "1 \<le> v" "v < 2 ^ 31" "length k = KEY_LEN" and "\<forall>(w, _) \<in> set m. w < v"
  shows "parse_line b64 n (generate_key_line b64 v k) m = Inr (m @ [(v, k)])"
proof -
  let ?l = "generate_key_line b64 v k"
  have vis: "visible_ascii ?l" "visible_ascii (b64_encode b64 k)" "b64_decode b64 (b64_encode b64 k) = Some k"
    using assms(1) by (auto simp: base64_ok_def generate_key_line_def show_int_visible)
  obtain c r where c: "show_int v = c # r" "is_ascii_digit c"
    using show_int_chars [of _ v] assms(2) show_nat_digits [of _ "nat v"] show_nat_nonempty [of "nat v"]
    by (cases "show_int v") (auto simp: show_int_def simp del: show_nat_nonempty)
  then have "\<not> starts_with ?l ''#''" by (auto simp: generate_key_line_def starts_with_def is_ascii_digit_def ascii_between_def)
  moreover have "?l \<noteq> []" by (simp add: generate_key_line_def)
  moreover have "CHR '':'' \<notin> set (show_int v)"
    using show_int_chars [of "CHR '':''" v] by (auto simp: is_ascii_digit_def ascii_between_def)
  then have "split_once CHR '':'' ?l = Some (show_int v, b64_encode b64 k)"
    using split_once_append [of "CHR '':''" "show_int v" "b64_encode b64 k"] by (simp add: generate_key_line_def)
  moreover have "parse_signed 31 (show_int v) = Some v" using assms(2,3) by (intro parse_signed_show) simp_all
  moreover have "bt_get m v = None" using assms(5) by (auto simp: map_of_eq_None_iff)
  ultimately show ?thesis
    using vis assms(2,4) bt_insert_last [OF assms(5), of k]
    by (simp add: parse_line_def trim_visible_ascii show_int_visible)
qed

lemma parse_key_lines:
  assumes "base64_ok b64" and "list_all key_entry ks" and "bt_ok (m @ ks)"
  shows "parse_lines b64 n (map (\<lambda>(v, k). generate_key_line b64 v k) ks) m = Inr (m @ ks)"
  using assms(2,3)
proof (induction ks arbitrary: n m)
  case (Cons p ks)
  obtain v k where p: "p = (v, k)" by force
  have "\<forall>(w, _) \<in> set m. w < v" using Cons.prems(2) by (auto simp: bt_ok_def sorted_wrt_append p)
  then have "parse_line b64 n (generate_key_line b64 v k) m = Inr (m @ [(v, k)])"
    using Cons.prems(1) assms(1) by (intro parse_key_line) (auto simp: p)
  then show ?case using Cons.IH [of "m @ [p]" "n + 1"] Cons.prems by (simp add: p)
qed simp

lemma lines_visible:
  "list_all visible_ascii ls \<Longrightarrow> lines (concat (map (\<lambda>l. l @ [CHR 0x0A]) ls)) = ls"
proof (induction ls)
  case (Cons l ls)
  then have "CHR 0x0A \<notin> set l" by (auto simp: visible_ascii_def list_all_iff)
  moreover have "strip_cr l = l"
    using Cons.prems last_in_set [of l] by (fastforce simp: strip_cr_def visible_ascii_def list_all_iff)
  ultimately show ?case using Cons by (simp add: lines_append)
qed simp

definition key_file :: "base64 \<Rightarrow> (int, bytes) btree \<Rightarrow> string" where
  "key_file b64 keys =
     ''# remotehub master keys'' @ [CHR 0x0A] @ concat (map (\<lambda>(v, k). generate_key_line b64 v k @ [CHR 0x0A]) keys)"

lemma keyring_parse_file:
  assumes "base64_ok b64" and "keyring_ok kr"
  shows "keyring_parse b64 (key_file b64 (kr_keys kr)) = Inr kr"
proof -
  let ?ls = "map (\<lambda>(v, k). generate_key_line b64 v k) (kr_keys kr)"
  have "list_all visible_ascii ?ls"
    using assms(1) by (auto simp: list_all_iff generate_key_line_def base64_ok_def show_int_visible)
  from lines_visible [OF this] have "lines (concat (map (\<lambda>(v, k). generate_key_line b64 v k @ [CHR 0x0A]) (kr_keys kr))) = ?ls"
    by (simp add: comp_def split_def)
  then have l: "lines (key_file b64 (kr_keys kr)) = ''# remotehub master keys'' # ?ls"
    unfolding key_file_def using lines_append [of "''# remotehub master keys''"] by (simp add: strip_cr_def)
  have "trim ''# remotehub master keys'' = ''# remotehub master keys''" by code_simp
  then have "parse_lines b64 0 (lines (key_file b64 (kr_keys kr))) [] = parse_lines b64 1 ?ls []"
    by (simp add: l parse_line_def starts_with_def)
  also have "\<dots> = Inr (kr_keys kr)"
    using parse_key_lines [OF assms(1), of "kr_keys kr" "[]" 1] assms(2) by (simp add: keyring_ok_def)
  finally show ?thesis using assms(2) by (simp add: keyring_parse_def keyring_ok_def)
qed

section \<open>Back from the recovery key\<close>

text \<open>What the system's randomness gives for each key kept: some private key, and a nonce.\<close>

definition draws_ok :: "curve \<Rightarrow> (string \<times> int \<Rightarrow> bytes list \<times> bytes) \<Rightarrow> bool" where
  "draws_ok cv rnd \<longleftrightarrow> (\<forall>k. list_ex (scalar_ok cv) (fst (rnd k)) \<and> length (snd (rnd k)) = NONCE_LEN)"

lemma find_Some_ex: "list_ex P xs \<Longrightarrow> \<exists>x. find P xs = Some x \<and> P x"
  by (induction xs) auto

lemma seal_for_opens:
  assumes "aead_ok ci" "curve_ok cv" "scalar_ok cv private" "list_ex (scalar_ok cv) draws" "length nonce = NONCE_LEN"
    "length master = KEY_LEN"
  obtains es where "seal_for ci cv draws nonce (public_point cv private) kek_id version master = Some (Inr es)"
    "open_with ci cv private es kek_id version = Inr master"
proof -
  obtain e where e: "find (scalar_ok cv) draws = Some e" "scalar_ok cv e" using find_Some_ex [OF assms(4)] by blast
  have p: "point cv (public_point cv a) = Inr (public_point cv a)" if "scalar_ok cv a" for a
    using assms(2) that by (simp add: point_def curve_ok_def)
  have k: "agreed_key cv private (public_point cv e) = agreed_key cv e (public_point cv private)"
    "length (agreed_key cv e (public_point cv private)) = KEY_LEN"
    using assms(2,3) e(2) by (simp_all add: curve_ok_def)
  define es where "es = \<lparr>esc_ephemeral = public_point cv e,
    esc_sealed = encrypt ci nonce (agreed_key cv e (public_point cv private)) (escrow_aad kek_id version) master\<rparr>"
  have "seal_for ci cv draws nonce (public_point cv private) kek_id version master = Some (Inr es)"
    using e p [OF assms(3)] by (simp add: seal_for_def es_def)
  moreover have "open_with ci cv private es kek_id version = Inr master"
    using p [OF e(2)] k assms(1,3,5,6) by (simp add: open_with_def es_def decrypt_encrypt)
  ultimately show ?thesis by (rule that)
qed

text \<open>What is kept for a recovery key are master keys of the key file, and they open.\<close>

definition kept_ok :: "aead \<Rightarrow> curve \<Rightarrow> bytes \<Rightarrow> keyring \<Rightarrow> uuid \<Rightarrow> escrow_db \<Rightarrow> bool" where
  "kept_ok ci cv private kr i db \<longleftrightarrow> bt_ok (ed_escrow db) \<and> (\<forall>kek_id version es. bt_get (ed_escrow db) (i, kek_id, version) = Some es \<longrightarrow>
     kek_id = FILE_KEYRING_ID \<and> (\<exists>k. bt_get (kr_keys kr) version = Some k \<and> open_with ci cv private es kek_id version = Inr k))"

lemma kept_D:
  assumes "kept_ok ci cv private kr i db" "bt_get (ed_escrow db) (i, kek_id, version) = Some es"
  obtains k where "kek_id = FILE_KEYRING_ID" "bt_get (kr_keys kr) version = Some k" "open_with ci cv private es kek_id version = Inr k"
  using assms unfolding kept_ok_def by metis

lemma keep_loop_ok:
  assumes "aead_ok ci" "curve_ok cv" "scalar_ok cv private" "draws_ok cv rnd" "keyring_ok kr" "rk_public rk = public_point cv private"
  shows "kept_ok ci cv private kr (rk_id rk) db \<Longrightarrow> set ks \<subseteq> set (all_keys kr) \<Longrightarrow>
    \<exists>db' n'. keep_loop ci cv rnd kr rk ks db n = Some (db', Inr n') \<and> kept_ok ci cv private kr (rk_id rk) db' \<and> ed_keys db' = ed_keys db
      \<and> (\<forall>k. bt_get (ed_escrow db') k \<noteq> None \<longleftrightarrow> bt_get (ed_escrow db) k \<noteq> None \<or> k \<in> Pair (rk_id rk) ` set ks)"
proof (induction ks arbitrary: db n)
  case (Cons k ks)
  obtain kek_id version where k: "k = (kek_id, version)" by force
  obtain master where m: "master_key kr kek_id version = Inr master" "length master = KEY_LEN"
    using file_keys.every_available [OF assms(5)] file_keys.key_length [OF assms(5)] Cons.prems(2) k by fastforce
  obtain es where es: "seal_for ci cv (fst (rnd k)) (snd (rnd k)) (rk_public rk) kek_id version master = Some (Inr es)"
    "open_with ci cv private es kek_id version = Inr master"
    using seal_for_opens [OF assms(1-3) _ _ m(2), of "fst (rnd k)" "snd (rnd k)" kek_id version] assms(4,6)
    unfolding draws_ok_def by metis
  show ?case
  proof (cases "bt_get (ed_escrow db) (rk_id rk, k)")
    case None
    let ?db = "db\<lparr>ed_escrow := bt_insert (rk_id rk, k) es (ed_escrow db)\<rparr>"
    have "kept_ok ci cv private kr (rk_id rk) ?db"
      using Cons.prems(1) m(1) es(2) by (auto simp: kept_ok_def bt.get_put k master_key_Inr intro: bt.ok_put)
    from Cons.IH [OF this, of "n + 1"] Cons.prems(2) None show ?thesis
      using m(1) es(1) by (auto simp: k bt.get_put)
  next
    case (Some x)
    with Cons.IH [OF Cons.prems(1), of n] Cons.prems(2) show ?thesis using m(1) es(1) by (auto simp: k)
  qed
qed auto

lemma recover_loop_rows:
  "list_all (\<lambda>(((i, v), es), (v', k)). i = FILE_KEYRING_ID \<and> v = v' \<and> open_with ci cv private es i v = Inr k) (zip rows ks) \<Longrightarrow>
   length rows = length ks \<Longrightarrow>
   recover_loop ci cv b64 private rows acc
     = Inr (acc @ concat (map (\<lambda>(v, k). generate_key_line b64 v k @ [CHR 0x0A]) ks))"
proof (induction rows arbitrary: ks acc)
  case (Cons r rows)
  then show ?case by (cases ks) (auto simp: generate_key_line_def)
qed simp

lemma escrow_rows_sorted: "bt_ok (ed_escrow db) \<Longrightarrow> sorted_wrt (<) (map fst (escrow_rows db i))"
proof -
  have "sorted_wrt (<) (map fst m) \<Longrightarrow> sorted_wrt (<) (map fst (map (\<lambda>((_, k), es). (k, es)) (filter (\<lambda>((j, _), _). j = i) m)))"
    for m :: "(uuid \<times> string \<times> int, escrowed) btree"
    by (induction m) (auto simp: split_def)
  then show "bt_ok (ed_escrow db) \<Longrightarrow> ?thesis" by (simp add: bt_ok_def escrow_rows_def)
qed

lemma escrow_rows_get:
  "bt_ok (ed_escrow db) \<Longrightarrow> (k, es) \<in> set (escrow_rows db i) \<longleftrightarrow> bt_get (ed_escrow db) (i, k) = Some es"
  by (force simp: escrow_rows_def simp flip: bt.entries_get)

lemma all_keys_sorted: "bt_ok (kr_keys kr) \<Longrightarrow> sorted_wrt (<) (all_keys kr)"
proof -
  have "sorted_wrt (<) (map fst m) \<Longrightarrow> sorted_wrt (<) (map (\<lambda>(v, _). (FILE_KEYRING_ID, v)) m)" for m :: "(int, bytes) btree"
    by (induction m) (auto simp: split_def)
  then show "bt_ok (kr_keys kr) \<Longrightarrow> ?thesis" by (simp add: bt_ok_def all_keys_def)
qed

lemma kept_rows:
  assumes "kept_ok ci cv private kr i db" "keyring_ok kr"
    and "\<And>k. k \<in> set (all_keys kr) \<Longrightarrow> bt_get (ed_escrow db) (i, k) \<noteq> None"
  shows "map fst (escrow_rows db i) = all_keys kr"
proof -
  have ok: "bt_ok (ed_escrow db)" and kr: "bt_ok (kr_keys kr)" using assms(1,2) by (simp_all add: kept_ok_def keyring_ok_def)
  have "set (map fst (escrow_rows db i)) = set (all_keys kr)"
  proof (intro set_eqI iffI)
    fix k assume "k \<in> set (map fst (escrow_rows db i))"
    then obtain es where "bt_get (ed_escrow db) (i, k) = Some es" using escrow_rows_get [OF ok] by force
    moreover obtain kek_id version where "k = (kek_id, version)" by force
    ultimately show "k \<in> set (all_keys kr)"
      by (auto simp: file_keys.every_available [OF assms(2)] master_key_Inr elim: kept_D [OF assms(1)])
  next
    fix k assume "k \<in> set (all_keys kr)"
    then obtain es where "(k, es) \<in> set (escrow_rows db i)" using assms(3) [of k] escrow_rows_get [OF ok, of k _ i] by (metis option.exhaust)
    then show "k \<in> set (map fst (escrow_rows db i))" by force
  qed
  then show ?thesis
    using escrow_rows_sorted [OF ok] all_keys_sorted [OF kr] by (intro strict_sorted_equal)
qed

lemma kept_recovers:
  assumes "kept_ok ci cv private kr i db" "keyring_ok kr" and rows: "map fst (escrow_rows db i) = all_keys kr"
  shows "recover_loop ci cv b64 private (escrow_rows db i) (''# remotehub master keys'' @ [CHR 0x0A])
    = Inr (key_file b64 (kr_keys kr))"
proof -
  have ok: "bt_ok (ed_escrow db)" and kr: "bt_ok (kr_keys kr)" using assms(1,2) by (simp_all add: kept_ok_def keyring_ok_def)
  have len: "length (escrow_rows db i) = length (kr_keys kr)" using arg_cong [OF rows, of length] by (simp add: all_keys_def)
  have "list_all (\<lambda>(((i, v), es), (v', k)). i = FILE_KEYRING_ID \<and> v = v' \<and> open_with ci cv private es i v = Inr k)
      (zip (escrow_rows db i) (kr_keys kr))"
    unfolding list_all_length
  proof (intro allI impI)
    fix j assume "j < length (zip (escrow_rows db i) (kr_keys kr))"
    then have j: "j < length (escrow_rows db i)" "j < length (kr_keys kr)" by simp_all
    obtain kek_id v es where r: "escrow_rows db i ! j = ((kek_id, v), es)" by (metis surj_pair)
    obtain v' k where n: "kr_keys kr ! j = (v', k)" by force
    have "bt_get (ed_escrow db) (i, kek_id, v) = Some es" using nth_mem [OF j(1)] r escrow_rows_get [OF ok] by metis
    moreover have "bt_get (kr_keys kr) v' = Some k" using nth_mem [OF j(2)] n bt.entries_get [OF kr] by metis
    moreover have "(kek_id, v) = (FILE_KEYRING_ID, v')"
      using arg_cong [OF rows, of "\<lambda>xs. xs ! j"] j r n by (simp add: all_keys_def)
    ultimately show "(\<lambda>(((i, v), es), (v', k)). i = FILE_KEYRING_ID \<and> v = v' \<and> open_with ci cv private es i v = Inr k)
        (zip (escrow_rows db i) (kr_keys kr) ! j)"
      using j r n by (auto elim: kept_D [OF assms(1)])
  qed
  from recover_loop_rows [OF this len] show ?thesis by (simp add: key_file_def)
qed

text \<open>
  C31: The database and the recovery key's private key bring the key file back. Keeping the
  master keys for the newest recovery key succeeds, whatever of them is kept already; and then
  recovering with its private key gives a key file that reads as exactly the keys the server
  holds, with the same current one.
\<close>

theorem recovery_restores_key_file:
  assumes "aead_ok ci" "curve_ok cv" "base64_ok b64" and "scalar_ok cv private" and "draws_ok cv rnd" and "keyring_ok kr"
    and "newest_key (ed_keys db) = Some rk" "rk_public rk = public_point cv private"
    and "find (\<lambda>k. rk_public k = public_point cv private) (ed_keys db) = Some rk"
    and "kept_ok ci cv private kr (rk_id rk) db"
  shows "\<exists>db' n file. keep ci cv rnd kr db = Some (db', Inr n) \<and> recover ci cv b64 db' private = Inr file
    \<and> keyring_parse b64 file = Inr kr"
proof -
  obtain db' n where k: "keep_loop ci cv rnd kr rk (all_keys kr) db 0 = Some (db', Inr n)"
    "kept_ok ci cv private kr (rk_id rk) db'" "ed_keys db' = ed_keys db"
    "\<And>k. k \<in> set (all_keys kr) \<Longrightarrow> bt_get (ed_escrow db') (rk_id rk, k) \<noteq> None"
    using keep_loop_ok [OF assms(1,2,4,5,6,8,10) subset_refl, of 0] by (elim exE conjE) (metis imageI)
  from kept_rows [OF k(2) assms(6) k(4)] have rows: "map fst (escrow_rows db' (rk_id rk)) = all_keys kr" .
  then have "escrow_rows db' (rk_id rk) \<noteq> []"
    using assms(6) by (auto simp: keyring_ok_def all_keys_def)
  with kept_recovers [OF k(2) assms(6) rows] have "recover ci cv b64 db' private = Inr (key_file b64 (kr_keys kr))"
    using assms(4,9) k(3) by (simp add: recover_def public_key_of_def)
  with k(1) keyring_parse_file [OF assms(3,6)] show ?thesis
    using assms(7) by (auto simp: keep_def)
qed

section \<open>A small instance\<close>

text \<open>
  A cipher that writes key and associated data before the message, each with its length, a
  curve on which every 32 bytes are a private key, and base64 as two letters a byte.
\<close>

definition sample_tag :: "bytes \<Rightarrow> bytes \<Rightarrow> bytes" where
  "sample_tag k a = replicate (length k) 1 @ 0 # k @ replicate (length a) 1 @ 0 # a"

definition sample_aead :: aead where
  "sample_aead = \<lparr>aead_encrypt = (\<lambda>k n a m. sample_tag k a @ m),
     aead_decrypt = (\<lambda>k n a c. if take (length (sample_tag k a)) c = sample_tag k a
       then Some (drop (length (sample_tag k a)) c) else None)\<rparr>"

lemma ones_inject: "replicate m (1 :: u8) @ 0 # s = replicate n 1 @ 0 # t \<longleftrightarrow> m = n \<and> s = t"
  by (induction m arbitrary: n; case_tac n) simp_all

lemma sample_tag_inject: "sample_tag k a @ m = sample_tag k' a' @ m' \<Longrightarrow> k = k' \<and> a = a'"
proof -
  assume e: "sample_tag k a @ m = sample_tag k' a' @ m'"
  then have l: "length k = length k'" by (simp add: sample_tag_def ones_inject)
  with e have k: "k = k'" and r: "replicate (length a) 1 @ 0 # a @ m = replicate (length a') 1 @ 0 # a' @ m'"
    by (simp_all add: sample_tag_def ones_inject)
  then have "length a = length a'" "a @ m = a' @ m'" by (simp_all add: ones_inject)
  with k show ?thesis by simp
qed

lemma sample_tag_take: "take (length (sample_tag k' a')) (sample_tag k a @ m) = sample_tag k' a' \<Longrightarrow> k = k' \<and> a = a'"
  by (metis append_take_drop_id sample_tag_inject)

lemma sample_aead_ok: "aead_ok sample_aead" "aead_binds sample_aead"
proof -
  show "aead_ok sample_aead" by (simp add: aead_ok_def sample_aead_def)
  have "take (length (sample_tag k' a')) (sample_tag k a @ m) \<noteq> sample_tag k' a'" if "k \<noteq> k' \<or> a \<noteq> a'" for k k' a a' m
    using sample_tag_take that by blast
  then show "aead_binds sample_aead" by (simp only: aead_binds_def sample_aead_def aead.select_convs if_False simp_thms) simp
qed

definition sample_curve :: curve where
  "sample_curve = \<lparr>scalar_ok = (\<lambda>s. length s = 32), public_point = (\<lambda>s. replicate 33 4 @ s), point_ok = (\<lambda>p. True),
     agreed_key = (\<lambda>s p. map2 (+) s (drop 33 p))\<rparr>"

lemma map2_plus_commute: "map2 (+) s t = map2 (+) t (s :: bytes)"
  by (simp add: list_eq_iff_nth_eq add.commute)

lemma sample_curve_ok: "curve_ok sample_curve"
  using map2_plus_commute by (simp add: curve_ok_def sample_curve_def POINT_LEN_def KEY_LEN_def)

definition sample_base64 :: base64 where
  "sample_base64 = \<lparr>b64_encode = sample_encode, b64_decode = sample_decode\<rparr>"

lemma sample_base64_ok: "base64_ok sample_base64"
  by (simp add: base64_ok_def sample_base64_def sample_decode_encode sample_encode_visible)

definition sample_keyring :: keyring where
  "sample_keyring = \<lparr>kr_keys = [(1, replicate 32 7)], kr_current = 1\<rparr>"

definition rotated_keyring :: keyring where
  "rotated_keyring = \<lparr>kr_keys = [(1, replicate 32 7), (2, replicate 32 9)], kr_current = 2\<rparr>"

definition sample_seal_randomness :: seal_randomness where
  "sample_seal_randomness = \<lparr>sr_data_key = replicate 32 5, sr_key_nonce = replicate 24 3, sr_value_nonce = replicate 24 4\<rparr>"

lemma sample_keyring_ok: "keyring_ok sample_keyring" "keyring_ok rotated_keyring" "randomness_ok sample_seal_randomness"
  by (simp_all add: keyring_ok_def sample_keyring_def rotated_keyring_def bt_ok_def KEY_LEN_def NONCE_LEN_def
      randomness_ok_def sample_seal_randomness_def)

theorem seal_survives_rotation_witness:
  "\<exists>se se'. seal sample_aead sample_keyring sample_seal_randomness \<lparr>cx_owner = 42, cx_version = 1, cx_field = ''password''\<rparr> [1, 2] = Inr se
    \<and> rewrap sample_aead rotated_keyring sample_seal_randomness \<lparr>cx_owner = 42, cx_version = 1, cx_field = ''password''\<rparr> se = Inr (Some se')
    \<and> open_sealed sample_aead rotated_keyring \<lparr>cx_owner = 42, cx_version = 1, cx_field = ''password''\<rparr> se' = Inr [1, 2]"
proof -
  have "map_of (kr_keys sample_keyring) \<subseteq>\<^sub>m map_of (kr_keys rotated_keyring)" "kr_current rotated_keyring \<noteq> kr_current sample_keyring"
    by (simp_all add: sample_keyring_def rotated_keyring_def map_le_def)
  with seal_survives_rotation [OF sample_aead_ok(1) sample_keyring_ok(1,3,2,3),
      of "\<lparr>cx_owner = 42, cx_version = 1, cx_field = ''password''\<rparr>" "[1, 2]"]
  show ?thesis by auto
qed

theorem sealed_bound_to_place_witness:
  "\<exists>se. seal sample_aead sample_keyring sample_seal_randomness \<lparr>cx_owner = 42, cx_version = 1, cx_field = ''password''\<rparr> [1, 2] = Inr se
    \<and> (\<forall>p. open_sealed sample_aead rotated_keyring \<lparr>cx_owner = 42, cx_version = 2, cx_field = ''password''\<rparr> se \<noteq> Inr p)"
proof -
  obtain se where se: "seal sample_aead sample_keyring sample_seal_randomness \<lparr>cx_owner = 42, cx_version = 1, cx_field = ''password''\<rparr> [1, 2] = Inr se"
    by (rule seal_Inr [OF sample_keyring_ok(1)])
  from sealed_bound_to_place [OF sample_aead_ok(2) sample_keyring_ok(3,1,2) this refl,
      of "\<lparr>cx_owner = 42, cx_version = 2, cx_field = ''password''\<rparr>"] se
  show ?thesis by auto
qed

theorem recovery_restores_key_file_witness:
  "\<exists>db' n file. keep sample_aead sample_curve (\<lambda>_. ([[], replicate 32 8], replicate 24 6)) rotated_keyring
      \<lparr>ed_keys = [\<lparr>rk_id = 1, rk_public = public_point sample_curve (replicate 32 2), rk_created = 0\<rparr>], ed_escrow = []\<rparr> = Some (db', Inr n)
    \<and> recover sample_aead sample_curve sample_base64 db' (replicate 32 2) = Inr file
    \<and> keyring_parse sample_base64 file = Inr rotated_keyring"
proof -
  have "draws_ok sample_curve (\<lambda>_. ([[], replicate 32 8], replicate 24 6))" "scalar_ok sample_curve (replicate 32 2)"
    by (simp_all add: draws_ok_def sample_curve_def NONCE_LEN_def)
  then show ?thesis
    using recovery_restores_key_file [OF sample_aead_ok(1) sample_curve_ok sample_base64_ok, of "replicate 32 2" _ rotated_keyring
        "\<lparr>ed_keys = [\<lparr>rk_id = 1, rk_public = public_point sample_curve (replicate 32 2), rk_created = 0\<rparr>], ed_escrow = []\<rparr>"
        "\<lparr>rk_id = 1, rk_public = public_point sample_curve (replicate 32 2), rk_created = 0\<rparr>"]
      sample_keyring_ok(2)
    by (simp add: newest_key_def kept_ok_def)
qed

end
