(* ===== verification/Database.thy ===== *)
theory Database
  imports Vault
begin

text \<open>
  The server's tables as far as signing in and sessions touch them, and the answers of its
  interface: \<^verbatim>\<open>crates/server/src/api/problem.rs\<close> and \<^verbatim>\<open>crates/server/src/audit.rs\<close>. A table is a map by
  its primary key or the list of its rows; a statement that violates a key fails. That the
  database cannot be reached is not modelled.
\<close>

section \<open>Answers\<close>

text \<open>Values of \<open>serde_json\<close>, as parameters of a problem and details of the audit log have them.\<close>

datatype json = JNull | JBool bool | JNumber int | JText string | JList "json list" | JObject "(string \<times> json) list"

datatype error_code =
  NotFound | InvalidRequest | Unauthenticated | Forbidden | InvalidCredentials | AccountDisabled |
  AccountLocked | AccountExpired | PasswordChangeRequired | TooManyAttempts | ForbiddenOrigin |
  NameTaken | FolderNotEmpty | HostKeyChanged | CertificateChanged | TlsRequired |
  TargetUnreachable | TargetAuthFailed | ConnectionFailed | OwnAccountUnavailable |
  SshCaUnavailable | LapsUnavailable | RequestPending | RequestDecided | OwnRequest | LastUnlock |
  VaultNotCovered | RecoveryKeyInUse | RecoveryOpen | RecoveryNotReady | ConnectorInUse |
  RetargetForbidden | ProfileOutOfReach | ProfileInUse | ConnectorOffline | ConnectorClosed |
  ConnectorTargetClosed | ConnectorProtocol | PurposeRequired | ExtensionUnknown |
  ExtensionOutdated | WrongSite | AccountsUnavailable | SecondFactorRequired |
  SecondFactorSetupRequired | SecondFactorInvalid | SessionLocked | ConfirmationRequired |
  SetupPending | SetupCodeInvalid | SetupDone | BreakGlassExists | LastAdministrator |
  DirectoryCheckFailed | CertificateRefused | CaddyRefused | CaddyUnavailable |
  DirectoryUnavailable | DatabaseUnavailable | Internal

primrec error_code_as_str :: "error_code \<Rightarrow> string" where
  "error_code_as_str NotFound = ''not_found''"
| "error_code_as_str InvalidRequest = ''invalid_request''"
| "error_code_as_str Unauthenticated = ''unauthenticated''"
| "error_code_as_str Forbidden = ''forbidden''"
| "error_code_as_str InvalidCredentials = ''invalid_credentials''"
| "error_code_as_str AccountDisabled = ''account_disabled''"
| "error_code_as_str AccountLocked = ''account_locked''"
| "error_code_as_str AccountExpired = ''account_expired''"
| "error_code_as_str PasswordChangeRequired = ''password_change_required''"
| "error_code_as_str TooManyAttempts = ''too_many_attempts''"
| "error_code_as_str ForbiddenOrigin = ''forbidden_origin''"
| "error_code_as_str NameTaken = ''name_taken''"
| "error_code_as_str FolderNotEmpty = ''folder_not_empty''"
| "error_code_as_str HostKeyChanged = ''host_key_changed''"
| "error_code_as_str CertificateChanged = ''certificate_changed''"
| "error_code_as_str TlsRequired = ''tls_required''"
| "error_code_as_str TargetUnreachable = ''target_unreachable''"
| "error_code_as_str TargetAuthFailed = ''target_auth_failed''"
| "error_code_as_str ConnectionFailed = ''connection_failed''"
| "error_code_as_str OwnAccountUnavailable = ''own_account_unavailable''"
| "error_code_as_str SshCaUnavailable = ''ssh_ca_unavailable''"
| "error_code_as_str LapsUnavailable = ''laps_unavailable''"
| "error_code_as_str RequestPending = ''request_pending''"
| "error_code_as_str RequestDecided = ''request_decided''"
| "error_code_as_str OwnRequest = ''own_request''"
| "error_code_as_str LastUnlock = ''last_unlock''"
| "error_code_as_str VaultNotCovered = ''vault_not_covered''"
| "error_code_as_str RecoveryKeyInUse = ''recovery_key_in_use''"
| "error_code_as_str RecoveryOpen = ''recovery_open''"
| "error_code_as_str RecoveryNotReady = ''recovery_not_ready''"
| "error_code_as_str ConnectorInUse = ''connector_in_use''"
| "error_code_as_str RetargetForbidden = ''retarget_forbidden''"
| "error_code_as_str ProfileOutOfReach = ''profile_out_of_reach''"
| "error_code_as_str ProfileInUse = ''profile_in_use''"
| "error_code_as_str ConnectorOffline = ''connector_offline''"
| "error_code_as_str ConnectorClosed = ''connector_closed''"
| "error_code_as_str ConnectorTargetClosed = ''connector_target_closed''"
| "error_code_as_str ConnectorProtocol = ''connector_protocol''"
| "error_code_as_str PurposeRequired = ''purpose_required''"
| "error_code_as_str ExtensionUnknown = ''extension_unknown''"
| "error_code_as_str ExtensionOutdated = ''extension_outdated''"
| "error_code_as_str WrongSite = ''wrong_site''"
| "error_code_as_str AccountsUnavailable = ''accounts_unavailable''"
| "error_code_as_str SecondFactorRequired = ''second_factor_required''"
| "error_code_as_str SecondFactorSetupRequired = ''second_factor_setup_required''"
| "error_code_as_str SecondFactorInvalid = ''second_factor_invalid''"
| "error_code_as_str SessionLocked = ''session_locked''"
| "error_code_as_str ConfirmationRequired = ''confirmation_required''"
| "error_code_as_str SetupPending = ''setup_pending''"
| "error_code_as_str SetupCodeInvalid = ''setup_code_invalid''"
| "error_code_as_str SetupDone = ''setup_done''"
| "error_code_as_str BreakGlassExists = ''break_glass_exists''"
| "error_code_as_str LastAdministrator = ''last_administrator''"
| "error_code_as_str DirectoryCheckFailed = ''directory_check_failed''"
| "error_code_as_str CertificateRefused = ''certificate_refused''"
| "error_code_as_str CaddyRefused = ''caddy_refused''"
| "error_code_as_str CaddyUnavailable = ''caddy_unavailable''"
| "error_code_as_str DirectoryUnavailable = ''directory_unavailable''"
| "error_code_as_str DatabaseUnavailable = ''database_unavailable''"
| "error_code_as_str Internal = ''internal''"

primrec error_code_status :: "error_code \<Rightarrow> nat" where
  "error_code_status NotFound = 404"
| "error_code_status InvalidRequest = 400"
| "error_code_status Unauthenticated = 401"
| "error_code_status Forbidden = 403"
| "error_code_status InvalidCredentials = 401"
| "error_code_status AccountDisabled = 403"
| "error_code_status AccountLocked = 403"
| "error_code_status AccountExpired = 403"
| "error_code_status PasswordChangeRequired = 403"
| "error_code_status TooManyAttempts = 429"
| "error_code_status ForbiddenOrigin = 403"
| "error_code_status NameTaken = 409"
| "error_code_status FolderNotEmpty = 409"
| "error_code_status HostKeyChanged = 409"
| "error_code_status CertificateChanged = 409"
| "error_code_status TlsRequired = 502"
| "error_code_status TargetUnreachable = 502"
| "error_code_status TargetAuthFailed = 502"
| "error_code_status ConnectionFailed = 502"
| "error_code_status OwnAccountUnavailable = 409"
| "error_code_status SshCaUnavailable = 409"
| "error_code_status LapsUnavailable = 409"
| "error_code_status RequestPending = 409"
| "error_code_status RequestDecided = 409"
| "error_code_status OwnRequest = 403"
| "error_code_status LastUnlock = 409"
| "error_code_status VaultNotCovered = 409"
| "error_code_status RecoveryKeyInUse = 409"
| "error_code_status RecoveryOpen = 409"
| "error_code_status RecoveryNotReady = 409"
| "error_code_status ConnectorInUse = 409"
| "error_code_status RetargetForbidden = 403"
| "error_code_status ProfileOutOfReach = 409"
| "error_code_status ProfileInUse = 409"
| "error_code_status ConnectorOffline = 502"
| "error_code_status ConnectorClosed = 409"
| "error_code_status ConnectorTargetClosed = 409"
| "error_code_status ConnectorProtocol = 426"
| "error_code_status PurposeRequired = 400"
| "error_code_status ExtensionUnknown = 403"
| "error_code_status ExtensionOutdated = 426"
| "error_code_status WrongSite = 403"
| "error_code_status AccountsUnavailable = 503"
| "error_code_status SecondFactorRequired = 403"
| "error_code_status SecondFactorSetupRequired = 403"
| "error_code_status SecondFactorInvalid = 401"
| "error_code_status SessionLocked = 401"
| "error_code_status ConfirmationRequired = 403"
| "error_code_status SetupPending = 409"
| "error_code_status SetupCodeInvalid = 403"
| "error_code_status SetupDone = 409"
| "error_code_status BreakGlassExists = 409"
| "error_code_status LastAdministrator = 409"
| "error_code_status DirectoryCheckFailed = 422"
| "error_code_status CertificateRefused = 422"
| "error_code_status CaddyRefused = 422"
| "error_code_status CaddyUnavailable = 503"
| "error_code_status DirectoryUnavailable = 503"
| "error_code_status DatabaseUnavailable = 503"
| "error_code_status Internal = 500"

definition error_code_all :: "error_code list" where
  "error_code_all = [
     NotFound, InvalidRequest, Unauthenticated, Forbidden, InvalidCredentials, AccountDisabled,
     AccountLocked, AccountExpired, PasswordChangeRequired, TooManyAttempts, ForbiddenOrigin,
     NameTaken, FolderNotEmpty, HostKeyChanged, CertificateChanged, TlsRequired,
     TargetUnreachable, TargetAuthFailed, ConnectionFailed, OwnAccountUnavailable,
     SshCaUnavailable, LapsUnavailable, RequestPending, RequestDecided, OwnRequest, LastUnlock,
     VaultNotCovered, RecoveryKeyInUse, RecoveryOpen, RecoveryNotReady, ConnectorInUse,
     RetargetForbidden, ProfileOutOfReach, ProfileInUse, ConnectorOffline, ConnectorClosed,
     ConnectorTargetClosed, ConnectorProtocol, PurposeRequired, ExtensionUnknown,
     ExtensionOutdated, WrongSite, AccountsUnavailable, SecondFactorRequired,
     SecondFactorSetupRequired, SecondFactorInvalid, SessionLocked, ConfirmationRequired,
     SetupPending, SetupCodeInvalid, SetupDone, BreakGlassExists, LastAdministrator,
     DirectoryCheckFailed, CertificateRefused, CaddyRefused, CaddyUnavailable,
     DirectoryUnavailable, DatabaseUnavailable, Internal]"

record problem =
  pr_kind :: string
  pr_status :: nat
  pr_code :: error_code
  pr_params :: "(string, json) btree"

definition problem :: "error_code \<Rightarrow> problem" where
  "problem c = \<lparr>pr_kind = ''urn:remotehub:error:'' @ error_code_as_str c, pr_status = error_code_status c, pr_code = c, pr_params = []\<rparr>"

definition param :: "problem \<Rightarrow> string \<Rightarrow> json \<Rightarrow> problem" where
  "param p name v = p\<lparr>pr_params := bt_insert name v (pr_params p)\<rparr>"

lemma problem_code [simp]: "pr_code (problem c) = c" "pr_code (param p n v) = pr_code p"
  by (simp_all add: problem_def param_def)

section \<open>Tables\<close>

record user_row =
  ur_kind :: string
  ur_sid :: "string option"
  ur_guid :: "uuid option"
  ur_username :: string
  ur_display_name :: string
  ur_email :: "string option"
  ur_upn :: "string option"
  ur_identity :: "uuid option"
  ur_last_sign_in :: "instant option"
  ur_blocked :: bool

record session_row =
  sr_id :: uuid
  sr_client :: string
  sr_user :: uuid
  sr_groups :: "string list"
  sr_expires :: instant
  sr_seen :: instant
  sr_confirmed :: "instant option"
  sr_failures :: int
  sr_secret :: "bytes option"

text \<open>An account of \<open>local_accounts\<close>, and an app of \<open>second_factors\<close>.\<close>

record local_account =
  la_password_hash :: string
  la_totp_version :: int
  la_last_step :: int

record app_row =
  app_version :: int
  app_last_step :: int

record key_row =
  kw_user :: uuid
  kw_credential :: bytes
  kw_public :: bytes
  kw_count :: int
  kw_created :: instant

record challenge_row =
  ch_user :: uuid
  ch_purpose :: string
  ch_bytes :: bytes
  ch_expires :: instant

record audit_entry =
  au_actor :: "uuid option"
  au_name :: string
  au_action :: string
  au_object :: "(string \<times> uuid) option"
  au_details :: json
  au_address :: "string option"

record database =
  db_users :: "(uuid, user_row) hashmap"
  db_sessions :: "(bytes, session_row) hashmap"
  db_members :: "(uuid \<times> string) list"
  db_roles :: "(string \<times> string) list"
  db_codes :: "(string \<times> instant) list"
  db_secrets :: secret_fields
  db_locals :: "(uuid, local_account) hashmap"
  db_apps :: "(uuid, app_row) hashmap"
  db_keys :: "(uuid, key_row) hashmap"
  db_challenges :: "(uuid, challenge_row) hashmap"
  db_principals :: "string list"
  db_confirm_codes :: "(uuid, int) hashmap"
  db_confirm_keys :: "(bytes, uuid \<times> int) hashmap"
  db_audit :: "audit_entry list"

text \<open>\<open>audit::record\<close>: entries are only appended.\<close>

definition audit_record :: "database \<Rightarrow> audit_entry \<Rightarrow> database" where
  "audit_record db e = db\<lparr>db_audit := db_audit db @ [e]\<rparr>"

text \<open>An \<open>UPDATE\<close> of the row with this key.\<close>

definition hm_update :: "'k \<Rightarrow> ('v \<Rightarrow> 'v) \<Rightarrow> ('k, 'v) hashmap \<Rightarrow> ('k, 'v) hashmap" where
  "hm_update k f m = (case hm_get m k of None \<Rightarrow> m | Some v \<Rightarrow> hm_insert k (f v) m)"

lemma hm_get_update: "hm_get (hm_update k f m) j = (if j = k then map_option f (hm_get m k) else hm_get m j)"
  by (auto simp: hm_update_def hm.get_put split: option.splits)

lemma hm_ok_update [simp]: "hm_ok m \<Longrightarrow> hm_ok (hm_update k f m)"
  by (auto simp: hm_update_def intro: hm.ok_put split: option.splits)

text \<open>The principal grants and rules name a group of remotehub's own by.\<close>

definition group_principal :: "uuid \<Rightarrow> string" where
  "group_principal g = ''group:'' @ uuid_show g"

definition empty_db :: database where
  "empty_db = \<lparr>db_users = [], db_sessions = [], db_members = [], db_roles = [], db_codes = [], db_secrets = [], db_locals = [],
     db_apps = [], db_keys = [], db_challenges = [], db_principals = [], db_confirm_codes = [], db_confirm_keys = [], db_audit = []\<rparr>"

end
