(* ===== verification/Sessions.thy ===== *)
theory Sessions
  imports Database Catalog
begin

text \<open>
  Sessions of the server, \<^verbatim>\<open>crates/server/src/session.rs\<close>, and what a confirmation does to one,
  \<^verbatim>\<open>crates/server/src/api/confirm.rs\<close>. \<open>now\<close> is the time of a statement; the hash of a token and
  base64url come from other crates and are parameters.
\<close>

section \<open>Roles\<close>

datatype site_role = Administrator | Auditor | SecurityOfficer

definition site_role_all :: "site_role list" where
  "site_role_all = [Administrator, Auditor, SecurityOfficer]"

fun site_role_as_str :: "site_role \<Rightarrow> string" where
  "site_role_as_str Administrator = ''administrator''"
| "site_role_as_str Auditor = ''auditor''"
| "site_role_as_str SecurityOfficer = ''security_officer''"

definition site_role_parse :: "string \<Rightarrow> site_role option" where
  "site_role_parse name = find (\<lambda>r. site_role_as_str r = name) site_role_all"

record session =
  s_hash :: bytes
  s_id :: uuid
  s_client :: string
  s_user :: uuid
  s_username :: string
  s_display_name :: string
  s_kind :: string
  s_sid :: "string option"
  s_upn :: "string option"
  s_groups :: "string list"
  s_identity :: "uuid option"
  s_memberships :: "string list"
  s_roles :: "string list"
  s_locked :: bool
  s_confirmed :: bool

section \<open>Who a session is\<close>

definition CONFIRMED_FOR :: instant where
  "CONFIRMED_FOR = 60 * 1000000000"

definition require_confirmation :: "session \<Rightarrow> problem + unit" where
  "require_confirmation s = (if s_confirmed s then Inr () else Inl (problem ConfirmationRequired))"

definition has_role :: "session \<Rightarrow> site_role \<Rightarrow> bool" where
  "has_role s r \<longleftrightarrow> list_ex (\<lambda>x. x = site_role_as_str r) (s_roles s)"

definition is_admin :: "session \<Rightarrow> bool" where
  "is_admin s \<longleftrightarrow> s_kind s = ''break_glass'' \<or> has_role s Administrator"

definition is_auditor :: "session \<Rightarrow> bool" where
  "is_auditor s \<longleftrightarrow> has_role s Auditor \<or> is_admin s"

definition role_names :: "session \<Rightarrow> string list" where
  "role_names s =
     map site_role_as_str
       (filter (\<lambda>r. case r of Administrator \<Rightarrow> is_admin s | _ \<Rightarrow> has_role s r) site_role_all)"

definition local_principal :: "uuid \<Rightarrow> string" where
  "local_principal i = ''local:'' @ uuid_show i"

definition session_principal :: "session \<Rightarrow> string option" where
  "session_principal s = (case s_sid s of Some sid \<Rightarrow> Some sid | None \<Rightarrow> map_option local_principal (s_identity s))"

definition session_sids :: "session \<Rightarrow> string list" where
  "session_sids s = s_groups s @ s_memberships s @ (case session_principal s of Some p \<Rightarrow> [p] | None \<Rightarrow> [])"

definition session_subject :: "session \<Rightarrow> subject" where
  "session_subject s = \<lparr>sids = set (session_sids s), admin = is_admin s\<rparr>"

section \<open>Reading and keeping sessions\<close>

text \<open>Whether a principal of a table names the user: by the SID or as a local account.\<close>

definition names_user :: "user_row \<Rightarrow> string \<Rightarrow> bool" where
  "names_user u p \<longleftrightarrow> ur_sid u = Some p \<or> map_option local_principal (ur_identity u) = Some p"

definition memberships_of :: "database \<Rightarrow> string list \<Rightarrow> user_row \<Rightarrow> string list" where
  "memberships_of db groups u =
     remdups (map (\<lambda>(g, _). group_principal g)
       (filter (\<lambda>(_, p). p \<in> set groups \<or> names_user u p) (db_members db)))"

definition roles_of :: "database \<Rightarrow> string list \<Rightarrow> user_row \<Rightarrow> string list" where
  "roles_of db groups u =
     remdups (map snd (filter (\<lambda>(p, _). p \<in> set (groups @ memberships_of db groups u) \<or> names_user u p) (db_roles db)))"

definition by_hash :: "database \<Rightarrow> bytes \<Rightarrow> instant \<Rightarrow> instant \<Rightarrow> session option" where
  "by_hash db h idle now =
     (case hm_get (db_sessions db) h of
        None \<Rightarrow> None
      | Some r \<Rightarrow>
     (case hm_get (db_users db) (sr_user r) of
        None \<Rightarrow> None
      | Some u \<Rightarrow>
          if \<not> ur_blocked u \<and> sr_expires r > now \<and> (sr_client r = ''web'' \<or> sr_seen r > now - idle) then
            Some \<lparr>s_hash = h, s_id = sr_id r, s_client = sr_client r, s_user = sr_user r, s_username = ur_username u,
              s_display_name = ur_display_name u, s_kind = ur_kind u, s_sid = ur_sid u, s_upn = ur_upn u,
              s_groups = sr_groups r, s_identity = ur_identity u, s_memberships = memberships_of db (sr_groups r) u,
              s_roles = roles_of db (sr_groups r) u, s_locked = (sr_seen r \<le> now - idle),
              s_confirmed = (case sr_confirmed r of Some c \<Rightarrow> c > now - CONFIRMED_FOR | None \<Rightarrow> False)\<rparr>
          else None))"

text \<open>An \<open>UPDATE\<close> of the row with this hash.\<close>

definition update_row :: "database \<Rightarrow> bytes \<Rightarrow> (session_row \<Rightarrow> session_row) \<Rightarrow> database" where
  "update_row db h f =
     (case hm_get (db_sessions db) h of
        None \<Rightarrow> db
      | Some r \<Rightarrow> db\<lparr>db_sessions := hm_insert h (f r) (db_sessions db)\<rparr>)"

definition minute :: instant where
  "minute = 60 * 1000000000"

definition touch :: "database \<Rightarrow> bytes \<Rightarrow> instant \<Rightarrow> instant \<Rightarrow> database" where
  "touch db h idle now =
     update_row db h (\<lambda>r. if sr_seen r < now - minute \<and> sr_seen r > now - idle then r\<lparr>sr_seen := now\<rparr> else r)"

text \<open>The two statements of \<open>find\<close> may see different times.\<close>

definition find_session ::
  "(string \<Rightarrow> bytes) \<Rightarrow> database \<Rightarrow> string \<Rightarrow> instant \<Rightarrow> bool \<Rightarrow> instant \<Rightarrow> instant \<Rightarrow> database \<times> session option" where
  "find_session sha db token idle keep_alive now now' =
     (case by_hash db (sha token) idle now of
        None \<Rightarrow> (db, None)
      | Some s \<Rightarrow> (if keep_alive \<and> \<not> s_locked s then touch db (sha token) idle now' else db, Some s))"

definition lookup_session :: "(string \<Rightarrow> bytes) \<Rightarrow> database \<Rightarrow> string \<Rightarrow> instant \<Rightarrow> instant \<Rightarrow> instant \<Rightarrow> database \<times> session option" where
  "lookup_session sha db token idle now now' = find_session sha db token idle True now now'"

text \<open>\<open>INSERT\<close> fails for a hash in use and for an unknown user.\<close>

definition create_row :: "database \<Rightarrow> bytes \<Rightarrow> session_row \<Rightarrow> database \<times> bool" where
  "create_row db h r =
     (if hm_get (db_sessions db) h \<noteq> None \<or> hm_get (db_users db) (sr_user r) = None then (db, False)
      else (db\<lparr>db_sessions := hm_insert h r (db_sessions db)\<rparr>, True))"

definition new_row :: "uuid \<Rightarrow> string \<Rightarrow> uuid \<Rightarrow> string list \<Rightarrow> instant \<Rightarrow> instant \<Rightarrow> session_row" where
  "new_row i client user groups now max_age =
     \<lparr>sr_id = i, sr_client = client, sr_user = user, sr_groups = groups, sr_expires = now + max_age, sr_seen = now,
      sr_confirmed = None, sr_failures = 0, sr_secret = None\<rparr>"

definition create_session ::
  "(string \<Rightarrow> bytes) \<Rightarrow> database \<Rightarrow> string \<Rightarrow> uuid \<Rightarrow> uuid \<Rightarrow> string list \<Rightarrow> instant \<Rightarrow> instant \<Rightarrow> database \<times> bool" where
  "create_session sha db token i user groups max_age now = create_row db (sha token) (new_row i ''web'' user groups now max_age)"

definition create_extension ::
  "(string \<Rightarrow> bytes) \<Rightarrow> database \<Rightarrow> string \<Rightarrow> uuid \<Rightarrow> uuid \<Rightarrow> string list \<Rightarrow> instant \<Rightarrow> instant \<Rightarrow> database \<times> bool" where
  "create_extension sha db token i user groups max_age now =
     create_row db (sha token) (new_row i ''extension'' user groups now max_age)"

definition delete_session :: "(string \<Rightarrow> bytes) \<Rightarrow> database \<Rightarrow> string \<Rightarrow> database" where
  "delete_session sha db token = db\<lparr>db_sessions := hm_remove (sha token) (db_sessions db)\<rparr>"

definition purge :: "database \<Rightarrow> instant \<Rightarrow> instant \<Rightarrow> instant \<Rightarrow> database" where
  "purge db idle now now' =
     db\<lparr>db_sessions := filter (\<lambda>(_, r). \<not> (sr_expires r \<le> now \<or> (sr_client r \<noteq> ''web'' \<and> sr_seen r \<le> now - idle)))
           (db_sessions db),
        db_codes := filter (\<lambda>(_, e). \<not> e \<le> now') (db_codes db)\<rparr>"

text \<open>The key and nonce come from the system's randomness; the key goes into the user's cookie.\<close>

definition keep_sign_in_password ::
  "(string \<Rightarrow> bytes) \<Rightarrow> aead \<Rightarrow> (bytes \<Rightarrow> string) \<Rightarrow> bytes \<Rightarrow> bytes \<Rightarrow> database \<Rightarrow> string \<Rightarrow> bytes \<Rightarrow> database \<times> string" where
  "keep_sign_in_password sha ci b64url nonce key db token password =
     (let sealed = detached_seal ci nonce key (sha token) password
      in (update_row db (sha token) (\<lambda>r. r\<lparr>sr_secret := Some sealed\<rparr>), b64url key))"

section \<open>Requests\<close>

definition COOKIE_NAME :: string where
  "COOKIE_NAME = ''__Host-remotehub-session''"

definition server_cookie :: "string list \<Rightarrow> string \<Rightarrow> string option" where
  "server_cookie headers name =
     (case find (\<lambda>(n, _). n = name)
         (filter_map (\<lambda>pair. split_once CHR ''='' (trim pair)) (concat (map (split_on CHR '';'') headers))) of
        Some (_, v) \<Rightarrow> if v \<noteq> [] then Some v else None
      | None \<Rightarrow> None)"

definition LOGIN_KEY_COOKIE :: string where
  "LOGIN_KEY_COOKIE = ''__Host-remotehub-login-key''"

definition sign_in_password ::
  "(string \<Rightarrow> bytes) \<Rightarrow> aead \<Rightarrow> (string \<Rightarrow> bytes option) \<Rightarrow> database \<Rightarrow> string list \<Rightarrow> bytes option" where
  "sign_in_password sha ci b64url_decode db headers =
     (case (server_cookie headers COOKIE_NAME, server_cookie headers LOGIN_KEY_COOKIE) of
        (Some token, Some text) \<Rightarrow>
          (let key = (case b64url_decode text of Some k \<Rightarrow> k | None \<Rightarrow> [])
           in if length key \<noteq> 32 then None
              else case hm_get (db_sessions db) (sha token) of
                Some r \<Rightarrow>
                  (case sr_secret r of
                     Some sealed \<Rightarrow> (case detached_open ci key (sha token) sealed of Inr p \<Rightarrow> Some p | Inl _ \<Rightarrow> None)
                   | None \<Rightarrow> None)
              | None \<Rightarrow> None)
      | _ \<Rightarrow> None)"

text \<open>The extractors \<open>AnySession\<close> and \<open>Session\<close>; \<open>background\<close> is whether the request carries that header.\<close>

definition any_session ::
  "(string \<Rightarrow> bytes) \<Rightarrow> database \<Rightarrow> string list \<Rightarrow> bool \<Rightarrow> instant \<Rightarrow> instant \<Rightarrow> instant \<Rightarrow> database \<times> (problem + session)" where
  "any_session sha db headers background idle now now' =
     (case server_cookie headers COOKIE_NAME of
        None \<Rightarrow> (db, Inl (problem Unauthenticated))
      | Some token \<Rightarrow>
          (case find_session sha db token idle (\<not> background) now now' of
             (db', Some s) \<Rightarrow> (db', if s_client s = ''web'' then Inr s else Inl (problem Unauthenticated))
           | (db', None) \<Rightarrow> (db', Inl (problem Unauthenticated))))"

definition require_session ::
  "(string \<Rightarrow> bytes) \<Rightarrow> database \<Rightarrow> string list \<Rightarrow> bool \<Rightarrow> instant \<Rightarrow> instant \<Rightarrow> instant \<Rightarrow> database \<times> (problem + session)" where
  "require_session sha db headers background idle now now' =
     (case any_session sha db headers background idle now now' of
        (db', Inl p) \<Rightarrow> (db', Inl p)
      | (db', Inr s) \<Rightarrow> (db', if s_locked s then Inl (problem SessionLocked) else Inr s))"

section \<open>Input into a connection\<close>

record activity =
  act_hash :: bytes
  act_idle :: instant
  act_checked :: "instant option"
  act_open :: bool

definition activity_of :: "session \<Rightarrow> instant \<Rightarrow> activity" where
  "activity_of s idle = \<lparr>act_hash = s_hash s, act_idle = idle, act_checked = None, act_open = (\<not> s_locked s)\<rparr>"

text \<open>\<open>clock\<close> is the clock of the process, \<open>failed\<close> whether the database could not be asked.\<close>

definition input_due :: "activity \<Rightarrow> instant \<Rightarrow> bool" where
  "input_due a clock \<longleftrightarrow>
     (let every = (if act_open a then 60 else 2) * 1000000000
      in case act_checked a of Some c \<Rightarrow> \<not> clock - c < every | None \<Rightarrow> True)"

text \<open>Whether the \<open>UPDATE\<close> finds a row.\<close>

definition input_hit :: "activity \<Rightarrow> database \<Rightarrow> instant \<Rightarrow> bool" where
  "input_hit a db now \<longleftrightarrow>
     (case hm_get (db_sessions db) (act_hash a) of
        Some r \<Rightarrow> sr_expires r > now \<and> sr_seen r > now - act_idle a | None \<Rightarrow> False)"

definition input :: "activity \<Rightarrow> database \<Rightarrow> instant \<Rightarrow> instant \<Rightarrow> bool \<Rightarrow> activity \<times> database \<times> bool" where
  "input a db clock now failed =
     (if \<not> input_due a clock then (a, db, act_open a)
      else if failed then (a\<lparr>act_checked := Some clock\<rparr>, db, act_open a)
      else if input_hit a db now then
        (a\<lparr>act_checked := Some clock, act_open := True\<rparr>,
         update_row db (act_hash a) (\<lambda>r. if sr_seen r < now - minute then r\<lparr>sr_seen := now\<rparr> else r), True)
      else (a\<lparr>act_checked := Some clock, act_open := False\<rparr>, db, False))"

section \<open>Confirmations\<close>

definition MAX_FAILURES :: int where
  "MAX_FAILURES = 5"

text \<open>The statements of \<open>confirm\<close> after a right answer, and after a wrong one: whether the session has ended.\<close>

definition session_confirmed :: "database \<Rightarrow> bytes \<Rightarrow> instant \<Rightarrow> database" where
  "session_confirmed db h now = update_row db h (\<lambda>r. r\<lparr>sr_confirmed := Some now, sr_seen := now, sr_failures := 0\<rparr>)"

definition session_confirm_failed :: "database \<Rightarrow> bytes \<Rightarrow> (database \<times> bool) option" where
  "session_confirm_failed db h =
     (case hm_get (db_sessions db) h of
        None \<Rightarrow> None
      | Some r \<Rightarrow>
          (let failures = sr_failures r + 1; db = update_row db h (\<lambda>r. r\<lparr>sr_failures := sr_failures r + 1\<rparr>)
           in if failures \<ge> MAX_FAILURES then Some (db\<lparr>db_sessions := hm_remove h (db_sessions db)\<rparr>, True)
              else Some (db, False)))"

section \<open>Which sessions may act\<close>

lemma sessions_update_row: "db_sessions (update_row db h f) = hm_update h f (db_sessions db)"
  by (simp add: update_row_def hm_update_def split: option.splits)

lemma update_row_other: "db_users (update_row db h f) = db_users db" "db_members (update_row db h f) = db_members db"
  "db_roles (update_row db h f) = db_roles db"
  by (simp_all add: update_row_def split: option.splits)

text \<open>The row and user of a session that has not ended, and whether it is locked.\<close>

definition session_row_of :: "database \<Rightarrow> bytes \<Rightarrow> instant \<Rightarrow> (session_row \<times> user_row) option" where
  "session_row_of db h now =
     (case hm_get (db_sessions db) h of
        Some r \<Rightarrow> (case hm_get (db_users db) (sr_user r) of
                    Some u \<Rightarrow> if \<not> ur_blocked u \<and> now < sr_expires r then Some (r, u) else None
                  | None \<Rightarrow> None)
      | None \<Rightarrow> None)"

lemma by_hash_None:
  "by_hash db h idle now = None \<longleftrightarrow>
    (case session_row_of db h now of Some (r, _) \<Rightarrow> sr_client r \<noteq> ''web'' \<and> sr_seen r \<le> now - idle | None \<Rightarrow> True)"
  by (auto simp: by_hash_def session_row_of_def split: option.splits)

lemma by_hash_Some:
  "by_hash db h idle now = Some s \<Longrightarrow> \<exists>r u. session_row_of db h now = Some (r, u) \<and> s_client s = sr_client r
     \<and> s_locked s = (sr_seen r \<le> now - idle) \<and> s_hash s = h \<and> s_user s = sr_user r \<and> s_groups s = sr_groups r
     \<and> s_kind s = ur_kind u \<and> s_sid s = ur_sid u \<and> s_identity s = ur_identity u
     \<and> s_memberships s = memberships_of db (sr_groups r) u \<and> s_roles s = roles_of db (sr_groups r) u
     \<and> s_confirmed s = (case sr_confirmed r of Some c \<Rightarrow> now - CONFIRMED_FOR < c | None \<Rightarrow> False)"
  by (auto simp: by_hash_def session_row_of_def split: option.splits if_splits)

text \<open>
  Which requests a page's routes take: exactly those whose cookie names a session of a browser
  that has not expired, of a user who is not blocked, and that was used within the idle time. An idle
  one is answered \<open>session_locked\<close>, everything else \<open>unauthenticated\<close>; the request changes at most
  when its own session was last used, and a request in the background not even that.
\<close>

theorem require_session_exact:
  fixes sha db headers background idle now now'
  defines "res \<equiv> require_session sha db headers background idle now now'"
    and "found \<equiv> (case server_cookie headers COOKIE_NAME of Some token \<Rightarrow> session_row_of db (sha token) now | None \<Rightarrow> None)"
  shows "(case found of
       None \<Rightarrow> snd res = Inl (problem Unauthenticated)
     | Some (r, u) \<Rightarrow>
         if sr_client r \<noteq> ''web'' then snd res = Inl (problem Unauthenticated)
         else if sr_seen r \<le> now - idle then snd res = Inl (problem SessionLocked)
         else \<exists>s. snd res = Inr s \<and> s_user s = sr_user r \<and> \<not> s_locked s)
    \<and> (fst res = db \<or> \<not> background \<and> (\<exists>token. server_cookie headers COOKIE_NAME = Some token
         \<and> fst res = update_row db (sha token) (\<lambda>r. if sr_seen r < now' - minute \<and> now' - idle < sr_seen r then r\<lparr>sr_seen := now'\<rparr> else r)))"
proof (cases "server_cookie headers COOKIE_NAME")
  case None
  then show ?thesis by (simp add: res_def found_def require_session_def any_session_def)
next
  case (Some token)
  show ?thesis
  proof (cases "by_hash db (sha token) idle now")
    case None
    with by_hash_None [of db "sha token" idle now] Some show ?thesis
      by (auto simp: res_def found_def require_session_def any_session_def find_session_def split: option.splits)
  next
    case (Some s)
    from by_hash_Some [OF this] Some \<open>server_cookie headers COOKIE_NAME = Some token\<close> show ?thesis
      by (auto simp: res_def found_def require_session_def any_session_def find_session_def touch_def)
  qed
qed

section \<open>A locked session stays locked\<close>

text \<open>
  Everything that happens to the table of sessions, with the time going by; \<open>h\<close> is the hash of one
  session's token. Tokens are random and SHA-256 does not collide: no other session gets that hash, and
  the session is not confirmed here.
\<close>

inductive session_step :: "(string \<Rightarrow> bytes) \<Rightarrow> instant \<Rightarrow> bytes \<Rightarrow> database \<times> instant \<Rightarrow> database \<times> instant \<Rightarrow> bool"
  for sha :: "string \<Rightarrow> bytes" and idle :: instant and h :: bytes where
  Wait: "t \<le> now \<Longrightarrow> session_step sha idle h (db, t) (db, now)"
| Find: "t \<le> now \<Longrightarrow> now \<le> now' \<Longrightarrow>
    session_step sha idle h (db, t) (fst (find_session sha db token idle keep_alive now now'), now')"
| Input: "t \<le> now \<Longrightarrow> act_idle a = idle \<Longrightarrow> session_step sha idle h (db, t) (fst (snd (input a db clock now failed)), now)"
| Create: "t \<le> now \<Longrightarrow> sha token \<noteq> h \<Longrightarrow>
    session_step sha idle h (db, t) (fst (create_session sha db token i user groups max_age now), now)"
| CreateExtension: "t \<le> now \<Longrightarrow> sha token \<noteq> h \<Longrightarrow>
    session_step sha idle h (db, t) (fst (create_extension sha db token i user groups max_age now), now)"
| Delete: "session_step sha idle h (db, t) (delete_session sha db token, t)"
| Purge: "t \<le> now \<Longrightarrow> now \<le> now' \<Longrightarrow> session_step sha idle h (db, t) (purge db idle now now', now')"
| KeepPassword: "session_step sha idle h (db, t) (fst (keep_sign_in_password sha ci b64url nonce key db token password), t)"
| Confirmed: "t \<le> now \<Longrightarrow> h' \<noteq> h \<Longrightarrow> session_step sha idle h (db, t) (session_confirmed db h' now, now)"
| ConfirmFailed: "session_confirm_failed db h' = Some (db', ended) \<Longrightarrow> session_step sha idle h (db, t) (db', t)"

fun locked_since :: "instant \<Rightarrow> bytes \<Rightarrow> instant \<Rightarrow> database \<times> instant \<Rightarrow> bool" where
  "locked_since idle h e (db, t) \<longleftrightarrow> hm_ok (db_sessions db)
     \<and> (\<forall>r. hm_get (db_sessions db) h = Some r \<longrightarrow> sr_seen r \<le> t - idle \<and> sr_expires r = e)"

lemma locked_update:
  assumes "locked_since idle h e (db, t)" "t \<le> now"
    and "\<And>r. hm_get (db_sessions db) h = Some r \<Longrightarrow> h' = h \<Longrightarrow> sr_seen (f r) = sr_seen r \<and> sr_expires (f r) = sr_expires r"
  shows "locked_since idle h e (update_row db h' f, now)"
  using assms by (force simp: sessions_update_row hm_get_update split: if_splits)

lemma input_db:
  obtains "fst (snd (input a db clock now failed)) = db"
  | r where "hm_get (db_sessions db) (act_hash a) = Some r" "now - act_idle a < sr_seen r"
    "fst (snd (input a db clock now failed))
      = update_row db (act_hash a) (\<lambda>r. if sr_seen r < now - minute then r\<lparr>sr_seen := now\<rparr> else r)"
proof (cases "input_due a clock \<and> \<not> failed \<and> input_hit a db now")
  case True
  then obtain r where "hm_get (db_sessions db) (act_hash a) = Some r" "now - act_idle a < sr_seen r"
    by (auto simp: input_hit_def split: option.splits)
  with True show ?thesis by (intro that(2)) (simp_all add: input_def)
next
  case False
  then show ?thesis by (intro that(1)) (auto simp: input_def)
qed

lemma locked_input:
  assumes "locked_since idle h e (db, t)" "t \<le> now" "act_idle a = idle"
  shows "locked_since idle h e (fst (snd (input a db clock now failed)), now)"
proof (cases rule: input_db [of a db clock now failed])
  case 1
  then show ?thesis using assms(1,2) by force
next
  case (2 r)
  show ?thesis
    unfolding 2(3) by (rule locked_update [OF assms(1,2)]) (use assms 2(1,2) in auto)
qed

lemma locked_remove:
  "locked_since idle h e (db, t) \<Longrightarrow> locked_since idle h e (db\<lparr>db_sessions := hm_remove h' (db_sessions db)\<rparr>, t)"
  by (auto simp: hm.get_del hm.ok_del split: if_splits)

lemma locked_confirm_failed:
  assumes "locked_since idle h e (db, t)" "session_confirm_failed db h' = Some (db', ended)"
  shows "locked_since idle h e (db', t)"
proof -
  have "locked_since idle h e (update_row db h' (\<lambda>r. r\<lparr>sr_failures := sr_failures r + 1\<rparr>), t)"
    using assms(1) by (rule locked_update) simp_all
  then show ?thesis
    using assms(2) locked_remove
    by (auto simp: session_confirm_failed_def Let_def simp del: locked_since.simps split: option.splits if_splits)
qed

lemma locked_create:
  "locked_since idle h e (db, t) \<Longrightarrow> t \<le> now \<Longrightarrow> h' \<noteq> h \<Longrightarrow> locked_since idle h e (fst (create_row db h' r), now)"
  by (force simp: create_row_def hm.get_put intro: hm.ok_put)

interpretation locked: machine "session_step sha idle h" "locked_since idle h e" for sha idle h e
proof
  fix s s' assume "session_step sha idle h s s'" "locked_since idle h e s"
  then show "locked_since idle h e s'"
  proof (induction rule: session_step.induct)
    case (Wait t now db)
    then show ?case by force
  next
    case (Find t now now' db token keep_alive)
    then have "locked_since idle h e (touch db (sha token) idle now', now')"
      unfolding touch_def by (intro locked_update [of idle h e db t]) auto
    with Find show ?case by (force simp: find_session_def split: option.splits)
  next
    case (Purge t now now' db)
    then show ?case by (force simp: purge_def hm_get_filter split: option.splits if_splits)
  next
    case (Delete db t token)
    then show ?case unfolding delete_session_def by (rule locked_remove)
  next
    case (KeepPassword db t ci b64url nonce key token password)
    then show ?case
      unfolding keep_sign_in_password_def Let_def fst_conv by (intro locked_update [of idle h e db t]) auto
  next
    case (Confirmed t now h' db)
    then show ?case unfolding session_confirmed_def by (intro locked_update [of idle h e db t]) auto
  qed (auto simp: create_session_def create_extension_def simp del: locked_since.simps
      intro: locked_input locked_create locked_confirm_failed)
qed


section \<open>Roles and grants name a user alike\<close>

lemma names_user_principal:
  "ur_sid u = None \<or> ur_identity u = None \<Longrightarrow> s_sid s = ur_sid u \<Longrightarrow> s_identity s = ur_identity u \<Longrightarrow>
    names_user u p \<longleftrightarrow> session_principal s = Some p"
  by (auto simp: names_user_def session_principal_def split: option.splits)

lemma memberships_exact:
  assumes "by_hash db h idle now = Some s" "\<forall>u. hm_get (db_users db) (s_user s) = Some u \<longrightarrow> ur_sid u = None \<or> ur_identity u = None"
  shows "set (s_memberships s) = {group_principal g | g p. (g, p) \<in> set (db_members db) \<and> (p \<in> set (s_groups s) \<or> session_principal s = Some p)}"
    and "set (s_roles s) = {role | p role. (p, role) \<in> set (db_roles db) \<and> p \<in> set (session_sids s)}"
proof -
  from by_hash_Some [OF assms(1)] obtain r u where s: "session_row_of db h now = Some (r, u)" "s_user s = sr_user r"
    "s_groups s = sr_groups r" "s_sid s = ur_sid u" "s_identity s = ur_identity u"
    "s_memberships s = memberships_of db (sr_groups r) u" "s_roles s = roles_of db (sr_groups r) u"
    by blast
  from s(1) have "hm_get (db_users db) (sr_user r) = Some u" by (auto simp: session_row_of_def split: option.splits if_splits)
  then have n: "names_user u p \<longleftrightarrow> session_principal s = Some p" for p
    using assms(2) s(2,4,5) by (intro names_user_principal) auto
  show "set (s_memberships s) = {group_principal g | g p. (g, p) \<in> set (db_members db) \<and> (p \<in> set (s_groups s) \<or> session_principal s = Some p)}"
    by (force simp: s(3,6) memberships_of_def n)
  show "set (s_roles s) = {role | p role. (p, role) \<in> set (db_roles db) \<and> p \<in> set (session_sids s)}"
    by (force simp: s(3,7) s(6)[symmetric] roles_of_def n session_sids_def split: option.splits)
qed

text \<open>
  Roles and grants see the same person. A session's subject, as grants are decided for it, has the
  principals of its directory groups, of remotehub's own groups that one of them or the user is in, and
  of the user; and the user is an administrator exactly if the account is a break-glass one or the role
  is assigned to one of those very principals. The auditor's role follows the same principals.
\<close>

theorem session_subject_exact:
  assumes "by_hash db h idle now = Some s"
    and "\<forall>u. hm_get (db_users db) (s_user s) = Some u \<longrightarrow> ur_sid u = None \<or> ur_identity u = None"
  shows "sids (session_subject s) = set (s_groups s) \<union> set_option (session_principal s)
      \<union> {group_principal g | g p. (g, p) \<in> set (db_members db) \<and> p \<in> set (s_groups s) \<union> set_option (session_principal s)}
    \<and> (admin (session_subject s) \<longleftrightarrow> s_kind s = ''break_glass''
        \<or> (\<exists>p \<in> sids (session_subject s). (p, ''administrator'') \<in> set (db_roles db)))
    \<and> (is_auditor s \<longleftrightarrow> admin (session_subject s) \<or> (\<exists>p \<in> sids (session_subject s). (p, ''auditor'') \<in> set (db_roles db)))"
proof -
  have sids: "set (session_sids s) = set (s_groups s) \<union> set_option (session_principal s)
      \<union> {group_principal g | g p. (g, p) \<in> set (db_members db) \<and> p \<in> set (s_groups s) \<union> set_option (session_principal s)}"
    using memberships_exact(1) [OF assms] by (auto simp: session_sids_def split: option.splits)
  have role: "has_role s x \<longleftrightarrow> (\<exists>p \<in> set (session_sids s). (p, site_role_as_str x) \<in> set (db_roles db))" for x
    using memberships_exact(2) [OF assms] by (auto simp: has_role_def list_ex_iff)
  show ?thesis
    unfolding session_subject_def is_auditor_def is_admin_def subject.select_convs role
    using sids by auto
qed

section \<open>Wrong confirmations\<close>

definition fail_confirmation :: "bytes \<Rightarrow> database \<Rightarrow> database" where
  "fail_confirmation h db = (case session_confirm_failed db h of Some (db', _) \<Rightarrow> db' | None \<Rightarrow> db)"

text \<open>
  C35: Five wrong confirmations in a row end the session. After \<open>n\<close> wrong answers the session is gone if
  there were five with those before, and otherwise only its count has grown; a right answer starts the
  count again and unlocks it; other sessions are not touched.
\<close>

theorem five_wrong_confirmations_end:
  assumes "hm_ok (db_sessions db)" and "hm_get (db_sessions db) h = Some r" and "0 \<le> sr_failures r" and "sr_failures r < 5"
  shows "hm_get (db_sessions ((fail_confirmation h ^^ n) db)) h
      = (if sr_failures r + int n \<ge> 5 then None else Some (r\<lparr>sr_failures := sr_failures r + int n\<rparr>))
    \<and> (\<forall>h'. h' \<noteq> h \<longrightarrow> hm_get (db_sessions ((fail_confirmation h ^^ n) db)) h' = hm_get (db_sessions db) h')
    \<and> hm_get (db_sessions (session_confirmed db h now)) h = Some (r\<lparr>sr_confirmed := Some now, sr_seen := now, sr_failures := 0\<rparr>)"
proof -
  have "hm_ok (db_sessions ((fail_confirmation h ^^ n) db))
    \<and> hm_get (db_sessions ((fail_confirmation h ^^ n) db)) h
      = (if sr_failures r + int n \<ge> 5 then None else Some (r\<lparr>sr_failures := sr_failures r + int n\<rparr>))
    \<and> (\<forall>h'. h' \<noteq> h \<longrightarrow> hm_get (db_sessions ((fail_confirmation h ^^ n) db)) h' = hm_get (db_sessions db) h')"
  proof (induction n)
    case 0
    then show ?case using assms by simp
  next
    case (Suc n)
    let ?d = "(fail_confirmation h ^^ n) db"
    show ?case
    proof (cases "sr_failures r + int n \<ge> 5")
      case True
      with Suc show ?thesis by (simp add: fail_confirmation_def session_confirm_failed_def)
    next
      case False
      with Suc show ?thesis
        by (auto simp: fail_confirmation_def session_confirm_failed_def MAX_FAILURES_def Let_def sessions_update_row
            hm_get_update hm.get_del hm.ok_del add.assoc)
    qed
  qed
  then show ?thesis using assms(2) by (simp add: session_confirmed_def sessions_update_row hm_get_update)
qed

section \<open>Input into a connection\<close>

text \<open>
  Input reaches a device only while the session is unlocked, as of at most a minute ago. What passes was
  found unlocked and not over by the check made for it, or by one less than sixty seconds before on the
  same clock; only if the database cannot be asked does the last answer hold on. What is refused is
  asked again after two seconds at the latest, and the check marks an unlocked session as used.
\<close>

theorem input_exact:
  assumes "input a db clock now failed = (a', db', passed)"
  shows "(passed \<longleftrightarrow> (if input_due a clock \<and> \<not> failed
      then \<exists>r. hm_get (db_sessions db) (act_hash a) = Some r \<and> now < sr_expires r \<and> now - act_idle a < sr_seen r
      else act_open a))
    \<and> (\<not> input_due a clock \<longleftrightarrow> (\<exists>c. act_checked a = Some c \<and> clock < c + (if act_open a then 60 else 2) * 1000000000))
    \<and> act_open a' = passed \<and> act_hash a' = act_hash a \<and> (input_due a clock \<longrightarrow> act_checked a' = Some clock)
    \<and> (input_due a clock \<and> \<not> failed \<and> passed \<longrightarrow> hm_get (db_sessions db') (act_hash a)
      = map_option (\<lambda>r. if sr_seen r < now - minute then r\<lparr>sr_seen := now\<rparr> else r) (hm_get (db_sessions db) (act_hash a)))"
proof -
  have due: "\<not> input_due a clock \<longleftrightarrow> (\<exists>c. act_checked a = Some c \<and> clock < c + (if act_open a then 60 else 2) * 1000000000)"
    by (auto simp: input_due_def Let_def split: option.splits)
  have hit: "input_hit a db now \<longleftrightarrow> (\<exists>r. hm_get (db_sessions db) (act_hash a) = Some r \<and> now < sr_expires r \<and> now - act_idle a < sr_seen r)"
    by (auto simp: input_hit_def split: option.splits)
  show ?thesis
    unfolding due [symmetric] hit [symmetric]
    using assms by (auto simp: input_def sessions_update_row hm_get_update split: if_splits)
qed

section \<open>The kept sign-in password\<close>

text \<open>
  The sign-in password comes back with its cookies and only with them. Kept with a session, it is
  read again by a request with that session's cookie and the key's; a request without the key, or with
  a key that is another session's, does not get it.
\<close>

theorem sign_in_password_roundtrip:
  assumes "aead_ok ci" and "aead_binds ci" and "length key = 32" and "length nonce = NONCE_LEN"
    and "\<And>k. b64url_decode (b64url k) = Some k"
    and "hm_get (db_sessions db) (sha token) = Some r"
    and "keep_sign_in_password sha ci b64url nonce key db token password = (db', text)"
    and "server_cookie headers COOKIE_NAME = Some token"
  shows "(server_cookie headers LOGIN_KEY_COOKIE = Some text \<longrightarrow> sign_in_password sha ci b64url_decode db' headers = Some password)
    \<and> (server_cookie headers LOGIN_KEY_COOKIE = None \<longrightarrow> sign_in_password sha ci b64url_decode db' headers = None)
    \<and> (\<forall>key'. server_cookie headers LOGIN_KEY_COOKIE = Some (b64url key') \<longrightarrow> key' \<noteq> key \<longrightarrow>
         sign_in_password sha ci b64url_decode db' headers = None)"
proof -
  have row: "\<exists>r. hm_get (db_sessions db') (sha token) = Some r \<and> sr_secret r = Some (encrypt ci nonce key (detached_aad (sha token)) password)"
    and key_text: "text = b64url key"
    using assms(6,7) by (auto simp: keep_sign_in_password_def Let_def detached_seal_def sessions_update_row hm_get_update)
  have "decrypt ci key (detached_aad (sha token)) (encrypt ci nonce key (detached_aad (sha token)) password) = Inr password"
    using assms(1,3,4) by (intro decrypt_encrypt) (simp_all add: KEY_LEN_def)
  moreover have "decrypt ci key' (detached_aad (sha token)) (encrypt ci nonce key (detached_aad (sha token)) password) = Inl VaultOpen"
    if "key' \<noteq> key" for key' using assms(2,4) that by (intro decrypt_other_aad) auto
  ultimately show ?thesis
    using row assms(3,5,8) by (auto simp: sign_in_password_def key_text detached_open_def)
qed

section \<open>A small instance\<close>

definition sample_user :: user_row where
  "sample_user = \<lparr>ur_kind = ''directory'', ur_sid = Some ''S-1-5-21-7'', ur_guid = None, ur_username = ''bob'', ur_display_name = ''Bob'',
     ur_email = None, ur_upn = None, ur_identity = None, ur_last_sign_in = None, ur_blocked = False\<rparr>"

definition sample_sessions :: database where
  "sample_sessions = empty_db\<lparr>db_users := [(5, sample_user)], db_sessions := [(as_bytes ''tok'', new_row 1 ''web'' 5 [''S-1-5-21-9''] 0 1000)],
     db_members := [(3, ''S-1-5-21-9'')], db_roles := [(group_principal 3, ''administrator'')]\<rparr>"

lemma sample_sessions_row:
  "hm_ok (db_sessions sample_sessions)" "hm_get (db_sessions sample_sessions) (as_bytes ''tok'') = Some (new_row 1 ''web'' 5 [''S-1-5-21-9''] 0 1000)"
  by (simp_all add: sample_sessions_def hm_ok_def)

lemma cookie_pair:
  assumes "visible_ascii (n @ v)" "CHR '';'' \<notin> set (n @ v)" "CHR ''='' \<notin> set n"
  shows "filter_map (\<lambda>pair. split_once CHR ''='' (trim pair)) (split_on CHR '';'' (n @ CHR ''='' # v)) = [(n, v)]"
proof -
  have "split_on CHR '';'' (n @ CHR ''='' # v) = [n @ CHR ''='' # v]" using assms(2) by (intro split_by_id) auto
  moreover have "trim (n @ CHR ''='' # v) = n @ CHR ''='' # v" using assms(1) by (intro trim_visible_ascii) simp
  ultimately show ?thesis using split_once_append [OF assms(3), of v] by (simp add: List.map_filter_simps)
qed

lemma sample_cookie: "server_cookie [''__Host-remotehub-session=tok''] COOKIE_NAME = Some ''tok''"
proof -
  have "filter_map (\<lambda>pair. split_once CHR ''='' (trim pair)) (split_on CHR '';'' (COOKIE_NAME @ CHR ''='' # ''tok'')) = [(COOKIE_NAME, ''tok'')]"
    by (rule cookie_pair) (simp_all add: COOKIE_NAME_def)
  then show ?thesis by (simp add: server_cookie_def COOKIE_NAME_def)
qed


theorem session_subject_exact_witness:
  "\<exists>s. by_hash sample_sessions (as_bytes ''tok'') 60 10 = Some s \<and> admin (session_subject s) \<and> group_principal 3 \<in> sids (session_subject s)"
proof -
  have "\<exists>s. by_hash sample_sessions (as_bytes ''tok'') 60 10 = Some s \<and> s_user s = 5 \<and> s_groups s = [''S-1-5-21-9'']"
    by (simp add: by_hash_def sample_sessions_def sample_user_def new_row_def)
  then obtain s where s: "by_hash sample_sessions (as_bytes ''tok'') 60 10 = Some s" "s_user s = 5" "s_groups s = [''S-1-5-21-9'']"
    by blast
  have u: "\<forall>u. hm_get (db_users sample_sessions) (s_user s) = Some u \<longrightarrow> ur_sid u = None \<or> ur_identity u = None"
    by (auto simp: sample_sessions_def s(2) sample_user_def)
  have m: "(3, ''S-1-5-21-9'') \<in> set (db_members sample_sessions)" and r: "(group_principal 3, ''administrator'') \<in> set (db_roles sample_sessions)"
    by (simp_all add: sample_sessions_def)
  note e = session_subject_exact [OF s(1) u]
  have "group_principal 3 \<in> sids (session_subject s)" unfolding e [THEN conjunct1] using m s(3) by auto
  moreover from this have "admin (session_subject s)" unfolding e [THEN conjunct2, THEN conjunct1] using r by blast
  ultimately show ?thesis using s(1) by blast
qed

theorem five_wrong_confirmations_end_witness:
  "hm_get (db_sessions ((fail_confirmation (as_bytes ''tok'') ^^ 5) sample_sessions)) (as_bytes ''tok'') = None"
  using five_wrong_confirmations_end [OF sample_sessions_row, of 5 0] by (simp add: new_row_def)

theorem input_exact_witness:
  "snd (snd (input \<lparr>act_hash = as_bytes ''tok'', act_idle = 60, act_checked = None, act_open = True\<rparr> sample_sessions 0 30 False)) = True"
proof -
  let ?a = "\<lparr>act_hash = as_bytes ''tok'', act_idle = 60, act_checked = None, act_open = True\<rparr>"
  obtain a' db' p where i: "input ?a sample_sessions 0 30 False = (a', db', p)" by (metis surj_pair)
  have "input_due ?a 0" by (simp add: input_due_def)
  with input_exact [OF i] i sample_sessions_row(2) show ?thesis by (simp add: new_row_def)
qed

lemma filter_map_append: "filter_map f (xs @ ys) = filter_map f xs @ filter_map f ys"
  by (simp add: map_filter_def)

lemma sample_encode_no_semicolon: "CHR '';'' \<notin> set (sample_encode s)"
proof -
  have "char_of (65 + n) \<noteq> CHR '';''" if "n < 16" for n :: nat
    using that by (auto dest: arg_cong [where f = "of_char :: char \<Rightarrow> nat"])
  then have "char_of (65 + unat b div 16) \<noteq> CHR '';''" "char_of (65 + unat b mod 16) \<noteq> CHR '';''" for b :: u8
    using byte_nibbles [of b] by simp_all
  then show ?thesis by (induction s) (auto simp: sample_encode_def dest: sym)
qed

theorem sign_in_password_roundtrip_witness:
  "\<exists>db' kt. keep_sign_in_password as_bytes sample_aead sample_encode (replicate 24 1) (replicate 32 0) sample_sessions ''tok'' [7, 8] = (db', kt)
    \<and> sign_in_password as_bytes sample_aead sample_decode db' [COOKIE_NAME @ ''='' @ ''tok'', LOGIN_KEY_COOKIE @ ''='' @ kt] = Some [7, 8]"
proof -
  obtain db' kt where k: "keep_sign_in_password as_bytes sample_aead sample_encode (replicate 24 1) (replicate 32 0) sample_sessions ''tok'' [7, 8] = (db', kt)"
    by force
  then have kt: "kt = sample_encode (replicate 32 0)" by (auto simp: keep_sign_in_password_def Let_def)
  then have ne: "kt \<noteq> []" by (simp add: sample_encode_def)
  let ?h = "[COOKIE_NAME @ ''='' @ ''tok'', LOGIN_KEY_COOKIE @ ''='' @ kt]"
  have "filter_map (\<lambda>pair. split_once CHR ''='' (trim pair)) (split_on CHR '';'' (COOKIE_NAME @ CHR ''='' # ''tok'')) = [(COOKIE_NAME, ''tok'')]"
    by (rule cookie_pair) (simp_all add: COOKIE_NAME_def)
  moreover have "filter_map (\<lambda>pair. split_once CHR ''='' (trim pair)) (split_on CHR '';'' (LOGIN_KEY_COOKIE @ CHR ''='' # kt)) = [(LOGIN_KEY_COOKIE, kt)]"
    using sample_encode_visible [of "replicate 32 0"] sample_encode_no_semicolon [of "replicate 32 0"] unfolding kt
    by (intro cookie_pair) (simp_all add: LOGIN_KEY_COOKIE_def)
  moreover have "COOKIE_NAME \<noteq> LOGIN_KEY_COOKIE" by (simp add: COOKIE_NAME_def LOGIN_KEY_COOKIE_def)
  ultimately have "server_cookie ?h COOKIE_NAME = Some ''tok''" "server_cookie ?h LOGIN_KEY_COOKIE = Some kt"
    using ne by (simp_all add: server_cookie_def filter_map_append)
  with sign_in_password_roundtrip [OF sample_aead_ok _ _ sample_decode_encode sample_sessions_row(2) k, of ?h] k
  show ?thesis by (simp add: NONCE_LEN_def)
qed

end
