(* ===== verification/Webauthn.thy ===== *)
theory Webauthn
  imports Vault
begin

unbundle bit_operations_syntax

text \<open>
  Security keys and passkeys, \<^verbatim>\<open>crates/server/src/webauthn.rs\<close>: the checks of a registration and of
  a signature, and the reader of COSE keys. Base64, JSON, SHA-256 and ECDSA come from other crates
  and are parameters.
\<close>

section \<open>Parameters\<close>

text \<open>
  \<open>wc_decode\<close> is base64url without padding, \<open>wc_client\<close> reads \<open>clientDataJSON\<close> (type, challenge and
  origin), \<open>wc_spki\<close> turns a public key in DER into its uncompressed point, \<open>wc_point\<close> says
  whether bytes are a point, \<open>wc_der\<close> whether they are a signature, and \<open>wc_verify\<close> checks one.
\<close>

record webauthn_crypto =
  wc_decode :: "string \<Rightarrow> bytes option"
  wc_client :: "bytes \<Rightarrow> (string \<times> string \<times> string) option"
  wc_sha256 :: "bytes \<Rightarrow> bytes"
  wc_spki :: "bytes \<Rightarrow> bytes option"
  wc_point :: "bytes \<Rightarrow> bool"
  wc_der :: "bytes \<Rightarrow> bool"
  wc_verify :: "bytes \<Rightarrow> bytes \<Rightarrow> bytes \<Rightarrow> bool"

section \<open>The relying party\<close>

definition ES256 :: int where "ES256 = -7"

record relying_party =
  rp_id :: string
  rp_origin :: string

text \<open>\<open>split_once("://")\<close>.\<close>

fun split_scheme :: "string \<Rightarrow> string option" where
  "split_scheme [] = None"
| "split_scheme (c # s) = (if starts_with (c # s) ''://'' then Some (drop 3 (c # s)) else split_scheme s)"

definition relying_party_of :: "string \<Rightarrow> relying_party" where
  "relying_party_of origin =
     (let rest = (case split_scheme origin of Some r \<Rightarrow> r | None \<Rightarrow> origin)
      in \<lparr>rp_id = hd (split_by (\<lambda>c. c = CHR ''/'' \<or> c = CHR '':'') rest), rp_origin = trim_end_matches (CHR ''/'') origin\<rparr>)"

datatype webauthn_error = Malformed string | Mismatch | NotPresent | Algorithm | BadSignature | Counter

definition decode_b64 :: "webauthn_crypto \<Rightarrow> string \<Rightarrow> string \<Rightarrow> webauthn_error + bytes" where
  "decode_b64 wc text what =
     (case wc_decode wc (trim_end_matches (CHR ''='') text) of Some b \<Rightarrow> Inr b | None \<Rightarrow> Inl (Malformed what))"

definition check_client_data ::
  "webauthn_crypto \<Rightarrow> relying_party \<Rightarrow> string \<Rightarrow> bytes \<Rightarrow> bytes \<Rightarrow> webauthn_error + unit" where
  "check_client_data wc rp kind challenge client_data =
     (case wc_client wc client_data of
        None \<Rightarrow> Inl (Malformed ''clientDataJSON'')
      | Some (data_kind, data_challenge, data_origin) \<Rightarrow>
          (case decode_b64 wc data_challenge ''challenge'' of
             Inl e \<Rightarrow> Inl e
           | Inr sent \<Rightarrow>
               if data_kind \<noteq> kind \<or> sent \<noteq> challenge \<or> data_origin \<noteq> rp_origin rp then Inl Mismatch else Inr ()))"

text \<open>\<open>u32::from_be_bytes\<close> and \<open>u16::from_be_bytes\<close>.\<close>

definition be32 :: "u8 \<Rightarrow> u8 \<Rightarrow> u8 \<Rightarrow> u8 \<Rightarrow> nat" where
  "be32 a b c d = unat a * 2 ^ 24 + unat b * 2 ^ 16 + unat c * 2 ^ 8 + unat d"

definition be16 :: "u8 \<Rightarrow> u8 \<Rightarrow> nat" where
  "be16 a b = unat a * 2 ^ 8 + unat b"

definition check_authenticator_data :: "webauthn_crypto \<Rightarrow> relying_party \<Rightarrow> bytes \<Rightarrow> webauthn_error + nat" where
  "check_authenticator_data wc rp data =
     (if length data < 37 then Inl (Malformed ''authenticatorData'')
      else if take 32 data \<noteq> wc_sha256 wc (as_bytes (rp_id rp)) then Inl Mismatch
      else if data ! 32 AND 1 = 0 then Inl NotPresent
      else Inr (be32 (data ! 33) (data ! 34) (data ! 35) (data ! 36)))"

section \<open>Registration\<close>

record registration =
  rg_raw_id :: string
  rg_client_data :: string
  rg_authenticator_data :: string
  rg_public_key :: string
  rg_algorithm :: int

record new_key =
  nk_credential :: bytes
  nk_public :: bytes
  nk_counter :: nat

definition register :: "webauthn_crypto \<Rightarrow> relying_party \<Rightarrow> bytes \<Rightarrow> registration \<Rightarrow> webauthn_error + new_key" where
  "register wc rp challenge answer =
     (if rg_algorithm answer \<noteq> ES256 then Inl Algorithm
      else case decode_b64 wc (rg_client_data answer) ''clientDataJSON'' of
        Inl e \<Rightarrow> Inl e
      | Inr client \<Rightarrow>
     (case check_client_data wc rp ''webauthn.create'' challenge client of
        Inl e \<Rightarrow> Inl e
      | Inr _ \<Rightarrow>
     (case decode_b64 wc (rg_authenticator_data answer) ''authenticatorData'' of
        Inl e \<Rightarrow> Inl e
      | Inr data \<Rightarrow>
     (case check_authenticator_data wc rp data of
        Inl e \<Rightarrow> Inl e
      | Inr counter \<Rightarrow>
          if data ! 32 AND 64 = 0 \<or> length data < 55 then Inl (Malformed ''authenticatorData'')
          else
            (let len = be16 (data ! 53) (data ! 54)
             in if length data < 55 + len then Inl (Malformed ''authenticatorData'')
                else
                  (let credential_id = take len (drop 55 data)
                   in case decode_b64 wc (rg_raw_id answer) ''rawId'' of
                        Inl e \<Rightarrow> Inl e
                      | Inr raw \<Rightarrow>
                          if credential_id \<noteq> raw then Inl Mismatch
                          else case decode_b64 wc (rg_public_key answer) ''publicKey'' of
                            Inl e \<Rightarrow> Inl e
                          | Inr der \<Rightarrow>
                              (case wc_spki wc der of
                                 None \<Rightarrow> Inl Algorithm
                               | Some p \<Rightarrow> Inr \<lparr>nk_credential = credential_id, nk_public = p, nk_counter = counter\<rparr>)))))))"

section \<open>Signatures\<close>

record assertion =
  as_raw_id :: string
  as_client_data :: string
  as_authenticator_data :: string
  as_signature :: string

definition credential_id :: "webauthn_crypto \<Rightarrow> assertion \<Rightarrow> webauthn_error + bytes" where
  "credential_id wc answer = decode_b64 wc (as_raw_id answer) ''rawId''"

definition verify_assertion ::
  "webauthn_crypto \<Rightarrow> relying_party \<Rightarrow> bytes \<Rightarrow> bytes \<Rightarrow> nat \<Rightarrow> assertion \<Rightarrow> webauthn_error + nat" where
  "verify_assertion wc rp challenge public_key stored_counter answer =
     (case decode_b64 wc (as_client_data answer) ''clientDataJSON'' of
        Inl e \<Rightarrow> Inl e
      | Inr client_data \<Rightarrow>
     (case check_client_data wc rp ''webauthn.get'' challenge client_data of
        Inl e \<Rightarrow> Inl e
      | Inr _ \<Rightarrow>
     (case decode_b64 wc (as_authenticator_data answer) ''authenticatorData'' of
        Inl e \<Rightarrow> Inl e
      | Inr data \<Rightarrow>
     (case check_authenticator_data wc rp data of
        Inl e \<Rightarrow> Inl e
      | Inr counter \<Rightarrow>
          if \<not> wc_point wc public_key then Inl (Malformed ''stored key'')
          else case decode_b64 wc (as_signature answer) ''signature'' of
            Inl e \<Rightarrow> Inl e
          | Inr signature \<Rightarrow>
              if \<not> wc_der wc signature then Inl (Malformed ''signature'')
              else if \<not> wc_verify wc public_key (data @ wc_sha256 wc client_data) signature then Inl BadSignature
              else if (counter \<noteq> 0 \<or> stored_counter \<noteq> 0) \<and> counter \<le> stored_counter then Inl Counter
              else Inr counter))))"

definition user_verified :: "webauthn_crypto \<Rightarrow> assertion \<Rightarrow> webauthn_error + bool" where
  "user_verified wc answer =
     (case decode_b64 wc (as_authenticator_data answer) ''authenticatorData'' of
        Inl e \<Rightarrow> Inl e
      | Inr data \<Rightarrow> if 32 < length data then Inr (data ! 32 AND 4 \<noteq> 0) else Inl (Malformed ''authenticatorData''))"

section \<open>COSE keys\<close>

text \<open>The reader's position is what is left of the data.\<close>

definition cbor_byte :: "bytes \<Rightarrow> (u8 \<times> bytes) option" where
  "cbor_byte s = (case s of b # r \<Rightarrow> Some (b, r) | [] \<Rightarrow> None)"

definition cbor_next :: "bytes \<Rightarrow> ((nat \<times> nat) \<times> bytes) option" where
  "cbor_next s =
     (case cbor_byte s of
        None \<Rightarrow> None
      | Some (first, s) \<Rightarrow>
          (let info = unat (first AND 31); major = unat (drop_bit 5 first)
           in if info \<le> 23 then Some ((major, info), s)
              else if info = 24 then map_option (\<lambda>(a, s). ((major, unat a), s)) (cbor_byte s)
              else if info = 25 then
                (case cbor_byte s of
                   None \<Rightarrow> None
                 | Some (a, s) \<Rightarrow> map_option (\<lambda>(b, s). ((major, be16 a b), s)) (cbor_byte s))
              else None))"

definition cbor_head :: "nat \<Rightarrow> bytes \<Rightarrow> (nat \<times> bytes) option" where
  "cbor_head major s =
     (case cbor_next s of Some ((found, argument), s) \<Rightarrow> if found = major then Some (argument, s) else None | None \<Rightarrow> None)"

definition cbor_int :: "bytes \<Rightarrow> (int \<times> bytes) option" where
  "cbor_int s =
     (case cbor_next s of
        Some ((major, n), s) \<Rightarrow>
          if major = 0 then Some (int n, s) else if major = 1 then Some (- 1 - int n, s) else None
      | None \<Rightarrow> None)"

definition cbor_take :: "nat \<Rightarrow> bytes \<Rightarrow> (bytes \<times> bytes) option" where
  "cbor_take n s = (if n \<le> length s then Some (take n s, drop n s) else None)"

definition cbor_bytes :: "bytes \<Rightarrow> (bytes \<times> bytes) option" where
  "cbor_bytes s = (case cbor_head 2 s of Some (n, s) \<Rightarrow> cbor_take n s | None \<Rightarrow> None)"

definition cbor_skip :: "bytes \<Rightarrow> bytes option" where
  "cbor_skip s =
     (case cbor_next s of
        Some ((major, n), s) \<Rightarrow>
          if major = 0 \<or> major = 1 then Some s
          else if major = 2 \<or> major = 3 then map_option snd (cbor_take n s)
          else None
      | None \<Rightarrow> None)"

record cose =
  co_kty :: "int option"
  co_alg :: "int option"
  co_crv :: "int option"
  co_x :: "bytes option"
  co_y :: "bytes option"

fun cose_entries :: "nat \<Rightarrow> bytes \<Rightarrow> cose \<Rightarrow> cose option" where
  "cose_entries 0 s c = Some c"
| "cose_entries (Suc n) s c =
     (case cbor_int s of
        None \<Rightarrow> None
      | Some (label, s) \<Rightarrow>
          if label = 1 then (case cbor_int s of Some (i, s) \<Rightarrow> cose_entries n s (c\<lparr>co_kty := Some i\<rparr>) | None \<Rightarrow> None)
          else if label = 3 then (case cbor_int s of Some (i, s) \<Rightarrow> cose_entries n s (c\<lparr>co_alg := Some i\<rparr>) | None \<Rightarrow> None)
          else if label = - 1 then (case cbor_int s of Some (i, s) \<Rightarrow> cose_entries n s (c\<lparr>co_crv := Some i\<rparr>) | None \<Rightarrow> None)
          else if label = - 2 then (case cbor_bytes s of Some (b, s) \<Rightarrow> cose_entries n s (c\<lparr>co_x := Some b\<rparr>) | None \<Rightarrow> None)
          else if label = - 3 then (case cbor_bytes s of Some (b, s) \<Rightarrow> cose_entries n s (c\<lparr>co_y := Some b\<rparr>) | None \<Rightarrow> None)
          else (case cbor_skip s of Some s \<Rightarrow> cose_entries n s c | None \<Rightarrow> None))"

definition cose_es256 :: "webauthn_crypto \<Rightarrow> bytes \<Rightarrow> bytes option" where
  "cose_es256 wc data =
     (case cbor_head 5 data of
        None \<Rightarrow> None
      | Some (entries, s) \<Rightarrow>
     (case cose_entries entries s \<lparr>co_kty = None, co_alg = None, co_crv = None, co_x = None, co_y = None\<rparr> of
        None \<Rightarrow> None
      | Some c \<Rightarrow>
          if (co_kty c, co_alg c, co_crv c) \<noteq> (Some 2, Some ES256, Some 1) then None
          else case (co_x c, co_y c) of
            (Some x, Some y) \<Rightarrow>
              if length x \<noteq> 32 \<or> length y \<noteq> 32 then None
              else
                (let p = 4 # x @ y
                 in if wc_point wc p then Some p else None)
          | _ \<Rightarrow> None))"

section \<open>What is accepted\<close>

lemma decode_b64_Inr: "decode_b64 wc text what = Inr b \<longleftrightarrow> wc_decode wc (trim_end_matches (CHR ''='') text) = Some b"
  by (simp add: decode_b64_def split: option.splits)

lemma check_client_data_Inr:
  "check_client_data wc rp kind challenge client = Inr u \<longleftrightarrow>
    (\<exists>sent. wc_client wc client = Some (kind, sent, rp_origin rp) \<and> decode_b64 wc sent ''challenge'' = Inr challenge)"
  by (auto simp: check_client_data_def split: option.splits sum.splits prod.splits)

lemma check_authenticator_data_Inr:
  "check_authenticator_data wc rp data = Inr c \<longleftrightarrow> 37 \<le> length data \<and> take 32 data = wc_sha256 wc (as_bytes (rp_id rp))
    \<and> data ! 32 AND 1 \<noteq> 0 \<and> c = be32 (data ! 33) (data ! 34) (data ! 35) (data ! 36)"
  by (auto simp: check_authenticator_data_def)

text \<open>
  What a signature of a key says when it is accepted: it is over this challenge at this origin, by
  someone present, with the stored key, and its counter has grown unless the key has none.
\<close>

definition assertion_holds ::
  "webauthn_crypto \<Rightarrow> relying_party \<Rightarrow> bytes \<Rightarrow> bytes \<Rightarrow> nat \<Rightarrow> assertion \<Rightarrow> nat \<Rightarrow> bool" where
  "assertion_holds wc rp challenge public_key stored answer counter \<longleftrightarrow>
     (\<exists>client sent data signature.
        decode_b64 wc (as_client_data answer) ''clientDataJSON'' = Inr client
        \<and> wc_client wc client = Some (''webauthn.get'', sent, rp_origin rp) \<and> decode_b64 wc sent ''challenge'' = Inr challenge
        \<and> decode_b64 wc (as_authenticator_data answer) ''authenticatorData'' = Inr data \<and> 37 \<le> length data
        \<and> take 32 data = wc_sha256 wc (as_bytes (rp_id rp)) \<and> data ! 32 AND 1 \<noteq> 0
        \<and> counter = be32 (data ! 33) (data ! 34) (data ! 35) (data ! 36)
        \<and> decode_b64 wc (as_signature answer) ''signature'' = Inr signature \<and> wc_der wc signature
        \<and> wc_point wc public_key \<and> wc_verify wc public_key (data @ wc_sha256 wc client) signature
        \<and> (counter = 0 \<and> stored = 0 \<or> stored < counter))"

lemma verify_assertion_Inr:
  "verify_assertion wc rp challenge public_key stored answer = Inr counter
    \<longleftrightarrow> assertion_holds wc rp challenge public_key stored answer counter"
  unfolding verify_assertion_def assertion_holds_def bind_Inr_iff check_client_data_Inr check_authenticator_data_Inr
  unfolding guard_Inr_iff bind_Inr_iff by (simp add: not_le) blast

section \<open>COSE keys read back\<close>

datatype cose_value = CInt int | CBytes bytes | CText bytes

text \<open>The head of an item as RFC 8949 writes it, and the map of a key.\<close>

definition head_bytes :: "nat \<Rightarrow> nat \<Rightarrow> bytes" where
  "head_bytes major n =
     (if n < 24 then [of_nat (major * 32 + n)]
      else if n < 256 then [of_nat (major * 32 + 24), of_nat n]
      else [of_nat (major * 32 + 25), of_nat (n div 256), of_nat (n mod 256)])"

definition int_bytes :: "int \<Rightarrow> bytes" where
  "int_bytes i = (if 0 \<le> i then head_bytes 0 (nat i) else head_bytes 1 (nat (- 1 - i)))"

fun value_bytes :: "cose_value \<Rightarrow> bytes" where
  "value_bytes (CInt i) = int_bytes i"
| "value_bytes (CBytes b) = head_bytes 2 (length b) @ b"
| "value_bytes (CText t) = head_bytes 3 (length t) @ t"

definition map_bytes :: "(int \<times> cose_value) list \<Rightarrow> bytes" where
  "map_bytes es = head_bytes 5 (length es) @ concat (map (\<lambda>(l, v). int_bytes l @ value_bytes v) es)"

fun value_small :: "cose_value \<Rightarrow> bool" where
  "value_small (CInt i) \<longleftrightarrow> - 65536 \<le> i \<and> i < 65536"
| "value_small (CBytes b) \<longleftrightarrow> length b < 65536"
| "value_small (CText t) \<longleftrightarrow> length t < 65536"

text \<open>An entry the reader knows has the kind of value it reads there.\<close>

definition entry_ok :: "int \<times> cose_value \<Rightarrow> bool" where
  "entry_ok e \<longleftrightarrow> - 65536 \<le> fst e \<and> fst e < 65536 \<and> value_small (snd e)
     \<and> (fst e \<in> {1, 3, - 1} \<longrightarrow> (\<exists>i. snd e = CInt i)) \<and> (fst e \<in> {- 2, - 3} \<longrightarrow> (\<exists>b. snd e = CBytes b))"

lemma byte_fields:
  "m < 8 \<Longrightarrow> n < 32 \<Longrightarrow> unat ((of_nat (m * 32 + n) :: u8) AND 31) = n \<and> unat (drop_bit 5 (of_nat (m * 32 + n) :: u8)) = m"
proof -
  assume m: "m < 8" "n < 32"
  then have u: "unat (of_nat (m * 32 + n) :: u8) = m * 32 + n"
    by (simp only: unat_of_nat) (simp add: take_bit_nat_eq_self)
  have "unat ((of_nat (m * 32 + n) :: u8) AND 31) = (m * 32 + n) AND 31"
    by (simp only: unsigned_and_eq u) simp
  also have "(31 :: nat) = mask 5" by (simp add: mask_eq_exp_minus_1)
  also have "(m * 32 + n) AND mask 5 = (m * 32 + n) mod 32"
    by (simp only: take_bit_eq_mod flip: take_bit_eq_mask) simp
  finally have "unat ((of_nat (m * 32 + n) :: u8) AND 31) = n" using m by simp
  moreover have "unat (drop_bit 5 (of_nat (m * 32 + n) :: u8)) = m"
    using m by (simp only: unsigned_drop_bit_eq u) (simp add: drop_bit_eq_div take_bit_nat_eq_self)
  ultimately show ?thesis ..
qed

lemma cbor_next_head: "major < 8 \<Longrightarrow> n < 65536 \<Longrightarrow> cbor_next (head_bytes major n @ s) = Some ((major, n), s)"
proof -
  assume m: "major < 8" and n: "n < 65536"
  have small: "unat (of_nat k :: u8) = k" if "k < 256" for k
    using that by (simp add: unat_of_nat take_bit_nat_eq_self)
  have hi: "n div 256 < 256" using n by (simp add: less_mult_imp_div_less)
  consider "n < 24" | "24 \<le> n" "n < 256" | "256 \<le> n" by linarith
  then show ?thesis
  proof cases
    case 1
    with byte_fields [of major n] m show ?thesis by (simp add: head_bytes_def cbor_next_def cbor_byte_def Let_def)
  next
    case 2
    with byte_fields [of major 24] m small [of n] show ?thesis by (simp add: head_bytes_def cbor_next_def cbor_byte_def Let_def)
  next
    case 3
    with byte_fields [of major 25] m small [OF hi] small [of "n mod 256"] show ?thesis
      by (simp add: head_bytes_def cbor_next_def cbor_byte_def Let_def be16_def)
  qed
qed

lemma cbor_int_bytes: "- 65536 \<le> i \<Longrightarrow> i < 65536 \<Longrightarrow> cbor_int (int_bytes i @ s) = Some (i, s)"
  by (cases "0 \<le> i") (simp_all add: int_bytes_def cbor_int_def cbor_next_head nat_less_iff)

lemma cbor_bytes_value: "length b < 65536 \<Longrightarrow> cbor_bytes (value_bytes (CBytes b) @ s) = Some (b, s)"
  by (simp add: cbor_bytes_def cbor_head_def cbor_next_head cbor_take_def)

lemma cbor_skip_value: "value_small v \<Longrightarrow> cbor_skip (value_bytes v @ s) = Some s"
  by (cases v) (auto simp: cbor_skip_def int_bytes_def cbor_next_head cbor_take_def nat_less_iff)

text \<open>What the entries of a key set, the later ones over the earlier ones.\<close>

definition cose_set :: "int \<times> cose_value \<Rightarrow> cose \<Rightarrow> cose" where
  "cose_set e c =
     (case e of
        (l, CInt i) \<Rightarrow>
          if l = 1 then c\<lparr>co_kty := Some i\<rparr> else if l = 3 then c\<lparr>co_alg := Some i\<rparr>
          else if l = - 1 then c\<lparr>co_crv := Some i\<rparr> else c
      | (l, CBytes b) \<Rightarrow> if l = - 2 then c\<lparr>co_x := Some b\<rparr> else if l = - 3 then c\<lparr>co_y := Some b\<rparr> else c
      | _ \<Rightarrow> c)"

lemma cose_entries_bytes:
  "list_all entry_ok es \<Longrightarrow>
    cose_entries (length es) (concat (map (\<lambda>(l, v). int_bytes l @ value_bytes v) es) @ s) c = Some (fold cose_set es c)"
proof (induction es arbitrary: c)
  case (Cons e es)
  obtain l v where e: "e = (l, v)" by force
  let ?r = "concat (map (\<lambda>(l, v). int_bytes l @ value_bytes v) es) @ s"
  have ok: "entry_ok (l, v)" and l: "- 65536 \<le> l" "l < 65536" and v: "value_small v"
    using Cons.prems by (auto simp: e entry_ok_def)
  have "cose_entries (Suc (length es)) (int_bytes l @ value_bytes v @ ?r) c = cose_entries (length es) ?r (cose_set (l, v) c)"
  proof (cases v)
    case (CInt i)
    then have "l \<notin> {- 2, - 3}" using ok by (auto simp: entry_ok_def)
    with CInt v show ?thesis
      using cbor_skip_value [of "CInt i"] by (auto simp: cbor_int_bytes [OF l] cbor_int_bytes cose_set_def)
  next
    case (CBytes b)
    then have "l \<notin> {1, 3, - 1}" using ok by (auto simp: entry_ok_def)
    with CBytes v show ?thesis
      using cbor_skip_value [of "CBytes b"] cbor_bytes_value [of b] by (auto simp: cbor_int_bytes [OF l] cose_set_def)
  next
    case (CText t)
    then have "l \<notin> {1, 3, - 1, - 2, - 3}" using ok by (auto simp: entry_ok_def)
    with CText v show ?thesis
      using cbor_skip_value [of "CText t"] by (auto simp: cbor_int_bytes [OF l] cose_set_def)
  qed
  then show ?case using Cons by (simp add: e)
qed simp

lemma fold_cose_set:
  "list_all entry_ok es \<Longrightarrow> fold cose_set es c = \<lparr>
     co_kty = (case map_of (rev es) 1 of Some (CInt i) \<Rightarrow> Some i | _ \<Rightarrow> co_kty c),
     co_alg = (case map_of (rev es) 3 of Some (CInt i) \<Rightarrow> Some i | _ \<Rightarrow> co_alg c),
     co_crv = (case map_of (rev es) (- 1) of Some (CInt i) \<Rightarrow> Some i | _ \<Rightarrow> co_crv c),
     co_x = (case map_of (rev es) (- 2) of Some (CBytes b) \<Rightarrow> Some b | _ \<Rightarrow> co_x c),
     co_y = (case map_of (rev es) (- 3) of Some (CBytes b) \<Rightarrow> Some b | _ \<Rightarrow> co_y c)\<rparr>"
proof (induction es rule: rev_induct)
  case (snoc e es)
  obtain l v where e: "e = (l, v)" by force
  have ok: "entry_ok (l, v)" and IH: "list_all entry_ok es" using snoc.prems by (simp_all add: e)
  consider "l \<in> {1, 3, - 1}" | "l \<in> {- 2, - 3}" | "l \<notin> {1, 3, - 1, - 2, - 3}" by blast
  then show ?case
  proof cases
    case 1
    with ok obtain i where "v = CInt i" by (auto simp: entry_ok_def)
    moreover have "cose_set (l, CInt i) c' = (if l = 1 then c'\<lparr>co_kty := Some i\<rparr> else if l = 3 then c'\<lparr>co_alg := Some i\<rparr>
        else c'\<lparr>co_crv := Some i\<rparr>)" for c' using 1 by (auto simp: cose_set_def)
    ultimately show ?thesis using 1 by (auto simp: e snoc.IH [OF IH])
  next
    case 2
    with ok obtain b where "v = CBytes b" by (auto simp: entry_ok_def)
    moreover have "cose_set (l, CBytes b) c' = (if l = - 2 then c'\<lparr>co_x := Some b\<rparr> else c'\<lparr>co_y := Some b\<rparr>)" for c'
      using 2 by (auto simp: cose_set_def)
    ultimately show ?thesis using 2 by (auto simp: e snoc.IH [OF IH])
  next
    case 3
    then have "cose_set (l, v) c' = c'" for c' by (cases v) (simp_all add: cose_set_def)
    with 3 show ?thesis by (simp add: e snoc.IH [OF IH])
  qed
qed simp

text \<open>
  A key in COSE form is read back, in whatever order its entries come, with whatever others
  between them and whatever follows: exactly the keys of kind EC2 for ES256 on P-256 with both
  coordinates of 32 bytes that are a point, as its uncompressed form.
\<close>

theorem cose_es256_exact:
  assumes "length es < 65536" and "list_all entry_ok es"
  shows "cose_es256 wc (map_bytes es @ s) =
    (if map_of (rev es) 1 = Some (CInt 2) \<and> map_of (rev es) 3 = Some (CInt (- 7)) \<and> map_of (rev es) (- 1) = Some (CInt 1)
     then case (map_of (rev es) (- 2), map_of (rev es) (- 3)) of
            (Some (CBytes x), Some (CBytes y)) \<Rightarrow>
              if length x = 32 \<and> length y = 32 \<and> wc_point wc (4 # x @ y) then Some (4 # x @ y) else None
          | _ \<Rightarrow> None
     else None)"
proof -
  have "cbor_head 5 (map_bytes es @ s) = Some (length es, concat (map (\<lambda>(l, v). int_bytes l @ value_bytes v) es) @ s)"
    using assms(1) by (simp add: map_bytes_def cbor_head_def cbor_next_head)
  moreover have int: "(case x of Some (CInt i) \<Rightarrow> Some i | _ \<Rightarrow> None) = Some j \<longleftrightarrow> x = Some (CInt j)" for x j
    by (auto split: option.splits cose_value.splits)
  moreover have pair: "(case (case x of Some (CBytes b) \<Rightarrow> Some b | _ \<Rightarrow> None, case y of Some (CBytes b) \<Rightarrow> Some b | _ \<Rightarrow> None) of
        (Some x, Some y) \<Rightarrow> f x y | _ \<Rightarrow> None)
      = (case (x, y) of (Some (CBytes x), Some (CBytes y)) \<Rightarrow> f x y | _ \<Rightarrow> None)" for x y and f :: "bytes \<Rightarrow> bytes \<Rightarrow> bytes option"
    by (cases x; cases y; cases "the x"; cases "the y"; simp)
  ultimately show ?thesis
    unfolding cose_es256_def
    by (simp only: cose_entries_bytes [OF assms(2)] fold_cose_set [OF assms(2)] option.case prod.case cose.select_convs
        prod.inject int pair ES256_def Let_def de_Morgan_conj if_not_P simp_thms cong: if_cong) (auto simp del: map_of_rev_None split: option.split cose_value.split)
qed

theorem cose_es256_exact_witness:
  "cose_es256 \<lparr>wc_decode = (\<lambda>_. None), wc_client = (\<lambda>_. None), wc_sha256 = (\<lambda>_. []), wc_spki = Some,
       wc_point = (\<lambda>_. True), wc_der = (\<lambda>_. True), wc_verify = (\<lambda>_ _ _. True)\<rparr>
     (map_bytes [(3, CInt (- 7)), (1, CInt 2), (- 1, CInt 1), (9, CText [1, 2]), (- 3, CBytes (replicate 32 6)), (- 2, CBytes (replicate 32 5))] @ [])
   = Some (4 # replicate 32 5 @ replicate 32 6)"
  by (subst cose_es256_exact) (simp_all add: entry_ok_def)

end
