(* ===== verification/Factors.thy ===== *)
theory Factors
  imports Database Webauthn Totp
begin

text \<open>
  The second factors of the server's own accounts: \<^verbatim>\<open>crates/server/src/second_factor.rs\<close> (directory
  users) and \<^verbatim>\<open>crates/server/src/break_glass.rs\<close> (local accounts for emergencies). Everything from
  other crates is in one record of parameters; random values are arguments. The writes of a
  transaction that is dropped do not happen: an operation that fails gives the problem alone.
\<close>

section \<open>Parameters\<close>

text \<open>
  The cipher and the key file of the vault, the keyed hash of one-time passwords, base32, Argon2 (the
  hash of a password, and whether a password fits one), WebAuthn's parts and base64url, SHA-256 of a
  session's token, and lower case as the database compares names.
\<close>

record server =
  sv_aead :: aead
  sv_keyring :: keyring
  sv_hmac :: hmac_fun
  sv_b32_encode :: "bytes \<Rightarrow> string"
  sv_b32_decode :: "string \<Rightarrow> bytes option"
  sv_hash :: "string \<Rightarrow> string"
  sv_matches :: "string \<Rightarrow> string \<Rightarrow> bool"
  sv_wc :: webauthn_crypto
  sv_b64url :: "bytes \<Rightarrow> string"
  sv_sha :: "string \<Rightarrow> bytes"
  sv_lower :: "string \<Rightarrow> string"

definition TOTP_FIELD :: string where "TOTP_FIELD = ''totp''"

text \<open>\<open>i64::try_from(step).unwrap_or(i64::MAX)\<close>.\<close>

definition to_i64 :: "nat \<Rightarrow> int" where
  "to_i64 n = (if n < 2 ^ 63 then int n else 2 ^ 63 - 1)"

section \<open>Authenticator apps\<close>

definition has_app :: "database \<Rightarrow> uuid \<Rightarrow> bool" where
  "has_app db u \<longleftrightarrow> hm_get (db_apps db) u \<noteq> None"

definition enrolled :: "database \<Rightarrow> uuid \<Rightarrow> bool" where
  "enrolled db u \<longleftrightarrow> hm_get (db_apps db) u \<noteq> None \<or> list_ex (\<lambda>(_, k). kw_user k = u) (db_keys db)"

definition required :: "database \<Rightarrow> string list \<Rightarrow> bool" where
  "required db sids \<longleftrightarrow>
     list_ex (\<lambda>p. p \<in> set sids \<or> list_ex (\<lambda>(g, m). m \<in> set sids \<and> p = group_principal g) (db_members db)) (db_principals db)"

definition verify_app :: "server \<Rightarrow> database \<Rightarrow> uuid \<Rightarrow> string \<Rightarrow> nat \<Rightarrow> problem + (database \<times> bool)" where
  "verify_app sv db u given unix_seconds =
     (case hm_get (db_apps db) u of
        None \<Rightarrow> Inr (db, False)
      | Some app \<Rightarrow>
     (case load_secret (sv_aead sv) (sv_keyring sv) (db_secrets db) u (app_version app) TOTP_FIELD of
        Inl _ \<Rightarrow> Inl (problem Internal)
      | Inr None \<Rightarrow> Inl (problem Internal)
      | Inr (Some secret) \<Rightarrow>
     (case Totp.step (sv_hmac sv) secret (trim given) unix_seconds of
        None \<Rightarrow> Inr (db, False)
      | Some k \<Rightarrow>
          if app_last_step app < to_i64 k
          then Inr (db\<lparr>db_apps := hm_insert u (app\<lparr>app_last_step := to_i64 k\<rparr>) (db_apps db)\<rparr>, True)
          else Inr (db, False))))"

text \<open>\<open>coalesce(max(version), 0) + 1\<close> over the versions of the user's secret; an \<open>integer\<close> has 32 bits.\<close>

definition next_version :: "database \<Rightarrow> uuid \<Rightarrow> int" where
  "next_version db u =
     (case iter_max (map (\<lambda>((_, v, _), _). v) (filter (\<lambda>((i, _, f), _). i = u \<and> f = TOTP_FIELD) (db_secrets db))) of
        Some v \<Rightarrow> v + 1 | None \<Rightarrow> 1)"

definition enroll ::
  "server \<Rightarrow> seal_randomness \<Rightarrow> database \<Rightarrow> uuid \<Rightarrow> string \<Rightarrow> string \<Rightarrow> nat \<Rightarrow> problem + (database \<times> bool)" where
  "enroll sv rnd db u secret given unix_seconds =
     (case decode_secret (sv_b32_decode sv) secret of
        None \<Rightarrow> Inl (param (problem InvalidRequest) ''field'' (JText ''totp_secret''))
      | Some secret \<Rightarrow>
     (case Totp.step (sv_hmac sv) secret (trim given) unix_seconds of
        None \<Rightarrow> Inr (db, False)
      | Some k \<Rightarrow>
          (let version = next_version db u
           in if version \<ge> 2 ^ 31 then Inl (problem Internal)
              else case store (sv_aead sv) (sv_keyring sv) rnd (db_secrets db) u version TOTP_FIELD secret of
                Inl _ \<Rightarrow> Inl (problem Internal)
              | Inr secrets \<Rightarrow>
                  Inr (db\<lparr>db_secrets := secrets,
                         db_apps := hm_insert u \<lparr>app_version = version, app_last_step = to_i64 k\<rparr> (db_apps db)\<rparr>, True))))"

definition remove_app :: "database \<Rightarrow> uuid \<Rightarrow> database \<times> bool" where
  "remove_app db u = (db\<lparr>db_apps := hm_remove u (db_apps db)\<rparr>, hm_get (db_apps db) u \<noteq> None)"

definition remove_all_factors :: "database \<Rightarrow> uuid \<Rightarrow> database \<times> bool" where
  "remove_all_factors db u =
     (let (db, app) = remove_app db u
      in (db\<lparr>db_keys := filter (\<lambda>(_, k). kw_user k \<noteq> u) (db_keys db)\<rparr>,
          app \<or> list_ex (\<lambda>(_, k). kw_user k = u) (db_keys db)))"

section \<open>Security keys\<close>

definition CHALLENGE_SECONDS :: instant where
  "CHALLENGE_SECONDS = 300 * 1000000000"

text \<open>The expired challenges go with the new one, which has the identifier \<open>i\<close> and the bytes given.\<close>

definition challenge :: "database \<Rightarrow> uuid \<Rightarrow> bytes \<Rightarrow> uuid \<Rightarrow> string \<Rightarrow> instant \<Rightarrow> database" where
  "challenge db i bs u purpose now =
     db\<lparr>db_challenges := hm_insert i \<lparr>ch_user = u, ch_purpose = purpose, ch_bytes = bs, ch_expires = now + CHALLENGE_SECONDS\<rparr>
          (filter (\<lambda>(_, c). \<not> ch_expires c < now) (db_challenges db))\<rparr>"

definition take_challenge :: "database \<Rightarrow> uuid \<Rightarrow> string \<Rightarrow> uuid \<Rightarrow> instant \<Rightarrow> database \<times> bytes option" where
  "take_challenge db u purpose i now =
     (case hm_get (db_challenges db) i of
        None \<Rightarrow> (db, None)
      | Some c \<Rightarrow>
          if ch_user c = u \<and> ch_purpose c = purpose \<and> ch_expires c > now
          then (db\<lparr>db_challenges := hm_remove i (db_challenges db)\<rparr>, Some (ch_bytes c))
          else (db, None))"

definition key_ids :: "server \<Rightarrow> database \<Rightarrow> uuid \<Rightarrow> string list" where
  "key_ids sv db u =
     map (\<lambda>k. sv_b64url sv (kw_credential k)) (sort_key kw_created (filter (\<lambda>k. kw_user k = u) (map snd (db_keys db))))"

datatype key_use = UseSignIn | UseConfirm

fun key_purpose :: "key_use \<Rightarrow> string" where
  "key_purpose UseSignIn = ''sign_in''"
| "key_purpose UseConfirm = ''confirm''"

definition key_accepts :: "server \<Rightarrow> key_use \<Rightarrow> assertion \<Rightarrow> bool" where
  "key_accepts sv usage answer \<longleftrightarrow> usage = UseSignIn \<or> user_verified (sv_wc sv) answer = Inr True"

definition assertion_options :: "server \<Rightarrow> relying_party \<Rightarrow> bytes \<Rightarrow> string list \<Rightarrow> key_use \<Rightarrow> json" where
  "assertion_options sv rp bs keys usage = JObject [(''publicKey'', JObject
     [(''challenge'', JText (sv_b64url sv bs)), (''rpId'', JText (rp_id rp)), (''timeout'', JNumber 120000),
      (''userVerification'', JText (case usage of UseSignIn \<Rightarrow> ''discouraged'' | UseConfirm \<Rightarrow> ''required'')),
      (''allowCredentials'', JList (map (\<lambda>i. JObject [(''type'', JText ''public-key''), (''id'', JText i)]) keys))])]"

record key_answer =
  ka_challenge :: uuid
  ka_credential :: assertion

text \<open>\<open>u32::try_from(count).unwrap_or(u32::MAX)\<close>.\<close>

definition to_u32 :: "int \<Rightarrow> nat" where
  "to_u32 i = (if 0 \<le> i \<and> i < 2 ^ 32 then nat i else 2 ^ 32 - 1)"

definition verify_key ::
  "server \<Rightarrow> relying_party \<Rightarrow> database \<Rightarrow> uuid \<Rightarrow> key_answer \<Rightarrow> key_use \<Rightarrow> instant \<Rightarrow> database \<times> bool" where
  "verify_key sv rp db u answer usage now =
     (case take_challenge db u (key_purpose usage) (ka_challenge answer) now of
        (db, None) \<Rightarrow> (db, False)
      | (db, Some bs) \<Rightarrow>
     (case credential_id (sv_wc sv) (ka_credential answer) of
        Inl _ \<Rightarrow> (db, False)
      | Inr cred \<Rightarrow>
          if \<not> key_accepts sv usage (ka_credential answer) then (db, False)
          else case find (\<lambda>(_, k). kw_user k = u \<and> kw_credential k = cred) (db_keys db) of
            None \<Rightarrow> (db, False)
          | Some (key_id, k) \<Rightarrow>
              (case verify_assertion (sv_wc sv) rp bs (kw_public k) (to_u32 (kw_count k)) (ka_credential answer) of
                 Inl _ \<Rightarrow> (db, False)
               | Inr counter \<Rightarrow>
                   (db\<lparr>db_keys := hm_update key_id (\<lambda>k. k\<lparr>kw_count := int counter\<rparr>) (db_keys db)\<rparr>, True))))"

section \<open>The second step of a sign-in\<close>

datatype outcome = Passed (passed_used: bool) (passed_enrolled: bool) | RefusedStep problem bool

record second_step =
  st_code :: "string option"
  st_secret :: "string option"
  st_key :: "key_answer option"

text \<open>What the system's randomness gives: a new secret, and a challenge with its identifier.\<close>

record step_randomness =
  sn_secret :: bytes
  sn_challenge :: bytes
  sn_challenge_id :: uuid
  sn_seal :: seal_randomness

definition offer :: "server \<Rightarrow> bytes \<Rightarrow> string \<Rightarrow> string \<times> string" where
  "offer sv random account =
     (let secret = sv_b32_encode sv random in (secret, uri ''remotehub'' account secret))"

text \<open>
  \<open>pool\<close> is the database outside the sign-in's transaction and \<open>db\<close> inside: the challenge of a key is
  stored outside, everything else inside. Gives the outcome and both.
\<close>

definition at_sign_in ::
  "server \<Rightarrow> step_randomness \<Rightarrow> relying_party \<Rightarrow> database \<Rightarrow> database \<Rightarrow> uuid \<Rightarrow> string \<Rightarrow> string list \<Rightarrow> second_step
    \<Rightarrow> instant \<Rightarrow> nat \<Rightarrow> problem + (outcome \<times> database \<times> database)" where
  "at_sign_in sv rnd rp pool db u account sids st now unix_seconds =
     (let wrong = RefusedStep (problem SecondFactorInvalid) True
      in if enrolled db u then
           (case st_code st of
              Some given \<Rightarrow>
                (case verify_app sv db u given unix_seconds of
                   Inl p \<Rightarrow> Inl p
                 | Inr (db, ok) \<Rightarrow> Inr (if ok then Passed True False else wrong, db, pool))
            | None \<Rightarrow>
           (case st_key st of
              Some answer \<Rightarrow>
                (let (db, ok) = verify_key sv rp db u answer UseSignIn now
                 in Inr (if ok then Passed True False else wrong, db, pool))
            | None \<Rightarrow>
                (let p = param (problem SecondFactorRequired) ''app'' (JBool (has_app db u)); keys = key_ids sv db u
                 in if keys = [] then Inr (RefusedStep p False, db, pool)
                    else
                      Inr (RefusedStep (param (param p ''key_challenge_id'' (JText (uuid_show (sn_challenge_id rnd))))
                             ''key_options'' (assertion_options sv rp (sn_challenge rnd) keys UseSignIn)) False, db,
                           challenge pool (sn_challenge_id rnd) (sn_challenge rnd) u (key_purpose UseSignIn) now))))
         else
           (case (st_secret st, st_code st) of
              (Some secret, Some given) \<Rightarrow>
                (case enroll sv (sn_seal rnd) db u secret given unix_seconds of
                   Inl p \<Rightarrow> Inl p
                 | Inr (db, ok) \<Rightarrow> Inr (if ok then Passed True True else wrong, db, pool))
            | _ \<Rightarrow>
                if required db sids then
                  (let (secret, link) = offer sv (sn_secret rnd) account
                   in Inr (RefusedStep (param (param (problem SecondFactorSetupRequired) ''secret'' (JText secret)) ''uri'' (JText link)) False, db, pool))
                else Inr (Passed False False, db, pool)))"

section \<open>Break-glass accounts\<close>

datatype break_glass_error = BgExists string | BgUnknown string | BgInvalidName | BgDatabase | BgSecret secret_error

record bg_issued =
  bg_username :: string
  bg_password :: string
  bg_totp_secret :: string
  bg_totp_uri :: string

record bg_account =
  ba_user :: uuid
  ba_username :: string
  ba_display_name :: string

definition PASSWORD_ALPHABET :: string where
  "PASSWORD_ALPHABET = ''abcdefghijkmnopqrstuvwxyzABCDEFGHJKLMNPQRSTUVWXYZ23456789-_.!''"

definition PASSWORD_LENGTH :: nat where "PASSWORD_LENGTH = 24"

definition bg_valid_name :: "string \<Rightarrow> bool" where
  "bg_valid_name name \<longleftrightarrow> 1 \<le> length name \<and> length name \<le> 64
     \<and> list_all (\<lambda>c. is_ascii_alphanumeric c \<or> c = CHR ''.'' \<or> c = CHR ''-'' \<or> c = CHR ''_'') name"

text \<open>From the \<open>PASSWORD_LENGTH\<close> random bytes given.\<close>

definition random_password :: "bytes \<Rightarrow> string" where
  "random_password random = map (\<lambda>b. PASSWORD_ALPHABET ! (unat b mod length PASSWORD_ALPHABET)) random"

definition bg_issue :: "server \<Rightarrow> string \<Rightarrow> string \<Rightarrow> bytes \<Rightarrow> bg_issued" where
  "bg_issue sv username password secret =
     (let encoded = sv_b32_encode sv secret
      in \<lparr>bg_username = username, bg_password = password, bg_totp_secret = encoded,
          bg_totp_uri = uri ''remotehub'' username encoded\<rparr>)"

record bg_randomness =
  br_user :: uuid
  br_password :: bytes
  br_secret :: bytes
  br_seal :: seal_randomness

definition bg_taken :: "server \<Rightarrow> database \<Rightarrow> string \<Rightarrow> bool" where
  "bg_taken sv db username \<longleftrightarrow>
     list_ex (\<lambda>(_, r). ur_kind r = ''break_glass'' \<and> sv_lower sv (ur_username r) = sv_lower sv username) (db_users db)"

definition bg_create :: "server \<Rightarrow> bg_randomness \<Rightarrow> database \<Rightarrow> string \<Rightarrow> break_glass_error + (database \<times> bg_issued)" where
  "bg_create sv rnd db username =
     (if \<not> bg_valid_name username then Inl BgInvalidName
      else
        (let password = random_password (br_password rnd); u = br_user rnd
         in if bg_taken sv db username then Inl (BgExists username)
            else if hm_get (db_users db) u \<noteq> None \<or> hm_get (db_locals db) u \<noteq> None then Inl BgDatabase
            else case store (sv_aead sv) (sv_keyring sv) (br_seal rnd) (db_secrets db) u 1 TOTP_FIELD (br_secret rnd) of
              Inl e \<Rightarrow> Inl (BgSecret e)
            | Inr secrets \<Rightarrow>
                Inr (db\<lparr>db_users := hm_insert u \<lparr>ur_kind = ''break_glass'', ur_sid = None, ur_guid = None, ur_username = username,
                         ur_display_name = username, ur_email = None, ur_upn = None, ur_identity = None, ur_last_sign_in = None,
                         ur_blocked = False\<rparr> (db_users db),
                       db_locals := hm_insert u \<lparr>la_password_hash = sv_hash sv password, la_totp_version = 1, la_last_step = 0\<rparr>
                         (db_locals db),
                       db_secrets := secrets\<rparr>, bg_issue sv username password (br_secret rnd))))"

text \<open>\<open>users JOIN local_accounts\<close> of a break-glass account by its name.\<close>

definition bg_row :: "server \<Rightarrow> database \<Rightarrow> string \<Rightarrow> (uuid \<times> user_row \<times> local_account) option" where
  "bg_row sv db username =
     (case filter_map (\<lambda>(u, r). map_option (\<lambda>l. (u, r, l)) (hm_get (db_locals db) u))
         (filter (\<lambda>(_, r). ur_kind r = ''break_glass'' \<and> sv_lower sv (ur_username r) = sv_lower sv (trim username)) (db_users db)) of
        [] \<Rightarrow> None | x # _ \<Rightarrow> Some x)"

definition bg_account_of :: "uuid \<times> user_row \<times> local_account \<Rightarrow> bg_account" where
  "bg_account_of x = (case x of (u, r, _) \<Rightarrow> \<lparr>ba_user = u, ba_username = ur_username r, ba_display_name = ur_display_name r\<rparr>)"

definition bg_find :: "server \<Rightarrow> database \<Rightarrow> string \<Rightarrow> bg_account option" where
  "bg_find sv db username = map_option bg_account_of (bg_row sv db username)"

definition bg_reset :: "server \<Rightarrow> bg_randomness \<Rightarrow> database \<Rightarrow> string \<Rightarrow> break_glass_error + (database \<times> bg_issued)" where
  "bg_reset sv rnd db username =
     (case bg_find sv db username of
        None \<Rightarrow> Inl (BgUnknown username)
      | Some account \<Rightarrow>
          (let u = ba_user account; password = random_password (br_password rnd)
           in case hm_get (db_locals db) u of
                None \<Rightarrow> Inl BgDatabase
              | Some l \<Rightarrow>
                  (let version = la_totp_version l + 1
                   in if version \<ge> 2 ^ 31 then Inl BgDatabase
                      else case store (sv_aead sv) (sv_keyring sv) (br_seal rnd) (db_secrets db) u version TOTP_FIELD (br_secret rnd) of
                        Inl e \<Rightarrow> Inl (BgSecret e)
                      | Inr secrets \<Rightarrow>
                          Inr (db\<lparr>db_locals := hm_insert u
                                   \<lparr>la_password_hash = sv_hash sv password, la_totp_version = version, la_last_step = 0\<rparr> (db_locals db),
                                 db_secrets := secrets,
                                 db_sessions := filter (\<lambda>(_, s). sr_user s \<noteq> u) (db_sessions db)\<rparr>,
                               bg_issue sv (ba_username account) password (br_secret rnd)))))"

definition bg_delete :: "server \<Rightarrow> database \<Rightarrow> string \<Rightarrow> break_glass_error + (database \<times> bg_account)" where
  "bg_delete sv db username =
     (case bg_find sv db username of
        None \<Rightarrow> Inl (BgUnknown username)
      | Some account \<Rightarrow>
          (let u = ba_user account
           in Inr (db\<lparr>db_secrets := filter (\<lambda>((i, _, f), _). \<not> (i = u \<and> f = TOTP_FIELD)) (db_secrets db),
                      db_locals := hm_remove u (db_locals db),
                      db_sessions := filter (\<lambda>(_, s). sr_user s \<noteq> u) (db_sessions db),
                      db_users := hm_update u (\<lambda>r. r\<lparr>ur_kind := ''deleted''\<rparr>) (db_users db)\<rparr>, account)))"

definition bg_code_matches :: "server \<Rightarrow> database \<Rightarrow> uuid \<Rightarrow> int \<Rightarrow> string \<Rightarrow> nat \<Rightarrow> break_glass_error + (database \<times> bool)" where
  "bg_code_matches sv db u version given unix_seconds =
     (case load_secret (sv_aead sv) (sv_keyring sv) (db_secrets db) u version TOTP_FIELD of
        Inl e \<Rightarrow> Inl (BgSecret e)
      | Inr None \<Rightarrow> Inl (BgSecret (SecretVault VaultOpen))
      | Inr (Some secret) \<Rightarrow>
     (case Totp.step (sv_hmac sv) secret (trim given) unix_seconds of
        None \<Rightarrow> Inr (db, False)
      | Some k \<Rightarrow>
          (case hm_get (db_locals db) u of
             Some l \<Rightarrow>
               if la_last_step l < to_i64 k
               then Inr (db\<lparr>db_locals := hm_insert u (l\<lparr>la_last_step := to_i64 k\<rparr>) (db_locals db)\<rparr>, True)
               else Inr (db, False)
           | None \<Rightarrow> Inr (db, False))))"

definition authenticate_at ::
  "server \<Rightarrow> database \<Rightarrow> string \<Rightarrow> string \<Rightarrow> string \<Rightarrow> nat \<Rightarrow> break_glass_error + (database \<times> bg_account option)" where
  "authenticate_at sv db username password given unix_seconds =
     (case bg_row sv db username of
        None \<Rightarrow> Inr (db, None)
      | Some (u, r, l) \<Rightarrow>
          if \<not> sv_matches sv (la_password_hash l) password then Inr (db, None)
          else case bg_code_matches sv db u (la_totp_version l) given unix_seconds of
            Inl e \<Rightarrow> Inl e
          | Inr (db, accepted) \<Rightarrow> Inr (db, if accepted then Some (bg_account_of (u, r, l)) else None))"

definition bg_verify_code :: "server \<Rightarrow> database \<Rightarrow> uuid \<Rightarrow> string \<Rightarrow> nat \<Rightarrow> break_glass_error + (database \<times> bool)" where
  "bg_verify_code sv db u given unix_seconds =
     (case hm_get (db_locals db) u of
        Some l \<Rightarrow> bg_code_matches sv db u (la_totp_version l) given unix_seconds
      | None \<Rightarrow> Inr (db, False))"

text \<open>\<open>ORDER BY lower(u.username)\<close>.\<close>

definition bg_list :: "server \<Rightarrow> database \<Rightarrow> bg_account list" where
  "bg_list sv db =
     map bg_account_of (sort_key (\<lambda>(_, r, _). sv_lower sv (ur_username r))
       (filter_map (\<lambda>(u, r). map_option (\<lambda>l. (u, r, l)) (hm_get (db_locals db) u)) (db_users db)))"

section \<open>Codes work once\<close>

text \<open>
  What every check of a one-time code promises: it keeps the last time step it took, a right code
  moves it on to the code's own step, and a refused one leaves it.
\<close>

locale one_time_codes =
  fixes check :: "'d \<Rightarrow> string \<Rightarrow> nat \<Rightarrow> 'd \<times> bool"
    and latest :: "'d \<Rightarrow> int"
  assumes taken: "check d given t = (d', True) \<Longrightarrow> latest d < latest d'"
    and refused: "check d given t = (d', False) \<Longrightarrow> latest d' = latest d"
begin

lemma check_mono: "latest d \<le> latest (fst (check d given t))"
  using taken [of d given t] refused [of d given t] by (cases "check d given t"; cases "snd (check d given t)") fastforce+

end

text \<open>The time steps taken in a run of attempts, each a code and the time it was given at.\<close>

fun taken_steps :: "('d \<Rightarrow> string \<Rightarrow> nat \<Rightarrow> 'd \<times> bool) \<Rightarrow> ('d \<Rightarrow> int) \<Rightarrow> 'd \<Rightarrow> (string \<times> nat) list \<Rightarrow> int list" where
  "taken_steps check latest d [] = []"
| "taken_steps check latest d ((given, t) # xs) =
     (let (d', ok) = check d given t in (if ok then [latest d'] else []) @ taken_steps check latest d' xs)"

context one_time_codes
begin

lemma steps_above: "k \<in> set (taken_steps check latest d xs) \<Longrightarrow> latest d < k"
proof (induction xs arbitrary: d)
  case (Cons x xs)
  obtain given t where x: "x = (given, t)" by force
  obtain d' ok where c: "check d given t = (d', ok)" by force
  from Cons.prems consider "ok" "k = latest d'" | "k \<in> set (taken_steps check latest d' xs)"
    by (auto simp: x c split: if_splits)
  then show ?case
  proof cases
    case 1
    then show ?thesis using taken c by simp
  next
    case 2
    from Cons.IH [OF this] check_mono [of d given t] show ?thesis by (simp add: c)
  qed
qed simp

lemma steps_increase: "sorted_wrt (<) (taken_steps check latest d xs)"
proof (induction xs arbitrary: d)
  case (Cons x xs)
  then show ?case by (cases x) (auto simp: steps_above split: prod.split)
qed simp

end

text \<open>The checks of an app and of a break-glass account, with an error as a refusal that changes nothing.\<close>

definition app_check :: "server \<Rightarrow> uuid \<Rightarrow> database \<Rightarrow> string \<Rightarrow> nat \<Rightarrow> database \<times> bool" where
  "app_check sv u db given t = (case verify_app sv db u given t of Inr r \<Rightarrow> r | Inl _ \<Rightarrow> (db, False))"

definition app_latest :: "uuid \<Rightarrow> database \<Rightarrow> int" where
  "app_latest u db = (case hm_get (db_apps db) u of Some app \<Rightarrow> app_last_step app | None \<Rightarrow> -1)"

definition bg_check :: "server \<Rightarrow> uuid \<Rightarrow> database \<Rightarrow> string \<Rightarrow> nat \<Rightarrow> database \<times> bool" where
  "bg_check sv u db given t = (case bg_verify_code sv db u given t of Inr r \<Rightarrow> r | Inl _ \<Rightarrow> (db, False))"

definition bg_latest :: "uuid \<Rightarrow> database \<Rightarrow> int" where
  "bg_latest u db = (case hm_get (db_locals db) u of Some l \<Rightarrow> la_last_step l | None \<Rightarrow> -1)"

lemma verify_app_True:
  assumes "verify_app sv db u given t = Inr (db', True)"
  obtains app secret k where "hm_get (db_apps db) u = Some app"
    "load_secret (sv_aead sv) (sv_keyring sv) (db_secrets db) u (app_version app) TOTP_FIELD = Inr (Some secret)"
    "Totp.step (sv_hmac sv) secret (trim given) t = Some k" "app_last_step app < to_i64 k"
    "db' = db\<lparr>db_apps := hm_insert u (app\<lparr>app_last_step := to_i64 k\<rparr>) (db_apps db)\<rparr>"
  using assms by (auto simp: verify_app_def split: option.splits sum.splits if_splits)

lemma verify_app_False: "verify_app sv db u given t = Inr (db', False) \<Longrightarrow> db' = db"
  by (auto simp: verify_app_def split: option.splits sum.splits if_splits)

lemma bg_verify_code_True:
  assumes "bg_verify_code sv db u given t = Inr (db', True)"
  obtains l secret k where "hm_get (db_locals db) u = Some l"
    "load_secret (sv_aead sv) (sv_keyring sv) (db_secrets db) u (la_totp_version l) TOTP_FIELD = Inr (Some secret)"
    "Totp.step (sv_hmac sv) secret (trim given) t = Some k" "la_last_step l < to_i64 k"
    "db' = db\<lparr>db_locals := hm_insert u (l\<lparr>la_last_step := to_i64 k\<rparr>) (db_locals db)\<rparr>"
  using assms by (auto simp: bg_verify_code_def bg_code_matches_def split: option.splits sum.splits if_splits)

lemma bg_verify_code_False: "bg_verify_code sv db u given t = Inr (db', False) \<Longrightarrow> db' = db"
  by (auto simp: bg_verify_code_def bg_code_matches_def split: option.splits sum.splits if_splits)

interpretation apps: one_time_codes "app_check sv u" "app_latest u" for sv u
proof
  show "app_check sv u d given t = (d', True) \<Longrightarrow> app_latest u d < app_latest u d'" for d d' given t
    by (auto simp: app_check_def app_latest_def hm.get_put split: sum.splits elim!: verify_app_True)
  show "app_check sv u d given t = (d', False) \<Longrightarrow> app_latest u d' = app_latest u d" for d d' given t
    by (auto simp: app_check_def split: sum.splits dest: verify_app_False)
qed

interpretation break_glass: one_time_codes "bg_check sv u" "bg_latest u" for sv u
proof
  show "bg_check sv u d given t = (d', True) \<Longrightarrow> bg_latest u d < bg_latest u d'" for d d' given t
    by (auto simp: bg_check_def bg_latest_def hm.get_put split: sum.splits elim!: bg_verify_code_True)
  show "bg_check sv u d given t = (d', False) \<Longrightarrow> bg_latest u d' = bg_latest u d" for d d' given t
    by (auto simp: bg_check_def split: sum.splits dest: bg_verify_code_False)
qed


section \<open>Keys answer once\<close>

lemma verify_key_True:
  assumes "verify_key sv rp db u answer usage now = (db', True)"
  obtains c cred key_id k counter where "hm_get (db_challenges db) (ka_challenge answer) = Some c"
    "ch_user c = u" "ch_purpose c = key_purpose usage" "now < ch_expires c"
    "credential_id (sv_wc sv) (ka_credential answer) = Inr cred" "key_accepts sv usage (ka_credential answer)"
    "(key_id, k) \<in> set (db_keys db)" "kw_user k = u" "kw_credential k = cred"
    "verify_assertion (sv_wc sv) rp (ch_bytes c) (kw_public k) (to_u32 (kw_count k)) (ka_credential answer) = Inr counter"
    "db' = db\<lparr>db_challenges := hm_remove (ka_challenge answer) (db_challenges db),
       db_keys := hm_update key_id (\<lambda>k. k\<lparr>kw_count := int counter\<rparr>) (db_keys db)\<rparr>"
proof -
  from assms obtain c where c: "hm_get (db_challenges db) (ka_challenge answer) = Some c"
    "ch_user c = u" "ch_purpose c = key_purpose usage" "now < ch_expires c"
    "take_challenge db u (key_purpose usage) (ka_challenge answer) now
      = (db\<lparr>db_challenges := hm_remove (ka_challenge answer) (db_challenges db)\<rparr>, Some (ch_bytes c))"
    by (auto simp: verify_key_def take_challenge_def split: option.splits if_splits)
  from assms c(5) obtain cred where cred: "credential_id (sv_wc sv) (ka_credential answer) = Inr cred"
    "key_accepts sv usage (ka_credential answer)"
    by (auto simp: verify_key_def split: sum.splits if_splits)
  from assms c(5) cred obtain key_id k where k: "find (\<lambda>(_, k). kw_user k = u \<and> kw_credential k = cred) (db_keys db) = Some (key_id, k)"
    by (auto simp: verify_key_def split: option.splits)
  from k have k': "(key_id, k) \<in> set (db_keys db)" "kw_user k = u" "kw_credential k = cred"
    using nth_mem by (fastforce simp: find_Some_iff)+
  from assms c(5) cred k obtain counter where
    "verify_assertion (sv_wc sv) rp (ch_bytes c) (kw_public k) (to_u32 (kw_count k)) (ka_credential answer) = Inr counter"
    "db' = db\<lparr>db_challenges := hm_remove (ka_challenge answer) (db_challenges db),
       db_keys := hm_update key_id (\<lambda>k. k\<lparr>kw_count := int counter\<rparr>) (db_keys db)\<rparr>"
    by (auto simp: verify_key_def split: sum.splits)
  with c(1-4) cred k' show ?thesis by (rule that)
qed

text \<open>
  C33: A key's answer counts once and only for what it was asked for. An accepted answer is to a challenge
  of this user, for this purpose and not expired, signed by one of the user's own keys with a counter
  that has grown if it has one, and a confirmation has the key's check of its holder; and no answer to
  that challenge is accepted again, whoever gives it for whatever.
\<close>

theorem key_answers_once:
  assumes "hm_ok (db_challenges db)" and "verify_key sv rp db u answer usage now = (db', True)"
  shows "(\<exists>c k counter. hm_get (db_challenges db) (ka_challenge answer) = Some c
        \<and> ch_user c = u \<and> ch_purpose c = key_purpose usage \<and> now < ch_expires c
        \<and> k \<in> snd ` set (db_keys db) \<and> kw_user k = u
        \<and> assertion_holds (sv_wc sv) rp (ch_bytes c) (kw_public k) (to_u32 (kw_count k)) (ka_credential answer) counter)
    \<and> (usage = UseConfirm \<longrightarrow> user_verified (sv_wc sv) (ka_credential answer) = Inr True)
    \<and> (\<forall>rp' u' answer' usage' now'. ka_challenge answer' = ka_challenge answer \<longrightarrow>
         verify_key sv rp' db' u' answer' usage' now' = (db', False))"
proof -
  obtain c cred key_id k counter where c: "hm_get (db_challenges db) (ka_challenge answer) = Some c"
    "ch_user c = u" "ch_purpose c = key_purpose usage" "now < ch_expires c"
    and acc: "key_accepts sv usage (ka_credential answer)"
    and k: "(key_id, k) \<in> set (db_keys db)" "kw_user k = u"
    and v: "verify_assertion (sv_wc sv) rp (ch_bytes c) (kw_public k) (to_u32 (kw_count k)) (ka_credential answer) = Inr counter"
    and db': "db' = db\<lparr>db_challenges := hm_remove (ka_challenge answer) (db_challenges db),
       db_keys := hm_update key_id (\<lambda>k. k\<lparr>kw_count := int counter\<rparr>) (db_keys db)\<rparr>"
    using verify_key_True [OF assms(2)] by metis
  have "hm_get (db_challenges db') (ka_challenge answer) = None"
    using assms(1) by (simp add: db' hm.get_del)
  then have "verify_key sv rp' db' u' answer' usage' now' = (db', False)"
    if "ka_challenge answer' = ka_challenge answer" for rp' u' answer' usage' now'
    using that by (simp add: verify_key_def take_challenge_def)
  moreover have "usage = UseConfirm \<longrightarrow> user_verified (sv_wc sv) (ka_credential answer) = Inr True"
    using acc by (auto simp: key_accepts_def)
  moreover have "k \<in> snd ` set (db_keys db)" using k(1) by force
  ultimately show ?thesis using c k(2) v unfolding verify_assertion_Inr by blast
qed

section \<open>The second step\<close>


section \<open>Break-glass accounts work\<close>

definition server_ok :: "server \<Rightarrow> bool" where
  "server_ok sv \<longleftrightarrow> aead_ok (sv_aead sv) \<and> keyring_ok (sv_keyring sv) \<and> (\<forall>p. sv_matches sv (sv_hash sv p) p)"

lemma store_load:
  assumes "aead_ok ci" "keyring_ok kr" "randomness_ok rnd" "store ci kr rnd db owner version fld plain = Inr db'"
  shows "load_secret ci kr db' owner version fld = Inr (Some plain)"
proof -
  obtain se where "seal ci kr rnd \<lparr>cx_owner = owner, cx_version = version, cx_field = fld\<rparr> plain = Inr se"
    "open_sealed ci kr \<lparr>cx_owner = owner, cx_version = version, cx_field = fld\<rparr> se = Inr plain"
    using seal_opens [OF assms(1-3), of kr "\<lparr>cx_owner = owner, cx_version = version, cx_field = fld\<rparr>" plain] by blast
  with assms(4) show ?thesis by (auto simp: store_def load_secret_def hm.get_put split: if_splits)
qed

lemma bg_valid_name_visible: "bg_valid_name name \<Longrightarrow> visible_ascii name"
  by (auto simp: bg_valid_name_def visible_ascii_def list_all_iff is_ascii_alphanumeric_def is_ascii_digit_def ascii_between_def)

lemma update_absent: "hm_get m k = None \<Longrightarrow> hm_insert k v m = m @ [(k, v)]"
  by (induction m) auto

lemma bg_row_created:
  assumes "bg_create sv rnd db username = Inr (db', issued)"
  obtains r where "bg_row sv db' username = Some (br_user rnd, r,
      \<lparr>la_password_hash = sv_hash sv (bg_password issued), la_totp_version = 1, la_last_step = 0\<rparr>)"
    "ur_username r = username"
    "store (sv_aead sv) (sv_keyring sv) (br_seal rnd) (db_secrets db) (br_user rnd) 1 TOTP_FIELD (br_secret rnd) = Inr (db_secrets db')"
    "hm_get (db_locals db') (br_user rnd)
      = Some \<lparr>la_password_hash = sv_hash sv (bg_password issued), la_totp_version = 1, la_last_step = 0\<rparr>"
proof -
  let ?u = "br_user rnd"
  let ?r = "\<lparr>ur_kind = ''break_glass'', ur_sid = None, ur_guid = None, ur_username = username, ur_display_name = username,
    ur_email = None, ur_upn = None, ur_identity = None, ur_last_sign_in = None, ur_blocked = False\<rparr>"
  let ?l = "\<lparr>la_password_hash = sv_hash sv (bg_password issued), la_totp_version = 1, la_last_step = 0\<rparr>"
  from assms have v: "bg_valid_name username" "\<not> bg_taken sv db username" "hm_get (db_users db) ?u = None" "hm_get (db_locals db) ?u = None"
    and users: "db_users db' = hm_insert ?u ?r (db_users db)" and locals: "db_locals db' = hm_insert ?u ?l (db_locals db)"
    and secrets: "store (sv_aead sv) (sv_keyring sv) (br_seal rnd) (db_secrets db) ?u 1 TOTP_FIELD (br_secret rnd) = Inr (db_secrets db')"
    by (auto simp: bg_create_def bg_issue_def Let_def split: if_splits sum.splits)
  have "trim username = username" using bg_valid_name_visible [OF v(1)] by (rule trim_visible_ascii)
  moreover have "filter (\<lambda>(_, r). ur_kind r = ''break_glass'' \<and> sv_lower sv (ur_username r) = sv_lower sv username) (db_users db) = []"
    using v(2) by (auto simp: bg_taken_def list_ex_iff filter_empty_conv)
  ultimately have "bg_row sv db' username = Some (?u, ?r, ?l)"
    by (simp add: bg_row_def users locals update_absent [OF v(3)] hm.get_put List.map_filter_simps)
  moreover have "ur_username ?r = username" by simp
  moreover have "hm_get (db_locals db') ?u = Some ?l" by (simp add: locals hm.get_put)
  ultimately show ?thesis using secrets by (intro that)
qed

lemma authenticate_created:
  assumes "server_ok sv" "randomness_ok (br_seal rnd)" "bg_create sv rnd db username = Inr (db', issued)" "visible_ascii given"
  obtains r where
    "\<And>pw t. authenticate_at sv db' username pw given t =
      (if \<not> sv_matches sv (sv_hash sv (bg_password issued)) pw then Inr (db', None)
       else case Totp.step (sv_hmac sv) (br_secret rnd) given t of
         Some k \<Rightarrow>
           if 0 < to_i64 k
           then Inr (db'\<lparr>db_locals := hm_insert (br_user rnd) \<lparr>la_password_hash = sv_hash sv (bg_password issued),
                  la_totp_version = 1, la_last_step = to_i64 k\<rparr> (db_locals db')\<rparr>,
                Some \<lparr>ba_user = br_user rnd, ba_username = username, ba_display_name = ur_display_name (r :: user_row)\<rparr>)
           else Inr (db', None)
       | None \<Rightarrow> Inr (db', None))"
proof -
  obtain r where r: "bg_row sv db' username = Some (br_user rnd, r,
      \<lparr>la_password_hash = sv_hash sv (bg_password issued), la_totp_version = 1, la_last_step = 0\<rparr>)"
    "ur_username r = username"
    "store (sv_aead sv) (sv_keyring sv) (br_seal rnd) (db_secrets db) (br_user rnd) 1 TOTP_FIELD (br_secret rnd) = Inr (db_secrets db')"
    "hm_get (db_locals db') (br_user rnd)
      = Some \<lparr>la_password_hash = sv_hash sv (bg_password issued), la_totp_version = 1, la_last_step = 0\<rparr>"
    by (rule bg_row_created [OF assms(3)])
  have "load_secret (sv_aead sv) (sv_keyring sv) (db_secrets db') (br_user rnd) 1 TOTP_FIELD = Inr (Some (br_secret rnd))"
    using assms(1,2) r(3) by (intro store_load) (simp_all add: server_ok_def)
  with r trim_visible_ascii [OF assms(4)] show ?thesis
    by (intro that [of r]) (auto simp: authenticate_at_def bg_code_matches_def bg_account_of_def split: option.split)
qed

text \<open>
  What is issued for a break-glass account signs in. After the account is created, its name with a
  password and a code signs in exactly if the password fits the one shown and the code is one the
  secret shown gives at that time; and the same code does not sign in a second time.
\<close>

theorem break_glass_issued_works:
  assumes "server_ok sv" and "randomness_ok (br_seal rnd)" and "bg_create sv rnd db username = Inr (db', issued)"
    and "visible_ascii given" and "60 \<le> t" and "t < 2 ^ 60"
  shows "((\<exists>db'' a. authenticate_at sv db' username pw given t = Inr (db'', Some a)) \<longleftrightarrow>
       sv_matches sv (sv_hash sv (bg_password issued)) pw
       \<and> given \<in> Totp.code (sv_hmac sv) (br_secret rnd) ` {t div 30, t div 30 - 1, t div 30 + 1})
    \<and> sv_matches sv (sv_hash sv (bg_password issued)) (bg_password issued)
    \<and> (\<forall>db'' a db3. authenticate_at sv db' username pw given t = Inr (db'', Some a) \<longrightarrow>
         bg_verify_code sv db'' (ba_user a) given t \<noteq> Inr (db3, True))"
proof -
  obtain r where auth: "\<And>pw t. authenticate_at sv db' username pw given t =
      (if \<not> sv_matches sv (sv_hash sv (bg_password issued)) pw then Inr (db', None)
       else case Totp.step (sv_hmac sv) (br_secret rnd) given t of
         Some k \<Rightarrow>
           if 0 < to_i64 k
           then Inr (db'\<lparr>db_locals := hm_insert (br_user rnd) \<lparr>la_password_hash = sv_hash sv (bg_password issued),
                  la_totp_version = 1, la_last_step = to_i64 k\<rparr> (db_locals db')\<rparr>,
                Some \<lparr>ba_user = br_user rnd, ba_username = username, ba_display_name = ur_display_name (r :: user_row)\<rparr>)
           else Inr (db', None)
       | None \<Rightarrow> Inr (db', None))"
    by (rule authenticate_created [OF assms(1-4)]) blast
  have pos: "0 < to_i64 k" if "Totp.step (sv_hmac sv) (br_secret rnd) given t = Some k" for k
  proof -
    from that have "k \<in> {t div 30, t div 30 - 1, t div 30 + 1}"
      by (auto simp: Totp.step_def Let_def PERIOD_def split: if_splits)
    moreover have "2 \<le> t div 30" using assms(5) by simp
    ultimately show ?thesis by (auto simp: to_i64_def)
  qed
  have "(\<exists>db'' a. authenticate_at sv db' username pw given t = Inr (db'', Some a)) \<longleftrightarrow>
      sv_matches sv (sv_hash sv (bg_password issued)) pw \<and> (\<exists>k. Totp.step (sv_hmac sv) (br_secret rnd) given t = Some k)"
    using pos by (auto simp: auth split: option.splits)
  moreover have "bg_verify_code sv db'' (ba_user a) given t \<noteq> Inr (db3, True)"
    if "authenticate_at sv db' username pw given t = Inr (db'', Some a)" for db'' a db3
  proof
    assume "bg_verify_code sv db'' (ba_user a) given t = Inr (db3, True)"
    then obtain l secret k where again: "hm_get (db_locals db'') (ba_user a) = Some l"
      "load_secret (sv_aead sv) (sv_keyring sv) (db_secrets db'') (ba_user a) (la_totp_version l) TOTP_FIELD = Inr (Some secret)"
      "Totp.step (sv_hmac sv) secret (trim given) t = Some k" "la_last_step l < to_i64 k"
      by (rule bg_verify_code_True)
    have load: "load_secret (sv_aead sv) (sv_keyring sv) (db_secrets db') (br_user rnd) 1 TOTP_FIELD = Inr (Some (br_secret rnd))"
      using assms(1,2) by (rule_tac bg_row_created [OF assms(3)]) (auto simp: server_ok_def intro: store_load)
    from that obtain k' where "Totp.step (sv_hmac sv) (br_secret rnd) given t = Some k'"
      "db'' = db'\<lparr>db_locals := hm_insert (br_user rnd) \<lparr>la_password_hash = sv_hash sv (bg_password issued),
                  la_totp_version = 1, la_last_step = to_i64 k'\<rparr> (db_locals db')\<rparr>" "ba_user a = br_user rnd"
      by (auto simp: auth split: option.splits if_splits)
    with again load trim_visible_ascii [OF assms(4)] show False by (auto simp: hm.get_put)
  qed
  ultimately show ?thesis
    using assms(1) unfolding step_accepts by (auto simp: server_ok_def)
qed

section \<open>A small instance\<close>

definition sample_wc :: webauthn_crypto where
  "sample_wc = \<lparr>wc_decode = (\<lambda>s. Some (if s = ''auth'' then replicate 32 0 @ [5, 0, 0, 0, 1] else as_bytes s)), wc_client = (\<lambda>_. Some (''webauthn.get'', ''ch'', ''https://hub'')),
     wc_sha256 = (\<lambda>_. replicate 32 0), wc_spki = Some, wc_point = (\<lambda>_. True), wc_der = (\<lambda>_. True), wc_verify = (\<lambda>_ _ _. True)\<rparr>"

definition sample_server :: server where
  "sample_server = \<lparr>sv_aead = sample_aead, sv_keyring = sample_keyring, sv_hmac = (\<lambda>_ _ _. replicate 20 1), sv_b32_encode = sample_encode,
     sv_b32_decode = sample_decode, sv_hash = (\<lambda>p. p), sv_matches = (=), sv_wc = sample_wc, sv_b64url = sample_encode,
     sv_sha = as_bytes, sv_lower = to_ascii_lowercase\<rparr>"

lemma sample_server_ok: "server_ok sample_server"
  by (simp add: server_ok_def sample_server_def sample_aead_ok sample_keyring_ok)

text \<open>The code every secret gives with this keyed hash.\<close>

definition sample_code :: string where
  "sample_code = Totp.code (sv_hmac sample_server) [] 0"

lemma sample_code: "Totp.code (sv_hmac sample_server) secret k = sample_code"
  by (simp add: sample_code_def Totp.code_def sample_server_def)

lemma sample_code_visible: "visible_ascii sample_code"
  unfolding visible_ascii_def list_all_iff sample_code_def Totp.code_def Let_def
  by (auto dest!: zero_padded_digits simp: is_ascii_digit_def ascii_between_def)

lemma sample_step: "Totp.step (sv_hmac sample_server) secret (trim sample_code) t = Some (t div 30)"
  by (simp add: Totp.step_def PERIOD_def Let_def sample_code same_code_iff trim_visible_ascii [OF sample_code_visible])

text \<open>A user with an app, whose secret is sealed in the database.\<close>

definition sample_secrets :: secret_fields where
  "sample_secrets = projr (store sample_aead sample_keyring sample_seal_randomness [] 5 1 TOTP_FIELD (replicate 20 3))"

definition sample_db :: database where
  "sample_db = empty_db\<lparr>db_secrets := sample_secrets, db_apps := [(5, \<lparr>app_version = 1, app_last_step = 0\<rparr>)],
     db_keys := [(9, \<lparr>kw_user = 5, kw_credential = as_bytes ''key'', kw_public = [], kw_count = 0, kw_created = 0\<rparr>)],
     db_challenges := [(8, \<lparr>ch_user = 5, ch_purpose = ''confirm'', ch_bytes = as_bytes ''ch'', ch_expires = 100\<rparr>)]\<rparr>"

lemma sample_store: "0 < v \<Longrightarrow> \<exists>s. store sample_aead sample_keyring sample_seal_randomness [] u v f plain = Inr s"
proof -
  assume v: "0 < v"
  obtain se where "seal sample_aead sample_keyring sample_seal_randomness \<lparr>cx_owner = u, cx_version = v, cx_field = f\<rparr> plain = Inr se"
    using seal_Inr [OF sample_keyring_ok(1)] by blast
  with v show ?thesis by (simp add: store_def)
qed

lemma sample_secrets: "store sample_aead sample_keyring sample_seal_randomness [] 5 1 TOTP_FIELD (replicate 20 3) = Inr sample_secrets"
  using sample_store [of 1 5 TOTP_FIELD "replicate 20 3"] by (auto simp: sample_secrets_def)

lemma sample_secret_loads:
  "load_secret (sv_aead sample_server) (sv_keyring sample_server) (db_secrets sample_db) 5 1 TOTP_FIELD = Inr (Some (replicate 20 3))"
  using store_load [OF sample_aead_ok(1) sample_keyring_ok(1,3) sample_secrets]
  by (simp add: sample_db_def empty_db_def sample_server_def)


definition sample_answer :: key_answer where
  "sample_answer = \<lparr>ka_challenge = 8, ka_credential = \<lparr>as_raw_id = ''key'', as_client_data = ''{}'',
     as_authenticator_data = ''auth'', as_signature = ''s''\<rparr>\<rparr>"

lemma sample_decodes:
  "decode_b64 sample_wc ''auth'' w = Inr (replicate 32 0 @ [5, 0, 0, 0, 1])" "decode_b64 sample_wc ''key'' w = Inr (as_bytes ''key'')"
  "decode_b64 sample_wc ''ch'' w = Inr (as_bytes ''ch'')" "decode_b64 sample_wc ''{}'' w = Inr (as_bytes ''{}'')"
  "decode_b64 sample_wc ''s'' w = Inr (as_bytes ''s'')"
  by (simp_all add: decode_b64_def sample_wc_def trim_end_matches_def)

lemma sample_answer_verifies:
  "verify_assertion sample_wc \<lparr>rp_id = ''hub'', rp_origin = ''https://hub''\<rparr> (as_bytes ''ch'') [] 0 (ka_credential sample_answer) = Inr 1"
proof -
  let ?rp = "\<lparr>rp_id = ''hub'', rp_origin = ''https://hub''\<rparr>" and ?d = "replicate 32 0 @ [5, 0, 0, 0, 1] :: bytes"
  have nth: "?d ! (32 + k) = [5, 0, 0, 0, 1] ! k" for k by (simp add: nth_append)
  have "check_authenticator_data sample_wc ?rp ?d = Inr 1"
    using nth [of 0] nth [of 1] nth [of 2] nth [of 3] nth [of 4]
    by (simp add: check_authenticator_data_Inr be32_def) (simp add: sample_wc_def)
  moreover have "check_client_data sample_wc ?rp ''webauthn.get'' (as_bytes ''ch'') (as_bytes ''{}'') = Inr ()"
    using sample_decodes(3) by (simp add: check_client_data_Inr) (simp add: sample_wc_def)
  moreover have "wc_point sample_wc [] \<and> wc_der sample_wc (as_bytes ''s'') \<and> wc_verify sample_wc [] x (as_bytes ''s'')" for x
    by (simp add: sample_wc_def)
  ultimately show ?thesis by (simp add: verify_assertion_def sample_answer_def sample_decodes)
qed

lemma sample_answer_accepted:
  "snd (verify_key sample_server \<lparr>rp_id = ''hub'', rp_origin = ''https://hub''\<rparr> sample_db 5 sample_answer UseConfirm 50) = True"
proof -
  have "(replicate 32 0 @ [5, 0, 0, 0, 1] :: bytes) ! 32 = 5" by (simp add: nth_append)
  then have "user_verified sample_wc (ka_credential sample_answer) = Inr True"
    by (simp add: user_verified_def sample_answer_def sample_decodes)
  moreover have "credential_id sample_wc (ka_credential sample_answer) = Inr (as_bytes ''key'')"
    by (simp add: credential_id_def sample_answer_def sample_decodes)
  moreover have "take_challenge sample_db 5 ''confirm'' (ka_challenge sample_answer) 50
      = (sample_db\<lparr>db_challenges := []\<rparr>, Some (as_bytes ''ch''))"
    by (simp add: take_challenge_def sample_db_def sample_answer_def)
  moreover have "find (\<lambda>(_, k). kw_user k = 5 \<and> kw_credential k = as_bytes ''key'') (db_keys sample_db)
      = Some (9, \<lparr>kw_user = 5, kw_credential = as_bytes ''key'', kw_public = [], kw_count = 0, kw_created = 0\<rparr>)"
    by (simp add: sample_db_def)
  moreover have "sv_wc sample_server = sample_wc" by (simp add: sample_server_def)
  ultimately show ?thesis
    using sample_answer_verifies by (simp add: verify_key_def key_accepts_def to_u32_def)
qed

theorem key_answers_once_witness:
  "\<exists>db'. verify_key sample_server \<lparr>rp_id = ''hub'', rp_origin = ''https://hub''\<rparr> sample_db 5 sample_answer UseConfirm 50 = (db', True)
    \<and> verify_key sample_server \<lparr>rp_id = ''hub'', rp_origin = ''https://hub''\<rparr> db' 5 sample_answer UseConfirm 50 = (db', False)"
proof -
  let ?rp = "\<lparr>rp_id = ''hub'', rp_origin = ''https://hub''\<rparr>"
  obtain db' where v: "verify_key sample_server ?rp sample_db 5 sample_answer UseConfirm 50 = (db', True)"
    using sample_answer_accepted by (metis prod.collapse)
  have "hm_ok (db_challenges sample_db)" by (simp add: hm_ok_def sample_db_def)
  from key_answers_once [OF this v] v show ?thesis by blast
qed


theorem break_glass_issued_works_witness:
  "\<exists>db' issued. bg_create sample_server \<lparr>br_user = 7, br_password = replicate 24 0, br_secret = replicate 20 3, br_seal = sample_seal_randomness\<rparr>
       empty_db ''emergency'' = Inr (db', issued)
     \<and> (\<exists>db'' a. authenticate_at sample_server db' ''emergency'' (bg_password issued) sample_code 60 = Inr (db'', Some a))"
proof -
  let ?rnd = "\<lparr>br_user = 7, br_password = replicate 24 0, br_secret = replicate 20 3, br_seal = sample_seal_randomness\<rparr>"
  have "bg_valid_name ''emergency''" by code_simp
  moreover have "\<exists>s. store sample_aead sample_keyring sample_seal_randomness [] 7 1 TOTP_FIELD (replicate 20 3) = Inr s"
    by (rule sample_store) simp
  ultimately have "\<exists>db' issued. bg_create sample_server ?rnd empty_db ''emergency'' = Inr (db', issued)"
    by (auto simp: bg_create_def bg_taken_def empty_db_def sample_server_def Let_def)
  then obtain db' issued where c: "bg_create sample_server ?rnd empty_db ''emergency'' = Inr (db', issued)" by blast
  have "sample_code \<in> Totp.code (sv_hmac sample_server) (br_secret ?rnd) ` {60 div 30, 60 div 30 - 1, 60 div 30 + 1}"
    using sample_code by force
  then show ?thesis
    using break_glass_issued_works [OF sample_server_ok _ c sample_code_visible, of 60 "bg_password issued"] c sample_keyring_ok(3) by auto
qed

end
