(* ===== verification/SignIn.thy ===== *)
theory SignIn
  imports Sessions Factors
begin

text \<open>
  Signing in to the server and confirming with the second factor: \<^verbatim>\<open>crates/server/src/auth.rs\<close> (the limit
  on failed attempts), \<^verbatim>\<open>api/session.rs\<close> and \<^verbatim>\<open>api/confirm.rs\<close>. The directory's check of a password and
  what Kratos keeps of a local account are parameters. A transaction that is dropped leaves the
  database as it was; \<open>now\<close> is the time of its statements, \<open>clock\<close> that of the process and \<open>unix\<close> the
  seconds of the one-time codes.
\<close>

section \<open>The limit on failed attempts\<close>

record window =
  wn_failures :: nat
  wn_since :: instant

record limiter =
  lm_windows :: "(string, window) hashmap"
  lm_window :: instant

record limit =
  lt_kind :: string
  lt_max :: nat

definition PER_USER :: limit where "PER_USER = \<lparr>lt_kind = ''user'', lt_max = 5\<rparr>"
definition PER_ADDRESS :: limit where "PER_ADDRESS = \<lparr>lt_kind = ''address'', lt_max = 30\<rparr>"

text \<open>\<open>lower\<close> is \<open>str::to_lowercase\<close>.\<close>

definition limiter_key :: "(string \<Rightarrow> string) \<Rightarrow> limit \<Rightarrow> string \<Rightarrow> string" where
  "limiter_key lower l v = lt_kind l @ '':'' @ lower (trim v)"

definition limiter_check :: "(string \<Rightarrow> string) \<Rightarrow> limiter \<Rightarrow> (limit \<times> string) list \<Rightarrow> instant \<Rightarrow> instant + unit" where
  "limiter_check lower lm keys now =
     (case iter_max (filter_map (\<lambda>(l, v).
         case hm_get (lm_windows lm) (limiter_key lower l v) of
           None \<Rightarrow> None
         | Some w \<Rightarrow>
             (let elapsed = now - wn_since w
              in if elapsed < lm_window lm \<and> wn_failures w \<ge> lt_max l then Some (lm_window lm - elapsed) else None)) keys) of
        Some wait \<Rightarrow> Inl (max wait 1000000000)
      | None \<Rightarrow> Inr ())"

definition count_window :: "limiter \<Rightarrow> instant \<Rightarrow> string \<Rightarrow> (string, window) hashmap \<Rightarrow> (string, window) hashmap" where
  "count_window lm now k ws =
     (let w = (case hm_get ws k of Some w \<Rightarrow> w | None \<Rightarrow> \<lparr>wn_failures = 0, wn_since = now\<rparr>);
          w = (if now - wn_since w \<ge> lm_window lm then \<lparr>wn_failures = 0, wn_since = now\<rparr> else w)
      in hm_insert k (w\<lparr>wn_failures := wn_failures w + 1\<rparr>) ws)"

definition limiter_failed :: "(string \<Rightarrow> string) \<Rightarrow> limiter \<Rightarrow> (limit \<times> string) list \<Rightarrow> instant \<Rightarrow> limiter" where
  "limiter_failed lower lm keys now =
     (let ws = (if length (lm_windows lm) > 10000
                then filter (\<lambda>(_, w). now - wn_since w < lm_window lm) (lm_windows lm) else lm_windows lm)
      in lm\<lparr>lm_windows := fold (\<lambda>(l, v). count_window lm now (limiter_key lower l v)) keys ws\<rparr>)"

definition limiter_succeeded :: "(string \<Rightarrow> string) \<Rightarrow> limiter \<Rightarrow> string \<Rightarrow> limiter" where
  "limiter_succeeded lower lm user = lm\<lparr>lm_windows := hm_remove (limiter_key lower PER_USER user) (lm_windows lm)\<rparr>"

section \<open>Signing in\<close>

record identity =
  id_sid :: string
  id_guid :: uuid
  id_username :: string
  id_upn :: "string option"
  id_display_name :: string
  id_email :: "string option"
  id_groups :: "string list"

datatype auth_error =
  AuthInvalidCredentials | AuthAccountDisabled | AuthAccountLocked | AuthAccountExpired | AuthPasswordExpired
  | AuthPasswordMustChange | AuthUnavailable string | AuthDirectory string

fun problem_for :: "auth_error \<Rightarrow> problem" where
  "problem_for AuthInvalidCredentials = problem InvalidCredentials"
| "problem_for AuthAccountDisabled = problem AccountDisabled"
| "problem_for AuthAccountLocked = problem AccountLocked"
| "problem_for AuthAccountExpired = problem AccountExpired"
| "problem_for AuthPasswordExpired = problem PasswordChangeRequired"
| "problem_for AuthPasswordMustChange = problem PasswordChangeRequired"
| "problem_for (AuthUnavailable _) = problem DirectoryUnavailable"
| "problem_for (AuthDirectory _) = problem DirectoryUnavailable"

fun counts_as_failure :: "auth_error \<Rightarrow> bool" where
  "counts_as_failure (AuthUnavailable _) = False"
| "counts_as_failure (AuthDirectory _) = False"
| "counts_as_failure _ = True"

record sign_in_body =
  sb_username :: string
  sb_password :: string
  sb_code :: "string option"
  sb_totp_secret :: "string option"
  sb_security_key :: "key_answer option"

record settings =
  se_idle :: instant
  se_max :: instant
  se_public_origin :: string
  se_own_account :: bool

record me =
  me_username :: string
  me_display_name :: string
  me_kind :: string
  me_admin :: bool
  me_roles :: "string list"
  me_locked :: bool
  me_idle_seconds :: int

definition me_of :: "settings \<Rightarrow> session \<Rightarrow> me" where
  "me_of cfg s = \<lparr>me_username = s_username s, me_display_name = s_display_name s, me_kind = s_kind s, me_admin = is_admin s,
     me_roles = role_names s, me_locked = s_locked s, me_idle_seconds = se_idle cfg div 1000000000\<rparr>"

definition me_started :: "server \<Rightarrow> settings \<Rightarrow> database \<Rightarrow> string \<Rightarrow> instant \<Rightarrow> database \<times> (problem + me)" where
  "me_started sv cfg db token now =
     (case lookup_session (sv_sha sv) db token (se_idle cfg) now now of
        (db, Some s) \<Rightarrow> (db, Inr (me_of cfg s))
      | (db, None) \<Rightarrow> (db, Inl (problem Internal)))"

text \<open>\<open>typed_name\<close>: at most 128 characters.\<close>

definition typed_name :: "string \<Rightarrow> string" where
  "typed_name username = from_chars (take 128 (chars (trim username)))"

definition blocked :: "database \<Rightarrow> uuid \<Rightarrow> bool" where
  "blocked db u \<longleftrightarrow> (case hm_get (db_users db) u of Some r \<Rightarrow> ur_blocked r | None \<Rightarrow> False)"

text \<open>
  The user with this SID, refreshed, or a new one with the identifier \<open>i\<close>; another user with the same
  GUID violates the table's key.
\<close>

definition upsert_directory_user :: "database \<Rightarrow> uuid \<Rightarrow> identity \<Rightarrow> instant \<Rightarrow> (database \<times> uuid) option" where
  "upsert_directory_user db i idn now =
     (let found = find (\<lambda>(_, r). ur_sid r = Some (id_sid idn)) (db_users db);
          u = (case found of Some (u, _) \<Rightarrow> u | None \<Rightarrow> i)
      in if list_ex (\<lambda>(v, r). v \<noteq> u \<and> ur_guid r = Some (id_guid idn)) (db_users db)
            \<or> found = None \<and> hm_get (db_users db) i \<noteq> None then None
         else
           (let old = (case found of Some (_, r) \<Rightarrow> r
              | None \<Rightarrow> \<lparr>ur_kind = ''directory'', ur_sid = Some (id_sid idn), ur_guid = None, ur_username = [], ur_display_name = [],
                  ur_email = None, ur_upn = None, ur_identity = None, ur_last_sign_in = None, ur_blocked = False\<rparr>)
            in Some (db\<lparr>db_users := hm_insert u (old\<lparr>ur_guid := Some (id_guid idn), ur_username := id_username idn,
                   ur_display_name := id_display_name idn, ur_email := id_email idn, ur_upn := id_upn idn,
                   ur_last_sign_in := Some now\<rparr>) (db_users db)\<rparr>, u)))"

definition set_cookie :: "string \<Rightarrow> string" where
  "set_cookie token = COOKIE_NAME @ ''='' @ token @ ''; Path=/; HttpOnly; Secure; SameSite=Strict''"

definition set_login_key_cookie :: "string \<Rightarrow> string" where
  "set_login_key_cookie key = LOGIN_KEY_COOKIE @ ''='' @ key @ ''; Path=/; HttpOnly; Secure; SameSite=Strict''"

definition clear_cookie_text :: "string \<Rightarrow> string" where
  "clear_cookie_text name = name @ ''=; Path=/; HttpOnly; Secure; SameSite=Strict; Max-Age=0''"

definition audit_sign_in_failed :: "uuid option \<Rightarrow> string \<Rightarrow> (string \<times> json) list \<Rightarrow> string \<Rightarrow> audit_entry" where
  "audit_sign_in_failed i name details address = \<lparr>au_actor = i, au_name = name, au_action = ''session.sign_in_failed'',
     au_object = None, au_details = JObject details, au_address = Some address\<rparr>"

definition refuse_blocked :: "database \<Rightarrow> uuid \<Rightarrow> string \<Rightarrow> string \<Rightarrow> database \<times> problem" where
  "refuse_blocked db u username address =
     (audit_record db (audit_sign_in_failed (Some u) username
        [(''reason'', JText (error_code_as_str AccountDisabled)), (''blocked'', JBool True)] address),
      problem AccountDisabled)"

text \<open>What the system's randomness gives for one sign-in.\<close>

record sign_in_randomness =
  si_token :: string
  si_session :: uuid
  si_user :: uuid
  si_step :: step_randomness
  si_key :: bytes
  si_nonce :: bytes

text \<open>The end of a directory sign-in, after its second step has passed: inside the transaction \<open>tx\<close>.\<close>

definition start_directory_session ::
  "server \<Rightarrow> settings \<Rightarrow> sign_in_randomness \<Rightarrow> database \<Rightarrow> uuid \<Rightarrow> identity \<Rightarrow> string \<Rightarrow> string \<Rightarrow> bool \<Rightarrow> bool \<Rightarrow> instant
    \<Rightarrow> (database \<times> string list) option" where
  "start_directory_session sv cfg rnd tx u idn password address used new now =
     (let tx = (if new then audit_record tx \<lparr>au_actor = Some u, au_name = id_username idn, au_action = ''second_factor.enrolled'',
                   au_object = Some (''user'', u), au_details = JObject [], au_address = Some address\<rparr> else tx);
          (tx, created) = create_session (sv_sha sv) tx (si_token rnd) (si_session rnd) u (id_groups idn) (se_max cfg) now
      in if \<not> created then None
         else
           (let (tx, cookies) = (if se_own_account cfg
                  then (let (tx, key) = keep_sign_in_password (sv_sha sv) (sv_aead sv) (sv_b64url sv) (si_nonce rnd) (si_key rnd)
                          tx (si_token rnd) (as_bytes password)
                        in (tx, [set_cookie (si_token rnd), set_login_key_cookie key]))
                  else (tx, [set_cookie (si_token rnd)]))
            in Some (audit_record tx \<lparr>au_actor = Some u, au_name = id_username idn, au_action = ''session.sign_in'', au_object = None,
                  au_details = JObject [(''sid'', JText (id_sid idn)), (''kind'', JText ''directory''), (''second_factor'', JBool used)],
                  au_address = Some address\<rparr>, cookies)))"

definition sign_in ::
  "server \<Rightarrow> settings \<Rightarrow> sign_in_randomness \<Rightarrow> (string \<Rightarrow> string \<Rightarrow> auth_error + identity) option \<Rightarrow> string \<Rightarrow> sign_in_body
    \<Rightarrow> instant \<Rightarrow> instant \<Rightarrow> nat \<Rightarrow> database \<times> limiter \<Rightarrow> (database \<times> limiter) \<times> (problem + string list \<times> me)" where
  "sign_in sv cfg rnd directory address body clock now unix st =
     (let (db, lm) = st; keys = [(PER_USER, sb_username body), (PER_ADDRESS, address)]
      in case limiter_check (sv_lower sv) lm keys clock of
        Inl wait \<Rightarrow> ((db, lm), Inl (param (problem TooManyAttempts) ''retry_after_seconds'' (JNumber (wait div 1000000000))))
      | Inr _ \<Rightarrow>
     (case directory of
        None \<Rightarrow> ((db, lm), Inl (problem DirectoryUnavailable))
      | Some authenticate \<Rightarrow>
     (case authenticate (sb_username body) (sb_password body) of
        Inl e \<Rightarrow>
          ((audit_record db (audit_sign_in_failed None (typed_name (sb_username body))
              [(''reason'', JText (error_code_as_str (pr_code (problem_for e))))] address),
            if counts_as_failure e then limiter_failed (sv_lower sv) lm keys clock else lm), Inl (problem_for e))
      | Inr idn \<Rightarrow>
     (case upsert_directory_user db (si_user rnd) idn now of
        None \<Rightarrow> ((db, lm), Inl (problem Internal))
      | Some (tx, u) \<Rightarrow>
          if blocked tx u then
            (let (db, p) = refuse_blocked db u (id_username idn) address in ((db, lm), Inl p))
          else
     (case at_sign_in sv (si_step rnd) (relying_party_of (se_public_origin cfg)) db tx u (id_username idn)
         (id_groups idn @ [id_sid idn])
         \<lparr>st_code = sb_code body, st_secret = sb_totp_secret body, st_key = sb_security_key body\<rparr> now unix of
        Inl p \<Rightarrow> ((db, lm), Inl p)
      | Inr (RefusedStep p failed, _, db) \<Rightarrow>
          if failed then
            ((audit_record db (audit_sign_in_failed None (id_username idn) [(''reason'', JText (error_code_as_str (pr_code p)))] address),
              limiter_failed (sv_lower sv) lm keys clock), Inl p)
          else ((db, lm), Inl p)
      | Inr (Passed used new, tx, _) \<Rightarrow>
          (let lm = limiter_succeeded (sv_lower sv) lm (sb_username body)
           in case start_directory_session sv cfg rnd tx u idn (sb_password body) address used new now of
                None \<Rightarrow> ((db, lm), Inl (problem Internal))
              | Some (db, cookies) \<Rightarrow>
                  (let (db, me) = me_started sv cfg db (si_token rnd) now
                   in ((db, lm), case me of Inl p \<Rightarrow> Inl p | Inr m \<Rightarrow> Inr (cookies, m)))))))))"

definition sign_in_break_glass ::
  "server \<Rightarrow> settings \<Rightarrow> sign_in_randomness \<Rightarrow> string \<Rightarrow> string \<Rightarrow> string \<Rightarrow> string
    \<Rightarrow> instant \<Rightarrow> instant \<Rightarrow> nat \<Rightarrow> database \<times> limiter \<Rightarrow> (database \<times> limiter) \<times> (problem + string list \<times> me)" where
  "sign_in_break_glass sv cfg rnd address username password given clock now unix st =
     (let (db, lm) = st; keys = [(PER_USER, username), (PER_ADDRESS, address)]
      in case limiter_check (sv_lower sv) lm keys clock of
        Inl wait \<Rightarrow> ((db, lm), Inl (param (problem TooManyAttempts) ''retry_after_seconds'' (JNumber (wait div 1000000000))))
      | Inr _ \<Rightarrow>
     (case authenticate_at sv db username password given unix of
        Inl _ \<Rightarrow> ((db, lm), Inl (problem Internal))
      | Inr (db, None) \<Rightarrow>
          ((audit_record db (audit_sign_in_failed None (typed_name username)
              [(''reason'', JText (error_code_as_str InvalidCredentials)), (''break_glass'', JBool True)] address),
            limiter_failed (sv_lower sv) lm keys clock), Inl (problem InvalidCredentials))
      | Inr (db, Some account) \<Rightarrow>
          (let lm = limiter_succeeded (sv_lower sv) lm username; u = ba_user account
           in if blocked db u then
                (let (db, p) = refuse_blocked db u (ba_username account) address in ((db, lm), Inl p))
              else
                (let tx = db\<lparr>db_users := hm_update u (\<lambda>r. r\<lparr>ur_last_sign_in := Some now\<rparr>) (db_users db)\<rparr>;
                     (tx, created) = create_session (sv_sha sv) tx (si_token rnd) (si_session rnd) u [] (se_max cfg) now
                 in if \<not> created then ((db, lm), Inl (problem Internal))
                    else
                      (let tx = audit_record tx \<lparr>au_actor = Some u, au_name = ba_username account, au_action = ''session.sign_in'',
                             au_object = None, au_details = JObject [(''kind'', JText ''break_glass''), (''break_glass'', JBool True)],
                             au_address = Some address\<rparr>;
                           (db, me) = me_started sv cfg tx (si_token rnd) now
                       in ((db, lm), case me of Inl p \<Rightarrow> Inl p | Inr m \<Rightarrow> Inr ([set_cookie (si_token rnd)], m)))))))"

text \<open>Ending the session at Kratos, for a local account, is not modelled.\<close>

definition sign_out :: "server \<Rightarrow> settings \<Rightarrow> string \<Rightarrow> string list \<Rightarrow> instant \<Rightarrow> database \<Rightarrow> database \<times> string list" where
  "sign_out sv cfg address headers now db =
     (let cleared = [clear_cookie_text COOKIE_NAME, clear_cookie_text LOGIN_KEY_COOKIE]
      in case server_cookie headers COOKIE_NAME of
           None \<Rightarrow> (db, cleared)
         | Some token \<Rightarrow>
             (case lookup_session (sv_sha sv) db token (se_idle cfg) now now of
                (db, None) \<Rightarrow> (db, cleared)
              | (db, Some s) \<Rightarrow>
                  (audit_record (delete_session (sv_sha sv) db token) \<lparr>au_actor = Some (s_user s), au_name = s_username s,
                     au_action = ''session.sign_out'', au_object = None, au_details = JObject [], au_address = Some address\<rparr>, cleared)))"

section \<open>Confirming\<close>

record kratos_key =
  kk_credential :: bytes
  kk_public :: bytes
  kk_counter :: nat

record kratos_factors =
  kf_app :: "totp_params option"
  kf_keys :: "kratos_key list"

datatype factors = DirectoryFactors | BreakGlassFactor | LocalFactors kratos_factors

text \<open>\<open>kratos\<close> is what Kratos answers about an identity, or none if it is not configured.\<close>

definition factors_of :: "(uuid \<Rightarrow> kratos_factors option) option \<Rightarrow> session \<Rightarrow> problem + factors" where
  "factors_of kratos s =
     (if s_kind s = ''directory'' then Inr DirectoryFactors
      else if s_kind s = ''break_glass'' then Inr BreakGlassFactor
      else case (s_kind s = ''local'', s_identity s) of
        (True, Some i) \<Rightarrow>
          (case kratos of
             None \<Rightarrow> Inl (problem NotFound)
           | Some ask \<Rightarrow> (case ask i of Some f \<Rightarrow> Inr (LocalFactors f) | None \<Rightarrow> Inl (problem AccountsUnavailable)))
      | _ \<Rightarrow> Inl (problem Forbidden))"

definition available_factors ::
  "server \<Rightarrow> (uuid \<Rightarrow> kratos_factors option) option \<Rightarrow> database \<Rightarrow> session \<Rightarrow> problem + (bool \<times> string list)" where
  "available_factors sv kratos db s =
     (case factors_of kratos s of
        Inl p \<Rightarrow> Inl p
      | Inr DirectoryFactors \<Rightarrow> Inr (has_app db (s_user s), key_ids sv db (s_user s))
      | Inr BreakGlassFactor \<Rightarrow> Inr (True, [])
      | Inr (LocalFactors f) \<Rightarrow> Inr (kf_app f \<noteq> None, map (\<lambda>k. sv_b64url sv (kk_credential k)) (kf_keys f)))"

text \<open>\<open>start\<close>: what the user can confirm with, and the challenge of a key.\<close>

definition confirm_start ::
  "server \<Rightarrow> settings \<Rightarrow> (uuid \<Rightarrow> kratos_factors option) option \<Rightarrow> uuid \<Rightarrow> bytes \<Rightarrow> database \<Rightarrow> session \<Rightarrow> instant
    \<Rightarrow> database \<times> (problem + bool \<times> (uuid \<times> json) option)" where
  "confirm_start sv cfg kratos i bs db s now =
     (case available_factors sv kratos db s of
        Inl p \<Rightarrow> (db, Inl p)
      | Inr (app, keys) \<Rightarrow>
          if keys = [] then (db, Inr (app, None))
          else (challenge db i bs (s_user s) (key_purpose UseConfirm) now,
                Inr (app, Some (i, assertion_options sv (relying_party_of (se_public_origin cfg)) bs keys UseConfirm))))"

definition local_code :: "server \<Rightarrow> database \<Rightarrow> uuid \<Rightarrow> kratos_factors \<Rightarrow> string \<Rightarrow> nat \<Rightarrow> database \<times> bool" where
  "local_code sv db u f given unix =
     (case kf_app f of
        None \<Rightarrow> (db, False)
      | Some app \<Rightarrow>
          if (tp_algorithm app, tp_digits app, tp_period app) \<noteq> (Sha1, DIGITS, PERIOD) then (db, False)
          else case Totp.step (sv_hmac sv) (tp_secret app) (trim given) unix of
            None \<Rightarrow> (db, False)
          | Some k \<Rightarrow>
              if (case hm_get (db_confirm_codes db) u of Some l \<Rightarrow> l < to_i64 k | None \<Rightarrow> True)
              then (db\<lparr>db_confirm_codes := hm_insert u (to_i64 k) (db_confirm_codes db)\<rparr>, True)
              else (db, False))"

definition local_key ::
  "server \<Rightarrow> relying_party \<Rightarrow> database \<Rightarrow> uuid \<Rightarrow> kratos_factors \<Rightarrow> key_answer \<Rightarrow> instant \<Rightarrow> database \<times> bool" where
  "local_key sv rp db u f answer now =
     (case take_challenge db u (key_purpose UseConfirm) (ka_challenge answer) now of
        (db, None) \<Rightarrow> (db, False)
      | (db, Some bs) \<Rightarrow>
     (case credential_id (sv_wc sv) (ka_credential answer) of
        Inl _ \<Rightarrow> (db, False)
      | Inr cred \<Rightarrow>
     (case find (\<lambda>k. kk_credential k = cred) (kf_keys f) of
        None \<Rightarrow> (db, False)
      | Some k \<Rightarrow>
          if \<not> key_accepts sv UseConfirm (ka_credential answer) then (db, False)
          else
            (let ours = (case hm_get (db_confirm_keys db) cred of
                   Some (owner, count) \<Rightarrow> if owner = u then to_u32 count else 0 | None \<Rightarrow> 0)
             in case verify_assertion (sv_wc sv) rp bs (kk_public k) (max (kk_counter k) ours) (ka_credential answer) of
                  Inl _ \<Rightarrow> (db, False)
                | Inr counter \<Rightarrow>
                    (if (case hm_get (db_confirm_keys db) cred of Some (owner, _) \<Rightarrow> owner = u | None \<Rightarrow> True)
                     then db\<lparr>db_confirm_keys := hm_insert cred (u, int counter) (db_confirm_keys db)\<rparr> else db, True)))))"

record confirmation =
  cf_code :: "string option"
  cf_key :: "key_answer option"

text \<open>The check of the answer, inside the transaction; a break-glass code is used up outside of it.\<close>

definition confirm_right ::
  "server \<Rightarrow> settings \<Rightarrow> database \<Rightarrow> uuid \<Rightarrow> factors \<Rightarrow> confirmation \<Rightarrow> instant \<Rightarrow> nat \<Rightarrow> problem + (database \<times> bool)" where
  "confirm_right sv cfg db u f inp now unix =
     (let rp = relying_party_of (se_public_origin cfg)
      in case (f, cf_code inp, cf_key inp) of
           (DirectoryFactors, Some given, _) \<Rightarrow> verify_app sv db u given unix
         | (DirectoryFactors, None, Some answer) \<Rightarrow> Inr (verify_key sv rp db u answer UseConfirm now)
         | (BreakGlassFactor, Some given, _) \<Rightarrow>
             (case bg_verify_code sv db u given unix of Inl _ \<Rightarrow> Inl (problem Internal) | Inr r \<Rightarrow> Inr r)
         | (LocalFactors k, Some given, _) \<Rightarrow> Inr (local_code sv db u k given unix)
         | (LocalFactors k, None, Some answer) \<Rightarrow> Inr (local_key sv rp db u k answer now)
         | _ \<Rightarrow> Inr (db, False))"

datatype confirm_answer = ConfirmDone | ConfirmEnded "string list" problem | ConfirmProblem problem

definition audit_confirm :: "session \<Rightarrow> string \<Rightarrow> (string \<times> json) list \<Rightarrow> string \<Rightarrow> audit_entry" where
  "audit_confirm s action details address = \<lparr>au_actor = Some (s_user s), au_name = s_username s, au_action = action,
     au_object = None, au_details = JObject details, au_address = Some address\<rparr>"

definition confirm ::
  "server \<Rightarrow> settings \<Rightarrow> (uuid \<Rightarrow> kratos_factors option) option \<Rightarrow> string \<Rightarrow> database \<Rightarrow> session \<Rightarrow> confirmation \<Rightarrow> instant \<Rightarrow> nat
    \<Rightarrow> database \<times> confirm_answer" where
  "confirm sv cfg kratos address db s inp now unix =
     (if (cf_code inp = None) = (cf_key inp = None) then (db, ConfirmProblem (problem InvalidRequest))
      else
        (let how = (if cf_code inp \<noteq> None then ''app'' else ''key'')
         in case factors_of kratos s of
              Inl p \<Rightarrow> (db, ConfirmProblem p)
            | Inr f \<Rightarrow>
           (case confirm_right sv cfg db (s_user s) f inp now unix of
              Inl p \<Rightarrow> (db, ConfirmProblem p)
            | Inr (tx, True) \<Rightarrow>
                (audit_record (session_confirmed tx (s_hash s) now)
                   (audit_confirm s ''session.confirmed'' [(''method'', JText how), (''unlocked'', JBool (s_locked s))] address), ConfirmDone)
            | Inr (tx, False) \<Rightarrow>
                (case session_confirm_failed tx (s_hash s) of
                   None \<Rightarrow> (db, ConfirmProblem (problem Internal))
                 | Some (tx, ended) \<Rightarrow>
                     (audit_record tx (audit_confirm s ''session.confirm_failed'' [(''method'', JText how), (''ended'', JBool ended)] address),
                      if ended then ConfirmEnded [clear_cookie_text COOKIE_NAME, clear_cookie_text LOGIN_KEY_COOKIE] (problem Unauthenticated)
                      else ConfirmProblem (problem SecondFactorInvalid))))))"

section \<open>The limiter counts\<close>

text \<open>
  What the limiter stands for: the failures of each key and since when, as long as the window of the
  first one has not passed.
\<close>

definition active :: "instant \<Rightarrow> instant \<Rightarrow> (string, window) hashmap \<Rightarrow> string \<Rightarrow> (nat \<times> instant) option" where
  "active span now ws k =
     (case hm_get ws k of
        Some w \<Rightarrow> if now - wn_since w < span then Some (wn_failures w, wn_since w) else None
      | None \<Rightarrow> None)"

abbreviation active_windows :: "limiter \<Rightarrow> instant \<Rightarrow> string \<Rightarrow> (nat \<times> instant) option" where
  "active_windows lm now \<equiv> active (lm_window lm) now (lm_windows lm)"

text \<open>One more failure of a key.\<close>

definition count_failure :: "instant \<Rightarrow> string \<Rightarrow> (string \<Rightarrow> (nat \<times> instant) option) \<Rightarrow> string \<Rightarrow> (nat \<times> instant) option" where
  "count_failure now k m = m(k \<mapsto> (case m k of Some (n, s) \<Rightarrow> (n + 1, s) | None \<Rightarrow> (1, now)))"

lemma active_count_window:
  "0 < lm_window lm \<Longrightarrow> active (lm_window lm) now (count_window lm now k ws) = count_failure now k (active (lm_window lm) now ws)"
  by (auto simp: fun_eq_iff active_def count_window_def count_failure_def Let_def hm.get_put split: option.splits)

lemma active_fold:
  "0 < lm_window lm \<Longrightarrow>
    active (lm_window lm) now (fold (\<lambda>(l, v). count_window lm now (limiter_key lower l v)) keys ws)
      = fold (\<lambda>(l, v). count_failure now (limiter_key lower l v)) keys (active (lm_window lm) now ws)"
  by (induction keys arbitrary: ws) (auto simp: active_count_window)

lemma active_retain:
  "hm_ok ws \<Longrightarrow> active span now (filter (\<lambda>(_, w). now - wn_since w < span) ws) = active span now ws"
  by (auto simp: fun_eq_iff active_def hm_get_filter split: option.splits)

lemma hm_ok_count_fold: "hm_ok ws \<Longrightarrow> hm_ok (fold (\<lambda>(l, v). count_window lm now (limiter_key lower l v)) keys ws)"
proof (induction keys arbitrary: ws)
  case (Cons p keys)
  have "hm_ok (count_window lm now k ws)" for k
    unfolding count_window_def Let_def by (rule hm.ok_put) (rule Cons.prems)
  then show ?case using Cons.IH by (simp add: split_def)
qed simp

lemma limiter_check_Inr:
  "limiter_check lower lm keys now = Inr () \<longleftrightarrow>
    (\<forall>(l, v) \<in> set keys. case active_windows lm now (limiter_key lower l v) of Some (n, _) \<Rightarrow> n < lt_max l | None \<Rightarrow> True)"
proof -
  let ?f = "\<lambda>(l, v). case hm_get (lm_windows lm) (limiter_key lower l v) of None \<Rightarrow> None
    | Some w \<Rightarrow> (let elapsed = now - wn_since w
        in if elapsed < lm_window lm \<and> wn_failures w \<ge> lt_max l then Some (lm_window lm - elapsed) else None)"
  have "filter_map ?f keys = [] \<longleftrightarrow> (\<forall>p \<in> set keys. ?f p = None)"
    by (auto simp: map_filter_def filter_empty_conv)
  moreover have "limiter_check lower lm keys now = Inr () \<longleftrightarrow> filter_map ?f keys = []"
    using iter_max_None [of "filter_map ?f keys"] unfolding limiter_check_def by (auto simp del: iter_max_None split: option.splits)
  moreover have "?f p = None \<longleftrightarrow>
      (case p of (l, v) \<Rightarrow> case active_windows lm now (limiter_key lower l v) of Some (n, _) \<Rightarrow> n < lt_max l | None \<Rightarrow> True)" for p
    by (cases p) (auto simp: active_def Let_def split: option.splits)
  ultimately show ?thesis by simp
qed

text \<open>
  C27: The limiter does what counting failures means. Seen as the failures of each key within the window
  since its first one, a failed attempt adds one to each of its keys and starts the window of a new
  one, a success clears the user's and nothing else, an attempt is let through exactly if none of its
  keys has reached its limit, and time alone only ends windows.
\<close>

theorem limiter_refines:
  assumes "hm_ok (lm_windows lm)" and "0 < lm_window lm" and "now \<le> later"
  shows "active_windows (limiter_failed lower lm keys now) now
      = fold (\<lambda>(l, v). count_failure now (limiter_key lower l v)) keys (active_windows lm now)
    \<and> active_windows (limiter_succeeded lower lm user) now = (active_windows lm now)(limiter_key lower PER_USER user := None)
    \<and> (limiter_check lower lm keys now = Inr () \<longleftrightarrow>
        (\<forall>(l, v) \<in> set keys. case active_windows lm now (limiter_key lower l v) of Some (n, _) \<Rightarrow> n < lt_max l | None \<Rightarrow> True))
    \<and> active_windows lm later = (\<lambda>k. case active_windows lm now k of
        Some (n, s) \<Rightarrow> if later < s + lm_window lm then Some (n, s) else None | None \<Rightarrow> None)
    \<and> hm_ok (lm_windows (limiter_failed lower lm keys now)) \<and> hm_ok (lm_windows (limiter_succeeded lower lm user))"
proof -
  have "active_windows (limiter_failed lower lm keys now) now
      = fold (\<lambda>(l, v). count_failure now (limiter_key lower l v)) keys (active_windows lm now)"
    using assms(1,2) by (simp add: limiter_failed_def Let_def active_fold active_retain)
  moreover have "active_windows (limiter_succeeded lower lm user) now = (active_windows lm now)(limiter_key lower PER_USER user := None)"
    using assms(1) by (auto simp: fun_eq_iff limiter_succeeded_def active_def hm.get_del)
  moreover have "active_windows lm later = (\<lambda>k. case active_windows lm now k of
        Some (n, s) \<Rightarrow> if later < s + lm_window lm then Some (n, s) else None | None \<Rightarrow> None)"
    using assms(3) by (auto simp: fun_eq_iff active_def split: option.splits)
  moreover have "hm_ok (lm_windows (limiter_failed lower lm keys now))" "hm_ok (lm_windows (limiter_succeeded lower lm user))"
    using assms(1) by (simp_all add: limiter_failed_def limiter_succeeded_def Let_def hm_ok_count_fold hm.ok_del)
  ultimately show ?thesis unfolding limiter_check_Inr by blast
qed

text \<open>
  Nobody stays locked out. Whatever failed before, once the window has passed since the last
  failure, an attempt is let through again.
\<close>

theorem limiter_lets_in_again:
  assumes "\<forall>(k, w) \<in> set (lm_windows lm). wn_since w \<le> now" and "now + lm_window lm \<le> later"
  shows "limiter_check lower lm keys later = Inr ()"
proof -
  have "active_windows lm later k = None" for k
    using assms by (auto simp: active_def split: option.splits dest!: map_of_SomeD)
  then show ?thesis by (simp add: limiter_check_Inr)
qed

section \<open>Who gets a session\<close>

lemma verify_key_sessions: "db_sessions (fst (verify_key sv rp db u answer usage now)) = db_sessions db"
  by (auto simp: verify_key_def take_challenge_def split: option.splits sum.splits prod.splits)

lemma at_sign_in_sessions:
  "at_sign_in sv rnd rp pool db u account names st now unix = Inr (r, db', pool') \<Longrightarrow>
    db_sessions db' = db_sessions db \<and> db_sessions pool' = db_sessions pool \<and> db_users db' = db_users db \<and> db_users pool' = db_users pool"
proof -
  have k: "db_users (fst (verify_key sv rp db u answer usage now)) = db_users db" for answer usage
    by (auto simp: verify_key_def take_challenge_def split: option.splits sum.splits prod.splits)
  have v: "verify_app sv db u given unix = Inr (db', ok) \<Longrightarrow> db_sessions db' = db_sessions db \<and> db_users db' = db_users db" for db' given ok
    by (auto simp: verify_app_def split: option.splits sum.splits if_splits)
  have e: "enroll sv r db u secret given unix = Inr (db', ok) \<Longrightarrow> db_sessions db' = db_sessions db \<and> db_users db' = db_users db" for r db' secret given ok
    by (auto simp: enroll_def Let_def split: option.splits sum.splits if_splits)
  assume "at_sign_in sv rnd rp pool db u account names st now unix = Inr (r, db', pool')"
  then show ?thesis
    using k verify_key_sessions [of sv rp db u] v e
    by (auto simp: at_sign_in_def Let_def challenge_def offer_def split: option.splits sum.splits prod.splits if_splits dest!: v e)
      (metis fst_conv)+
qed

lemma audit_record_tables [simp]:
  "db_sessions (audit_record db e) = db_sessions db" "db_users (audit_record db e) = db_users db"
  by (simp_all add: audit_record_def)

lemma upsert_sessions: "upsert_directory_user db i idn now = Some (tx, u) \<Longrightarrow> db_sessions tx = db_sessions db \<and> hm_get (db_users tx) u \<noteq> None"
  by (auto simp: upsert_directory_user_def Let_def hm.get_put split: if_splits option.splits)

text \<open>The session a sign-in starts, apart from the sealed password it may keep.\<close>

definition starts_session :: "server \<Rightarrow> settings \<Rightarrow> sign_in_randomness \<Rightarrow> uuid \<Rightarrow> string list \<Rightarrow> instant \<Rightarrow> database \<Rightarrow> database \<Rightarrow> bool" where
  "starts_session sv cfg rnd u groups now db db' \<longleftrightarrow>
     hm_get (db_sessions db) (sv_sha sv (si_token rnd)) = None
     \<and> (\<exists>secret. hm_get (db_sessions db') (sv_sha sv (si_token rnd))
          = Some ((new_row (si_session rnd) ''web'' u groups now (se_max cfg))\<lparr>sr_secret := secret\<rparr>))
     \<and> (\<forall>h. h \<noteq> sv_sha sv (si_token rnd) \<longrightarrow> hm_get (db_sessions db') h = hm_get (db_sessions db) h)"

lemma create_session_starts:
  assumes "create_session (sv_sha sv) db (si_token rnd) (si_session rnd) u groups (se_max cfg) now = (db', True)"
  shows "starts_session sv cfg rnd u groups now db db' \<and> hm_get (db_users db') u \<noteq> None \<and> db_users db' = db_users db"
  using assms
  by (auto simp: create_session_def create_row_def starts_session_def hm.get_put new_row_def split: if_splits)

lemma starts_session_mono:
  "starts_session sv cfg rnd u groups now db db' \<Longrightarrow> db_sessions db0 = db_sessions db \<Longrightarrow> db_sessions db1 = db_sessions db' \<Longrightarrow>
    starts_session sv cfg rnd u groups now db0 db1"
  by (simp add: starts_session_def)

lemma starts_session_keep:
  assumes "starts_session sv cfg rnd u groups now db db'"
    and "keep_sign_in_password (sv_sha sv) ci b64 nonce key db' (si_token rnd) pw = (db'', kt)"
  shows "starts_session sv cfg rnd u groups now db db''"
  using assms by (auto simp: starts_session_def keep_sign_in_password_def Let_def sessions_update_row hm_get_update)

lemma start_directory_session_Some:
  assumes "start_directory_session sv cfg rnd tx u idn pw address used new now = Some (db', cookies)"
  shows "starts_session sv cfg rnd u (id_groups idn) now tx db' \<and> db_users db' = db_users tx \<and> hd cookies = set_cookie (si_token rnd)"
proof -
  let ?tx = "if new then audit_record tx \<lparr>au_actor = Some u, au_name = id_username idn, au_action = ''second_factor.enrolled'',
                   au_object = Some (''user'', u), au_details = JObject [], au_address = Some address\<rparr> else tx"
  have tx: "db_sessions ?tx = db_sessions tx" "db_users ?tx = db_users tx" by simp_all
  obtain tx1 where c: "create_session (sv_sha sv) ?tx (si_token rnd) (si_session rnd) u (id_groups idn) (se_max cfg) now = (tx1, True)"
    using assms by (auto simp: start_directory_session_def Let_def split: prod.splits if_splits)
  note s = create_session_starts [OF c]
  from s tx have st: "starts_session sv cfg rnd u (id_groups idn) now tx tx1" and us: "db_users tx1 = db_users tx"
    by (simp_all add: starts_session_def)
  have "db_sessions db' = db_sessions tx1 \<or> (\<exists>b k. keep_sign_in_password (sv_sha sv) (sv_aead sv) (sv_b64url sv) (si_nonce rnd) (si_key rnd)
      tx1 (si_token rnd) (as_bytes pw) = (b, k) \<and> db_sessions db' = db_sessions b)"
    and "db_users db' = db_users tx1" "hd cookies = set_cookie (si_token rnd)"
    using assms c by (auto simp: start_directory_session_def Let_def keep_sign_in_password_def update_row_other split: if_splits)
  moreover have "starts_session sv cfg rnd u (id_groups idn) now tx db'" if "db_sessions db' = db_sessions tx1"
    using starts_session_mono [OF st refl that] .
  moreover have "starts_session sv cfg rnd u (id_groups idn) now tx db'"
    if "keep_sign_in_password (sv_sha sv) (sv_aead sv) (sv_b64url sv) (si_nonce rnd) (si_key rnd) tx1 (si_token rnd) (as_bytes pw) = (b, k)"
      "db_sessions db' = db_sessions b" for b k
    using starts_session_mono [OF starts_session_keep [OF st that(1)] refl that(2)] .
  ultimately show ?thesis using us by auto
qed

lemma lookup_started:
  assumes "starts_session sv cfg rnd u groups now db db'" "hm_get (db_users db') u = Some r" "\<not> ur_blocked r" "0 < se_max cfg"
  shows "\<exists>m. me_started sv cfg db' (si_token rnd) now = (touch db' (sv_sha sv (si_token rnd)) (se_idle cfg) now, Inr m)
    \<or> me_started sv cfg db' (si_token rnd) now = (db', Inr m)"
  using assms by (auto simp: starts_session_def me_started_def lookup_session_def find_session_def by_hash_def new_row_def)

lemma touch_started:
  assumes "starts_session sv cfg rnd u groups now db db'"
  shows "starts_session sv cfg rnd u groups now db (touch db' (sv_sha sv (si_token rnd)) idle now)"
proof -
  obtain secret where r: "hm_get (db_sessions db') (sv_sha sv (si_token rnd))
      = Some ((new_row (si_session rnd) ''web'' u groups now (se_max cfg))\<lparr>sr_secret := secret\<rparr>)"
    using assms by (auto simp: starts_session_def)
  have "hm_get (db_sessions (touch db' (sv_sha sv (si_token rnd)) idle now)) h = hm_get (db_sessions db') h" for h
    by (simp add: touch_def sessions_update_row hm_get_update r) (simp add: new_row_def minute_def)
  with assms show ?thesis by (simp add: starts_session_def)
qed

lemma sign_in_passed:
  assumes "upsert_directory_user db (si_user rnd) idn now = Some (tx, u)" "\<not> blocked tx u" "0 < se_max cfg"
    and "at_sign_in sv step_rnd rp db tx u account names st now unix = Inr (Passed used new, tx', pool')"
    and "start_directory_session sv cfg rnd tx' u idn pw address used new now = Some (db1, cookies)"
  obtains db2 m where "me_started sv cfg db1 (si_token rnd) now = (db2, Inr m)"
    "starts_session sv cfg rnd u (id_groups idn) now db db2" "hd cookies = set_cookie (si_token rnd)"
    "used \<or> \<not> enrolled tx u \<and> \<not> required tx names"
proof -
  note up = upsert_sessions [OF assms(1)] and step = at_sign_in_sessions [OF assms(4)]
  note s = start_directory_session_Some [OF assms(5)]
  have s1: "starts_session sv cfg rnd u (id_groups idn) now db db1"
    using starts_session_mono [OF conjunct1 [OF s], of db db1] up step by simp
  obtain r :: user_row where r: "hm_get (db_users db1) u = Some r" "\<not> ur_blocked r"
    using up step s assms(2) by (auto simp: blocked_def split: option.splits)
  obtain m where "me_started sv cfg db1 (si_token rnd) now = (touch db1 (sv_sha sv (si_token rnd)) (se_idle cfg) now, Inr m)
      \<or> me_started sv cfg db1 (si_token rnd) now = (db1, Inr m)"
    using lookup_started [OF s1 r assms(3)] by blast
  then obtain db2 where "me_started sv cfg db1 (si_token rnd) now = (db2, Inr m)" "starts_session sv cfg rnd u (id_groups idn) now db db2"
    using s1 touch_started [OF s1] by metis
  moreover have "used \<or> \<not> enrolled tx u \<and> \<not> required tx names"
    using assms(4) by (auto simp: at_sign_in_def Let_def offer_def split: option.splits sum.splits prod.splits if_splits)
  ultimately show ?thesis using s by (intro that) auto
qed

lemma step_result_cases:
  obtains (problem) p where "r = Inl p" | (refused) p failed tx pool where "r = Inr (RefusedStep p failed, tx, pool)"
    | (passed) used new tx pool where "r = Inr (Passed used new, tx, pool)"
proof (cases r)
  case (Inr x)
  then show thesis using refused passed by (cases x; cases "fst x") auto
qed (rule problem)

text \<open>The part of a sign-in after the password: the second step, and what follows it.\<close>

lemma sign_in_second:
  fixes sv cfg rnd db tx u idn body now unix
  defines "stp \<equiv> at_sign_in sv (si_step rnd) (relying_party_of (se_public_origin cfg)) db tx u (id_username idn)
    (id_groups idn @ [id_sid idn]) \<lparr>st_code = sb_code body, st_secret = sb_totp_secret body, st_key = sb_security_key body\<rparr> now unix"
  assumes "upsert_directory_user db (si_user rnd) idn now = Some (tx, u)" "\<not> blocked tx u" "0 < se_max cfg"
    and si: "(case stp of
        Inl p \<Rightarrow> ((db, lm), Inl p)
      | Inr (RefusedStep p failed, _, db) \<Rightarrow>
          if failed then ((audit_record db (a p), lm1), Inl p) else ((db, lm), Inl p)
      | Inr (Passed used new, tx, _) \<Rightarrow>
          (case start_directory_session sv cfg rnd tx u idn (sb_password body) address used new now of
             None \<Rightarrow> ((db, lm2), Inl (problem Internal))
           | Some (db, cookies) \<Rightarrow>
               (case me_started sv cfg db (si_token rnd) now of
                  (db, me) \<Rightarrow> ((db, lm2), case me of Inl p \<Rightarrow> Inl p | Inr m \<Rightarrow> Inr (cookies, m))))) = ((db', lm'), res)"
  shows "case res of Inl p \<Rightarrow> db_sessions db' = db_sessions db
    | Inr (cookies, m) \<Rightarrow> hd cookies = set_cookie (si_token rnd) \<and> starts_session sv cfg rnd u (id_groups idn) now db db'
        \<and> (\<exists>used new tx' pool'. stp = Inr (Passed used new, tx', pool')
             \<and> (used \<or> \<not> enrolled tx u \<and> \<not> required tx (id_groups idn @ [id_sid idn])))"
proof (cases stp rule: step_result_cases)
  case (refused p failed tx' pool')
  with si show ?thesis using at_sign_in_sessions [OF refused [unfolded stp_def]] by (auto split: if_splits)
next
  case (passed used new tx' pool')
  show ?thesis
  proof (cases "start_directory_session sv cfg rnd tx' u idn (sb_password body) address used new now")
    case (Some started)
    obtain db1 cookies where s: "start_directory_session sv cfg rnd tx' u idn (sb_password body) address used new now = Some (db1, cookies)"
      using Some by (cases started) simp
    obtain db2 m where m: "me_started sv cfg db1 (si_token rnd) now = (db2, Inr m)"
        "starts_session sv cfg rnd u (id_groups idn) now db db2" "hd cookies = set_cookie (si_token rnd)"
        "used \<or> \<not> enrolled tx u \<and> \<not> required tx (id_groups idn @ [id_sid idn])"
      by (rule sign_in_passed [OF assms(2-4) passed [unfolded stp_def] s])
    with si passed s have "res = Inr (cookies, m)" "db' = db2" by auto
    with m passed show ?thesis by auto
  qed (use si passed in auto)
qed (use si in auto)

text \<open>
  How a sign-in with a directory ends: what a success rests on and what it changes of the sessions, and
  that a failure starts, ends and changes none.
\<close>

lemma sign_in_sessions:
  assumes "sign_in sv cfg rnd directory address body clock now unix (db, lm) = ((db', lm'), res)" and "0 < se_max cfg"
  shows "case res of
      Inl p \<Rightarrow> db_sessions db' = db_sessions db
    | Inr (cookies, m) \<Rightarrow>
        limiter_check (sv_lower sv) lm [(PER_USER, sb_username body), (PER_ADDRESS, address)] clock = Inr ()
        \<and> hd cookies = set_cookie (si_token rnd)
        \<and> (\<exists>authenticate idn tx u. directory = Some authenticate \<and> authenticate (sb_username body) (sb_password body) = Inr idn
            \<and> upsert_directory_user db (si_user rnd) idn now = Some (tx, u) \<and> \<not> blocked tx u
            \<and> (\<exists>used new tx' pool'. at_sign_in sv (si_step rnd) (relying_party_of (se_public_origin cfg)) db tx u (id_username idn)
                 (id_groups idn @ [id_sid idn])
                 \<lparr>st_code = sb_code body, st_secret = sb_totp_secret body, st_key = sb_security_key body\<rparr> now unix
                   = Inr (Passed used new, tx', pool')
                 \<and> (used \<or> \<not> enrolled tx u \<and> \<not> required tx (id_groups idn @ [id_sid idn])))
            \<and> starts_session sv cfg rnd u (id_groups idn) now db db')"
proof (cases "limiter_check (sv_lower sv) lm [(PER_USER, sb_username body), (PER_ADDRESS, address)] clock")
  case (Inl wait)
  with assms(1) show ?thesis by (auto simp: sign_in_def Let_def)
next
  case lim: (Inr _)
  note si = assms(1) [unfolded sign_in_def Let_def prod.case lim sum.case]
  show ?thesis
  proof (cases directory)
    case None
    with si show ?thesis by auto
  next
    case dir: (Some authenticate)
    show ?thesis
    proof (cases "authenticate (sb_username body) (sb_password body)")
      case (Inl e)
      with si dir show ?thesis by auto
    next
      case idn: (Inr idn)
      show ?thesis
      proof (cases "upsert_directory_user db (si_user rnd) idn now")
        case None
        with si dir idn show ?thesis by auto
      next
        case (Some txu)
        obtain tx u where up: "upsert_directory_user db (si_user rnd) idn now = Some (tx, u)" using Some by (cases txu) simp
        note si = si [unfolded dir option.case idn sum.case up prod.case]
        show ?thesis
        proof (cases "blocked tx u")
          case True
          with si show ?thesis by (auto simp: refuse_blocked_def)
        next
          case False
          from sign_in_second [OF up False assms(2) si [unfolded if_not_P [OF False]]] dir idn up lim False
          show ?thesis by (auto split: sum.splits)
        qed
      qed
    qed
  qed
qed

lemma bg_code_matches_tables:
  "bg_code_matches sv db u v given t = Inr (db', ok) \<Longrightarrow> db_sessions db' = db_sessions db \<and> db_users db' = db_users db"
  by (auto simp: bg_code_matches_def split: option.splits sum.splits if_splits)

lemma authenticate_at_cases:
  assumes "authenticate_at sv db username password given t = Inr (db', a)"
  shows "db_sessions db' = db_sessions db \<and> db_users db' = db_users db
    \<and> (\<forall>account. a = Some account \<longrightarrow> (\<exists>u r l. bg_row sv db username = Some (u, r, l) \<and> account = bg_account_of (u, r, l)
        \<and> sv_matches sv (la_password_hash l) password \<and> bg_code_matches sv db u (la_totp_version l) given t = Inr (db', True)))"
  using assms by (auto simp: authenticate_at_def split: option.splits sum.splits if_splits prod.splits dest: bg_code_matches_tables)

lemma break_glass_started:
  assumes "create_session (sv_sha sv) (db\<lparr>db_users := hm_update u f (db_users db)\<rparr>) (si_token rnd) (si_session rnd) u [] (se_max cfg) now = (tx, True)"
    and "\<not> blocked db u" "\<And>r. ur_blocked (f r) = ur_blocked r" "0 < se_max cfg"
  obtains db' m where "me_started sv cfg (audit_record tx e) (si_token rnd) now = (db', Inr m)" "starts_session sv cfg rnd u [] now db db'"
proof -
  note s = create_session_starts [OF assms(1)]
  have s1: "starts_session sv cfg rnd u [] now db (audit_record tx e)"
    using starts_session_mono [OF conjunct1 [OF s], of db "audit_record tx e"] by simp
  obtain r :: user_row where r: "hm_get (db_users (audit_record tx e)) u = Some r" "\<not> ur_blocked r"
    using s assms(2,3) by (auto simp: blocked_def hm_get_update split: option.splits)
  show thesis
    using lookup_started [OF s1 r assms(4)] s1 touch_started [OF s1] that by metis
qed

text \<open>
  C26: A break-glass sign-in gives a session only to who knows the account's password and has a code of
  its app. If it succeeds, the limiter let it through, the account has that name, its password fits,
  the code is right and is now used up, and it is not blocked; and what changes of the sessions is one
  new one, for that account and with no groups, so that no rule for a directory group applies to it.
  If it fails, no session is started, ended or changed.
\<close>

theorem break_glass_sign_in_sessions:
  assumes "sign_in_break_glass sv cfg rnd address username password given clock now unix (db, lm) = ((db', lm'), res)" and "0 < se_max cfg"
  shows "case res of
      Inl p \<Rightarrow> db_sessions db' = db_sessions db
    | Inr (cookies, m) \<Rightarrow>
        limiter_check (sv_lower sv) lm [(PER_USER, username), (PER_ADDRESS, address)] clock = Inr ()
        \<and> cookies = [set_cookie (si_token rnd)]
        \<and> (\<exists>u r l db1. bg_row sv db username = Some (u, r, l) \<and> sv_matches sv (la_password_hash l) password
            \<and> bg_code_matches sv db u (la_totp_version l) given unix = Inr (db1, True) \<and> \<not> blocked db u
            \<and> starts_session sv cfg rnd u [] now db db')"
proof (cases "limiter_check (sv_lower sv) lm [(PER_USER, username), (PER_ADDRESS, address)] clock")
  case (Inl wait)
  with assms(1) show ?thesis by (auto simp: sign_in_break_glass_def Let_def)
next
  case lim: (Inr _)
  note si = assms(1) [unfolded sign_in_break_glass_def Let_def prod.case lim sum.case]
  consider e where "authenticate_at sv db username password given unix = Inl e"
    | db1 where "authenticate_at sv db username password given unix = Inr (db1, None)"
    | db1 account where "authenticate_at sv db username password given unix = Inr (db1, Some account)"
    by (metis obj_sumE option.exhaust surj_pair)
  then show ?thesis
  proof cases
    case 1
    with si show ?thesis by auto
  next
    case 2
    with si show ?thesis using authenticate_at_cases [OF 2] by auto
  next
    case (3 db1 account)
    then obtain u r l where tables: "db_sessions db1 = db_sessions db" "db_users db1 = db_users db"
      and a: "bg_row sv db username = Some (u, r, l)" "ba_user account = u" "sv_matches sv (la_password_hash l) password"
      "bg_code_matches sv db u (la_totp_version l) given unix = Inr (db1, True)"
      using authenticate_at_cases [OF 3] by (auto simp: bg_account_of_def)
    have b: "blocked db1 u = blocked db u" by (simp add: blocked_def tables)
    obtain tx created where c: "create_session (sv_sha sv) (db1\<lparr>db_users := hm_update u (\<lambda>r. r\<lparr>ur_last_sign_in := Some now\<rparr>) (db_users db1)\<rparr>)
        (si_token rnd) (si_session rnd) u [] (se_max cfg) now = (tx, created)" by fastforce
    show ?thesis
    proof (cases "blocked db u \<or> \<not> created")
      case True
      with si 3 a b c tables show ?thesis by (auto simp: refuse_blocked_def)
    next
      case False
      let ?e = "\<lparr>au_actor = Some u, au_name = ba_username account, au_action = ''session.sign_in'', au_object = None,
        au_details = JObject [(''kind'', JText ''break_glass''), (''break_glass'', JBool True)], au_address = Some address\<rparr>"
      from c False b have c': "create_session (sv_sha sv) (db1\<lparr>db_users := hm_update u (\<lambda>r. r\<lparr>ur_last_sign_in := Some now\<rparr>) (db_users db1)\<rparr>)
        (si_token rnd) (si_session rnd) u [] (se_max cfg) now = (tx, True)" and nb: "\<not> blocked db1 u" by simp_all
      obtain db2 m where m: "me_started sv cfg (audit_record tx ?e) (si_token rnd) now = (db2, Inr m)" "starts_session sv cfg rnd u [] now db1 db2"
        by (rule break_glass_started [OF c' nb _ assms(2)]) simp_all
      with si 3 a b c False have "res = Inr ([set_cookie (si_token rnd)], m)" "db' = db2" by auto
      with m a lim False show ?thesis using starts_session_mono [OF m(2), of db db2] tables by auto
    qed
  qed
qed

section \<open>What confirming does\<close>

text \<open>Whether the app of a local account, kept by Kratos, takes a code: another check of one-time codes.\<close>

definition local_latest :: "uuid \<Rightarrow> database \<Rightarrow> int" where
  "local_latest u db = (case hm_get (db_confirm_codes db) u of Some l \<Rightarrow> l | None \<Rightarrow> - 1)"

lemma local_code_True:
  assumes "local_code sv db u f given t = (db', True)"
  obtains app k where "kf_app f = Some app" "Totp.step (sv_hmac sv) (tp_secret app) (trim given) t = Some k"
    "db' = db\<lparr>db_confirm_codes := hm_insert u (to_i64 k) (db_confirm_codes db)\<rparr>" "local_latest u db < to_i64 k"
proof -
  have "0 \<le> to_i64 k" for k by (simp add: to_i64_def)
  then show ?thesis
    using assms that by (auto simp: local_code_def local_latest_def less_le_trans [of "- 1" 0] split: option.splits if_splits)
qed

lemma local_code_False: "local_code sv db u f given t = (db', False) \<Longrightarrow> db' = db"
  by (auto simp: local_code_def split: option.splits if_splits)

interpretation confirmations: one_time_codes "\<lambda>db given t. local_code sv db u f given t" "local_latest u" for sv u f
proof
  show "local_latest u db < local_latest u db'" if "local_code sv db u f given t = (db', True)" for db given t db'
    using that by (rule local_code_True) (simp add: local_latest_def hm.get_put)
  show "local_latest u db' = local_latest u db" if "local_code sv db u f given t = (db', False)" for db given t db'
    using local_code_False [OF that] by simp
qed

lemma confirm_right_tables:
  assumes "confirm_right sv cfg db u f inp now unix = Inr (tx, ok)"
  shows "db_sessions tx = db_sessions db \<and> db_users tx = db_users db"
proof -
  have "db_sessions tx = db_sessions db \<and> db_users tx = db_users db" if "verify_app sv db u given unix = Inr (tx, ok)" for given
    using that by (auto simp: verify_app_def split: option.splits sum.splits if_splits)
  moreover have "db_sessions tx = db_sessions db \<and> db_users tx = db_users db" if "verify_key sv rp db u answer UseConfirm now = (tx, ok)" for rp answer
    using that by (auto simp: verify_key_def take_challenge_def split: option.splits sum.splits prod.splits if_splits)
  moreover have "db_sessions tx = db_sessions db \<and> db_users tx = db_users db" if "bg_verify_code sv db u given unix = Inr (tx, ok)" for given
    using that bg_code_matches_tables by (auto simp: bg_verify_code_def split: option.splits)
  moreover have "db_sessions tx = db_sessions db \<and> db_users tx = db_users db" if "local_code sv db u k given unix = (tx, ok)" for k given
    using that by (auto simp: local_code_def split: option.splits if_splits)
  moreover have "db_sessions tx = db_sessions db \<and> db_users tx = db_users db" if "local_key sv rp db u k answer now = (tx, ok)" for k rp answer
    using that by (auto simp: local_key_def take_challenge_def Let_def split: option.splits sum.splits prod.splits if_splits)
  ultimately show ?thesis
    using assms by (auto simp: confirm_right_def Let_def split: factors.splits option.splits sum.splits)
qed

text \<open>
  What confirming does to the session. It is done only if one factor was given and is right; then
  the session is confirmed and used now, and its wrong answers are forgotten. A wrong answer is counted,
  the fifth in a row ends the session and clears its cookies, and every other problem leaves the
  session as it was. No other session changes.
\<close>

theorem confirm_exact:
  assumes "confirm sv cfg kratos address db s inp now unix = (db', a)" and "hm_ok (db_sessions db)"
    and "hm_get (db_sessions db) (s_hash s) = Some r"
  shows "(case a of
      ConfirmDone \<Rightarrow> (cf_code inp = None) \<noteq> (cf_key inp = None)
        \<and> (\<exists>f tx. factors_of kratos s = Inr f \<and> confirm_right sv cfg db (s_user s) f inp now unix = Inr (tx, True))
        \<and> hm_get (db_sessions db') (s_hash s) = Some (r\<lparr>sr_confirmed := Some now, sr_seen := now, sr_failures := 0\<rparr>)
    | ConfirmEnded cookies p \<Rightarrow> p = problem Unauthenticated \<and> MAX_FAILURES \<le> sr_failures r + 1 \<and> hm_get (db_sessions db') (s_hash s) = None
        \<and> cookies = [clear_cookie_text COOKIE_NAME, clear_cookie_text LOGIN_KEY_COOKIE]
    | ConfirmProblem p \<Rightarrow>
        hm_get (db_sessions db') (s_hash s) = Some r
        \<or> p = problem SecondFactorInvalid \<and> sr_failures r + 1 < MAX_FAILURES
          \<and> hm_get (db_sessions db') (s_hash s) = Some (r\<lparr>sr_failures := sr_failures r + 1\<rparr>))
    \<and> (\<forall>h. h \<noteq> s_hash s \<longrightarrow> hm_get (db_sessions db') h = hm_get (db_sessions db) h)"
proof (cases "(cf_code inp = None) = (cf_key inp = None) \<or> (\<exists>p. factors_of kratos s = Inl p)")
  case True
  with assms(1,3) show ?thesis by (auto simp: confirm_def Let_def split: if_splits)
next
  case False
  then obtain f where f: "factors_of kratos s = Inr f" and one: "(cf_code inp = None) \<noteq> (cf_key inp = None)"
    by (cases "factors_of kratos s") auto
  show ?thesis
  proof (cases "confirm_right sv cfg db (s_user s) f inp now unix")
    case (Inl p)
    with assms(1,3) f one show ?thesis by (auto simp: confirm_def Let_def split: if_splits)
  next
    case (Inr tx_ok)
    then obtain tx ok where right: "confirm_right sv cfg db (s_user s) f inp now unix = Inr (tx, ok)" by (cases tx_ok) simp
    note t = confirm_right_tables [OF right]
    show ?thesis
    proof (cases ok)
      case True
      with assms(1,3) f one right t show ?thesis
        by (auto simp: confirm_def Let_def session_confirmed_def sessions_update_row hm_get_update split: if_splits)
    next
      case False
      with assms f one right t show ?thesis
        by (auto simp: confirm_def Let_def session_confirm_failed_def sessions_update_row hm_get_update hm.get_del hm_ok_update split: if_splits)
    qed
  qed
qed

text \<open>
  C28: Confirming opens a locked session again. After a confirmation is done, the session's cookie is let
  in until the idle time has passed again, still as the same user, and what asks for a confirmation
  is allowed for exactly a minute.
\<close>

theorem confirmed_session_acts:
  assumes "by_hash db (sv_sha sv token) idle t = Some s" and "confirm sv cfg kratos address db s inp now unix = (db', ConfirmDone)"
    and "session_row_of db (sv_sha sv token) now' = Some (r, ur)" and "sr_client r = ''web''"
    and "server_cookie headers COOKIE_NAME = Some token" and "now' < now + idle"
  shows "\<exists>s'. snd (require_session (sv_sha sv) db' headers background idle now' now'') = Inr s' \<and> s_user s' = s_user s
    \<and> (require_confirmation s' = Inr () \<longleftrightarrow> now' < now + CONFIRMED_FOR)"
proof -
  let ?h = "sv_sha sv token"
  have h: "s_hash s = ?h" "s_user s = sr_user r"
    using assms(1,3) by (auto simp: by_hash_def session_row_of_def split: option.splits if_splits)
  obtain f tx where right: "confirm_right sv cfg db (s_user s) f inp now unix = Inr (tx, True)"
    and db': "db_sessions db' = db_sessions (session_confirmed tx ?h now)" "db_users db' = db_users (session_confirmed tx ?h now)"
    using assms(2) by (auto simp: confirm_def Let_def h(1) split: if_splits sum.splits prod.splits bool.splits option.splits)
  note t = confirm_right_tables [OF right]
  have row: "hm_get (db_sessions db') ?h = Some (r\<lparr>sr_confirmed := Some now, sr_seen := now, sr_failures := 0\<rparr>)"
    and user: "hm_get (db_users db') (sr_user r) = Some ur" and live: "\<not> ur_blocked ur" "now' < sr_expires r"
    using assms(3) t by (auto simp: db' session_confirmed_def sessions_update_row update_row_other hm_get_update session_row_of_def
        split: option.splits if_splits)
  have "\<exists>s'. by_hash db' ?h idle now' = Some s' \<and> s_user s' = s_user s \<and> s_client s' = ''web'' \<and> \<not> s_locked s'
      \<and> s_confirmed s' = (now' < now + CONFIRMED_FOR)"
    using live assms(4,6) h by (auto simp: by_hash_def row user)
  then show ?thesis
    using assms(5) by (auto simp: require_session_def any_session_def find_session_def require_confirmation_def)
qed

section \<open>A small instance of signing in\<close>

definition sample_limiter :: limiter where
  "sample_limiter = \<lparr>lm_windows = [(''user:bob'', \<lparr>wn_failures = 4, wn_since = 10\<rparr>)], lm_window = 100\<rparr>"

theorem limiter_refines_witness:
  "limiter_check to_ascii_lowercase (limiter_failed to_ascii_lowercase sample_limiter [(PER_USER, ''bob'')] 20) [(PER_USER, ''bob'')] 20 \<noteq> Inr ()"
proof -
  have k: "limiter_key to_ascii_lowercase PER_USER ''bob'' = ''user:bob''"
    by (simp add: limiter_key_def PER_USER_def trim_visible_ascii) code_simp
  have ok: "hm_ok (lm_windows sample_limiter)" "0 < lm_window sample_limiter" by (simp_all add: sample_limiter_def hm_ok_def)
  note f = limiter_refines [OF ok, of 20 20 to_ascii_lowercase "[(PER_USER, ''bob'')]" "''bob''"]
  have a: "active_windows (limiter_failed to_ascii_lowercase sample_limiter [(PER_USER, ''bob'')] 20) 20 ''user:bob'' = Some (5, 10)"
    using f [THEN conjunct1] by (simp add: k count_failure_def) (simp add: active_def sample_limiter_def)
  have ok': "hm_ok (lm_windows (limiter_failed to_ascii_lowercase sample_limiter [(PER_USER, ''bob'')] 20))" using f by simp
  have span: "0 < lm_window (limiter_failed to_ascii_lowercase sample_limiter [(PER_USER, ''bob'')] 20)"
    by (simp add: limiter_failed_def sample_limiter_def)
  have "lt_max PER_USER = 5" by (simp add: PER_USER_def)
  with a limiter_refines [OF ok' span, of 20 20 to_ascii_lowercase "[(PER_USER, ''bob'')]" "''bob''",
      THEN conjunct2, THEN conjunct2, THEN conjunct1]
  show ?thesis by (simp add: k)
qed

theorem limiter_lets_in_again_witness:
  "limiter_check to_ascii_lowercase (sample_limiter\<lparr>lm_windows := [(''user:bob'', \<lparr>wn_failures = 9, wn_since = 10\<rparr>)]\<rparr>) [(PER_USER, ''bob'')] 110 = Inr ()"
  using limiter_lets_in_again [of "sample_limiter\<lparr>lm_windows := [(''user:bob'', \<lparr>wn_failures = 9, wn_since = 10\<rparr>)]\<rparr>" 10 110]
  by (simp add: sample_limiter_def)

definition sample_people :: database where
  "sample_people = sample_db\<lparr>db_users := [(5, sample_user)]\<rparr>"

definition sample_settings :: settings where
  "sample_settings = \<lparr>se_idle = 60, se_max = 1000, se_public_origin = ''https://hub'', se_own_account = False\<rparr>"

definition sample_random :: sign_in_randomness where
  "sample_random = \<lparr>si_token = ''tok'', si_session = 1, si_user = 6,
     si_step = \<lparr>sn_secret = [], sn_challenge = [], sn_challenge_id = 1, sn_seal = sample_seal_randomness\<rparr>, si_key = [], si_nonce = []\<rparr>"

definition sample_identity :: identity where
  "sample_identity = \<lparr>id_sid = ''S-1-5-21-7'', id_guid = 3, id_username = ''bob'', id_upn = None, id_display_name = ''Bob'', id_email = None,
     id_groups = [''S-1-5-21-9'']\<rparr>"

definition sample_body :: sign_in_body where
  "sample_body = \<lparr>sb_username = ''bob'', sb_password = ''pw'', sb_code = Some sample_code, sb_totp_secret = None, sb_security_key = None\<rparr>"

lemma sample_app: "verify_app sample_server db 5 sample_code 60 = Inr (db\<lparr>db_apps := [(5, \<lparr>app_version = 1, app_last_step = 2\<rparr>)]\<rparr>, True)"
  if "db_apps db = db_apps sample_db" "db_secrets db = db_secrets sample_db"
  using that sample_secret_loads sample_step by (simp add: verify_app_def) (simp add: sample_db_def to_i64_def)

definition sample_fresh :: limiter where
  "sample_fresh = \<lparr>lm_windows = [], lm_window = 900\<rparr>"

lemma sample_sign_in:
  assumes "authenticate ''bob'' ''pw'' = Inr sample_identity"
  shows "\<exists>db' lm' m. sign_in sample_server sample_settings sample_random (Some authenticate) ''10.0.0.1'' sample_body 20 50 60 (sample_people, sample_fresh)
      = ((db', lm'), Inr ([set_cookie ''tok''], m))"
proof -
  let ?r = "sample_user\<lparr>ur_guid := Some 3, ur_username := ''bob'', ur_display_name := ''Bob'', ur_email := None, ur_upn := None, ur_last_sign_in := Some 50\<rparr>"
  let ?tx = "sample_people\<lparr>db_users := [(5, ?r)]\<rparr>"
  have lim: "limiter_check (sv_lower sample_server) sample_fresh [(PER_USER, sb_username sample_body), (PER_ADDRESS, ''10.0.0.1'')] 20 = Inr ()"
    by (simp add: limiter_check_Inr active_def sample_fresh_def)
  have up: "upsert_directory_user sample_people (si_user sample_random) sample_identity 50 = Some (?tx, 5)"
    by (simp add: upsert_directory_user_def sample_people_def sample_identity_def sample_user_def sample_random_def)
  have nb: "\<not> blocked ?tx 5" by (simp add: blocked_def sample_user_def)
  have en: "enrolled ?tx 5" by (simp add: enrolled_def sample_people_def sample_db_def)
  have tables: "db_apps ?tx = db_apps sample_db" "db_secrets ?tx = db_secrets sample_db" "db_sessions ?tx = []" "db_users ?tx = [(5, ?r)]"
    by (simp_all add: sample_people_def sample_db_def empty_db_def)
  have st: "at_sign_in sample_server (si_step sample_random) rp sample_people ?tx 5 n g
      \<lparr>st_code = sb_code sample_body, st_secret = sb_totp_secret sample_body, st_key = sb_security_key sample_body\<rparr> 50 60
      = Inr (Passed True False, ?tx\<lparr>db_apps := [(5, \<lparr>app_version = 1, app_last_step = 2\<rparr>)]\<rparr>, sample_people)" for rp n g
    using sample_app [OF tables(1,2)] en by (simp add: at_sign_in_def sample_body_def)
  obtain db1 where s: "start_directory_session sample_server sample_settings sample_random (?tx\<lparr>db_apps := [(5, \<lparr>app_version = 1, app_last_step = 2\<rparr>)]\<rparr>)
      5 sample_identity pw ''10.0.0.1'' True False 50 = Some (db1, [set_cookie ''tok''])" for pw
    using tables by (simp add: start_directory_session_def create_session_def create_row_def new_row_def sample_settings_def sample_random_def)
  obtain db2 m where m: "me_started sample_server sample_settings db1 (si_token sample_random) 50 = (db2, Inr m)"
    by (rule sign_in_passed [OF up nb _ st s]) (simp_all add: sample_settings_def)
  have "authenticate (sb_username sample_body) (sb_password sample_body) = Inr sample_identity" using assms by (simp add: sample_body_def)
  then show ?thesis by (simp add: sign_in_def Let_def lim up nb st s m)
qed

definition sample_glass :: database where
  "sample_glass = sample_db\<lparr>db_users := [(5, sample_user\<lparr>ur_kind := ''break_glass'', ur_sid := None, ur_username := ''emergency''\<rparr>)],
     db_locals := [(5, \<lparr>la_password_hash = ''pw'', la_totp_version = 1, la_last_step = 0\<rparr>)]\<rparr>"

theorem break_glass_sign_in_sessions_witness:
  "\<exists>db' lm' cookies m. sign_in_break_glass sample_server sample_settings sample_random ''10.0.0.1'' ''Emergency'' ''pw'' sample_code 20 50 60
      (sample_glass, sample_fresh) = ((db', lm'), Inr (cookies, m))
    \<and> (\<exists>r. hm_get (db_sessions db') (as_bytes ''tok'') = Some r \<and> sr_user r = 5 \<and> sr_groups r = [])"
proof -
  let ?l = "\<lparr>la_password_hash = ''pw'', la_totp_version = 1, la_last_step = 0\<rparr>"
  let ?r = "sample_user\<lparr>ur_kind := ''break_glass'', ur_sid := None, ur_username := ''emergency''\<rparr>"
  let ?db1 = "sample_glass\<lparr>db_locals := [(5, ?l\<lparr>la_last_step := 2\<rparr>)]\<rparr>"
  have lim: "limiter_check (sv_lower sample_server) sample_fresh [(PER_USER, ''Emergency''), (PER_ADDRESS, ''10.0.0.1'')] 20 = Inr ()"
    by (simp add: limiter_check_Inr active_def sample_fresh_def)
  have "to_ascii_lowercase ''emergency'' = to_ascii_lowercase (trim ''Emergency'')" by (simp add: trim_visible_ascii) code_simp
  then have row: "bg_row sample_server sample_glass ''Emergency'' = Some (5, ?r, ?l)"
    by (simp add: bg_row_def sample_glass_def sample_server_def List.map_filter_simps)
  have tables: "db_secrets sample_glass = db_secrets sample_db" "db_locals sample_glass = [(5, ?l)]" by (simp_all add: sample_glass_def)
  have code: "bg_code_matches sample_server sample_glass 5 1 sample_code 60 = Inr (?db1, True)"
    using sample_secret_loads sample_step by (simp add: bg_code_matches_def tables) (simp add: to_i64_def)
  have auth: "authenticate_at sample_server sample_glass ''Emergency'' ''pw'' sample_code 60 = Inr (?db1, Some (bg_account_of (5, ?r, ?l)))"
    by (simp add: authenticate_at_def row code) (simp add: sample_server_def)
  have nb: "\<not> blocked ?db1 5" by (simp add: blocked_def sample_glass_def sample_user_def)
  obtain tx where c: "create_session (sv_sha sample_server) (?db1\<lparr>db_users := hm_update 5 (\<lambda>r. r\<lparr>ur_last_sign_in := Some 50\<rparr>) (db_users ?db1)\<rparr>)
      (si_token sample_random) (si_session sample_random) 5 [] (se_max sample_settings) 50 = (tx, True)"
    by (simp add: create_session_def create_row_def new_row_def sample_glass_def sample_db_def empty_db_def hm_update_def)
  let ?e = "\<lparr>au_actor = Some 5, au_name = ''emergency'', au_action = ''session.sign_in'', au_object = None,
    au_details = JObject [(''kind'', JText ''break_glass''), (''break_glass'', JBool True)], au_address = Some ''10.0.0.1''\<rparr>"
  obtain db' m where m: "me_started sample_server sample_settings (audit_record tx ?e) (si_token sample_random) 50 = (db', Inr m)"
    by (rule break_glass_started [OF c nb, of ?e]) (simp_all add: sample_settings_def)
  have a: "ba_user (bg_account_of (5, ?r, ?l)) = 5" "ba_username (bg_account_of (5, ?r, ?l)) = ''emergency''" by (simp_all add: bg_account_of_def)
  have "\<exists>db' lm' cookies m. sign_in_break_glass sample_server sample_settings sample_random ''10.0.0.1'' ''Emergency'' ''pw'' sample_code 20 50 60
      (sample_glass, sample_fresh) = ((db', lm'), Inr (cookies, m))"
    unfolding sign_in_break_glass_def Let_def prod.case lim sum.case auth option.case a if_not_P [OF nb] c m by simp
  then obtain db' lm' cookies m where si: "sign_in_break_glass sample_server sample_settings sample_random ''10.0.0.1'' ''Emergency'' ''pw'' sample_code 20 50 60
      (sample_glass, sample_fresh) = ((db', lm'), Inr (cookies, m))" by blast
  have "starts_session sample_server sample_settings sample_random 5 [] 50 sample_glass db'"
    using break_glass_sign_in_sessions [OF si] row by (auto simp: sample_settings_def)
  with si show ?thesis by (auto simp: starts_session_def sample_server_def sample_random_def new_row_def)
qed

definition sample_locked :: database where
  "sample_locked = sample_people\<lparr>db_sessions := [(as_bytes ''tok'', new_row 1 ''web'' 5 [] 0 1000)]\<rparr>"

definition sample_locked_session :: session where
  "sample_locked_session = the (by_hash sample_locked (as_bytes ''tok'') 60 100)"

lemma sample_locked:
  "by_hash sample_locked (as_bytes ''tok'') 60 100 = Some sample_locked_session" "s_locked sample_locked_session"
  "s_hash sample_locked_session = as_bytes ''tok''" "s_kind sample_locked_session = ''directory''" "s_user sample_locked_session = 5"
  by (simp_all add: sample_locked_session_def by_hash_def sample_locked_def sample_people_def sample_user_def new_row_def)

lemma sample_confirm:
  "\<exists>db'. confirm sample_server sample_settings None ''10.0.0.1'' sample_locked sample_locked_session \<lparr>cf_code = Some sample_code, cf_key = None\<rparr> 100 60
    = (db', ConfirmDone)"
  using sample_app [of sample_locked]
  by (simp add: confirm_def factors_of_def confirm_right_def sample_locked(4,5)) (simp add: sample_locked_def sample_people_def)

theorem confirm_exact_witness:
  "\<exists>db' r. confirm sample_server sample_settings None ''10.0.0.1'' sample_locked sample_locked_session \<lparr>cf_code = Some sample_code, cf_key = None\<rparr> 100 60
      = (db', ConfirmDone) \<and> hm_get (db_sessions db') (as_bytes ''tok'') = Some r \<and> sr_confirmed r = Some 100"
proof -
  obtain db' where c: "confirm sample_server sample_settings None ''10.0.0.1'' sample_locked sample_locked_session
      \<lparr>cf_code = Some sample_code, cf_key = None\<rparr> 100 60 = (db', ConfirmDone)" using sample_confirm by blast
  have "hm_ok (db_sessions sample_locked)" "hm_get (db_sessions sample_locked) (s_hash sample_locked_session) = Some (new_row 1 ''web'' 5 [] 0 1000)"
    by (simp_all add: sample_locked(3)) (simp_all add: sample_locked_def hm_ok_def)
  from confirm_exact [OF c this] c show ?thesis by (auto simp: sample_locked(3))
qed

theorem confirmed_session_acts_witness:
  "\<exists>db' s'. confirm sample_server sample_settings None ''10.0.0.1'' sample_locked sample_locked_session \<lparr>cf_code = Some sample_code, cf_key = None\<rparr> 100 60
      = (db', ConfirmDone)
    \<and> snd (require_session (sv_sha sample_server) db' [''__Host-remotehub-session=tok''] False 60 150 150) = Inr s' \<and> require_confirmation s' = Inr ()"
proof -
  obtain db' where c: "confirm sample_server sample_settings None ''10.0.0.1'' sample_locked sample_locked_session
      \<lparr>cf_code = Some sample_code, cf_key = None\<rparr> 100 60 = (db', ConfirmDone)" using sample_confirm by blast
  have sha: "sv_sha sample_server = as_bytes" by (simp add: sample_server_def)
  have "session_row_of sample_locked (as_bytes ''tok'') 150 = Some (new_row 1 ''web'' 5 [] 0 1000, sample_user)"
    by (simp add: session_row_of_def sample_locked_def sample_people_def sample_user_def new_row_def)
  moreover have "server_cookie [''__Host-remotehub-session=tok''] COOKIE_NAME = Some ''tok''" by (rule sample_cookie)
  moreover have "sr_client (new_row 1 ''web'' 5 [] 0 1000) = ''web''" by (simp add: new_row_def)
  ultimately show ?thesis
    using confirmed_session_acts [of sample_locked sample_server "''tok''" 60 100 sample_locked_session, OF _ c, of 150] c
    by (fastforce simp: sha sample_locked(1) CONFIRMED_FOR_def)
qed

end
