(* ===== verification/Principals.thy ===== *)
theory Principals
  imports Database Network
begin

text \<open>
  Whom grants, groups and roles name, and whom a request comes from: security identifiers
  (\<^verbatim>\<open>crates/directory/src/sid.rs\<close>), principals (\<^verbatim>\<open>crates/server/src/principal.rs\<close>) and the client's address
  behind reverse proxies (\<^verbatim>\<open>crates/server/src/proxy.rs\<close>). The first part shows that a SID and a principal
  are read back from what they are written as, the last that nothing a client writes itself into
  \<^verbatim>\<open>X-Forwarded-For\<close> counts.
\<close>

section \<open>Security identifiers\<close>

text \<open>\<open>u64\<close> and \<open>u32\<close> from bytes; six bytes do not fill a \<open>u64\<close>.\<close>

definition byte_value :: "bytes \<Rightarrow> nat" where
  "byte_value bs = foldl (\<lambda>acc b. acc * 256 + unat b) 0 bs"

definition le32 :: "bytes \<Rightarrow> nat" where
  "le32 bs = byte_value (rev bs)"

fun be_bytes :: "nat \<Rightarrow> nat \<Rightarrow> bytes" where
  "be_bytes 0 v = []"
| "be_bytes (Suc n) v = be_bytes n (v div 256) @ [of_nat (v mod 256)]"

definition le_bytes :: "nat \<Rightarrow> nat \<Rightarrow> bytes" where
  "le_bytes n v = rev (be_bytes n v)"

text \<open>\<open>as_chunks::<4>().0\<close>: the whole groups of four.\<close>

fun chunks4 :: "bytes \<Rightarrow> bytes list" where
  "chunks4 (a # b # c # d # bs) = [a, b, c, d] # chunks4 bs"
| "chunks4 _ = []"

definition sid_from_bytes :: "bytes \<Rightarrow> string option" where
  "sid_from_bytes bs =
     (case bs of
        revision # count # rest \<Rightarrow>
          if revision \<noteq> 1 \<or> length rest \<noteq> 6 + 4 * unat count then None
          else Some (foldl (\<lambda>sid chunk. sid @ ''-'' @ show_nat (le32 chunk))
                 (''S-'' @ show_nat (unat revision) @ ''-'' @ show_nat (byte_value (take 6 rest))) (chunks4 (drop 6 rest)))
      | _ \<Rightarrow> None)"

definition sid_to_bytes :: "string \<Rightarrow> bytes" where
  "sid_to_bytes sid =
     (let parts = drop 2 (split_on CHR ''-'' sid);
          authority = (case parts of a # _ \<Rightarrow> (case parse_unsigned (2 ^ 64 - 1) a of Some n \<Rightarrow> n | None \<Rightarrow> 0) | [] \<Rightarrow> 0);
          subs = filter_map (parse_unsigned (2 ^ 32 - 1)) (drop 1 parts)
      in [1, of_nat (length subs)] @ drop 2 (be_bytes 8 authority) @ concat (map (le_bytes 4) subs))"

definition rid :: "string \<Rightarrow> nat option" where
  "rid sid = parse_unsigned (2 ^ 32 - 1) (last (split_on CHR ''-'' sid))"

definition sid_parse :: "string \<Rightarrow> string option" where
  "sid_parse s =
     (case split_on CHR ''-'' s of
        a # b # numbers \<Rightarrow>
          if a \<noteq> ''S'' \<or> b \<noteq> ''1'' then None
          else if numbers \<noteq> [] \<and> length numbers \<le> 16
            \<and> (case parse_unsigned (2 ^ 64 - 1) (hd numbers) of Some v \<Rightarrow> v < 2 ^ 48 | None \<Rightarrow> False)
            \<and> list_all (\<lambda>n. parse_unsigned (2 ^ 32 - 1) n \<noteq> None) (tl numbers)
          then Some s else None
      | _ \<Rightarrow> None)"

section \<open>Principals\<close>

datatype principal_id = DirectoryId string | LocalId uuid | GroupId uuid

text \<open>\<open>uuid_parse\<close> is \<open>Uuid\<close>'s own parser.\<close>

definition strip_prefix :: "string \<Rightarrow> string \<Rightarrow> string option" where
  "strip_prefix p s = (if take (length p) s = p then Some (drop (length p) s) else None)"

definition principal_parse :: "(string \<Rightarrow> uuid option) \<Rightarrow> string \<Rightarrow> principal_id option" where
  "principal_parse uuid_parse s =
     (case strip_prefix ''local:'' s of
        Some i \<Rightarrow> map_option LocalId (uuid_parse i)
      | None \<Rightarrow>
     (case strip_prefix ''group:'' s of
        Some i \<Rightarrow> map_option GroupId (uuid_parse i)
      | None \<Rightarrow> map_option DirectoryId (sid_parse s)))"

fun principal_show :: "principal_id \<Rightarrow> string" where
  "principal_show (DirectoryId sid) = sid"
| "principal_show (LocalId i) = ''local:'' @ uuid_show i"
| "principal_show (GroupId i) = ''group:'' @ uuid_show i"

text \<open>\<open>own_groups\<close> is the table of remotehub's own groups.\<close>

fun principal_check :: "database \<Rightarrow> uuid list \<Rightarrow> principal_id \<Rightarrow> string \<Rightarrow> bool" where
  "principal_check db own_groups (DirectoryId _) kind \<longleftrightarrow> kind = ''user'' \<or> kind = ''group''"
| "principal_check db own_groups (LocalId i) kind \<longleftrightarrow>
     kind = ''user'' \<and> list_ex (\<lambda>(_, r). ur_identity r = Some i \<and> ur_kind r = ''local'') (db_users db)"
| "principal_check db own_groups (GroupId i) kind \<longleftrightarrow> kind = ''group'' \<and> i \<in> set own_groups"

section \<open>The client's address\<close>

text \<open>
  \<open>SocketAddr\<close>'s parser: an address with a port, \<open>a.b.c.d:p\<close> or \<open>[v6]:p\<close>, the latter with a scope
  or without.
\<close>

definition read_port :: "string \<Rightarrow> (nat \<times> string) option" where
  "read_port s = Option.bind (read_char CHR '':'' s) (\<lambda>r. read_number 10 (length r) (2 ^ 16 - 1) True r)"

definition skip_scope :: "string \<Rightarrow> string" where
  "skip_scope s =
     (case Option.bind (read_char CHR ''%'' s) (\<lambda>r. read_number 10 (length r) (2 ^ 32 - 1) True r) of
        Some (_, r) \<Rightarrow> r
      | None \<Rightarrow> s)"

definition parse_socket_v4 :: "string \<Rightarrow> ip_addr option" where
  "parse_socket_v4 s =
     Option.bind (read_ipv4 s) (\<lambda>(ds, r). Option.bind (read_port r) (\<lambda>(_, r).
       if r = [] then Some (V4 (of_nat (be_value 256 ds))) else None))"

definition parse_socket_v6 :: "string \<Rightarrow> ip_addr option" where
  "parse_socket_v6 s =
     Option.bind (read_char CHR ''['' s) (\<lambda>r. Option.bind (read_ipv6 r) (\<lambda>(gs, r).
       Option.bind (read_char CHR '']'' (skip_scope r)) (\<lambda>r. Option.bind (read_port r) (\<lambda>(_, r).
         if r = [] then Some (V6 (of_nat (be_value 65536 gs))) else None))))"

definition parse_socket :: "string \<Rightarrow> ip_addr option" where
  "parse_socket s = (case parse_socket_v4 s of Some ip \<Rightarrow> Some ip | None \<Rightarrow> parse_socket_v6 s)"

definition forwarded_parse :: "string \<Rightarrow> ip_addr option" where
  "forwarded_parse entry =
     map_option to_canonical (case parse_ip entry of Some ip \<Rightarrow> Some ip | None \<Rightarrow> parse_socket entry)"

fun forwarded_loop :: "network list \<Rightarrow> ip_addr \<Rightarrow> string list \<Rightarrow> ip_addr" where
  "forwarded_loop trusted client [] = client"
| "forwarded_loop trusted client (entry # entries) =
     (case forwarded_parse (trim entry) of
        None \<Rightarrow> client
      | Some ip \<Rightarrow> if list_ex (\<lambda>n. network_contains n ip) trusted then forwarded_loop trusted ip entries else ip)"

text \<open>\<open>rsplit(',')\<close> of the values, the last one first.\<close>

definition client_address :: "ip_addr \<Rightarrow> string list \<Rightarrow> network list \<Rightarrow> ip_addr" where
  "client_address peer forwarded trusted =
     (let client = to_canonical peer
      in if \<not> list_ex (\<lambda>n. network_contains n client) trusted then client
         else forwarded_loop trusted client
                (concat (map (\<lambda>v. rev (split_on CHR '','' v)) (rev forwarded))))"

section \<open>SIDs read back\<close>

lemma byte_value_snoc: "byte_value (bs @ [b]) = byte_value bs * 256 + unat b"
  by (simp add: byte_value_def)

lemma unat_byte: "unat (b :: u8) < 256"
  using unsigned_less [of b] by simp

lemma byte_value_less: "byte_value bs < 256 ^ length bs"
proof (induction bs rule: rev_induct)
  case (snoc b bs)
  have "unat b < 256" by (rule unat_byte)
  moreover have "byte_value bs * 256 + 256 \<le> 256 ^ length bs * 256"
    using snoc mult_le_mono1 [of "byte_value bs + 1" "256 ^ length bs" 256] by simp
  ultimately show ?case by (simp add: byte_value_snoc)
qed (simp add: byte_value_def)

lemma be_bytes_value: "be_bytes (length bs) (byte_value bs) = bs"
proof (induction bs rule: rev_induct)
  case (snoc b bs)
  have "unat b < 256" by (rule unat_byte)
  then have "(byte_value bs * 256 + unat b) div 256 = byte_value bs" "(byte_value bs * 256 + unat b) mod 256 = unat b" by simp_all
  with snoc show ?case by (simp add: byte_value_snoc)
qed simp

lemma length_be_bytes [simp]: "length (be_bytes n v) = n"
  by (induction n v rule: be_bytes.induct) simp_all

lemma be_bytes_add: "be_bytes (m + n) v = be_bytes m (v div 256 ^ n) @ be_bytes n v"
  by (induction n arbitrary: v) (simp_all add: div_mult2_eq)

lemma be_bytes_0: "be_bytes n 0 = replicate n 0"
  by (induction n) (simp_all add: replicate_append_same)

lemma le_bytes_le32: "length bs = 4 \<Longrightarrow> le_bytes 4 (le32 bs) = bs"
  using be_bytes_value [of "rev bs"] by (simp add: le_bytes_def le32_def)

lemma le32_less: "length bs = 4 \<Longrightarrow> le32 bs \<le> 2 ^ 32 - 1"
  using byte_value_less [of "rev bs"] by (simp add: le32_def)

lemma chunks4:
  "length bs = 4 * n \<Longrightarrow> concat (chunks4 bs) = bs \<and> length (chunks4 bs) = n \<and> (\<forall>c \<in> set (chunks4 bs). length c = 4)"
proof (induction bs arbitrary: n rule: chunks4.induct)
  case (1 a b c d bs)
  then obtain m where "n = Suc m" "length bs = 4 * m" by (cases n) auto
  with 1 show ?case by auto
qed (presburger | simp)+

text \<open>The text of a SID, taken apart at its dashes.\<close>

lemma split_numbers:
  "split_on CHR ''-'' (foldl (\<lambda>sid n. sid @ ''-'' @ show_nat n) (show_nat a) ns) = map show_nat (a # ns)"
proof (induction ns arbitrary: a)
  case Nil
  have "CHR ''-'' \<notin> set (show_nat a)" by simp
  then have "split_on CHR ''-'' (show_nat a) = [show_nat a]" by (intro split_by_id) auto
  then show ?case by simp
next
  case (Cons n ns)
  have "foldl (\<lambda>sid n. sid @ ''-'' @ show_nat n) (p @ x) ns = p @ foldl (\<lambda>sid n. sid @ ''-'' @ show_nat n) x ns" for p x
    by (induction ns arbitrary: x) simp_all
  from this [of "show_nat a @ ''-''" "show_nat n"]
  have "foldl (\<lambda>sid n. sid @ ''-'' @ show_nat n) (show_nat a) (n # ns)
      = show_nat a @ CHR ''-'' # foldl (\<lambda>sid n. sid @ ''-'' @ show_nat n) (show_nat n) ns"
    by simp
  moreover have "split_on CHR ''-'' (show_nat a @ CHR ''-'' # r) = show_nat a # split_on CHR ''-'' r" for r
    by (rule split_by_append) (auto simp: not_in_show_nat)
  ultimately show ?case using Cons by simp
qed

lemma sid_from_bytes_Some:
  assumes "sid_from_bytes bs = Some s"
  obtains count rest where "bs = 1 # count # rest" "length rest = 6 + 4 * unat count"
    "split_on CHR ''-'' s = ''S'' # ''1'' # map show_nat (byte_value (take 6 rest) # map le32 (chunks4 (drop 6 rest)))"
proof -
  from assms obtain count rest where bs: "bs = 1 # count # rest" and len: "length rest = 6 + 4 * unat count"
    by (auto simp: sid_from_bytes_def split: list.splits if_splits)
  let ?a = "byte_value (take 6 rest)" and ?ns = "map le32 (chunks4 (drop 6 rest))"
  have pre: "foldl (\<lambda>sid c. sid @ ''-'' @ show_nat (le32 c)) (p @ x) cs
      = p @ foldl (\<lambda>sid n. sid @ ''-'' @ show_nat n) x (map le32 cs)" for p x cs
    by (induction cs arbitrary: x) simp_all
  have one: "show_nat (Suc 0) = ''1''" by code_simp
  have "s = ''S-1-'' @ foldl (\<lambda>sid n. sid @ ''-'' @ show_nat n) (show_nat ?a) ?ns"
    using assms len pre [of "''S-1-''" "show_nat ?a" "chunks4 (drop 6 rest)"] one by (simp add: sid_from_bytes_def bs)
  then have "split_on CHR ''-'' s = ''S'' # ''1'' # map show_nat (?a # ?ns)"
    using split_numbers [of ?a ?ns] by simp
  with bs len show thesis by (rule that)
qed

text \<open>
  A SID keeps its binary form: the bytes of what was read from bytes are those bytes. With at
  most fifteen sub-authorities, which is what Windows allows, its text is also read back as a SID.
\<close>

theorem sid_bytes_roundtrip:
  assumes "sid_from_bytes bs = Some s"
  shows "sid_to_bytes s = bs \<and> (unat (bs ! 1) \<le> 15 \<longrightarrow> sid_parse s = Some s)"
proof -
  obtain count rest where bs: "bs = 1 # count # rest" and len: "length rest = 6 + 4 * unat count"
    and sp: "split_on CHR ''-'' s = ''S'' # ''1'' # map show_nat (byte_value (take 6 rest) # map le32 (chunks4 (drop 6 rest)))"
    by (rule sid_from_bytes_Some [OF assms])
  let ?a = "byte_value (take 6 rest)" and ?cs = "chunks4 (drop 6 rest)"
  have cs: "concat ?cs = drop 6 rest" "length ?cs = unat count" "\<forall>c \<in> set ?cs. length c = 4"
    using chunks4 [of "drop 6 rest" "unat count"] len by simp_all
  have a: "?a < 2 ^ 48" using byte_value_less [of "take 6 rest"] len by simp
  have pa: "parse_unsigned (2 ^ 64 - 1) (show_nat ?a) = Some ?a" using a by (intro parse_unsigned_show) simp
  have "filter_map (parse_unsigned (2 ^ 32 - 1)) (map show_nat (map le32 cs)) = map le32 cs" if "\<forall>c \<in> set cs. length c = 4" for cs
    using that le32_less by (induction cs) (simp_all add: List.map_filter_simps parse_unsigned_show)
  then have subs: "filter_map (parse_unsigned (2 ^ 32 - 1)) (map show_nat (map le32 ?cs)) = map le32 ?cs" using cs(3) by blast
  have "be_bytes 8 ?a = be_bytes 2 (?a div 256 ^ 6) @ be_bytes 6 ?a" using be_bytes_add [of 2 6 ?a] by simp
  moreover have "be_bytes 6 ?a = take 6 rest" using be_bytes_value [of "take 6 rest"] len by simp
  ultimately have auth: "drop 2 (be_bytes 8 ?a) = take 6 rest" by simp
  have "map (le_bytes 4) (map le32 ?cs) = ?cs" using cs(3) le_bytes_le32 by (simp add: map_idI)
  then have "sid_to_bytes s = bs"
    using subs auth cs(1,2) pa by (simp add: sid_to_bytes_def sp bs Let_def)
  moreover have "sid_parse s = Some s" if "unat count \<le> 15"
    using that pa a cs le32_less by (auto simp: sid_parse_def sp list_all_iff parse_unsigned_show)
  ultimately show ?thesis by (simp add: bs)
qed

theorem sid_bytes_roundtrip_witness:
  "\<exists>s. sid_from_bytes [1, 2, 0, 0, 0, 0, 0, 5, 32, 0, 0, 0, 32, 2, 0, 0] = Some s
    \<and> sid_to_bytes s = [1, 2, 0, 0, 0, 0, 0, 5, 32, 0, 0, 0, 32, 2, 0, 0] \<and> sid_parse s = Some s"
proof -
  obtain s where s: "sid_from_bytes [1, 2, 0, 0, 0, 0, 0, 5, 32, 0, 0, 0, 32, 2, 0, 0] = Some s"
    by (simp add: sid_from_bytes_def)
  with sid_bytes_roundtrip [OF s] show ?thesis by simp
qed

section \<open>Principals read back\<close>

lemma sid_parse_Some: "sid_parse s = Some t \<Longrightarrow> t = s \<and> (\<exists>r. s = CHR ''S'' # r)"
  by (cases s) (auto simp: sid_parse_def split: list.splits if_splits option.splits)

text \<open>
  A principal is read back from its text, whichever kind it is; a directory's is its SID, taken
  as it was written.
\<close>

theorem principal_roundtrip:
  assumes "\<forall>i. p = LocalId i \<or> p = GroupId i \<longrightarrow> uuid_parse (uuid_show i) = Some i"
    and "\<forall>sid. p = DirectoryId sid \<longrightarrow> sid_parse sid = Some sid"
  shows "principal_parse uuid_parse (principal_show p) = Some p
    \<and> (principal_parse uuid_parse t = Some (DirectoryId sid) \<longrightarrow> sid = t \<and> sid_parse sid = Some sid)"
proof -
  have "principal_parse uuid_parse (principal_show p) = Some p"
  proof (cases p)
    case (DirectoryId sid)
    with assms(2) have s: "sid_parse sid = Some sid" by simp
    from sid_parse_Some [OF s] have "strip_prefix ''local:'' sid = None" "strip_prefix ''group:'' sid = None"
      by (auto simp: strip_prefix_def)
    with s DirectoryId show ?thesis by (simp add: principal_parse_def)
  qed (use assms(1) in \<open>simp_all add: principal_parse_def strip_prefix_def\<close>)
  moreover have "sid = t \<and> sid_parse sid = Some sid" if "principal_parse uuid_parse t = Some (DirectoryId sid)"
    using that sid_parse_Some by (auto simp: principal_parse_def split: option.splits)
  ultimately show ?thesis by blast
qed

theorem principal_roundtrip_witness:
  "principal_parse (\<lambda>s. if s = uuid_show 7 then Some 7 else None) (principal_show (GroupId 7)) = Some (GroupId 7)"
  using principal_roundtrip [of "GroupId 7" "\<lambda>s. if s = uuid_show 7 then Some 7 else None"] by simp

section \<open>Nothing a client writes counts\<close>

lemma rev_entries: "concat (map (\<lambda>v. rev (split_on c v)) (rev vs)) = rev (concat (map (split_on c) vs))"
  by (induction vs) simp_all

lemma forwarded_loop_trusted:
  assumes "\<forall>p \<in> set ps. \<exists>a. forwarded_parse (trim p) = Some a \<and> list_ex (\<lambda>n. network_contains n a) trusted"
    and "forwarded_parse (trim entry) = Some ip" "\<not> list_ex (\<lambda>n. network_contains n ip) trusted"
  shows "forwarded_loop trusted client (ps @ entry # rest) = ip"
  using assms by (induction ps arbitrary: client) auto

text \<open>
  C40: The address of a client cannot be forged. However the header is split and whatever the client
  wrote into it, the address is the one the first trusted proxy saw the request come from, if
  trusted proxies passed it on to us, and the other end of the connection if that is no trusted
  proxy.
\<close>

theorem client_address_not_forged:
  assumes "concat (map (split_on CHR '','') forwarded) = written @ entry # proxies"
    and "forwarded_parse (trim entry) = Some ip" and "\<not> list_ex (\<lambda>n. network_contains n ip) trusted"
    and "\<forall>p \<in> set proxies. \<exists>a. forwarded_parse (trim p) = Some a \<and> list_ex (\<lambda>n. network_contains n a) trusted"
  shows "client_address peer forwarded trusted
    = (if list_ex (\<lambda>n. network_contains n (to_canonical peer)) trusted then ip else to_canonical peer)"
  using forwarded_loop_trusted [of "rev proxies" trusted entry ip "to_canonical peer" "rev written"] assms
  by (simp add: client_address_def rev_entries Let_def del: network_contains.simps)

theorem client_address_not_forged_witness:
  "client_address (V4 1) [''192.0.2.66,0.0.0.7''] [\<lparr>address = V4 1, prefix = 32\<rparr>] = V4 7"
proof -
  have p: "forwarded_parse (trim ''0.0.0.7'') = Some (V4 7)"
  proof -
    have "show_v4 7 = ''0.0.0.7''" by (simp add: show_v4_def show_nat.simps digit_def Let_def) code_simp
    then have "parse_ip ''0.0.0.7'' = Some (V4 7)" using parse_show_v4 [of "7"] by simp
    then show ?thesis by (simp add: forwarded_parse_def trim_visible_ascii)
  qed
  have s: "concat (map (split_on CHR '','') [''192.0.2.66,0.0.0.7'']) = [''192.0.2.66''] @ ''0.0.0.7'' # []" by simp
  have c: "list_ex (\<lambda>n. network_contains n (to_canonical (V4 1))) [\<lparr>address = V4 1, prefix = 32\<rparr>]"
    "\<not> list_ex (\<lambda>n. network_contains n (V4 7)) [\<lparr>address = V4 1, prefix = 32\<rparr>]"
    by (simp_all add: checked_shl_max_def)
  show ?thesis using client_address_not_forged [OF s p c(2)] c(1) by simp
qed

end
