(* ===== verification/Hub.thy ===== *)
theory Hub
  imports Sessions Factors Principals
begin

text \<open>
  The tables behind \<^verbatim>\<open>/api/tree\<close> and what all its handlers share: \<^verbatim>\<open>crates/server/src/catalog.rs\<close>, the
  helpers of \<^verbatim>\<open>crates/server/src/api/catalog.rs\<close>, and the functions of the migrations those
  statements call. A handler either fails with a problem, and then its transaction is dropped and
  nothing has changed, or returns the changed tables; requests are handled one after the other.
  Columns that are only shown (when a row was made, by whom, when it was changed) are left out.
\<close>

section \<open>Early returns\<close>

text \<open>The question mark operator, and an error if a condition does not hold.\<close>

definition and_then :: "'e + 'a \<Rightarrow> ('a \<Rightarrow> 'e + 'b) \<Rightarrow> 'e + 'b" where
  "and_then x f = (case x of Inl e \<Rightarrow> Inl e | Inr v \<Rightarrow> f v)"

definition ensure :: "bool \<Rightarrow> 'e \<Rightarrow> 'e + unit" where
  "ensure b e = (if b then Inr () else Inl e)"

lemma and_then_simps [simp]: "and_then (Inl e) f = Inl e" "and_then (Inr v) f = f v"
  by (simp_all add: and_then_def)

lemma and_then_Inr_iff [simp]: "and_then x f = Inr z \<longleftrightarrow> (\<exists>v. x = Inr v \<and> f v = Inr z)"
  by (cases x) simp_all

lemma ensure_Inr_iff [simp]: "ensure b e = Inr u \<longleftrightarrow> b"
  by (simp add: ensure_def)

lemma ex_unit: "(\<exists>u :: unit. P u) \<longleftrightarrow> P ()"
  by (metis old.unit.exhaust)

section \<open>Tables\<close>

record folder_row =
  fo_parent :: "uuid option"
  fo_name :: string
  fo_connector :: "uuid option"

record collection_row =
  co_parent :: "uuid option"
  co_name :: string

record device_row =
  dv_folder :: uuid
  dv_name :: string
  dv_protocol :: string
  dv_host :: string
  dv_port :: int
  dv_auth_mode :: string
  dv_profile :: "uuid option"
  dv_description :: string
  dv_keyboard_layout :: "string option"
  dv_connector_mode :: string
  dv_connector :: "uuid option"
  dv_requires_confirmation :: bool
  dv_username :: string
  dv_domain :: string
  dv_secret_version :: int
  dv_secret_kind :: string
  dv_key_algorithm :: "string option"
  dv_key_fingerprint :: "string option"
  dv_has_certificate :: bool
  dv_host_key :: "string option"
  dv_certificate :: "string option"
  dv_keywords :: string
  dv_keywords_by :: "string option"

record profile_row =
  pf_folder :: "uuid option"
  pf_name :: string
  pf_username :: string
  pf_domain :: string
  pf_secret_kind :: string
  pf_secret_version :: int
  pf_key_algorithm :: "string option"
  pf_key_fingerprint :: "string option"
  pf_has_certificate :: bool

text \<open>A custom field, protected ones without their value.\<close>

record custom_field =
  fi_name :: string
  fi_protected :: bool
  fi_value :: "string option"

record credential_row =
  cr_collection :: uuid
  cr_name :: string
  cr_username :: string
  cr_version :: int
  cr_url :: string
  cr_notes :: string
  cr_icon :: int
  cr_fields :: "custom_field list"
  cr_tags :: "string list"
  cr_expires_on :: "string option"
  cr_has_totp :: bool
  cr_deleted :: "instant option"

record grant_row =
  gr_folder :: "uuid option"
  gr_device :: "uuid option"
  gr_credential :: "uuid option"
  gr_collection :: "uuid option"
  gr_kind :: string
  gr_sid :: string
  gr_name :: string
  gr_role :: string
  gr_expires :: "instant option"
  gr_request :: "uuid option"

record request_row =
  rq_folder :: "uuid option"
  rq_device :: "uuid option"
  rq_credential :: "uuid option"
  rq_requester :: uuid
  rq_sid :: string
  rq_name :: string
  rq_role :: string
  rq_minutes :: int
  rq_reason :: string
  rq_status :: string
  rq_decided_by :: "uuid option"
  rq_decider :: "string option"
  rq_expires :: "instant option"
  rq_created :: instant

text \<open>
  \<open>hb_assigned\<close> holds the columns of \<open>role_assignments\<close> beside its key: the kind and name of a
  principal with a role of \<open>db_roles\<close>. An attachment is kept with its credential.
\<close>

record hub =
  hb_db :: database
  hb_folders :: "(uuid, folder_row) hashmap"
  hb_devices :: "(uuid, device_row) hashmap"
  hb_profiles :: "(uuid, profile_row) hashmap"
  hb_collections :: "(uuid, collection_row) hashmap"
  hb_credentials :: "(uuid, credential_row) hashmap"
  hb_attachments :: "(uuid, uuid) hashmap"
  hb_grants :: "(uuid, grant_row) hashmap"
  hb_requests :: "(uuid, request_row) hashmap"
  hb_connectors :: "uuid list"
  hb_groups :: "uuid list"
  hb_open :: "(uuid \<times> uuid) list"
  hb_assigned :: "(string \<times> string, string \<times> string) hashmap"

definition hub_audit :: "hub \<Rightarrow> audit_entry \<Rightarrow> hub" where
  "hub_audit h e = h\<lparr>hb_db := audit_record (hb_db h) e\<rparr>"

text \<open>\<open>DELETE FROM secret_fields\<close> of the rows whose owner and version fit.\<close>

definition drop_secrets :: "(uuid \<Rightarrow> int \<Rightarrow> bool) \<Rightarrow> hub \<Rightarrow> hub" where
  "drop_secrets gone h =
     h\<lparr>hb_db := (hb_db h)\<lparr>db_secrets := filter (\<lambda>((owner, version, _), _). \<not> gone owner version) (db_secrets (hb_db h))\<rparr>\<rparr>"

section \<open>The catalog\<close>

text \<open>
  \<open>extract(epoch FROM t)::bigint\<close>: PostgreSQL rounds to the nearest second, halves away from zero.
\<close>

definition epoch :: "instant \<Rightarrow> int" where
  "epoch t = (if t \<ge> 0 then (2 * t + 1000000000) div 2000000000 else - ((2 * (- t) + 1000000000) div 2000000000))"

fun grant_object :: "uuid option \<Rightarrow> uuid option \<Rightarrow> uuid option \<Rightarrow> uuid option \<Rightarrow> object_id option" where
  "grant_object (Some i) None None None = Some (Folder i)"
| "grant_object None (Some i) None None = Some (Device i)"
| "grant_object None None (Some i) None = Some (Credential i)"
| "grant_object None None None (Some i) = Some (Collection i)"
| "grant_object _ _ _ _ = None"

definition request_object :: "uuid option \<Rightarrow> uuid option \<Rightarrow> uuid option \<Rightarrow> object_id option" where
  "request_object folder device credential = grant_object folder device credential None"

definition row_object :: "grant_row \<Rightarrow> object_id option" where
  "row_object g = grant_object (gr_folder g) (gr_device g) (gr_credential g) (gr_collection g)"

fun object_kind :: "object_id \<Rightarrow> string" where
  "object_kind (Folder _) = ''folder''"
| "object_kind (Device _) = ''device''"
| "object_kind (Credential _) = ''credential''"
| "object_kind (Collection _) = ''collection''"
| "object_kind (Profile _) = ''profile''"

fun grant_columns :: "object_id \<Rightarrow> (uuid option \<times> uuid option \<times> uuid option \<times> uuid option) option" where
  "grant_columns (Folder i) = Some (Some i, None, None, None)"
| "grant_columns (Device i) = Some (None, Some i, None, None)"
| "grant_columns (Credential i) = Some (None, None, Some i, None)"
| "grant_columns (Collection i) = Some (None, None, None, Some i)"
| "grant_columns (Profile _) = None"

definition hub_objects :: "hub \<Rightarrow> objects" where
  "hub_objects h =
     \<lparr>folders = map (\<lambda>(i, r). (i, fo_parent r)) (hb_folders h),
      collections = map (\<lambda>(i, r). (i, co_parent r)) (hb_collections h),
      devices = map (\<lambda>(i, r). (i, dv_folder r)) (hb_devices h),
      credentials = map (\<lambda>(i, r). (i, cr_collection r)) (hb_credentials h),
      profiles = map (\<lambda>(i, r). (i, pf_folder r)) (hb_profiles h)\<rparr>"

definition row_grant :: "grant_row \<Rightarrow> grant option" where
  "row_grant g =
     (case (row_object g, role_parse (gr_role g)) of
        (Some x, Some r) \<Rightarrow> Some \<lparr>object = x, principal = gr_sid g, grant_role = r, until = map_option epoch (gr_expires g)\<rparr>
      | _ \<Rightarrow> None)"

definition hub_grants :: "hub \<Rightarrow> grant list" where
  "hub_grants h = filter_map (\<lambda>(_, g). row_grant g) (hb_grants h)"

definition load_catalog :: "hub \<Rightarrow> instant \<Rightarrow> catalog" where
  "load_catalog h now = catalog_new (hub_objects h) (hub_grants h) (epoch now)"

section \<open>Functions of the database\<close>

text \<open>
  The folder and those above it, as the recursive queries walk: along the rows that exist. In a
  loop of folders \<open>folder_connector\<close> would not end; \<open>hub_ok\<close> below excludes loops.
\<close>

definition folders_above :: "hub \<Rightarrow> uuid \<Rightarrow> uuid list" where
  "folders_above h f =
     takeWhile (\<lambda>i. hm_get (hb_folders h) i \<noteq> None)
       (map object_uuid (path (catalog_new (hub_objects h) [] 0) (Folder f)))"

definition folder_within :: "hub \<Rightarrow> uuid \<Rightarrow> uuid \<Rightarrow> bool" where
  "folder_within h f ancestor \<longleftrightarrow> ancestor \<in> set (folders_above h f)"

definition folder_connector :: "hub \<Rightarrow> uuid \<Rightarrow> uuid option" where
  "folder_connector h f =
     (case filter_map (\<lambda>i. Option.bind (hm_get (hb_folders h) i) fo_connector) (folders_above h f) of
        [] \<Rightarrow> None
      | c # _ \<Rightarrow> Some c)"

definition device_connector :: "hub \<Rightarrow> string \<Rightarrow> uuid option \<Rightarrow> uuid \<Rightarrow> uuid option" where
  "device_connector h mode own f =
     (if mode = ''connector'' then own else if mode = ''direct'' then None else folder_connector h f)"

definition reached_through :: "hub \<Rightarrow> device_row \<Rightarrow> uuid option" where
  "reached_through h d = device_connector h (dv_connector_mode d) (dv_connector d) (dv_folder d)"

section \<open>What the handlers share\<close>

definition require :: "catalog \<Rightarrow> subject \<Rightarrow> role \<Rightarrow> object_id \<Rightarrow> problem + unit" where
  "require c s needed x =
     (case effective_role c s x of
        Some role \<Rightarrow> if role \<ge> needed then Inr () else Inl (problem Forbidden)
      | None \<Rightarrow> Inl (problem NotFound))"

definition invalid :: "string \<Rightarrow> problem" where
  "invalid fld = param (problem InvalidRequest) ''field'' (JText fld)"

definition checked_name :: "string \<Rightarrow> string \<Rightarrow> problem + string" where
  "checked_name v fld =
     (let v = trim v
      in if v = [] \<or> length (chars v) > 200 \<or> list_ex is_control (chars v) then Inl (invalid fld) else Inr v)"

definition plain_text :: "string \<Rightarrow> string \<Rightarrow> problem + string" where
  "plain_text v fld =
     (let v = trim v
      in if length (chars v) > 256 \<or> list_ex is_control (chars v) then Inl (invalid fld) else Inr v)"

definition audit_object :: "session \<Rightarrow> string \<Rightarrow> object_id \<Rightarrow> (string \<times> json) list \<Rightarrow> string \<Rightarrow> audit_entry" where
  "audit_object s action x details addr =
     \<lparr>au_actor = Some (s_user s), au_name = s_username s, au_action = action,
      au_object = Some (object_kind x, object_uuid x), au_details = JObject details, au_address = Some addr\<rparr>"

definition named_object :: "string \<Rightarrow> uuid \<Rightarrow> problem + object_id" where
  "named_object kind i =
     (if kind = ''folder'' then Inr (Folder i)
      else if kind = ''device'' then Inr (Device i)
      else if kind = ''credential'' then Inr (Credential i)
      else if kind = ''collection'' then Inr (Collection i)
      else Inl (invalid ''kind''))"

definition require_connector :: "hub \<Rightarrow> uuid option \<Rightarrow> problem + unit" where
  "require_connector h c =
     (case c of None \<Rightarrow> Inr () | Some i \<Rightarrow> if i \<in> set (hb_connectors h) then Inr () else Inl (invalid ''connector_id''))"

text \<open>How values are written into the details of an entry.\<close>

definition json_uuid :: "uuid option \<Rightarrow> json" where
  "json_uuid i = (case i of Some u \<Rightarrow> JText (uuid_show u) | None \<Rightarrow> JNull)"

definition json_text :: "string option \<Rightarrow> json" where
  "json_text t = (case t of Some s \<Rightarrow> JText s | None \<Rightarrow> JNull)"

text \<open>\<open>secrets::store\<close> and \<open>secrets::load\<close> on the tables; \<open>rnd\<close> is the randomness for each field.\<close>

definition hub_store :: "server \<Rightarrow> (string \<Rightarrow> seal_randomness) \<Rightarrow> uuid \<Rightarrow> int \<Rightarrow> string \<Rightarrow> bytes \<Rightarrow> hub \<Rightarrow> problem + hub" where
  "hub_store sv rnd owner version fld plain h =
     (case store (sv_aead sv) (sv_keyring sv) (rnd fld) (db_secrets (hb_db h)) owner version fld plain of
        Inl _ \<Rightarrow> Inl (problem Internal)
      | Inr secrets \<Rightarrow> Inr (h\<lparr>hb_db := (hb_db h)\<lparr>db_secrets := secrets\<rparr>\<rparr>))"

fun hub_store_all :: "server \<Rightarrow> (string \<Rightarrow> seal_randomness) \<Rightarrow> uuid \<Rightarrow> int \<Rightarrow> (string \<times> bytes) list \<Rightarrow> hub \<Rightarrow> problem + hub" where
  "hub_store_all sv rnd owner version [] h = Inr h"
| "hub_store_all sv rnd owner version ((fld, plain) # rest) h =
     and_then (hub_store sv rnd owner version fld plain h) (hub_store_all sv rnd owner version rest)"

definition hub_load :: "server \<Rightarrow> hub \<Rightarrow> uuid \<Rightarrow> int \<Rightarrow> string \<Rightarrow> problem + bytes option" where
  "hub_load sv h owner version fld =
     (case load_secret (sv_aead sv) (sv_keyring sv) (db_secrets (hb_db h)) owner version fld of
        Inl _ \<Rightarrow> Inl (problem Internal)
      | Inr v \<Rightarrow> Inr v)"

section \<open>The catalog of the tables\<close>

text \<open>Tables have one row for each identifier.\<close>

definition tables_ok :: "hub \<Rightarrow> bool" where
  "tables_ok h \<longleftrightarrow> hm_ok (hb_folders h) \<and> hm_ok (hb_devices h) \<and> hm_ok (hb_profiles h) \<and> hm_ok (hb_collections h)
     \<and> hm_ok (hb_credentials h) \<and> hm_ok (hb_attachments h) \<and> hm_ok (hb_grants h) \<and> hm_ok (hb_requests h) \<and> hm_ok (hb_assigned h)"

lemma map_of_rev_rows: "hm_ok m \<Longrightarrow> map_of (rev (map (\<lambda>(i, r). (i, f r)) m)) k = map_option f (hm_get m k)"
proof -
  assume "hm_ok m"
  then have "distinct (map fst (map (\<lambda>(i, r). (i, f r)) m))" by (simp add: hm_ok_def comp_def split_def)
  then have "map_of (rev (map (\<lambda>(i, r). (i, f r)) m)) = map_of (map (\<lambda>(i, r). (i, f r)) m)"
    by (subst map_of_inject_set) (simp_all add: rev_map [symmetric])
  then show ?thesis by (simp add: map_of_map)
qed

text \<open>What the catalog of the tables looks up, whatever grants it is built with.\<close>

lemma catalog_tables [dict_simps]:
  assumes "tables_ok h"
  shows "hm_get (folder_parent (catalog_new (hub_objects h) gs t)) i = map_option fo_parent (hm_get (hb_folders h) i)"
    and "hm_get (collection_parent (catalog_new (hub_objects h) gs t)) i = map_option co_parent (hm_get (hb_collections h) i)"
    and "hm_get (device_folder (catalog_new (hub_objects h) gs t)) i = map_option dv_folder (hm_get (hb_devices h) i)"
    and "hm_get (credential_collection (catalog_new (hub_objects h) gs t)) i = map_option cr_collection (hm_get (hb_credentials h) i)"
    and "hm_get (profile_folder (catalog_new (hub_objects h) gs t)) i = map_option pf_folder (hm_get (hb_profiles h) i)"
  using assms by (simp_all add: catalog_new_def hub_objects_def hm_collect_get tables_ok_def map_of_rev_rows)

lemma require_Inr_iff [simp]: "require c s needed x = Inr u \<longleftrightarrow> authorize c s needed x"
  by (simp add: require_def authorize_def split: option.splits)

text \<open>What a handler that returned has passed.\<close>

lemmas passed = and_then_Inr_iff ensure_Inr_iff require_Inr_iff ex_unit sum.inject prod.inject

end
