(* ===== verification/Directory.thy ===== *)
theory Directory
  imports SignIn Hub
begin

text \<open>
  Sign-in against Active Directory, \<^verbatim>\<open>crates/directory/src/ldap.rs\<close>, and the passwords LAPS keeps there,
  \<^verbatim>\<open>crates/directory/src/laps.rs\<close>. The server at the other end, and what the \<open>ldap3\<close> crate makes of its
  answers, are one parameter: whether a connection comes about, what a bind answers and what a
  search finds. So are the escaping of filter values and the reading of JSON.
\<close>

section \<open>The LDAP server\<close>

record ldap_entry =
  le_dn :: string
  le_attrs :: "(string \<times> string list) list"
  le_bin :: "(string \<times> bytes list) list"

record ldap_result =
  lr_rc :: nat
  lr_text :: string

datatype ldap_scope = Subtree | BaseObject

text \<open>
  \<open>ls_failure\<close> is the text of an unsuccessful result. A search has a base, a scope, a filter, the
  attributes asked for and a limit.
\<close>

record ldap_server =
  ls_connect :: "string option"
  ls_bind :: "string \<Rightarrow> string \<Rightarrow> string + ldap_result"
  ls_search :: "string \<Rightarrow> ldap_scope \<Rightarrow> string \<Rightarrow> string list \<Rightarrow> int option \<Rightarrow> string + (ldap_entry list \<times> ldap_result)"
  ls_failure :: "ldap_result \<Rightarrow> string"
  ls_escape :: "string \<Rightarrow> string"

record ldap_config =
  lc_bind_dn :: string
  lc_bind_password :: string
  lc_base_dn :: string
  lc_user_filter :: "string option"

definition SIZE_LIMIT_EXCEEDED :: nat where "SIZE_LIMIT_EXCEEDED = 4"
definition NO_SUCH_OBJECT :: nat where "NO_SUCH_OBJECT = 32"
definition INVALID_CREDENTIALS :: nat where "INVALID_CREDENTIALS = 49"
definition ACCOUNT_DISABLED :: nat where "ACCOUNT_DISABLED = 2"
definition FILETIME_TO_UNIX :: nat where "FILETIME_TO_UNIX = 11644473600"

definition USER_ATTRIBUTES :: "string list" where
  "USER_ATTRIBUTES = [''sAMAccountName'', ''userPrincipalName'', ''displayName'', ''mail'', ''objectSid'', ''objectGUID'']"

section \<open>Attributes\<close>

definition attr_lookup :: "(string \<times> 'a) list \<Rightarrow> string \<Rightarrow> 'a option" where
  "attr_lookup attrs name = map_option snd (find (\<lambda>(k, _). eq_ignore_ascii_case k name) attrs)"

definition binary_values :: "ldap_entry \<Rightarrow> string \<Rightarrow> bytes list" where
  "binary_values e name =
     (case attr_lookup (le_bin e) name of Some vs \<Rightarrow> vs | None \<Rightarrow> [])
     @ (case attr_lookup (le_attrs e) name of Some vs \<Rightarrow> map as_bytes vs | None \<Rightarrow> [])"

definition first_binary :: "ldap_entry \<Rightarrow> string \<Rightarrow> bytes option" where
  "first_binary e name = (case binary_values e name of [] \<Rightarrow> None | b # _ \<Rightarrow> Some b)"

definition first_text :: "ldap_entry \<Rightarrow> string \<Rightarrow> string option" where
  "first_text e name =
     (case attr_lookup (le_attrs e) name of
        Some (v # _) \<Rightarrow> if v = [] then None else Some v
      | _ \<Rightarrow> None)"

definition entry_sid :: "ldap_entry \<Rightarrow> string option" where
  "entry_sid e = Option.bind (first_binary e ''objectSid'') sid_from_bytes"

text \<open>\<open>Uuid::from_bytes_le\<close> of sixteen bytes.\<close>

definition uuid_from_bytes_le :: "bytes \<Rightarrow> uuid option" where
  "uuid_from_bytes_le b =
     (if length b \<noteq> 16 then None
      else Some (byte_value (rev (take 4 b) @ rev (take 2 (drop 4 b)) @ rev (take 2 (drop 6 b)) @ drop 8 b)))"

section \<open>Names, filters and reasons\<close>

datatype account = Sam string | Upn string

definition account_parse :: "string \<Rightarrow> account option" where
  "account_parse typed =
     (let typed = trim typed
      in if typed = [] \<or> length typed > 256 \<or> list_ex is_control (chars typed) then None
         else case (case split_once CHR 0x5C typed of
             Some (_, name) \<Rightarrow> Sam name
           | None \<Rightarrow> if CHR ''@'' \<in> set typed then Upn typed else Sam typed) of
           Sam name \<Rightarrow> if name = [] then None else Some (Sam name)
         | Upn name \<Rightarrow> if name = [] then None else Some (Upn name))"

definition extra_filter :: "ldap_config \<Rightarrow> string" where
  "extra_filter cf = (case lc_user_filter cf of Some f \<Rightarrow> f | None \<Rightarrow> [])"

definition user_filter :: "ldap_server \<Rightarrow> ldap_config \<Rightarrow> account \<Rightarrow> string" where
  "user_filter ls cf a =
     ''(&(objectCategory=person)(objectClass=user)''
     @ (case a of
          Sam name \<Rightarrow> ''(sAMAccountName='' @ ls_escape ls name @ '')''
        | Upn upn \<Rightarrow> ''(userPrincipalName='' @ ls_escape ls upn @ '')'')
     @ extra_filter cf @ '')''"

definition escape_binary :: "bytes \<Rightarrow> string" where
  "escape_binary b = concat (map (\<lambda>x. [CHR 0x5C, hex_digit (unat x div 16), hex_digit (unat x mod 16)]) b)"

text \<open>
  \<open>accountExpires\<close> is an \<open>i64\<close> of 100-nanosecond steps since 1601; \<open>unix\<close> are the seconds since 1970, none
  if the clock stands before it.
\<close>

definition account_expired :: "int option \<Rightarrow> nat option \<Rightarrow> bool" where
  "account_expired expires unix =
     (case expires of
        Some e \<Rightarrow> if e > 0 then nat e div 10000000 < (case unix of Some u \<Rightarrow> u + FILETIME_TO_UNIX | None \<Rightarrow> 0) else False
      | None \<Rightarrow> False)"

text \<open>\<open>split(pattern)\<close>: what stands before and after its first occurrence; and the second part.\<close>

fun split_at_text :: "string \<Rightarrow> string \<Rightarrow> (string \<times> string) option" where
  "split_at_text p [] = (if p = [] then Some ([], []) else None)"
| "split_at_text p (c # s) =
     (if take (length p) (c # s) = p then Some ([], drop (length p) (c # s))
      else map_option (\<lambda>(a, b). (c # a, b)) (split_at_text p s))"

definition second_part :: "string \<Rightarrow> string \<Rightarrow> string option" where
  "second_part p s =
     (case split_at_text p s of
        None \<Rightarrow> None
      | Some (_, rest) \<Rightarrow> Some (case split_at_text p rest of Some (a, _) \<Rightarrow> a | None \<Rightarrow> rest))"

definition bind_failure :: "string \<Rightarrow> auth_error" where
  "bind_failure diagnostic =
     (case map_option (\<lambda>r. to_ascii_lowercase (hd (split_by (\<lambda>c. c = CHR '','' \<or> c = CHR '' '') r))) (second_part ''data '' diagnostic) of
        None \<Rightarrow> AuthInvalidCredentials
      | Some c \<Rightarrow>
          if c \<in> {''530'', ''531'', ''533''} then AuthAccountDisabled
          else if c = ''532'' then AuthPasswordExpired
          else if c = ''701'' then AuthAccountExpired
          else if c = ''773'' then AuthPasswordMustChange
          else if c = ''775'' then AuthAccountLocked
          else AuthInvalidCredentials)"

definition auth_error_text :: "auth_error \<Rightarrow> string" where
  "auth_error_text e =
     (case e of
        AuthInvalidCredentials \<Rightarrow> ''invalid credentials''
      | AuthAccountDisabled \<Rightarrow> ''account disabled''
      | AuthAccountLocked \<Rightarrow> ''account locked out''
      | AuthAccountExpired \<Rightarrow> ''account expired''
      | AuthPasswordExpired \<Rightarrow> ''password expired''
      | AuthPasswordMustChange \<Rightarrow> ''password must be changed''
      | AuthUnavailable d \<Rightarrow> ''directory unavailable: '' @ d
      | AuthDirectory d \<Rightarrow> ''directory error: '' @ d)"

section \<open>Operations\<close>

definition ldap_connect :: "ldap_server \<Rightarrow> auth_error + unit" where
  "ldap_connect ls = (case ls_connect ls of None \<Rightarrow> Inr () | Some e \<Rightarrow> Inl (AuthUnavailable e))"

definition unavailable :: "string + 'a \<Rightarrow> auth_error + 'a" where
  "unavailable x = (case x of Inl e \<Rightarrow> Inl (AuthUnavailable e) | Inr v \<Rightarrow> Inr v)"

definition ldap_bind :: "ldap_server \<Rightarrow> string \<Rightarrow> string \<Rightarrow> auth_error + ldap_result" where
  "ldap_bind ls dn password = and_then (ldap_connect ls) (\<lambda>_. unavailable (ls_bind ls dn password))"

definition ldap_service :: "ldap_server \<Rightarrow> ldap_config \<Rightarrow> auth_error + unit" where
  "ldap_service ls cf =
     and_then (ldap_bind ls (lc_bind_dn cf) (lc_bind_password cf)) (\<lambda>r.
       ensure (lr_rc r = 0) (AuthDirectory (''service account bind failed: '' @ ls_failure ls r)))"

definition ldap_search ::
  "ldap_server \<Rightarrow> string \<Rightarrow> ldap_scope \<Rightarrow> string \<Rightarrow> string list \<Rightarrow> auth_error + ldap_entry list" where
  "ldap_search ls base sc flt attrs =
     and_then (unavailable (ls_search ls base sc flt attrs None)) (\<lambda>(entries, r).
     and_then (ensure (lr_rc r = 0) (AuthDirectory (ls_failure ls r))) (\<lambda>_. Inr entries))"

definition find_user :: "ldap_server \<Rightarrow> ldap_config \<Rightarrow> account \<Rightarrow> auth_error + ldap_entry" where
  "find_user ls cf a =
     and_then (ldap_search ls (lc_base_dn cf) Subtree (user_filter ls cf a) USER_ATTRIBUTES) (\<lambda>entries.
       case entries of
         [e] \<Rightarrow> Inr e
       | [] \<Rightarrow> Inl AuthInvalidCredentials
       | _ \<Rightarrow> Inl (AuthDirectory (''more than one entry matches '' @ user_filter ls cf a)))"

definition verify_password :: "ldap_server \<Rightarrow> string \<Rightarrow> string \<Rightarrow> auth_error + unit" where
  "verify_password ls dn password =
     and_then (ldap_bind ls dn password) (\<lambda>r.
       if lr_rc r = 0 then Inr ()
       else if lr_rc r = INVALID_CREDENTIALS then Inl (bind_failure (lr_text r))
       else Inl (AuthDirectory (''bind failed with code '' @ show_nat (lr_rc r) @ '': '' @ lr_text r)))"

fun read_sids :: "bytes list \<Rightarrow> auth_error + string list" where
  "read_sids [] = Inr []"
| "read_sids (b # bs) =
     (case sid_from_bytes b of
        None \<Rightarrow> Inl (AuthDirectory ''invalid SID in tokenGroups'')
      | Some s \<Rightarrow> and_then (read_sids bs) (\<lambda>ss. Inr (s # ss)))"

definition token_groups :: "ldap_server \<Rightarrow> string \<Rightarrow> auth_error + string list" where
  "token_groups ls dn =
     and_then (ldap_search ls dn BaseObject ''(objectClass=*)'' [''tokenGroups'']) (\<lambda>entries.
     and_then (read_sids (concat (map (\<lambda>e. binary_values e ''tokenGroups'') entries))) (\<lambda>ss.
       Inr (remdups_adj (sort ss))))"

definition required_attr :: "'a option \<Rightarrow> string \<Rightarrow> string \<Rightarrow> auth_error + 'a" where
  "required_attr v dn missing = (case v of Some x \<Rightarrow> Inr x | None \<Rightarrow> Inl (AuthDirectory (dn @ missing)))"

definition ldap_authenticate :: "ldap_server \<Rightarrow> ldap_config \<Rightarrow> string \<Rightarrow> string \<Rightarrow> auth_error + identity" where
  "ldap_authenticate ls cf typed password =
     and_then (case account_parse typed of Some a \<Rightarrow> Inr a | None \<Rightarrow> Inl AuthInvalidCredentials) (\<lambda>a.
     and_then (ensure (password \<noteq> []) AuthInvalidCredentials) (\<lambda>_.
     and_then (ldap_service ls cf) (\<lambda>_.
     and_then (find_user ls cf a) (\<lambda>e.
     and_then (verify_password ls (le_dn e) password) (\<lambda>_.
     and_then (token_groups ls (le_dn e)) (\<lambda>groups.
     and_then (required_attr (entry_sid e) (le_dn e) '' has no valid objectSid'') (\<lambda>sid.
     and_then (required_attr (Option.bind (first_binary e ''objectGUID'') uuid_from_bytes_le) (le_dn e) '' has no valid objectGUID'') (\<lambda>guid.
     and_then (required_attr (first_text e ''sAMAccountName'') (le_dn e) '' has no sAMAccountName'') (\<lambda>username.
       Inr \<lparr>id_sid = sid, id_guid = guid, id_username = username, id_upn = first_text e ''userPrincipalName'',
            id_display_name = (case first_text e ''displayName'' of Some n \<Rightarrow> n | None \<Rightarrow> username),
            id_email = first_text e ''mail'', id_groups = groups\<rparr>)))))))))"

definition sid_filter :: "ldap_config \<Rightarrow> string \<Rightarrow> string" where
  "sid_filter cf sid =
     ''(&(objectCategory=person)(objectClass=user)(objectSid='' @ escape_binary (sid_to_bytes sid) @ '')'' @ extra_filter cf @ '')''"

definition ldap_refresh :: "ldap_server \<Rightarrow> ldap_config \<Rightarrow> nat option \<Rightarrow> string \<Rightarrow> auth_error + string list" where
  "ldap_refresh ls cf unix sid =
     and_then (ldap_service ls cf) (\<lambda>_.
     and_then (ldap_search ls (lc_base_dn cf) Subtree
         (sid_filter cf sid)
         [''userAccountControl'', ''accountExpires'']) (\<lambda>entries.
       case entries of
         [] \<Rightarrow> Inl AuthInvalidCredentials
       | e # _ \<Rightarrow>
           (let control = (case Option.bind (first_text e ''userAccountControl'') (parse_unsigned (2 ^ 32 - 1)) of Some c \<Rightarrow> c | None \<Rightarrow> 0) in
            if odd (control div ACCOUNT_DISABLED) then Inl AuthAccountDisabled
            else if account_expired (Option.bind (first_text e ''accountExpires'') (parse_signed 63)) unix then Inl AuthAccountExpired
            else token_groups ls (le_dn e))))"

section \<open>Searching for grantees\<close>

record ldap_group =
  lg_sid :: string
  lg_name :: string

datatype principal_kind = GroupKind | UserKind

record ldap_principal =
  lp_kind :: principal_kind
  lp_sid :: string
  lp_name :: string
  lp_detail :: "string option"

definition group_of_entry :: "ldap_entry \<Rightarrow> ldap_group option" where
  "group_of_entry e =
     Option.bind (entry_sid e) (\<lambda>s. Option.bind (first_text e ''cn'') (\<lambda>n. Some \<lparr>lg_sid = s, lg_name = n\<rparr>))"

text \<open>\<open>lower\<close> is \<open>str::to_lowercase\<close>.\<close>

definition search_groups ::
  "(string \<Rightarrow> string) \<Rightarrow> ldap_server \<Rightarrow> ldap_config \<Rightarrow> string \<Rightarrow> int \<Rightarrow> auth_error + ldap_group list" where
  "search_groups lower ls cf query limit =
     (let q = ls_escape ls (trim query);
          flt = ''(&(objectCategory=group)(|(cn=*'' @ q @ ''*)(sAMAccountName=*'' @ q @ ''*)))'' in
     and_then (ldap_service ls cf) (\<lambda>_.
     and_then (unavailable (ls_search ls (lc_base_dn cf) Subtree flt [''cn'', ''objectSid''] (Some limit))) (\<lambda>(entries, r).
     and_then (ensure (lr_rc r = 0 \<or> lr_rc r = SIZE_LIMIT_EXCEEDED)
         (AuthDirectory (''group search failed with code '' @ show_nat (lr_rc r) @ '': '' @ lr_text r))) (\<lambda>_.
       Inr (sort_key (\<lambda>g. lower (lg_name g)) (filter_map group_of_entry entries))))))"

definition user_of_entry :: "ldap_entry \<Rightarrow> ldap_principal option" where
  "user_of_entry e =
     Option.bind (first_text e ''sAMAccountName'') (\<lambda>acc.
     Option.bind (entry_sid e) (\<lambda>s. Some
       \<lparr>lp_kind = UserKind, lp_sid = s, lp_name = (case first_text e ''displayName'' of Some n \<Rightarrow> n | None \<Rightarrow> acc),
        lp_detail = (case first_text e ''userPrincipalName'' of Some u \<Rightarrow> Some u | None \<Rightarrow> Some acc)\<rparr>))"

definition search_users :: "ldap_server \<Rightarrow> ldap_config \<Rightarrow> string \<Rightarrow> int \<Rightarrow> auth_error + ldap_principal list" where
  "search_users ls cf query limit =
     (let q = ls_escape ls (trim query);
          flt = ''(&(objectCategory=person)(objectClass=user)(|(sAMAccountName=*'' @ q @ ''*)(displayName=*'' @ q
            @ ''*)(userPrincipalName=*'' @ q @ ''*))'' @ extra_filter cf @ '')'' in
     and_then (ldap_service ls cf) (\<lambda>_.
     and_then (unavailable (ls_search ls (lc_base_dn cf) Subtree flt
         [''sAMAccountName'', ''displayName'', ''userPrincipalName'', ''objectSid''] (Some limit))) (\<lambda>(entries, r).
     and_then (ensure (lr_rc r = 0 \<or> lr_rc r = SIZE_LIMIT_EXCEEDED)
         (AuthDirectory (''user search failed with code '' @ show_nat (lr_rc r) @ '': '' @ lr_text r))) (\<lambda>_.
       Inr (filter_map user_of_entry entries)))))"

definition kind_rank :: "principal_kind \<Rightarrow> nat" where
  "kind_rank k = (case k of GroupKind \<Rightarrow> 0 | UserKind \<Rightarrow> 1)"

definition directory_search ::
  "(string \<Rightarrow> string) \<Rightarrow> ldap_server \<Rightarrow> ldap_config \<Rightarrow> string \<Rightarrow> int \<Rightarrow> auth_error + ldap_principal list" where
  "directory_search lower ls cf query limit =
     (if length (chars (trim query)) < 2 then Inr []
      else
     and_then (search_groups lower ls cf query limit) (\<lambda>groups.
     and_then (search_users ls cf query limit) (\<lambda>users.
       Inr (sort_key (\<lambda>p. (kind_rank (lp_kind p), lower (lp_name p)))
         (map (\<lambda>g. \<lparr>lp_kind = GroupKind, lp_sid = lg_sid g, lp_name = lg_name g, lp_detail = None\<rparr>) groups @ users)))))"

fun in_chunks :: "nat \<Rightarrow> nat \<Rightarrow> 'a list \<Rightarrow> 'a list list" where
  "in_chunks 0 n xs = []"
| "in_chunks (Suc k) n xs = (if xs = [] then [] else take n xs # in_chunks k n (drop n xs))"

definition names_of_chunk :: "ldap_server \<Rightarrow> ldap_config \<Rightarrow> string list \<Rightarrow> auth_error + ldap_group list" where
  "names_of_chunk ls cf chunk =
     and_then (ldap_service ls cf) (\<lambda>_.
     and_then (unavailable (ls_search ls (lc_base_dn cf) Subtree
         (''(&(objectCategory=group)(|'' @ concat (map (\<lambda>s. ''(objectSid='' @ escape_binary (sid_to_bytes s) @ '')'') chunk) @ ''))'')
         [''cn'', ''objectSid''] None)) (\<lambda>(entries, r).
     and_then (ensure (lr_rc r = 0) (AuthDirectory (''group lookup failed with code '' @ show_nat (lr_rc r) @ '': '' @ lr_text r))) (\<lambda>_.
       Inr (filter_map group_of_entry entries))))"

fun names_of_chunks :: "ldap_server \<Rightarrow> ldap_config \<Rightarrow> string list list \<Rightarrow> auth_error + ldap_group list" where
  "names_of_chunks ls cf [] = Inr []"
| "names_of_chunks ls cf (c # cs) =
     and_then (names_of_chunk ls cf c) (\<lambda>found. and_then (names_of_chunks ls cf cs) (\<lambda>more. Inr (found @ more)))"

definition group_names :: "ldap_server \<Rightarrow> ldap_config \<Rightarrow> string list \<Rightarrow> auth_error + ldap_group list" where
  "group_names ls cf wanted = names_of_chunks ls cf (in_chunks (length wanted) 100 wanted)"

section \<open>Checking a connection before it is saved\<close>

datatype check_step = ResolveStep | ConnectStep | TlsStep | BindStep | SearchStep

datatype check_reason =
  NotFoundReason | RefusedReason | TimeoutReason | StartTlsRefused | UnknownCa | NameMismatch | ExpiredReason
  | BadCredentials | NoSuchBase | OtherReason

record failure =
  fl_step :: check_step
  fl_reason :: check_reason
  fl_detail :: string

definition fail_new :: "check_step \<Rightarrow> check_reason \<Rightarrow> string \<Rightarrow> failure" where
  "fail_new st r d = \<lparr>fl_step = st, fl_reason = r, fl_detail = d\<rparr>"

record found =
  fd_users :: nat
  fd_more :: bool
  fd_sample :: "string list"

definition CHECK_COUNT :: int where "CHECK_COUNT = 1000"
definition CHECK_SAMPLE :: nat where "CHECK_SAMPLE = 3"

definition not_ldap_url :: "string \<Rightarrow> failure" where
  "not_ldap_url url = fail_new ResolveStep OtherReason (''not an LDAP URL: '' @ url)"

definition ldap_target_parse :: "string \<Rightarrow> bool \<Rightarrow> failure + (string \<times> nat)" where
  "ldap_target_parse url starttls =
     (let lower = to_ascii_lowercase (trim url) in
     and_then
       (case strip_prefix ''ldaps://'' lower of
          Some rest \<Rightarrow> Inr (rest, 636)
        | None \<Rightarrow>
            (case strip_prefix ''ldap://'' lower of
               Some rest \<Rightarrow> if starttls then Inr (rest, 389) else Inl (fail_new TlsStep OtherReason ''ldap:// needs StartTLS'')
             | None \<Rightarrow> Inl (not_ldap_url url))) (\<lambda>(rest, default_port).
     (let auth = hd (split_on CHR ''/'' rest) in
     and_then
       (case strip_prefix ''['' auth of
          Some bracketed \<Rightarrow>
            (case split_once CHR '']'' bracketed of
               Some (hst, after) \<Rightarrow> Inr (hst, strip_prefix '':'' after)
             | None \<Rightarrow> Inl (not_ldap_url url))
        | None \<Rightarrow> (case rsplit_once CHR '':'' auth of Some (hst, p) \<Rightarrow> Inr (hst, Some p) | None \<Rightarrow> Inr (auth, None))) (\<lambda>(hst, port).
     and_then (ensure (hst \<noteq> []) (not_ldap_url url)) (\<lambda>_.
     (case port of
        None \<Rightarrow> Inr (hst, default_port)
      | Some p \<Rightarrow> (case parse_unsigned (2 ^ 16 - 1) p of Some n \<Rightarrow> Inr (hst, n) | None \<Rightarrow> Inl (not_ldap_url url))))))))"

definition START_TLS_OID :: bytes where
  "START_TLS_OID = as_bytes ''1.3.6.1.4.1.1466.20037''"

definition start_tls_request :: bytes where
  "start_tls_request =
     (let oid = (of_nat (length START_TLS_OID) :: 8 word)
      in [0x30, 3 + 2 + 2 + oid, 0x02, 0x01, 0x01, 0x77, 2 + oid, 0x80, oid] @ START_TLS_OID)"

text \<open>The result code of an answer: after the tag of the response, the first three bytes that begin \<open>0x0a 0x01\<close>.\<close>

fun code_window :: "bytes \<Rightarrow> 8 word option" where
  "code_window (a # b # c # rest) = (if a = 0x0a \<and> b = 0x01 then Some c else code_window (b # c # rest))"
| "code_window _ = None"

definition start_tls_code :: "bytes \<Rightarrow> 8 word option" where
  "start_tls_code answer = (if 0x78 \<in> set answer then code_window (dropWhile (\<lambda>b. b \<noteq> 0x78) answer) else None)"

definition directory_users :: "ldap_server \<Rightarrow> ldap_config \<Rightarrow> int \<Rightarrow> failure + (string list \<times> bool)" where
  "directory_users ls cf limit =
     and_then (case ldap_connect ls of
         Inr _ \<Rightarrow> Inr () | Inl e \<Rightarrow> Inl (fail_new ConnectStep OtherReason (auth_error_text e))) (\<lambda>_.
     and_then (case ls_bind ls (lc_bind_dn cf) (lc_bind_password cf) of
         Inl e \<Rightarrow> Inl (fail_new BindStep OtherReason e)
       | Inr r \<Rightarrow>
           if lr_rc r = 0 then Inr ()
           else if lr_rc r = INVALID_CREDENTIALS then Inl (fail_new BindStep BadCredentials (lr_text r))
           else Inl (fail_new BindStep OtherReason (''code '' @ show_nat (lr_rc r) @ '': '' @ lr_text r))) (\<lambda>_.
     (case ls_search ls (lc_base_dn cf) Subtree (''(&(objectCategory=person)(objectClass=user)'' @ extra_filter cf @ '')'')
         [''displayName'', ''sAMAccountName''] (Some limit) of
        Inl e \<Rightarrow> Inl (fail_new SearchStep OtherReason e)
      | Inr (entries, r) \<Rightarrow>
          if lr_rc r = 0 \<or> lr_rc r = SIZE_LIMIT_EXCEEDED then
            Inr (filter_map (\<lambda>e. case first_text e ''displayName'' of Some n \<Rightarrow> Some n | None \<Rightarrow> first_text e ''sAMAccountName'') entries,
                 lr_rc r = SIZE_LIMIT_EXCEEDED)
          else if lr_rc r = NO_SUCH_OBJECT then Inl (fail_new SearchStep NoSuchBase (lr_text r))
          else Inl (fail_new SearchStep OtherReason (''code '' @ show_nat (lr_rc r) @ '': '' @ lr_text r)))))"

text \<open>
  The steps before the bind are the network's: the addresses of a name, a connection to the first of
  them, the answer to the request to start TLS and the handshake.
\<close>

datatype 'a timed = TimedOut | Failed string | Got 'a

datatype connecting = Connected | ConnectTimedOut | ConnectRefused | ConnectFailed string

record check_network =
  cw_lookup :: "string \<Rightarrow> nat \<Rightarrow> string list timed"
  cw_connect :: "string \<Rightarrow> connecting"
  cw_start_tls :: "bytes \<Rightarrow> bytes timed"
  cw_handshake :: "string \<Rightarrow> failure option"
  cw_tls_config :: "string option"

definition start_tls :: "check_network \<Rightarrow> failure + unit" where
  "start_tls cw =
     (case cw_start_tls cw start_tls_request of
        TimedOut \<Rightarrow> Inl (fail_new TlsStep TimeoutReason ''StartTLS'')
      | Failed e \<Rightarrow> Inl (fail_new TlsStep StartTlsRefused e)
      | Got a \<Rightarrow>
          (case start_tls_code a of
             None \<Rightarrow> Inl (fail_new TlsStep StartTlsRefused ''no StartTLS answer'')
           | Some c \<Rightarrow> if c = 0 then Inr () else Inl (fail_new TlsStep StartTlsRefused (''result code '' @ show_nat (unat c)))))"

definition directory_check ::
  "check_network \<Rightarrow> ldap_server \<Rightarrow> ldap_config \<Rightarrow> string \<Rightarrow> bool \<Rightarrow> failure + found" where
  "directory_check cw ls cf url starttls =
     and_then (ldap_target_parse url starttls) (\<lambda>(hst, port).
     and_then (case cw_lookup cw hst port of
         TimedOut \<Rightarrow> Inl (fail_new ResolveStep TimeoutReason hst)
       | Failed e \<Rightarrow> Inl (fail_new ResolveStep NotFoundReason e)
       | Got [] \<Rightarrow> Inl (fail_new ResolveStep NotFoundReason hst)
       | Got (a # _) \<Rightarrow> Inr a) (\<lambda>addr.
     and_then (case cw_connect cw addr of
         ConnectTimedOut \<Rightarrow> Inl (fail_new ConnectStep TimeoutReason addr)
       | ConnectRefused \<Rightarrow> Inl (fail_new ConnectStep RefusedReason addr)
       | ConnectFailed e \<Rightarrow> Inl (fail_new ConnectStep OtherReason e)
       | Connected \<Rightarrow> Inr ()) (\<lambda>_.
     and_then (if starttls then start_tls cw else Inr ()) (\<lambda>_.
     and_then (case cw_handshake cw hst of Some f \<Rightarrow> Inl f | None \<Rightarrow> Inr ()) (\<lambda>_.
     and_then (case cw_tls_config cw of Some e \<Rightarrow> Inl (fail_new TlsStep OtherReason (''directory error: '' @ e)) | None \<Rightarrow> Inr ()) (\<lambda>_.
     and_then (directory_users ls cf CHECK_COUNT) (\<lambda>(names, more).
       Inr \<lparr>fd_users = length names, fd_more = more, fd_sample = take CHECK_SAMPLE names\<rparr>)))))))"

section \<open>Passwords of local administrators\<close>

datatype laps_error = ComputerNotFound string | AmbiguousComputer string | NoLapsPassword string | LapsDirectory auth_error

record laps_password =
  la_account :: string
  la_password :: string
  la_computer :: string

definition LAPS_ATTRIBUTES :: "string list" where
  "LAPS_ATTRIBUTES = [''sAMAccountName'', ''dNSHostName'', ''msLAPS-Password'', ''ms-Mcs-AdmPwd'']"

definition LEGACY_ACCOUNT :: string where "LEGACY_ACCOUNT = ''Administrator''"

text \<open>\<open>windows_laps\<close> reads the account and the password from the JSON of Windows LAPS.\<close>

definition read_laps :: "(string \<Rightarrow> (string \<times> string) option) \<Rightarrow> string option \<Rightarrow> string option \<Rightarrow> string \<Rightarrow> laps_password option" where
  "read_laps windows_laps windows legacy computer =
     (let from_windows = (case Option.bind windows windows_laps of
            Some (a, p) \<Rightarrow> if a \<noteq> [] \<and> p \<noteq> [] then Some (a, p) else None
          | None \<Rightarrow> None);
          from_legacy = (case legacy of Some p \<Rightarrow> if p \<noteq> [] then Some (LEGACY_ACCOUNT, p) else None | None \<Rightarrow> None)
      in map_option (\<lambda>(a, p). \<lparr>la_account = a, la_password = p, la_computer = trim_end_matches CHR ''$'' computer\<rparr>)
           (case from_windows of Some x \<Rightarrow> Some x | None \<Rightarrow> from_legacy))"

definition normalize_host :: "string \<Rightarrow> string" where
  "normalize_host v = trim_end_matches CHR ''.'' (trim v)"

definition laps_filter :: "ldap_server \<Rightarrow> string \<Rightarrow> string option" where
  "laps_filter ls v =
     (let n = normalize_host v
      in if n = [] \<or> parse_ip n \<noteq> None then None
         else Some (''(&(objectCategory=computer)(|(dNSHostName='' @ ls_escape ls n @ '')(dNSHostName=''
                @ ls_escape ls (hd (split_by (\<lambda>c. c = CHR ''.'') n)) @ ''.*)))''))"

definition laps_choose :: "string option list \<Rightarrow> string \<Rightarrow> laps_error + nat" where
  "laps_choose names v =
     (let n = normalize_host v in
      if names = [] then Inl (ComputerNotFound n)
      else if length names = 1 then Inr 0
      else case filter (\<lambda>i. case names ! i of Some x \<Rightarrow> eq_ignore_ascii_case x n | None \<Rightarrow> False) [0..<length names] of
        [i] \<Rightarrow> Inr i
      | _ \<Rightarrow> Inl (AmbiguousComputer n))"

definition ldap_laps_password ::
  "ldap_server \<Rightarrow> ldap_config \<Rightarrow> (string \<Rightarrow> (string \<times> string) option) \<Rightarrow> string \<Rightarrow> laps_error + laps_password" where
  "ldap_laps_password ls cf windows_laps v =
     (case laps_filter ls v of
        None \<Rightarrow> Inl (ComputerNotFound v)
      | Some flt \<Rightarrow>
     (case ldap_service ls cf of
        Inl e \<Rightarrow> Inl (LapsDirectory e)
      | Inr _ \<Rightarrow>
     (case ls_search ls (lc_base_dn cf) Subtree flt LAPS_ATTRIBUTES None of
        Inl e \<Rightarrow> Inl (LapsDirectory (AuthUnavailable e))
      | Inr (entries, r) \<Rightarrow>
          if lr_rc r \<noteq> 0 then
            Inl (LapsDirectory (AuthDirectory (''computer search failed with code '' @ show_nat (lr_rc r) @ '': '' @ lr_text r)))
          else and_then (laps_choose (map (\<lambda>e. first_text e ''dNSHostName'') entries) v) (\<lambda>i.
            (let e = entries ! i in
             case read_laps windows_laps (first_text e ''msLAPS-Password'') (first_text e ''ms-Mcs-AdmPwd'')
                 (case first_text e ''sAMAccountName'' of Some c \<Rightarrow> c | None \<Rightarrow> []) of
               Some p \<Rightarrow> Inr p
             | None \<Rightarrow> Inl (NoLapsPassword v))))))"

section \<open>Whom the directory lets in\<close>

lemma and_then_ensure_Inr [simp]: "and_then (ensure b e) f = Inr z \<longleftrightarrow> b \<and> f () = Inr z"
  by (simp add: ensure_def)

lemma unavailable_Inr [simp]: "unavailable x = Inr v \<longleftrightarrow> x = Inr v"
  by (simp add: unavailable_def split: sum.splits)

lemma required_attr_Inr [simp]: "required_attr v dn missing = Inr x \<longleftrightarrow> v = Some x"
  by (simp add: required_attr_def split: option.splits)

lemma ldap_bind_Inr: "ldap_bind ls dn p = Inr r \<Longrightarrow> ls_bind ls dn p = Inr r"
  by (auto simp: ldap_bind_def)

lemma ldap_search_Inr:
  "ldap_search ls base sc flt attrs = Inr entries \<longleftrightarrow> (\<exists>r. ls_search ls base sc flt attrs None = Inr (entries, r) \<and> lr_rc r = 0)"
  by (auto simp: ldap_search_def)

lemma only_one_Inr: "(case es of [] \<Rightarrow> Inl a | [x] \<Rightarrow> Inr x | x # y # zs \<Rightarrow> Inl b) = Inr e \<longleftrightarrow> es = [e]"
  by (cases es; cases "tl es") auto

lemma find_user_Inr:
  "find_user ls cf a = Inr e
    \<longleftrightarrow> (\<exists>r. ls_search ls (lc_base_dn cf) Subtree (user_filter ls cf a) USER_ATTRIBUTES None = Inr ([e], r) \<and> lr_rc r = 0)"
  by (auto simp: find_user_def ldap_search_Inr only_one_Inr)

lemma verify_password_Inr:
  "verify_password ls dn p = Inr x \<Longrightarrow> \<exists>r. ls_bind ls dn p = Inr r \<and> lr_rc r = 0"
  by (auto simp: verify_password_def dest: ldap_bind_Inr split: if_splits)

lemma read_sids_Inr: "read_sids bs = Inr ss \<Longrightarrow> set ss = {s. \<exists>b \<in> set bs. sid_from_bytes b = Some s}"
proof (induction bs arbitrary: ss)
  case (Cons b bs)
  then obtain t ts where "sid_from_bytes b = Some t" "read_sids bs = Inr ts" "ss = t # ts" by (auto split: option.splits)
  with Cons.IH [of ts] show ?case by auto
qed simp

lemma distinct_remdups_adj_sorted: "sorted (xs :: 'a :: linorder list) \<Longrightarrow> distinct (remdups_adj xs)"
  by (induction xs rule: remdups_adj.induct) (auto simp: less_le_not_le)

text \<open>The groups a search of the entry itself names.\<close>

definition named_groups :: "ldap_entry list \<Rightarrow> string set" where
  "named_groups entries = {s. \<exists>e \<in> set entries. \<exists>b \<in> set (binary_values e ''tokenGroups''). sid_from_bytes b = Some s}"

lemma read_sids_set:
  assumes "read_sids (concat (map (\<lambda>e. binary_values e ''tokenGroups'') entries)) = Inr ss"
  shows "set ss = named_groups entries"
  using read_sids_Inr [OF assms] by (auto simp: named_groups_def)

lemma token_groups_Inr:
  assumes "token_groups ls dn = Inr groups"
  obtains entries r where "ls_search ls dn BaseObject ''(objectClass=*)'' [''tokenGroups''] None = Inr (entries, r)" "lr_rc r = 0"
    "set groups = named_groups entries" "sorted groups" "distinct groups"
proof -
  obtain entries r ss where e: "ls_search ls dn BaseObject ''(objectClass=*)'' [''tokenGroups''] None = Inr (entries, r)" "lr_rc r = 0"
    and ss: "read_sids (concat (map (\<lambda>e. binary_values e ''tokenGroups'') entries)) = Inr ss" and g: "groups = remdups_adj (sort ss)"
    using assms by (auto simp: token_groups_def ldap_search_Inr)
  show thesis
    using that [OF e] read_sids_set [OF ss] g by (simp add: distinct_remdups_adj_sorted)
qed

text \<open>
  What the directory vouches for: exactly one person matches the name typed, a bind with their entry's
  name and this password was taken, and the identity is read from that entry and its groups.
\<close>

definition vouched :: "ldap_server \<Rightarrow> ldap_config \<Rightarrow> string \<Rightarrow> string \<Rightarrow> identity \<Rightarrow> bool" where
  "vouched ls cf typed password idn \<longleftrightarrow> password \<noteq> []
     \<and> (\<exists>a e r b. account_parse typed = Some a
         \<and> ls_search ls (lc_base_dn cf) Subtree (user_filter ls cf a) USER_ATTRIBUTES None = Inr ([e], r) \<and> lr_rc r = 0
         \<and> ls_bind ls (le_dn e) password = Inr b \<and> lr_rc b = 0
         \<and> entry_sid e = Some (id_sid idn) \<and> first_text e ''sAMAccountName'' = Some (id_username idn)
         \<and> (\<exists>entries g. ls_search ls (le_dn e) BaseObject ''(objectClass=*)'' [''tokenGroups''] None = Inr (entries, g) \<and> lr_rc g = 0
              \<and> set (id_groups idn) = named_groups entries \<and> distinct (id_groups idn)))"

lemma ldap_authenticate_vouched:
  assumes "ldap_authenticate ls cf typed password = Inr idn"
  shows "vouched ls cf typed password idn"
proof -
  obtain a e x where a: "account_parse typed = Some a" "password \<noteq> []" and e: "find_user ls cf a = Inr e"
    and v: "verify_password ls (le_dn e) password = Inr x" and g: "token_groups ls (le_dn e) = Inr (id_groups idn)"
    and i: "entry_sid e = Some (id_sid idn)" "first_text e ''sAMAccountName'' = Some (id_username idn)"
    using assms by (auto simp: ldap_authenticate_def split: option.splits)
  obtain r where "ls_search ls (lc_base_dn cf) Subtree (user_filter ls cf a) USER_ATTRIBUTES None = Inr ([e], r)" "lr_rc r = 0"
    using e by (auto simp: find_user_Inr)
  moreover obtain b where "ls_bind ls (le_dn e) password = Inr b" "lr_rc b = 0" using verify_password_Inr [OF v] by blast
  ultimately show ?thesis using a i by (auto simp: vouched_def intro: token_groups_Inr [OF g])
qed


text \<open>What of the directory decides whether an account may still be used: its control bits and its end.\<close>

definition account_usable :: "ldap_entry \<Rightarrow> nat option \<Rightarrow> bool" where
  "account_usable e unix \<longleftrightarrow>
     \<not> (case Option.bind (first_text e ''userAccountControl'') (parse_unsigned (2 ^ 32 - 1)) of Some c \<Rightarrow> odd (c div 2) | None \<Rightarrow> False)
     \<and> \<not> account_expired (Option.bind (first_text e ''accountExpires'') (parse_signed 63)) unix"

lemma ldap_refresh_Inr:
  assumes "ldap_refresh ls cf unix sid = Inr groups"
  obtains e es r entries g where
    "ls_search ls (lc_base_dn cf) Subtree
       (sid_filter cf sid)
       [''userAccountControl'', ''accountExpires''] None = Inr (e # es, r)" "lr_rc r = 0" "account_usable e unix"
    "ls_search ls (le_dn e) BaseObject ''(objectClass=*)'' [''tokenGroups''] None = Inr (entries, g)" "lr_rc g = 0"
    "set groups = named_groups entries"
proof -
  let ?control = "\<lambda>e. case Option.bind (first_text e ''userAccountControl'') (parse_unsigned (2 ^ 32 - 1)) of Some c \<Rightarrow> c | None \<Rightarrow> 0"
  obtain v where v: "ldap_search ls (lc_base_dn cf) Subtree (sid_filter cf sid) [''userAccountControl'', ''accountExpires''] = Inr v"
    and f: "(case v of [] \<Rightarrow> Inl AuthInvalidCredentials | e # es \<Rightarrow>
        if odd (?control e div ACCOUNT_DISABLED) then Inl AuthAccountDisabled
        else if account_expired (Option.bind (first_text e ''accountExpires'') (parse_signed 63)) unix then Inl AuthAccountExpired
        else token_groups ls (le_dn e)) = Inr groups"
    using assms unfolding ldap_refresh_def and_then_Inr_iff Let_def by blast
  then obtain e es where s: "v = e # es" by (cases v) simp_all
  have c: "\<not> odd (?control e div ACCOUNT_DISABLED)" using f unfolding s list.case by (rule contrapos_pn) simp
  have x: "\<not> account_expired (Option.bind (first_text e ''accountExpires'') (parse_signed 63)) unix"
    using f c unfolding s list.case by (auto split: if_split_asm)
  have t: "token_groups ls (le_dn e) = Inr groups" using f unfolding s list.case if_not_P [OF c] if_not_P [OF x] .
  have "account_usable e unix" using c x by (auto simp: account_usable_def ACCOUNT_DISABLED_def split: option.splits)
  then show thesis using v s that by (auto simp: ldap_search_Inr intro: token_groups_Inr [OF t])
qed


section \<open>Signing in with the directory\<close>

lemma find_SomeD: "find P xs = Some x \<Longrightarrow> P x"
  by (auto simp: find_Some_iff)

lemma upsert_directory_user_sid:
  "upsert_directory_user db i idn now = Some (tx, u) \<Longrightarrow> \<exists>r. hm_get (db_users tx) u = Some r \<and> ur_sid r = Some (id_sid idn)"
  by (auto simp: upsert_directory_user_def Let_def hm.get_put dest!: find_SomeD split: if_splits option.splits)

text \<open>
  C6: A sign-in with Active Directory gives a session exactly to whom it should. If it succeeds, the
  limiter let it through; exactly one person of the directory matches the name that was typed, and the
  directory took a bind as that entry with the password typed, which is not empty; the user found or made
  for the entry's SID is not blocked, and a second factor was used unless the user has none and no rule
  asks for one. What changes of the sessions is one new one, for that user with the groups the directory
  names for the entry, that ends after the maximum lifetime. If it fails, no session is started, ended
  or changed.
\<close>

theorem directory_sign_in:
  assumes "sign_in sv cfg rnd (map_option (\<lambda>(ls, lc). ldap_authenticate ls lc) conn) addr body clock now unix (db, lm)
      = ((db', lm'), res)" and "0 < se_max cfg"
  shows "case res of
      Inl p \<Rightarrow> db_sessions db' = db_sessions db
    | Inr (cookies, m) \<Rightarrow>
        limiter_check (sv_lower sv) lm [(PER_USER, sb_username body), (PER_ADDRESS, addr)] clock = Inr ()
        \<and> hd cookies = set_cookie (si_token rnd)
        \<and> (\<exists>ls lc idn tx u r. conn = Some (ls, lc) \<and> vouched ls lc (sb_username body) (sb_password body) idn
            \<and> upsert_directory_user db (si_user rnd) idn now = Some (tx, u) \<and> \<not> blocked tx u
            \<and> hm_get (db_users tx) u = Some r \<and> ur_sid r = Some (id_sid idn)
            \<and> (\<exists>used new tx' pool'. at_sign_in sv (si_step rnd) (relying_party_of (se_public_origin cfg)) db tx u (id_username idn)
                 (id_groups idn @ [id_sid idn])
                 \<lparr>st_code = sb_code body, st_secret = sb_totp_secret body, st_key = sb_security_key body\<rparr> now unix
                   = Inr (Passed used new, tx', pool')
                 \<and> (used \<or> \<not> enrolled tx u \<and> \<not> required tx (id_groups idn @ [id_sid idn])))
            \<and> starts_session sv cfg rnd u (id_groups idn) now db db')"
proof (cases res)
  case (Inl p)
  then show ?thesis using sign_in_sessions [OF assms] by simp
next
  case (Inr x)
  obtain cookies m where x: "x = (cookies, m)" by (cases x)
  note s = sign_in_sessions [OF assms, unfolded Inr x sum.case prod.case]
  then obtain authenticate idn tx u where d: "map_option (\<lambda>(ls, lc). ldap_authenticate ls lc) conn = Some authenticate"
    and i: "authenticate (sb_username body) (sb_password body) = Inr idn" and up: "upsert_directory_user db (si_user rnd) idn now = Some (tx, u)"
    and rest: "\<not> blocked tx u"
      "\<exists>used new tx' pool'. at_sign_in sv (si_step rnd) (relying_party_of (se_public_origin cfg)) db tx u (id_username idn)
          (id_groups idn @ [id_sid idn]) \<lparr>st_code = sb_code body, st_secret = sb_totp_secret body, st_key = sb_security_key body\<rparr> now unix
            = Inr (Passed used new, tx', pool') \<and> (used \<or> \<not> enrolled tx u \<and> \<not> required tx (id_groups idn @ [id_sid idn]))"
      "starts_session sv cfg rnd u (id_groups idn) now db db'" by blast
  from d obtain ls lc where c: "conn = Some (ls, lc)" "authenticate = ldap_authenticate ls lc" by (cases conn) auto
  have "vouched ls lc (sb_username body) (sb_password body) idn" using ldap_authenticate_vouched i c by simp
  with s c up rest upsert_directory_user_sid [OF up] show ?thesis unfolding Inr x sum.case prod.case by blast
qed

definition sample_person :: ldap_entry where
  "sample_person = \<lparr>le_dn = ''CN=Bob'', le_attrs = [(''SAMACCOUNTNAME'', [''bob'']), (''displayName'', [''Bob''])],
     le_bin = [(''objectSid'', [[1, 2, 0, 0, 0, 0, 0, 5, 21, 0, 0, 0, 7, 0, 0, 0]]), (''objectGUID'', [replicate 15 0 @ [3]])]\<rparr>"

definition sample_groups_entry :: ldap_entry where
  "sample_groups_entry = \<lparr>le_dn = ''CN=Bob'', le_attrs = [],
     le_bin = [(''tokenGroups'', [[1, 2, 0, 0, 0, 0, 0, 5, 21, 0, 0, 0, 9, 0, 0, 0]])]\<rparr>"

definition sample_ldap :: ldap_server where
  "sample_ldap = \<lparr>ls_connect = None,
     ls_bind = (\<lambda>dn pw. Inr \<lparr>lr_rc = if (dn, pw) \<in> {(''svc'', ''secret''), (''CN=Bob'', ''pw'')} then 0 else 49, lr_text = []\<rparr>),
     ls_search = (\<lambda>base sc flt attrs limit. Inr (
       if sc = BaseObject then [sample_groups_entry]
       else if flt = ''(&(objectCategory=person)(objectClass=user)(sAMAccountName=bob))'' then [sample_person] else [], \<lparr>lr_rc = 0, lr_text = []\<rparr>)),
     ls_failure = lr_text, ls_escape = (\<lambda>s. s)\<rparr>"

definition sample_ldap_config :: ldap_config where
  "sample_ldap_config = \<lparr>lc_bind_dn = ''svc'', lc_bind_password = ''secret'', lc_base_dn = ''DC=hub'', lc_user_filter = None\<rparr>"

lemma sample_account: "account_parse ''bob'' = Some (Sam ''bob'')"
proof -
  have "trim ''bob'' = ''bob''" by (rule trim_visible_ascii) simp
  moreover have "\<not> list_ex is_control (chars ''bob'')" by code_simp
  moreover have "split_once CHR 0x5C ''bob'' = None" by code_simp
  ultimately show ?thesis by (simp add: account_parse_def)
qed

lemma sample_found: "find_user sample_ldap sample_ldap_config (Sam ''bob'') = Inr sample_person"
  by code_simp

lemma sample_groups_named:
  "map sid_from_bytes (binary_values sample_groups_entry ''tokenGroups'') = [Some ''S-1-5-21-9'']"
  by code_simp

lemma sample_token: "token_groups sample_ldap ''CN=Bob'' = Inr [''S-1-5-21-9'']"
  using sample_groups_named by (auto simp: token_groups_def ldap_search_def sample_ldap_def ensure_def map_eq_Cons_conv)

lemma sample_entry:
  "entry_sid sample_person = Some ''S-1-5-21-7'' \<and> Option.bind (first_binary sample_person ''objectGUID'') uuid_from_bytes_le = Some 3
    \<and> map (first_text sample_person) [''sAMAccountName'', ''userPrincipalName'', ''displayName'', ''mail''] = [Some ''bob'', None, Some ''Bob'', None]"
  by code_simp

lemma sample_binds:
  "ldap_service sample_ldap sample_ldap_config = Inr ()" "verify_password sample_ldap ''CN=Bob'' ''pw'' = Inr ()" "le_dn sample_person = ''CN=Bob''"
  by code_simp+

lemma sample_authenticated: "ldap_authenticate sample_ldap sample_ldap_config ''bob'' ''pw'' = Inr sample_identity"
  using sample_entry by (simp add: ldap_authenticate_def sample_account sample_found sample_token sample_binds ensure_def required_attr_def sample_identity_def)

theorem directory_sign_in_witness:
  "\<exists>db' lm' m. sign_in sample_server sample_settings sample_random (Some (ldap_authenticate sample_ldap sample_ldap_config))
      ''10.0.0.1'' sample_body 20 50 60 (sample_people, sample_fresh) = ((db', lm'), Inr ([set_cookie ''tok''], m))
    \<and> (\<exists>r. hm_get (db_sessions db') (as_bytes ''tok'') = Some r \<and> set (sr_groups r) = {''S-1-5-21-9''})"
proof -
  let ?conn = "Some (sample_ldap, sample_ldap_config)"
  obtain db' lm' m where si: "sign_in sample_server sample_settings sample_random (map_option (\<lambda>(ls, lc). ldap_authenticate ls lc) ?conn)
      ''10.0.0.1'' sample_body 20 50 60 (sample_people, sample_fresh) = ((db', lm'), Inr ([set_cookie ''tok''], m))"
    using sample_sign_in [of "ldap_authenticate sample_ldap sample_ldap_config", OF sample_authenticated] by auto
  obtain idn u where v: "vouched sample_ldap sample_ldap_config ''bob'' ''pw'' idn"
    and st: "starts_session sample_server sample_settings sample_random u (id_groups idn) 50 sample_people db'"
    using directory_sign_in [OF si] by (auto simp: sample_settings_def sample_body_def)
  have "set (id_groups idn) = named_groups [sample_groups_entry]" using v by (auto simp: vouched_def sample_ldap_def)
  moreover have "named_groups [sample_groups_entry] = {''S-1-5-21-9''}"
  proof -
    have "\<exists>b. binary_values sample_groups_entry ''tokenGroups'' = [b] \<and> sid_from_bytes b = Some ''S-1-5-21-9''"
      using sample_groups_named by (auto simp: map_eq_Cons_conv)
    then show ?thesis by (auto simp: named_groups_def)
  qed
  ultimately have g: "set (id_groups idn) = {''S-1-5-21-9''}" by simp
  obtain r where "hm_get (db_sessions db') (as_bytes ''tok'') = Some r" "sr_groups r = id_groups idn"
    using st by (auto simp: starts_session_def sample_server_def sample_random_def new_row_def)
  with g si show ?thesis by auto
qed


section \<open>Whose LAPS password it is\<close>

lemma laps_choose_Inr:
  assumes "laps_choose names v = Inr i"
  shows "i < length names \<and> (length names = 1
    \<or> (\<forall>k < length names. (\<exists>x. names ! k = Some x \<and> eq_ignore_ascii_case x (normalize_host v)) \<longleftrightarrow> k = i))"
proof (cases "length names = 1")
  case False
  let ?P = "\<lambda>k. case names ! k of Some x \<Rightarrow> eq_ignore_ascii_case x (normalize_host v) | None \<Rightarrow> False"
  have "names \<noteq> []" using assms by (auto simp: laps_choose_def)
  then have "laps_choose names v = (case filter ?P [0..<length names] of [] \<Rightarrow> Inl (AmbiguousComputer (normalize_host v))
      | [x] \<Rightarrow> Inr x | x # y # zs \<Rightarrow> Inl (AmbiguousComputer (normalize_host v)))" using False by (simp add: laps_choose_def Let_def)
  then have "filter ?P [0..<length names] = [i]" using assms only_one_Inr by metis
  then have "k \<in> set (filter ?P [0..<length names]) \<longleftrightarrow> k = i" for k by simp
  then have "k < length names \<and> ?P k \<longleftrightarrow> k = i" for k by simp
  then have P: "k < length names \<and> ?P k \<longleftrightarrow> k = i" for k by blast
  have "?P k \<longleftrightarrow> (\<exists>x. names ! k = Some x \<and> eq_ignore_ascii_case x (normalize_host v))" for k by (simp split: option.split)
  with P show ?thesis by blast
next
  case True
  then have "names \<noteq> []" by auto
  with assms True show ?thesis by (simp add: laps_choose_def)
qed

lemma ldap_laps_password_Inr:
  assumes "ldap_laps_password ls cf windows_laps v = Inr p"
  obtains flt entries r i where "laps_filter ls v = Some flt" "ls_search ls (lc_base_dn cf) Subtree flt LAPS_ATTRIBUTES None = Inr (entries, r)"
    "lr_rc r = 0" "laps_choose (map (\<lambda>e. first_text e ''dNSHostName'') entries) v = Inr i"
    "read_laps windows_laps (first_text (entries ! i) ''msLAPS-Password'') (first_text (entries ! i) ''ms-Mcs-AdmPwd'')
       (case first_text (entries ! i) ''sAMAccountName'' of Some c \<Rightarrow> c | None \<Rightarrow> []) = Some p"
  using assms by (auto simp: ldap_laps_password_def Let_def split: option.split_asm sum.split_asm if_split_asm)

text \<open>
  The password comes from the only computer the search found, or from the only one whose DNS name is
  the device's host. The first case is not limited to hosts without a domain: where the directory
  knows another computer with the same first label and no more, the password is that computer's.
\<close>

definition other_computer :: ldap_entry where
  "other_computer = \<lparr>le_dn = ''CN=WEB01'', le_attrs = [(''sAMAccountName'', [''WEB01$'']), (''dNSHostName'', [''web01.corp.example'']),
     (''ms-Mcs-AdmPwd'', [''secret''])], le_bin = []\<rparr>"

definition one_computer :: ldap_server where
  "one_computer = \<lparr>ls_connect = None, ls_bind = (\<lambda>_ _. Inr \<lparr>lr_rc = 0, lr_text = []\<rparr>),
     ls_search = (\<lambda>base sc flt attrs limit. Inr (
       if flt = ''(&(objectCategory=computer)(|(dNSHostName=web01.guest.example)(dNSHostName=web01.*)))'' then [other_computer] else [],
       \<lparr>lr_rc = 0, lr_text = []\<rparr>)),
     ls_failure = lr_text, ls_escape = (\<lambda>s. s)\<rparr>"

lemma parse_ip_letter:
  assumes "hex_value c = None" "c \<noteq> CHR '':''"
  shows "parse_ip (c # s) = None"
proof -
  have n: "read_number r m l z (c # s) = None" for r m l z using assms(1) by (simp add: read_number_def radix_value_def)
  then have v4: "read_ipv4 (c # s) = None" by (simp add: read_ipv4_def eval_nat_numeral read_separator_def)
  have "read_groups 0 (Suc k) (c # s) = ([], False, c # s)" for k using n v4 by (simp add: read_separator_def)
  from this [of 7] have "read_groups 0 8 (c # s) = ([], False, c # s)" by simp
  then show ?thesis using v4 assms(2) by (simp add: parse_ip_def read_ipv6_def read_char_def)
qed

lemma web01_address: "parse_ip ''web01.guest.example'' = None"
  by (rule parse_ip_letter) code_simp+

lemma web01_normal: "normalize_host ''web01.guest.example'' = ''web01.guest.example''"
  unfolding normalize_host_def by (subst trim_visible_ascii) code_simp+

lemma web01_filter:
  "laps_filter one_computer ''web01.guest.example'' = Some ''(&(objectCategory=computer)(|(dNSHostName=web01.guest.example)(dNSHostName=web01.*)))''"
  by (simp add: laps_filter_def web01_normal web01_address Let_def) code_simp

lemma one_computer_service: "ldap_service one_computer sample_ldap_config = Inr ()"
  by code_simp

lemma one_computer_search:
  "ls_search one_computer base sc ''(&(objectCategory=computer)(|(dNSHostName=web01.guest.example)(dNSHostName=web01.*)))'' attrs l
     = Inr ([other_computer], \<lparr>lr_rc = 0, lr_text = []\<rparr>)"
  by (simp add: one_computer_def)

lemma other_computer_read:
  "read_laps (\<lambda>_. None) (first_text other_computer ''msLAPS-Password'') (first_text other_computer ''ms-Mcs-AdmPwd'')
     (case first_text other_computer ''sAMAccountName'' of Some c \<Rightarrow> c | None \<Rightarrow> [])
     = Some \<lparr>la_account = ''Administrator'', la_password = ''secret'', la_computer = ''WEB01''\<rparr>"
  by code_simp

lemma laps_of_another_computer:
  "ldap_laps_password one_computer sample_ldap_config (\<lambda>_. None) ''web01.guest.example''
     = Inr \<lparr>la_account = ''Administrator'', la_password = ''secret'', la_computer = ''WEB01''\<rparr>
   \<and> first_text other_computer ''dNSHostName'' = Some ''web01.corp.example''"
proof
  show "ldap_laps_password one_computer sample_ldap_config (\<lambda>_. None) ''web01.guest.example''
     = Inr \<lparr>la_account = ''Administrator'', la_password = ''secret'', la_computer = ''WEB01''\<rparr>"
    using web01_filter one_computer_service other_computer_read by (simp add: ldap_laps_password_def one_computer_search laps_choose_def Let_def)
  show "first_text other_computer ''dNSHostName'' = Some ''web01.corp.example''" by code_simp
qed

end
