(* ===== verification/Forest.thy ===== *)
theory Forest
  imports Hub
begin

text \<open>
  The two trees the tables hold, folders and collections, as relations: what the walks of the
  permission model (\<^verbatim>\<open>crates/model/src/lib.rs\<close>) and of the database's functions visit, and when a
  change leaves them alone. The invariant of the tables, \<open>hub_ok\<close>, is stated here; the theories of
  the handlers show that each keeps it.
\<close>

section \<open>The trees\<close>

definition folder_edges :: "hub \<Rightarrow> (uuid \<times> uuid) set" where
  "folder_edges h = {(i, p). \<exists>r. hm_get (hb_folders h) i = Some r \<and> fo_parent r = Some p}"

definition collection_edges :: "hub \<Rightarrow> (uuid \<times> uuid) set" where
  "collection_edges h = {(i, p). \<exists>r. hm_get (hb_collections h) i = Some r \<and> co_parent r = Some p}"

lemma folder_edgesI: "hm_get (hb_folders h) i = Some r \<Longrightarrow> fo_parent r = Some p \<Longrightarrow> (i, p) \<in> folder_edges h"
  by (auto simp: folder_edges_def)

lemma container_folder:
  "tables_ok h \<Longrightarrow> container (catalog_new (hub_objects h) gs t) (Folder i) = Some y \<longleftrightarrow> (\<exists>p. y = Folder p \<and> (i, p) \<in> folder_edges h)"
  by (auto simp: catalog_tables folder_edges_def bind_eq_Some_conv)

lemma container_collection:
  "tables_ok h \<Longrightarrow> container (catalog_new (hub_objects h) gs t) (Collection i) = Some y \<longleftrightarrow> (\<exists>p. y = Collection p \<and> (i, p) \<in> collection_edges h)"
  by (auto simp: catalog_tables collection_edges_def bind_eq_Some_conv)

lemma parent_tables:
  assumes "tables_ok h"
  shows "parent (catalog_new (hub_objects h) gs t) (Device i) = map_option dv_folder (hm_get (hb_devices h) i)"
    and "parent (catalog_new (hub_objects h) gs t) (Credential i) = map_option cr_collection (hm_get (hb_credentials h) i)"
    and "parent (catalog_new (hub_objects h) gs t) (Profile i) = Option.bind (hm_get (hb_profiles h) i) pf_folder"
proof -
  show "parent (catalog_new (hub_objects h) gs t) (Device i) = map_option dv_folder (hm_get (hb_devices h) i)"
    by (cases "hm_get (hb_devices h) i") (simp_all add: parent_def catalog_tables [OF assms])
  show "parent (catalog_new (hub_objects h) gs t) (Credential i) = map_option cr_collection (hm_get (hb_credentials h) i)"
    by (cases "hm_get (hb_credentials h) i") (simp_all add: parent_def catalog_tables [OF assms])
  show "parent (catalog_new (hub_objects h) gs t) (Profile i) = Option.bind (hm_get (hb_profiles h) i) pf_folder"
    by (cases "hm_get (hb_profiles h) i") (simp_all add: parent_def catalog_tables [OF assms] option.map_comp comp_def option.map_ident)
qed

text \<open>Walking up from a folder or a collection follows the edges of its tree.\<close>

lemma above_tree:
  assumes "\<And>i y. container c (K i) = Some y \<longleftrightarrow> (\<exists>p. y = K p \<and> (i, p) \<in> E)"
  shows "above c (K f) y \<longleftrightarrow> (\<exists>a. y = K a \<and> (f, a) \<in> E\<^sup>*)"
proof
  assume "above c (K f) y"
  then show "\<exists>a. y = K a \<and> (f, a) \<in> E\<^sup>*"
    unfolding above_def
  proof (induction rule: rtranclp_induct)
    case (step y z)
    then obtain a p where "(f, a) \<in> E\<^sup>*" and "z = K p" and "(a, p) \<in> E" by (auto simp: assms)
    then show ?case by (blast intro: rtrancl_into_rtrancl)
  qed auto
next
  assume "\<exists>a. y = K a \<and> (f, a) \<in> E\<^sup>*"
  then obtain a where y: "y = K a" and "(f, a) \<in> E\<^sup>*" by blast
  from this(2) show "above c (K f) y"
    unfolding y above_def
  proof (induction rule: rtrancl_induct)
    case (step y z)
    then have "container c (K y) = Some (K z)" by (auto simp: assms)
    with step.IH show ?case by (rule rtranclp.rtrancl_into_rtrancl)
  qed simp
qed

lemma above_folder:
  "tables_ok h \<Longrightarrow> above (catalog_new (hub_objects h) gs t) (Folder f) y \<longleftrightarrow> (\<exists>a. y = Folder a \<and> (f, a) \<in> (folder_edges h)\<^sup>*)"
  by (rule above_tree) (rule container_folder)

lemma above_collection:
  "tables_ok h \<Longrightarrow> above (catalog_new (hub_objects h) gs t) (Collection f) y \<longleftrightarrow> (\<exists>a. y = Collection a \<and> (f, a) \<in> (collection_edges h)\<^sup>*)"
  by (rule above_tree) (rule container_collection)

lemma is_within_iff: "tables_ok h \<Longrightarrow> is_within (load_catalog h now) f a \<longleftrightarrow> (f, a) \<in> (folder_edges h)\<^sup>*"
  by (simp add: is_within_def set_path load_catalog_def above_folder)

lemma is_within_collection_iff:
  "tables_ok h \<Longrightarrow> is_within_collection (load_catalog h now) f a \<longleftrightarrow> (f, a) \<in> (collection_edges h)\<^sup>*"
  by (simp add: is_within_collection_def set_path load_catalog_def above_collection)

section \<open>Rows that exist\<close>

fun hub_has :: "hub \<Rightarrow> object_id \<Rightarrow> bool" where
  "hub_has h (Folder i) \<longleftrightarrow> hm_get (hb_folders h) i \<noteq> None"
| "hub_has h (Device i) \<longleftrightarrow> hm_get (hb_devices h) i \<noteq> None"
| "hub_has h (Credential i) \<longleftrightarrow> hm_get (hb_credentials h) i \<noteq> None"
| "hub_has h (Collection i) \<longleftrightarrow> hm_get (hb_collections h) i \<noteq> None"
| "hub_has h (Profile i) \<longleftrightarrow> hm_get (hb_profiles h) i \<noteq> None"

lemma contains_tables: "tables_ok h \<Longrightarrow> contains (catalog_new (hub_objects h) gs t) x \<longleftrightarrow> hub_has h x"
  by (cases x) (simp_all add: catalog_tables)

lemma authorized_has: "tables_ok h \<Longrightarrow> authorize (load_catalog h now) s needed x \<Longrightarrow> hub_has h x"
  by (auto simp: load_catalog_def authorize_new contains_tables)

lemma effective_has: "tables_ok h \<Longrightarrow> effective_role (load_catalog h now) s x = Some r \<Longrightarrow> hub_has h x"
  by (drule effective_role_contains) (simp add: load_catalog_def contains_tables)

lemma authorize_down:
  assumes "above c x y" and "contains c x" and "authorize c s needed y" and "lower \<le> needed"
  shows "authorize c s lower x"
  using assms(3,4) effective_role_above_le [OF assms(1,2)] unfolding authorize_iff_effective by (blast intro: order_trans)

text \<open>A folder's path as the database's functions walk it: the same as the model's, if the rows above it exist.\<close>

definition parents_exist :: "hub \<Rightarrow> bool" where
  "parents_exist h \<longleftrightarrow> (\<forall>i p. (i, p) \<in> folder_edges h \<longrightarrow> hub_has h (Folder p))"

lemma above_exists:
  assumes "parents_exist h" and "(f, a) \<in> (folder_edges h)\<^sup>*" and "hub_has h (Folder f)"
  shows "hub_has h (Folder a)"
  using assms(2,3)
  by (induction rule: rtrancl_induct) (use assms(1) in \<open>auto simp: parents_exist_def\<close>)

lemma set_folders_above:
  assumes "tables_ok h" and "parents_exist h" and "hub_has h (Folder f)"
  shows "set (folders_above h f) = {a. (f, a) \<in> (folder_edges h)\<^sup>*}"
proof -
  let ?c = "catalog_new (hub_objects h) [] 0"
  have above: "set (path ?c (Folder f)) = {y. \<exists>a. y = Folder a \<and> (f, a) \<in> (folder_edges h)\<^sup>*}"
    by (simp add: set_path above_folder [OF assms(1)])
  then have ids: "set (map object_uuid (path ?c (Folder f))) = {a. (f, a) \<in> (folder_edges h)\<^sup>*}"
    by force
  moreover have "takeWhile (\<lambda>i. hm_get (hb_folders h) i \<noteq> None) (map object_uuid (path ?c (Folder f)))
      = map object_uuid (path ?c (Folder f))"
    using above_exists [OF assms(2) _ assms(3)] ids by (subst takeWhile_eq_all_conv) auto
  ultimately show ?thesis by (simp only: folders_above_def)
qed

lemma folder_within_iff:
  "tables_ok h \<Longrightarrow> parents_exist h \<Longrightarrow> hub_has h (Folder f) \<Longrightarrow> folder_within h f a \<longleftrightarrow> (f, a) \<in> (folder_edges h)\<^sup>*"
  by (simp add: folder_within_def set_folders_above)

section \<open>Changes elsewhere\<close>

lemma path_loop_cong:
  assumes "\<And>y x. n = Some y \<Longrightarrow> above c y x \<Longrightarrow> container c' x = container c x"
  shows "path_loop c' seen n = path_loop c seen n"
  using assms
proof (induction c seen n rule: path_loop.induct)
  case (2 c seen x)
  have "container c' x = container c x" using "2.prems" by simp
  moreover have "path_loop c' (insert x seen) (container c x) = path_loop c (insert x seen) (container c x)" if "x \<notin> seen"
    using that "2.prems" by (intro "2.IH") (auto intro: above_step)
  ultimately show ?case by simp
qed simp

text \<open>What lies above a folder, and the connector it passes on, depend only on the folders above it.\<close>

lemma folders_above_cong:
  assumes "tables_ok h" and "tables_ok h'"
    and same: "\<And>a. (f, a) \<in> (folder_edges h)\<^sup>* \<Longrightarrow> map_option fo_parent (hm_get (hb_folders h') a) = map_option fo_parent (hm_get (hb_folders h) a)"
  shows "folders_above h' f = folders_above h f"
proof -
  let ?c = "catalog_new (hub_objects h) [] 0" and ?c' = "catalog_new (hub_objects h') [] 0"
  have cont: "container ?c' x = container ?c x" if "above ?c (Folder f) x" for x
    using that same by (auto simp: above_folder [OF assms(1)] catalog_tables [OF assms(1)] catalog_tables [OF assms(2)])
  have "path ?c' (Folder f) = path ?c (Folder f)"
    unfolding path_def cont [OF above_refl] by (subst path_loop_cong [of _ ?c]) (auto intro!: cont intro: above_step)
  moreover have "takeWhile (\<lambda>i. hm_get (hb_folders h') i \<noteq> None) (map object_uuid (path ?c (Folder f)))
      = takeWhile (\<lambda>i. hm_get (hb_folders h) i \<noteq> None) (map object_uuid (path ?c (Folder f)))"
  proof (rule takeWhile_cong [OF refl])
    fix i assume "i \<in> set (map object_uuid (path ?c (Folder f)))"
    then have "(f, i) \<in> (folder_edges h)\<^sup>*" by (auto simp: set_path above_folder [OF assms(1)])
    from arg_cong [OF same [OF this], of "\<lambda>v. v = None"]
    show "(hm_get (hb_folders h') i \<noteq> None) = (hm_get (hb_folders h) i \<noteq> None)" by simp
  qed
  ultimately show ?thesis by (simp only: folders_above_def)
qed

lemma folder_connector_cong:
  assumes "tables_ok h" and "tables_ok h'"
    and same: "\<And>a. (f, a) \<in> (folder_edges h)\<^sup>* \<Longrightarrow> map_option fo_parent (hm_get (hb_folders h') a) = map_option fo_parent (hm_get (hb_folders h) a)
        \<and> map_option fo_connector (hm_get (hb_folders h') a) = map_option fo_connector (hm_get (hb_folders h) a)"
  shows "folder_connector h' f = folder_connector h f"
proof -
  let ?k = "\<lambda>h i. Option.bind (hm_get (hb_folders h) i) fo_connector"
  have above: "folders_above h' f = folders_above h f"
    using same by (intro folders_above_cong [OF assms(1,2)]) blast
  have "?k h' i = ?k h i" if "i \<in> set (folders_above h f)" for i
  proof -
    from that have "(f, i) \<in> (folder_edges h)\<^sup>*"
      unfolding folders_above_def by (auto dest!: set_takeWhileD simp: set_path above_folder [OF assms(1)])
    from same [OF this] show ?thesis
      by (cases "hm_get (hb_folders h) i"; cases "hm_get (hb_folders h') i") auto
  qed
  then have "filter_map (?k h') (folders_above h f) = filter_map (?k h) (folders_above h f)"
    by (simp add: map_filter_def cong: map_cong filter_cong)
  then show ?thesis by (simp only: folder_connector_def above)
qed

section \<open>The invariant\<close>

text \<open>
  What holds of the tables at any time. Some of it the schema enforces (keys, references, checks); that
  the trees have no loop, and that a device's login profile is in reach and fits its protocol, only
  the handlers do. Nothing here speaks of \<open>hb_db\<close>.
\<close>

definition folders_ok :: "hub \<Rightarrow> bool" where
  "folders_ok h \<longleftrightarrow> acyclic (folder_edges h) \<and> parents_exist h
     \<and> (\<forall>i r k. hm_get (hb_folders h) i = Some r \<and> fo_connector r = Some k \<longrightarrow> k \<in> set (hb_connectors h))"

definition collections_ok :: "hub \<Rightarrow> bool" where
  "collections_ok h \<longleftrightarrow> acyclic (collection_edges h)
     \<and> (\<forall>i p. (i, p) \<in> collection_edges h \<longrightarrow> hub_has h (Collection p))"

text \<open>The login profile a device uses: it exists, reaches the device's folder, and fits its protocol.\<close>

definition profile_suits :: "hub \<Rightarrow> uuid \<Rightarrow> string \<Rightarrow> uuid \<Rightarrow> bool" where
  "profile_suits h f protocol p \<longleftrightarrow>
     (\<exists>q. hm_get (hb_profiles h) p = Some q \<and> (pf_secret_kind q = ''ssh_key'' \<longrightarrow> protocol = ''ssh'')
        \<and> (\<forall>home \<in> set_option (pf_folder q). (f, home) \<in> (folder_edges h)\<^sup>*))"

definition device_ok :: "hub \<Rightarrow> device_row \<Rightarrow> bool" where
  "device_ok h d \<longleftrightarrow> hub_has h (Folder (dv_folder d))
     \<and> (dv_connector_mode d = ''connector'' \<longleftrightarrow> dv_connector d \<noteq> None)
     \<and> set_option (dv_connector d) \<subseteq> set (hb_connectors h)
     \<and> (dv_auth_mode d = ''profile'' \<longleftrightarrow> dv_profile d \<noteq> None)
     \<and> dv_secret_version d \<ge> 0 \<and> (dv_auth_mode d = ''device'' \<longleftrightarrow> dv_secret_version d > 0)
     \<and> (\<forall>p \<in> set_option (dv_profile d). profile_suits h (dv_folder d) (dv_protocol d) p)"

definition profile_ok :: "hub \<Rightarrow> profile_row \<Rightarrow> bool" where
  "profile_ok h p \<longleftrightarrow> (\<forall>f \<in> set_option (pf_folder p). hub_has h (Folder f))
     \<and> pf_secret_kind p \<in> {''password'', ''ssh_key''} \<and> pf_secret_version p > 0"

text \<open>A protected field has no value beside the sealed one, and any other field has one.\<close>

definition credential_ok :: "hub \<Rightarrow> credential_row \<Rightarrow> bool" where
  "credential_ok h r \<longleftrightarrow> hub_has h (Collection (cr_collection r)) \<and> cr_version r > 0
     \<and> (\<forall>f \<in> set (cr_fields r). fi_protected f \<longleftrightarrow> fi_value f = None)"

definition grant_ok :: "hub \<Rightarrow> grant_row \<Rightarrow> bool" where
  "grant_ok h g \<longleftrightarrow> role_parse (gr_role g) \<noteq> None \<and> (\<exists>x. row_object g = Some x \<and> hub_has h x)"

definition request_ok :: "hub \<Rightarrow> request_row \<Rightarrow> bool" where
  "request_ok h r \<longleftrightarrow> rq_role r \<in> {''connect'', ''reveal''} \<and> rq_minutes r \<in> {15..1440}
     \<and> (\<exists>x. request_object (rq_folder r) (rq_device r) (rq_credential r) = Some x \<and> hub_has h x)"

definition hub_ok :: "hub \<Rightarrow> bool" where
  "hub_ok h \<longleftrightarrow> tables_ok h \<and> folders_ok h \<and> collections_ok h
     \<and> (\<forall>i d. hm_get (hb_devices h) i = Some d \<longrightarrow> device_ok h d)
     \<and> (\<forall>i p. hm_get (hb_profiles h) i = Some p \<longrightarrow> profile_ok h p)
     \<and> (\<forall>i r. hm_get (hb_credentials h) i = Some r \<longrightarrow> credential_ok h r)
     \<and> (\<forall>i k. hm_get (hb_attachments h) i = Some k \<longrightarrow> hub_has h (Credential k))
     \<and> (\<forall>i g. hm_get (hb_grants h) i = Some g \<longrightarrow> grant_ok h g)
     \<and> (\<forall>i r. hm_get (hb_requests h) i = Some r \<longrightarrow> request_ok h r)
     \<and> (\<forall>u f. (u, f) \<in> set (hb_open h) \<longrightarrow> hub_has h (Folder f))"

lemma hub_okD [dest]: "hub_ok h \<Longrightarrow> tables_ok h" "hub_ok h \<Longrightarrow> folders_ok h" "hub_ok h \<Longrightarrow> parents_exist h"
  by (simp_all add: hub_ok_def folders_ok_def)

lemma hub_ok_tables:
  assumes "hub_ok h"
  shows "hm_ok (hb_folders h)" and "hm_ok (hb_devices h)" and "hm_ok (hb_profiles h)" and "hm_ok (hb_collections h)"
    and "hm_ok (hb_credentials h)" and "hm_ok (hb_attachments h)" and "hm_ok (hb_grants h)" and "hm_ok (hb_requests h)"
    and "hm_ok (hb_assigned h)"
  using hub_okD(1) [OF assms] by (simp_all add: tables_ok_def)

section \<open>Changes of one table\<close>

lemma grant_object_profile [simp]: "grant_object a b c d \<noteq> Some (Profile i)"
  by (cases "(a, b, c, d)" rule: grant_object.cases) simp_all

lemma grant_object_not_profile: "grant_object a b c d = Some x \<Longrightarrow> x \<notin> range Profile"
  by auto

lemma hub_has_frame [simp]:
  "hub_has (h\<lparr>hb_db := a\<rparr>) x = hub_has h x"
  "hub_has (h\<lparr>hb_grants := b\<rparr>) x = hub_has h x"
  "hub_has (h\<lparr>hb_requests := c\<rparr>) x = hub_has h x"
  "hub_has (h\<lparr>hb_open := d\<rparr>) x = hub_has h x"
  "hub_has (h\<lparr>hb_assigned := e\<rparr>) x = hub_has h x"
  "hub_has (h\<lparr>hb_attachments := f\<rparr>) x = hub_has h x"
  by (cases x; simp)+

lemma edges_frame [simp]:
  "folder_edges (h\<lparr>hb_db := a\<rparr>) = folder_edges h" "collection_edges (h\<lparr>hb_db := a\<rparr>) = collection_edges h"
  "folder_edges (h\<lparr>hb_devices := b\<rparr>) = folder_edges h" "collection_edges (h\<lparr>hb_devices := b\<rparr>) = collection_edges h"
  "folder_edges (h\<lparr>hb_profiles := c\<rparr>) = folder_edges h" "collection_edges (h\<lparr>hb_profiles := c\<rparr>) = collection_edges h"
  "folder_edges (h\<lparr>hb_credentials := d\<rparr>) = folder_edges h" "collection_edges (h\<lparr>hb_credentials := d\<rparr>) = collection_edges h"
  "folder_edges (h\<lparr>hb_attachments := e\<rparr>) = folder_edges h" "collection_edges (h\<lparr>hb_attachments := e\<rparr>) = collection_edges h"
  "folder_edges (h\<lparr>hb_grants := f\<rparr>) = folder_edges h" "collection_edges (h\<lparr>hb_grants := f\<rparr>) = collection_edges h"
  "folder_edges (h\<lparr>hb_requests := g\<rparr>) = folder_edges h" "collection_edges (h\<lparr>hb_requests := g\<rparr>) = collection_edges h"
  "folder_edges (h\<lparr>hb_open := k\<rparr>) = folder_edges h" "collection_edges (h\<lparr>hb_open := k\<rparr>) = collection_edges h"
  "folder_edges (h\<lparr>hb_assigned := l\<rparr>) = folder_edges h" "collection_edges (h\<lparr>hb_assigned := l\<rparr>) = collection_edges h"
  "folder_edges (h\<lparr>hb_collections := m\<rparr>) = folder_edges h" "collection_edges (h\<lparr>hb_folders := n\<rparr>) = collection_edges h"
  by (simp_all add: folder_edges_def collection_edges_def)

lemmas row_ok_defs = device_ok_def profile_ok_def credential_ok_def grant_ok_def request_ok_def profile_suits_def
  folders_ok_def collections_ok_def parents_exist_def

lemma hub_ok_db [simp]: "hub_ok (h\<lparr>hb_db := x\<rparr>) = hub_ok h"
  by (simp add: hub_ok_def row_ok_defs tables_ok_def)

lemma hub_ok_assigned: "hub_ok h \<Longrightarrow> hm_ok m \<Longrightarrow> hub_ok (h\<lparr>hb_assigned := m\<rparr>)"
  by (simp add: hub_ok_def row_ok_defs tables_ok_def)

lemma hub_ok_open: "hub_ok h \<Longrightarrow> (\<And>u f. (u, f) \<in> set m \<Longrightarrow> hub_has h (Folder f)) \<Longrightarrow> hub_ok (h\<lparr>hb_open := m\<rparr>)"
  by (simp add: hub_ok_def row_ok_defs tables_ok_def)

lemma hub_ok_grants: "hub_ok h \<Longrightarrow> hm_ok m \<Longrightarrow> (\<And>i g. hm_get m i = Some g \<Longrightarrow> grant_ok h g) \<Longrightarrow> hub_ok (h\<lparr>hb_grants := m\<rparr>)"
  by (simp add: hub_ok_def row_ok_defs tables_ok_def)

lemma hub_ok_requests: "hub_ok h \<Longrightarrow> hm_ok m \<Longrightarrow> (\<And>i r. hm_get m i = Some r \<Longrightarrow> request_ok h r) \<Longrightarrow> hub_ok (h\<lparr>hb_requests := m\<rparr>)"
  by (simp add: hub_ok_def row_ok_defs tables_ok_def)

lemma hub_has_mono:
  "(\<And>i. hm_get (hb_devices h) i \<noteq> None \<Longrightarrow> hm_get m i \<noteq> None) \<Longrightarrow> hub_has h x \<Longrightarrow> hub_has (h\<lparr>hb_devices := m\<rparr>) x"
  "(\<And>i. hm_get (hb_folders h) i \<noteq> None \<Longrightarrow> hm_get n i \<noteq> None) \<Longrightarrow> hub_has h x \<Longrightarrow> hub_has (h\<lparr>hb_folders := n\<rparr>) x"
  "(\<And>i. hm_get (hb_profiles h) i \<noteq> None \<Longrightarrow> hm_get p i \<noteq> None) \<Longrightarrow> hub_has h x \<Longrightarrow> hub_has (h\<lparr>hb_profiles := p\<rparr>) x"
  "(\<And>i. hm_get (hb_credentials h) i \<noteq> None \<Longrightarrow> hm_get q i \<noteq> None) \<Longrightarrow> hub_has h x \<Longrightarrow> hub_has (h\<lparr>hb_credentials := q\<rparr>) x"
  "(\<And>i. hm_get (hb_collections h) i \<noteq> None \<Longrightarrow> hm_get r i \<noteq> None) \<Longrightarrow> hub_has h x \<Longrightarrow> hub_has (h\<lparr>hb_collections := r\<rparr>) x"
  by (cases x; simp)+

text \<open>An object of another kind does not notice.\<close>

lemma hub_has_other [simp]:
  "hub_has (h\<lparr>hb_folders := fo\<rparr>) (Device i) = hub_has h (Device i)"
  "hub_has (h\<lparr>hb_folders := fo\<rparr>) (Credential i) = hub_has h (Credential i)"
  "hub_has (h\<lparr>hb_folders := fo\<rparr>) (Collection i) = hub_has h (Collection i)"
  "hub_has (h\<lparr>hb_folders := fo\<rparr>) (Profile i) = hub_has h (Profile i)"
  "hub_has (h\<lparr>hb_devices := de\<rparr>) (Folder i) = hub_has h (Folder i)"
  "hub_has (h\<lparr>hb_devices := de\<rparr>) (Credential i) = hub_has h (Credential i)"
  "hub_has (h\<lparr>hb_devices := de\<rparr>) (Collection i) = hub_has h (Collection i)"
  "hub_has (h\<lparr>hb_devices := de\<rparr>) (Profile i) = hub_has h (Profile i)"
  "hub_has (h\<lparr>hb_credentials := cr\<rparr>) (Folder i) = hub_has h (Folder i)"
  "hub_has (h\<lparr>hb_credentials := cr\<rparr>) (Device i) = hub_has h (Device i)"
  "hub_has (h\<lparr>hb_credentials := cr\<rparr>) (Collection i) = hub_has h (Collection i)"
  "hub_has (h\<lparr>hb_credentials := cr\<rparr>) (Profile i) = hub_has h (Profile i)"
  "hub_has (h\<lparr>hb_collections := co\<rparr>) (Folder i) = hub_has h (Folder i)"
  "hub_has (h\<lparr>hb_collections := co\<rparr>) (Device i) = hub_has h (Device i)"
  "hub_has (h\<lparr>hb_collections := co\<rparr>) (Credential i) = hub_has h (Credential i)"
  "hub_has (h\<lparr>hb_collections := co\<rparr>) (Profile i) = hub_has h (Profile i)"
  "hub_has (h\<lparr>hb_profiles := pr\<rparr>) (Folder i) = hub_has h (Folder i)"
  "hub_has (h\<lparr>hb_profiles := pr\<rparr>) (Device i) = hub_has h (Device i)"
  "hub_has (h\<lparr>hb_profiles := pr\<rparr>) (Credential i) = hub_has h (Credential i)"
  "hub_has (h\<lparr>hb_profiles := pr\<rparr>) (Collection i) = hub_has h (Collection i)"
  by simp_all

declare hub_has.simps [simp del]

text \<open>Devices may be added and changed.\<close>

lemma hub_ok_devices:
  assumes h: "hub_ok h" and m: "hm_ok m"
    and rows: "\<And>i d. hm_get m i = Some d \<Longrightarrow> device_ok h d"
    and kept: "\<And>i. hm_get (hb_devices h) i \<noteq> None \<Longrightarrow> hm_get m i \<noteq> None"
  shows "hub_ok (h\<lparr>hb_devices := m\<rparr>)"
proof -
  have has: "hub_has h x \<Longrightarrow> hub_has (h\<lparr>hb_devices := m\<rparr>) x" for x
    using kept by (rule hub_has_mono)
  have "grant_ok (h\<lparr>hb_devices := m\<rparr>) g" if "grant_ok h g" for g
    using that has by (auto simp: grant_ok_def split: option.splits)
  moreover have "request_ok (h\<lparr>hb_devices := m\<rparr>) r" if "request_ok h r" for r
    using that has by (auto simp: request_ok_def split: option.splits)
  moreover have "device_ok (h\<lparr>hb_devices := m\<rparr>) d" if "device_ok h d" for d
    using that by (simp add: device_ok_def profile_suits_def)
  ultimately show ?thesis
    using h m rows
    by (simp add: hub_ok_def tables_ok_def folders_ok_def collections_ok_def parents_exist_def profile_ok_def credential_ok_def)
qed

text \<open>Folders may be added and changed, while the tree stays one and every login profile in reach.\<close>

lemma hub_ok_folders:
  fixes h :: hub and m
  defines "h' \<equiv> h\<lparr>hb_folders := m\<rparr>"
  assumes h: "hub_ok h" and m: "hm_ok m" and tree: "folders_ok h'"
    and reach: "\<And>i d p. hm_get (hb_devices h) i = Some d \<Longrightarrow> dv_profile d = Some p \<Longrightarrow> profile_suits h' (dv_folder d) (dv_protocol d) p"
    and kept: "\<And>i. hm_get (hb_folders h) i \<noteq> None \<Longrightarrow> hm_get m i \<noteq> None"
  shows "hub_ok h'"
proof -
  have has: "hub_has h x \<Longrightarrow> hub_has h' x" for x
    unfolding h'_def using kept by (rule hub_has_mono)
  have "grant_ok h' g" if "grant_ok h g" for g
    using that has by (auto simp: grant_ok_def split: option.splits)
  moreover have "request_ok h' r" if "request_ok h r" for r
    using that has by (auto simp: request_ok_def split: option.splits)
  moreover have "device_ok h' d" if "device_ok h d" "hm_get (hb_devices h) i = Some d" for i d
    using that(1) has reach [OF that(2)] by (simp add: device_ok_def h'_def)
  moreover have "profile_ok h' p" if "profile_ok h p" for p
    using that has by (simp add: profile_ok_def)
  moreover have "credential_ok h' r" if "credential_ok h r" for r
    using that has by (simp add: credential_ok_def)
  moreover have "tables_ok h'" "collections_ok h'"
    using h m by (auto simp: hub_ok_def tables_ok_def collections_ok_def h'_def)
  ultimately show ?thesis
    using h tree has by (auto simp: hub_ok_def h'_def)
qed

lemma hub_ok_profiles:
  fixes h :: hub and m
  defines "h' \<equiv> h\<lparr>hb_profiles := m\<rparr>"
  assumes h: "hub_ok h" and m: "hm_ok m"
    and rows: "\<And>i p. hm_get m i = Some p \<Longrightarrow> profile_ok h p"
    and reach: "\<And>i d p. hm_get (hb_devices h) i = Some d \<Longrightarrow> dv_profile d = Some p \<Longrightarrow> profile_suits h' (dv_folder d) (dv_protocol d) p"
  shows "hub_ok h'"
proof -
  have has: "hub_has h' x = hub_has h x" if "x \<notin> range Profile" for x
    using that by (cases x) (auto simp: h'_def)
  have "grant_ok h' g" if "grant_ok h g" for g
    using that has by (fastforce simp: grant_ok_def row_object_def dest: grant_object_not_profile)
  moreover have "request_ok h' r" if "request_ok h r" for r
    using that has by (fastforce simp: request_ok_def request_object_def dest: grant_object_not_profile)
  moreover have "device_ok h' d" if "device_ok h d" "hm_get (hb_devices h) i = Some d" for i d
    using that(1) reach [OF that(2)] by (simp add: device_ok_def h'_def)
  moreover have "profile_ok h' p" if "profile_ok h p" for p
    using that by (simp add: profile_ok_def h'_def)
  ultimately show ?thesis
    using h m rows by (simp add: hub_ok_def h'_def tables_ok_def folders_ok_def collections_ok_def parents_exist_def credential_ok_def)
qed

lemma hub_ok_credentials:
  fixes h :: hub and m
  defines "h' \<equiv> h\<lparr>hb_credentials := m\<rparr>"
  assumes h: "hub_ok h" and m: "hm_ok m"
    and rows: "\<And>i r. hm_get m i = Some r \<Longrightarrow> credential_ok h r"
    and kept: "\<And>i. hm_get (hb_credentials h) i \<noteq> None \<Longrightarrow> hm_get m i \<noteq> None"
  shows "hub_ok h'"
proof -
  have has: "hub_has h x \<Longrightarrow> hub_has h' x" for x
    unfolding h'_def using kept by (rule hub_has_mono)
  have "grant_ok h' g" if "grant_ok h g" for g
    using that has by (auto simp: grant_ok_def split: option.splits)
  moreover have "request_ok h' r" if "request_ok h r" for r
    using that has by (auto simp: request_ok_def split: option.splits)
  moreover have "credential_ok h' r" if "credential_ok h r" for r
    using that by (simp add: credential_ok_def h'_def)
  ultimately show ?thesis
    using h m rows has
    by (simp add: hub_ok_def h'_def tables_ok_def folders_ok_def collections_ok_def parents_exist_def profile_ok_def device_ok_def profile_suits_def)
qed

lemma hub_ok_collections:
  fixes h :: hub and m
  defines "h' \<equiv> h\<lparr>hb_collections := m\<rparr>"
  assumes h: "hub_ok h" and m: "hm_ok m" and tree: "collections_ok h'"
    and kept: "\<And>i. hm_get (hb_collections h) i \<noteq> None \<Longrightarrow> hm_get m i \<noteq> None"
  shows "hub_ok h'"
proof -
  have has: "hub_has h x \<Longrightarrow> hub_has h' x" for x
    unfolding h'_def using kept by (rule hub_has_mono)
  have "grant_ok h' g" if "grant_ok h g" for g
    using that has by (auto simp: grant_ok_def split: option.splits)
  moreover have "request_ok h' r" if "request_ok h r" for r
    using that has by (auto simp: request_ok_def split: option.splits)
  moreover have "credential_ok h' r" if "credential_ok h r" for r
    using that has by (simp add: credential_ok_def)
  ultimately show ?thesis
    using h m tree
    by (simp add: hub_ok_def h'_def tables_ok_def folders_ok_def parents_exist_def profile_ok_def device_ok_def profile_suits_def)
qed

section \<open>Changing one folder\<close>

lemma folder_edges_put:
  "folder_edges (h\<lparr>hb_folders := hm_insert i r m\<rparr>) = {(a, b) \<in> folder_edges (h\<lparr>hb_folders := m\<rparr>). a \<noteq> i} \<union> {i} \<times> set_option (fo_parent r)"
  by (auto simp: folder_edges_def hm.get_put split: if_splits)

lemma collection_edges_put:
  "collection_edges (h\<lparr>hb_collections := hm_insert i r m\<rparr>)
    = {(a, b) \<in> collection_edges (h\<lparr>hb_collections := m\<rparr>). a \<noteq> i} \<union> {i} \<times> set_option (co_parent r)"
  by (auto simp: collection_edges_def hm.get_put split: if_splits)

text \<open>Giving a node another parent makes no loop unless the parent lies below it.\<close>

lemma acyclic_reparent:
  assumes "acyclic E" and "\<And>p. P = Some p \<Longrightarrow> (p, i) \<notin> E\<^sup>*"
  shows "acyclic ({(a, b) \<in> E. a \<noteq> i} \<union> {i} \<times> set_option P)"
proof (cases P)
  case None
  then show ?thesis using assms(1) by (auto intro: acyclic_subset)
next
  case (Some p)
  let ?E = "{(a, b) \<in> E. a \<noteq> i}"
  have "acyclic ?E" using assms(1) by (rule acyclic_subset) auto
  moreover have "(p, i) \<notin> ?E\<^sup>*"
    using assms(2) [OF Some] rtrancl_mono [of ?E E] by auto
  ultimately have "acyclic (insert (i, p) ?E)" by simp
  also have "insert (i, p) ?E = ?E \<union> {i} \<times> set_option P" using Some by auto
  finally show ?thesis .
qed

lemma profile_suits_mono:
  assumes "profile_suits h f protocol p" and "hm_get (hb_profiles h') p = hm_get (hb_profiles h) p"
    and "\<And>a. (f, a) \<in> (folder_edges h)\<^sup>* \<Longrightarrow> (f, a) \<in> (folder_edges h')\<^sup>*"
  shows "profile_suits h' f protocol p"
  using assms by (auto simp: profile_suits_def)

lemma hub_ok_devicesD: "hub_ok h \<Longrightarrow> hm_get (hb_devices h) i = Some d \<Longrightarrow> device_ok h d"
  by (simp add: hub_ok_def)

lemma hub_ok_profilesD: "hub_ok h \<Longrightarrow> hm_get (hb_profiles h) i = Some p \<Longrightarrow> profile_ok h p"
  by (simp add: hub_ok_def)

lemma hub_ok_credentialsD: "hub_ok h \<Longrightarrow> hm_get (hb_credentials h) i = Some r \<Longrightarrow> credential_ok h r"
  by (simp add: hub_ok_def)

lemma hub_ok_grantsD: "hub_ok h \<Longrightarrow> hm_get (hb_grants h) i = Some g \<Longrightarrow> grant_ok h g"
  by (simp add: hub_ok_def)

lemma hub_ok_requestsD: "hub_ok h \<Longrightarrow> hm_get (hb_requests h) i = Some r \<Longrightarrow> request_ok h r"
  by (simp add: hub_ok_def)

lemma hub_ok_openD: "hub_ok h \<Longrightarrow> (u, f) \<in> set (hb_open h) \<Longrightarrow> hub_has h (Folder f)"
  by (simp add: hub_ok_def)

text \<open>What contains an object that exists, exists.\<close>

lemma container_exists:
  assumes h: "hub_ok h" and "container (catalog_new (hub_objects h) gs t) y = Some z" and "hub_has h y"
  shows "hub_has h z"
proof (cases y)
  case (Folder i)
  with assms(2) show ?thesis
    using hub_okD(3) [OF h] by (auto simp: container_folder [OF hub_okD(1) [OF h]] parents_exist_def simp del: container.simps)
next
  case (Collection i)
  moreover have "collections_ok h" using h by (simp add: hub_ok_def)
  ultimately show ?thesis
    using assms(2) by (auto simp: container_collection [OF hub_okD(1) [OF h]] collections_ok_def simp del: container.simps)
next
  case (Device i)
  with assms(2) show ?thesis using hub_ok_devicesD [OF h] by (auto simp: catalog_tables [OF hub_okD(1) [OF h]] device_ok_def)
next
  case (Credential i)
  with assms(2) show ?thesis using hub_ok_credentialsD [OF h] by (auto simp: catalog_tables [OF hub_okD(1) [OF h]] credential_ok_def)
next
  case (Profile i)
  with assms(2) show ?thesis
    using hub_ok_profilesD [OF h] by (auto simp: catalog_tables [OF hub_okD(1) [OF h]] profile_ok_def bind_eq_Some_conv)
qed

lemma above_has:
  assumes "hub_ok h" and "above (catalog_new (hub_objects h) gs t) x y" and "hub_has h x"
  shows "hub_has h y"
  using assms(2,3) unfolding above_def
  by (induction rule: rtranclp_induct) (auto intro: container_exists [OF assms(1)])

lemma device_suits: "hub_ok h \<Longrightarrow> hm_get (hb_devices h) i = Some d \<Longrightarrow> dv_profile d = Some p \<Longrightarrow> profile_suits h (dv_folder d) (dv_protocol d) p"
  by (drule hub_ok_devicesD) (auto simp: device_ok_def)

lemma folder_present: "hm_get (hb_folders h) i = Some r \<Longrightarrow> hub_has h (Folder i)"
  by (simp add: hub_has.simps)

lemma hm_get_map_rows: "hm_get (map (\<lambda>(i, d). (i, f i d)) m) k = map_option (f k) (hm_get m k)"
  by (induction m) auto

lemma hm_ok_map_rows [simp]: "hm_ok (map (\<lambda>(i, d). (i, f i d)) m) = hm_ok m"
  by (simp add: hm_ok_def comp_def split_def)

lemma hm_update_insert: "hm_get m k = Some v \<Longrightarrow> hm_update k f m = hm_insert k (f v) m"
  by (simp add: hm_update_def)

lemma hub_audit_ok [simp]: "hub_ok (hub_audit h e) = hub_ok h"
  by (simp add: hub_audit_def)

lemma drop_secrets_ok [simp]: "hub_ok (drop_secrets g h) = hub_ok h"
  by (simp add: drop_secrets_def)

section \<open>Removing an object nothing refers to\<close>

definition unreferenced :: "hub \<Rightarrow> object_id \<Rightarrow> bool" where
  "unreferenced h x \<longleftrightarrow> (\<forall>i g. hm_get (hb_grants h) i = Some g \<longrightarrow> row_object g \<noteq> Some x)
     \<and> (\<forall>i r. hm_get (hb_requests h) i = Some r \<longrightarrow> request_object (rq_folder r) (rq_device r) (rq_credential r) \<noteq> Some x)"

lemma grant_object_Folder: "grant_object a b c d = Some (Folder i) \<longleftrightarrow> (a, b, c, d) = (Some i, None, None, None)"
  by (cases "(a, b, c, d)" rule: grant_object.cases) auto

lemma grant_object_Device: "grant_object a b c d = Some (Device i) \<longleftrightarrow> (a, b, c, d) = (None, Some i, None, None)"
  by (cases "(a, b, c, d)" rule: grant_object.cases) auto

lemma grant_object_Credential: "grant_object a b c d = Some (Credential i) \<longleftrightarrow> (a, b, c, d) = (None, None, Some i, None)"
  by (cases "(a, b, c, d)" rule: grant_object.cases) auto

lemma grant_object_Collection: "grant_object a b c d = Some (Collection i) \<longleftrightarrow> (a, b, c, d) = (None, None, None, Some i)"
  by (cases "(a, b, c, d)" rule: grant_object.cases) auto

lemmas grant_object_iffs = grant_object_Folder grant_object_Device grant_object_Credential grant_object_Collection

lemma filter_rowsD: "hm_ok m \<Longrightarrow> hm_get (filter P m) i = Some v \<Longrightarrow> hm_get m i = Some v \<and> P (i, v)"
  by (simp add: hm_get_filter split: option.splits if_splits)

text \<open>\<open>ON DELETE CASCADE\<close>: fewer grants and requests are no harm.\<close>

lemma hub_ok_cascade:
  assumes h: "hub_ok h"
  shows "hub_ok (h\<lparr>hb_grants := filter P (hb_grants h), hb_requests := filter Q (hb_requests h)\<rparr>)"
proof -
  have "grant_ok h g" if "hm_get (filter P (hb_grants h)) i = Some g" for i g
    using filter_rowsD [OF hub_ok_tables(7) [OF h] that] by (blast intro: hub_ok_grantsD [OF h])
  then have g: "hub_ok (h\<lparr>hb_grants := filter P (hb_grants h)\<rparr>)"
    by (intro hub_ok_grants [OF h]) (auto simp: hub_ok_tables [OF h])
  have "request_ok h r" if "hm_get (filter Q (hb_requests h)) i = Some r" for i r
    using filter_rowsD [OF hub_ok_tables(8) [OF h] that] by (blast intro: hub_ok_requestsD [OF h])
  then have "hub_ok (h\<lparr>hb_grants := filter P (hb_grants h)\<rparr>\<lparr>hb_requests := filter Q (hb_requests h)\<rparr>)"
    by (intro hub_ok_requests [OF g]) (auto simp: hub_ok_tables [OF h] request_ok_def)
  then show ?thesis by simp
qed

lemma rows_kept:
  assumes "hub_ok h" and "unreferenced h x" and has: "\<And>y. y \<noteq> x \<Longrightarrow> hub_has h y \<Longrightarrow> hub_has h' y"
  shows "hm_get (hb_grants h) i = Some g \<Longrightarrow> grant_ok h' g" and "hm_get (hb_requests h) i = Some r \<Longrightarrow> request_ok h' r"
proof -
  assume "hm_get (hb_grants h) i = Some g"
  with assms have "grant_ok h g" "row_object g \<noteq> Some x" by (auto simp: hub_ok_def unreferenced_def)
  then show "grant_ok h' g" using has by (auto simp: grant_ok_def)
next
  assume "hm_get (hb_requests h) i = Some r"
  with assms have "request_ok h r" "request_object (rq_folder r) (rq_device r) (rq_credential r) \<noteq> Some x"
    by (auto simp: hub_ok_def unreferenced_def)
  then show "request_ok h' r" using has by (auto simp: request_ok_def)
qed

end
