(* ===== verification/Folders.thy ===== *)
theory Folders
  imports Forest
begin

text \<open>
  The device folders, \<^verbatim>\<open>crates/server/src/api/catalog.rs\<close>: creating, changing, moving and deleting a
  folder, and opening it in one's own tree. A folder passes a site connector on to the devices below
  it, so that changing or moving one may point many devices at another machine.
\<close>

section \<open>Data\<close>

record new_folder =
  nf_parent :: "uuid option"
  nf_name :: string
  nf_connector :: "uuid option"

text \<open>Absent: it stays; null: the top level, or the parent's connector.\<close>

record folder_change =
  fc_name :: "string option"
  fc_parent :: "uuid option option"
  fc_connector :: "uuid option option"

record reached =
  re_id :: uuid
  re_name :: string
  re_profile :: "uuid option"
  re_through :: "uuid option"

section \<open>Handlers\<close>

definition set_folder_open :: "hub \<Rightarrow> session \<Rightarrow> instant \<Rightarrow> uuid \<Rightarrow> bool \<Rightarrow> problem + hub" where
  "set_folder_open h s now i opened =
     (let v = visible (load_catalog h now) (session_subject s)
      in and_then (ensure (map_of (roles v) (Folder i) \<noteq> None \<or> i \<in> path_only v) (problem NotFound)) (\<lambda>_.
           Inr (if opened then h\<lparr>hb_open := (if (s_user s, i) \<in> set (hb_open h) then hb_open h else hb_open h @ [(s_user s, i)])\<rparr>
                else h\<lparr>hb_open := filter (\<lambda>p. p \<noteq> (s_user s, i)) (hb_open h)\<rparr>)))"

text \<open>\<open>UNIQUE NULLS NOT DISTINCT (parent_id, name)\<close>: whether another folder has this place and name.\<close>

definition folder_taken :: "hub \<Rightarrow> uuid \<Rightarrow> uuid option \<Rightarrow> string \<Rightarrow> bool" where
  "folder_taken h i p n \<longleftrightarrow> list_ex (\<lambda>(j, r). j \<noteq> i \<and> fo_parent r = p \<and> fo_name r = n) (hb_folders h)"

text \<open>A folder may be put at the top level, or into a folder one manages.\<close>

definition folder_place :: "catalog \<Rightarrow> subject \<Rightarrow> uuid option \<Rightarrow> problem + unit" where
  "folder_place c sub p =
     (case p of
        None \<Rightarrow> if may_create_top_level c sub then Inr () else Inl (problem Forbidden)
      | Some f \<Rightarrow> require c sub Manage (Folder f))"

definition create_folder :: "hub \<Rightarrow> session \<Rightarrow> string \<Rightarrow> instant \<Rightarrow> uuid \<Rightarrow> new_folder \<Rightarrow> problem + (hub \<times> uuid)" where
  "create_folder h s addr now i inp =
     and_then (checked_name (nf_name inp) ''name'') (\<lambda>n.
     (let c = load_catalog h now; sub = session_subject s in
     and_then (folder_place c sub (nf_parent inp)) (\<lambda>_.
     and_then (require_connector h (nf_connector inp)) (\<lambda>_.
     and_then (ensure (hm_get (hb_folders h) i = None \<and> \<not> folder_taken h i (nf_parent inp) n) (problem NameTaken)) (\<lambda>_.
       Inr (hub_audit (h\<lparr>hb_folders := hm_insert i \<lparr>fo_parent = nf_parent inp, fo_name = n, fo_connector = nf_connector inp\<rparr> (hb_folders h)\<rparr>)
              (audit_object s ''folder.created'' (Folder i)
                 [(''name'', JText n), (''parent_id'', json_uuid (nf_parent inp)), (''connector_id'', json_uuid (nf_connector inp))] addr),
            i))))))"

text \<open>The devices in a folder and in those below it, with the connector each is reached through.\<close>

definition devices_below :: "hub \<Rightarrow> uuid \<Rightarrow> reached list" where
  "devices_below h f =
     map (\<lambda>(i, d). \<lparr>re_id = i, re_name = dv_name d, re_profile = dv_profile d, re_through = reached_through h d\<rparr>)
       (filter (\<lambda>(_, d). folder_within h (dv_folder d) f) (hb_devices h))"

definition out_of_reach :: "(string \<Rightarrow> string) \<Rightarrow> hub \<Rightarrow> string list" where
  "out_of_reach lower h =
     sort_key lower (map (\<lambda>(_, d). dv_name d)
       (filter (\<lambda>(_, d). case Option.bind (dv_profile d) (hm_get (hb_profiles h)) of
            Some p \<Rightarrow> (case pf_folder p of Some f \<Rightarrow> \<not> folder_within h (dv_folder d) f | None \<Rightarrow> False)
          | None \<Rightarrow> False) (hb_devices h)))"

definition forget_pins :: "uuid list \<Rightarrow> hub \<Rightarrow> hub" where
  "forget_pins is h =
     h\<lparr>hb_devices := map (\<lambda>(i, d). (i, if i \<in> set is then d\<lparr>dv_host_key := None, dv_certificate := None\<rparr> else d)) (hb_devices h)\<rparr>"

text \<open>The devices below a folder that are reached through another connector than before.\<close>

definition retargeted :: "reached list \<Rightarrow> reached list \<Rightarrow> reached list" where
  "retargeted before after =
     filter (\<lambda>a. list_ex (\<lambda>b. re_id b = re_id a \<and> re_through b \<noteq> re_through a) before) after"

text \<open>The row an \<open>UPDATE folders\<close> leaves, given the checked name.\<close>

definition changed_folder :: "folder_change \<Rightarrow> string option \<Rightarrow> folder_row \<Rightarrow> folder_row" where
  "changed_folder inp n r =
     r\<lparr>fo_name := (case n of Some n \<Rightarrow> n | None \<Rightarrow> fo_name r),
       fo_parent := (case fc_parent inp of Some p \<Rightarrow> p | None \<Rightarrow> fo_parent r),
       fo_connector := (case fc_connector inp of Some k \<Rightarrow> k | None \<Rightarrow> fo_connector r)\<rparr>"

text \<open>Where the folder may go: never into itself or below itself.\<close>

definition folder_move :: "catalog \<Rightarrow> subject \<Rightarrow> uuid \<Rightarrow> uuid option option \<Rightarrow> problem + unit" where
  "folder_move c sub i place =
     (case place of
        None \<Rightarrow> Inr ()
      | Some p \<Rightarrow> and_then (folder_place c sub p) (\<lambda>_.
          ensure (case p of Some f \<Rightarrow> \<not> is_within c f i | None \<Rightarrow> True) (invalid ''parent_id'')))"

text \<open>The devices whose login profile the subject may not use.\<close>

definition refused_devices :: "catalog \<Rightarrow> subject \<Rightarrow> reached list \<Rightarrow> reached list" where
  "refused_devices c sub moved =
     filter (\<lambda>d. case re_profile d of Some p \<Rightarrow> require c sub Connect (Profile p) \<noteq> Inr () | None \<Rightarrow> False) moved"

definition update_folder ::
  "(string \<Rightarrow> string) \<Rightarrow> hub \<Rightarrow> session \<Rightarrow> string \<Rightarrow> instant \<Rightarrow> uuid \<Rightarrow> folder_change \<Rightarrow> problem + hub" where
  "update_folder lower h s addr now i inp =
     (let c = load_catalog h now; sub = session_subject s in
     and_then (require c sub Manage (Folder i)) (\<lambda>_.
     and_then (case fc_name inp of None \<Rightarrow> Inr None | Some n \<Rightarrow> and_then (checked_name n ''name'') (\<lambda>n. Inr (Some n))) (\<lambda>n.
     and_then (folder_move c sub i (fc_parent inp)) (\<lambda>_.
     and_then (case fc_connector inp of Some (Some k) \<Rightarrow> require_connector h (Some k) | _ \<Rightarrow> Inr ()) (\<lambda>_.
     (let before = devices_below h i;
          h' = h\<lparr>hb_folders := hm_update i (changed_folder inp n) (hb_folders h)\<rparr> in
     and_then (ensure (case hm_get (hb_folders h') i of Some r \<Rightarrow> \<not> folder_taken h' i (fo_parent r) (fo_name r) | None \<Rightarrow> True)
         (problem NameTaken)) (\<lambda>_.
     (let moved = retargeted before (devices_below h' i);
          refused = refused_devices c sub moved;
          stranded = out_of_reach lower h' in
     and_then (ensure (refused = []) (param (problem RetargetForbidden) ''devices'' (JText (join '', '' (map re_name refused))))) (\<lambda>_.
     and_then (ensure (stranded = []) (param (problem ProfileOutOfReach) ''devices'' (JText (join '', '' stranded)))) (\<lambda>_.
       Inr (hub_audit (forget_pins (map re_id moved) h')
              (audit_object s ''folder.updated'' (Folder i)
                 [(''name'', json_text n), (''parent_id'', json_uuid (Option.bind (fc_parent inp) (\<lambda>p. p))),
                  (''connector_id'', json_uuid (Option.bind (fc_connector inp) (\<lambda>k. k))),
                  (''retargeted'', JList (map (\<lambda>d. JText (uuid_show (re_id d))) moved))] addr))))))))))))"

text \<open>
  \<open>ON DELETE RESTRICT\<close>: folders, devices and login profiles inside keep a folder; its grants,
  requests and marks as open go with it.
\<close>

definition folder_used :: "hub \<Rightarrow> uuid \<Rightarrow> bool" where
  "folder_used h i \<longleftrightarrow> list_ex (\<lambda>(_, r). fo_parent r = Some i) (hb_folders h) \<or> list_ex (\<lambda>(_, d). dv_folder d = i) (hb_devices h)
     \<or> list_ex (\<lambda>(_, p). pf_folder p = Some i) (hb_profiles h)"

definition delete_folder :: "hub \<Rightarrow> session \<Rightarrow> string \<Rightarrow> instant \<Rightarrow> uuid \<Rightarrow> problem + hub" where
  "delete_folder h s addr now i =
     (let c = load_catalog h now; sub = session_subject s in
     and_then (require c sub Manage (Folder i)) (\<lambda>_.
     and_then (ensure (\<not> folder_used h i) (problem FolderNotEmpty)) (\<lambda>_.
       Inr (hub_audit (h\<lparr>hb_grants := filter (\<lambda>(_, g). gr_folder g \<noteq> Some i) (hb_grants h),
               hb_requests := filter (\<lambda>(_, r). rq_folder r \<noteq> Some i) (hb_requests h),
               hb_open := filter (\<lambda>(_, f). f \<noteq> i) (hb_open h),
               hb_folders := hm_remove i (hb_folders h)\<rparr>)
              (audit_object s ''folder.deleted'' (Folder i) [] addr)))))"

section \<open>The tree stays one\<close>

lemma visible_folder_exists:
  assumes h: "hub_ok h"
    and "map_of (roles (visible (load_catalog h now) sub)) (Folder i) \<noteq> None \<or> i \<in> path_only (visible (load_catalog h now) sub)"
  shows "hub_has h (Folder i)"
proof -
  let ?c = "load_catalog h now"
  note t = hub_okD(1) [OF h]
  from assms(2) consider "effective_role ?c sub (Folder i) \<noteq> None"
    | x where "contains ?c x" "above ?c x (Folder i)"
    unfolding path_only_visible set_shown_above by (auto simp: visible_roles_None dest: effective_role_contains)
  then show ?thesis
  proof cases
    case 1
    then show ?thesis using effective_has [OF t] by auto
  next
    case 2
    then show ?thesis using above_has [OF h, of _ _ x] by (simp add: load_catalog_def contains_tables [OF t])
  qed
qed

lemma set_folder_open_ok: "set_folder_open h s now i opened = Inr h' \<Longrightarrow> hub_ok h \<Longrightarrow> hub_ok h'"
  using visible_folder_exists [of h now "session_subject s" i]
  by (auto simp: set_folder_open_def Let_def intro!: hub_ok_open) (auto simp: hub_ok_def)

lemma create_folder_ok:
  assumes "create_folder h s addr now i inp = Inr (h', j)" and h: "hub_ok h"
  shows "hub_ok h'"
proof -
  let ?r = "\<lambda>n. \<lparr>fo_parent = nf_parent inp, fo_name = n, fo_connector = nf_connector inp\<rparr>"
  obtain n e where h': "h' = hub_audit (h\<lparr>hb_folders := hm_insert i (?r n) (hb_folders h)\<rparr>) e"
    and place: "folder_place (load_catalog h now) (session_subject s) (nf_parent inp) = Inr ()"
    and conn: "require_connector h (nf_connector inp) = Inr ()" and new: "hm_get (hb_folders h) i = None"
    using assms(1) by (auto simp: create_folder_def Let_def)
  let ?h = "h\<lparr>hb_folders := hm_insert i (?r n) (hb_folders h)\<rparr>"
  have p: "hub_has h (Folder p)" if "nf_parent inp = Some p" for p
    using place that authorized_has [OF hub_okD(1) [OF h]] by (auto simp: folder_place_def)
  have edges: "folder_edges ?h = {(a, b) \<in> folder_edges h. a \<noteq> i} \<union> {i} \<times> set_option (nf_parent inp)"
    by (simp add: folder_edges_put)
  have sub: "folder_edges h \<subseteq> folder_edges ?h"
    unfolding edges using new by (auto simp: folder_edges_def)
  have "(p, i) \<notin> (folder_edges h)\<^sup>*" if "nf_parent inp = Some p" for p
    using above_exists [OF hub_okD(3) [OF h] _ p [OF that], of i] new by (auto simp: hub_has.simps)
  then have "acyclic (folder_edges ?h)"
    unfolding edges using h by (intro acyclic_reparent) (auto simp: hub_ok_def folders_ok_def)
  moreover have "parents_exist ?h"
    using h p by (auto simp: parents_exist_def edges hub_ok_def folders_ok_def hub_has.simps hm.get_put)
  ultimately have "folders_ok ?h"
    using h conn by (auto simp: folders_ok_def hub_ok_def hm.get_put require_connector_def split: if_splits option.splits)
  moreover have "profile_suits ?h (dv_folder d) (dv_protocol d) q"
    if "hm_get (hb_devices h) k = Some d" "dv_profile d = Some q" for k d q
    using device_suits [OF h that] by (rule profile_suits_mono) (use rtrancl_mono [OF sub] in auto)
  ultimately have "hub_ok ?h"
    by (intro hub_ok_folders [OF h]) (simp_all add: hm.ok_put hm.get_put hub_ok_tables [OF h])
  then show ?thesis by (simp add: h')
qed

lemma sort_key_Nil [simp]: "sort_key f xs = [] \<longleftrightarrow> xs = []"
  by (metis length_sort length_0_conv)

lemma forget_pins_ok: "hub_ok h \<Longrightarrow> hub_ok (forget_pins ids h)"
proof -
  assume h: "hub_ok h"
  have pins: "device_ok h (d\<lparr>dv_host_key := k, dv_certificate := c\<rparr>) = device_ok h d" for d k c
    by (simp add: device_ok_def)
  let ?f = "\<lambda>i d. if i \<in> set ids then d\<lparr>dv_host_key := None, dv_certificate := None\<rparr> else d"
  have "device_ok h d" if "hm_get (map (\<lambda>(i, d). (i, ?f i d)) (hb_devices h)) i = Some d" for i d
  proof -
    from that obtain b where "hm_get (hb_devices h) i = Some b" and "d = ?f i b" by (auto simp: hm_get_map_rows)
    then show ?thesis using hub_ok_devicesD [OF h] by (simp add: pins)
  qed
  then show "hub_ok (forget_pins ids h)"
    unfolding forget_pins_def by (intro hub_ok_devices [OF h]) (simp_all add: hub_ok_tables [OF h] hm_get_map_rows)
qed

text \<open>No device is listed as out of reach: every login profile in use reaches its device.\<close>

lemma in_reach_of_all:
  assumes "out_of_reach lower h = []" and "tables_ok h" and "parents_exist h"
    and d: "hm_get (hb_devices h) i = Some d" "hub_has h (Folder (dv_folder d))"
    and p: "dv_profile d = Some p" "hm_get (hb_profiles h) p = Some q" "pf_folder q = Some home"
  shows "(dv_folder d, home) \<in> (folder_edges h)\<^sup>*"
proof -
  have "(i, d) \<in> set (hb_devices h)" using d(1) by (rule map_of_SomeD)
  moreover have "filter (\<lambda>(_, d). case Option.bind (dv_profile d) (hm_get (hb_profiles h)) of
            Some p \<Rightarrow> (case pf_folder p of Some f \<Rightarrow> \<not> folder_within h (dv_folder d) f | None \<Rightarrow> False)
          | None \<Rightarrow> False) (hb_devices h) = []"
    using assms(1) unfolding out_of_reach_def sort_key_Nil map_is_Nil_conv .
  ultimately have "folder_within h (dv_folder d) home"
    using p by (fastforce simp: filter_empty_conv)
  then show ?thesis by (simp add: folder_within_iff [OF assms(2,3) d(2)])
qed

lemma update_folder_Inr:
  assumes "update_folder lower h s addr now i inp = Inr h'" and "tables_ok h"
  obtains r n e moved where "hm_get (hb_folders h) i = Some r"
    and "h' = hub_audit (forget_pins (map re_id moved) (h\<lparr>hb_folders := hm_insert i (changed_folder inp n r) (hb_folders h)\<rparr>)) e"
    and "moved = retargeted (devices_below h i) (devices_below (h\<lparr>hb_folders := hm_insert i (changed_folder inp n r) (hb_folders h)\<rparr>) i)"
    and "\<And>d p. d \<in> set moved \<Longrightarrow> re_profile d = Some p \<Longrightarrow> authorize (load_catalog h now) (session_subject s) Connect (Profile p)"
    and "out_of_reach lower (h\<lparr>hb_folders := hm_insert i (changed_folder inp n r) (hb_folders h)\<rparr>) = []"
    and "\<And>p. fc_parent inp = Some (Some p) \<Longrightarrow> authorize (load_catalog h now) (session_subject s) Manage (Folder p)
           \<and> \<not> is_within (load_catalog h now) p i"
    and "\<And>k. fc_connector inp = Some (Some k) \<Longrightarrow> k \<in> set (hb_connectors h)"
    and "authorize (load_catalog h now) (session_subject s) Manage (Folder i)"
proof -
  have a: "authorize (load_catalog h now) (session_subject s) Manage (Folder i)"
    using assms(1) by (auto simp: update_folder_def Let_def)
  then have "hub_has h (Folder i)" by (rule authorized_has [OF assms(2)])
  then obtain r where r: "hm_get (hb_folders h) i = Some r" by (auto simp: hub_has.simps)
  have up: "hm_update i (changed_folder inp n) (hb_folders h) = hm_insert i (changed_folder inp n r) (hb_folders h)" for n
    by (rule hm_update_insert [OF r])
  let ?c = "load_catalog h now" and ?sub = "session_subject s"
  let ?h = "\<lambda>n. h\<lparr>hb_folders := hm_insert i (changed_folder inp n r) (hb_folders h)\<rparr>"
  let ?moved = "\<lambda>n. retargeted (devices_below h i) (devices_below (?h n) i)"
  from assms(1) have "\<exists>n e. folder_move ?c ?sub i (fc_parent inp) = Inr ()
      \<and> (case fc_connector inp of Some (Some k) \<Rightarrow> require_connector h (Some k) | _ \<Rightarrow> Inr ()) = Inr ()
      \<and> refused_devices ?c ?sub (?moved n) = [] \<and> out_of_reach lower (?h n) = []
      \<and> h' = hub_audit (forget_pins (map re_id (?moved n)) (?h n)) e"
    unfolding update_folder_def Let_def up and_then_Inr_iff ensure_Inr_iff by (elim exE conjE) (simp, blast)
  then obtain n e where place: "folder_move ?c ?sub i (fc_parent inp) = Inr ()"
    and conn: "(case fc_connector inp of Some (Some k) \<Rightarrow> require_connector h (Some k) | _ \<Rightarrow> Inr ()) = Inr ()"
    and refused: "refused_devices ?c ?sub (?moved n) = []" and reach: "out_of_reach lower (?h n) = []"
    and h': "h' = hub_audit (forget_pins (map re_id (?moved n)) (?h n)) e"
    by blast
  show thesis
  proof (rule that [OF r h' refl _ reach _ _ a])
    show "authorize ?c ?sub Connect (Profile p)" if "d \<in> set (?moved n)" "re_profile d = Some p" for d p
      using refused that by (auto simp: refused_devices_def filter_empty_conv)
    show "authorize ?c ?sub Manage (Folder p) \<and> \<not> is_within ?c p i" if "fc_parent inp = Some (Some p)" for p
      using place that by (simp add: folder_move_def folder_place_def)
    show "k \<in> set (hb_connectors h)" if "fc_connector inp = Some (Some k)" for k
      using conn that by (simp add: require_connector_def split: if_splits)
  qed
qed

lemma update_folder_ok:
  assumes "update_folder lower h s addr now i inp = Inr h'" and h: "hub_ok h"
  shows "hub_ok h'"
  using assms(1) hub_okD(1) [OF h]
proof (rule update_folder_Inr)
  fix r n e moved
  let ?r = "changed_folder inp n r"
  let ?h = "h\<lparr>hb_folders := hm_insert i ?r (hb_folders h)\<rparr>"
  assume r: "hm_get (hb_folders h) i = Some r"
    and h': "h' = hub_audit (forget_pins (map re_id moved) ?h) e"
    and reach: "out_of_reach lower ?h = []"
    and place: "\<And>p. fc_parent inp = Some (Some p) \<Longrightarrow> authorize (load_catalog h now) (session_subject s) Manage (Folder p)
           \<and> \<not> is_within (load_catalog h now) p i"
    and conn: "\<And>k. fc_connector inp = Some (Some k) \<Longrightarrow> k \<in> set (hb_connectors h)"
  have old: "acyclic (folder_edges h)" "parents_exist h" "tables_ok h" using h by (auto simp: hub_ok_def folders_ok_def)
  have edges: "folder_edges ?h = {(a, b) \<in> folder_edges h. a \<noteq> i} \<union> {i} \<times> set_option (fo_parent ?r)"
    by (simp add: folder_edges_put)
  have up: "hub_has h (Folder p) \<and> (p, i) \<notin> (folder_edges h)\<^sup>*" if "fo_parent ?r = Some p" for p
  proof (cases "fc_parent inp")
    case None
    with that r have "(i, p) \<in> folder_edges h" by (auto simp: changed_folder_def folder_edges_def)
    then show ?thesis
      using old by (auto simp: parents_exist_def acyclic_def dest: rtrancl_into_trancl2)
  next
    case (Some q)
    with that have "fc_parent inp = Some (Some p)" by (simp add: changed_folder_def)
    then show ?thesis using place authorized_has [OF old(3)] by (auto simp: is_within_iff [OF old(3)])
  qed
  have has: "hub_has ?h (Folder a) = hub_has h (Folder a)" for a
    using r by (simp add: hub_has.simps hm.get_put)
  have tree: "folders_ok ?h"
    unfolding folders_ok_def
  proof (intro conjI allI impI)
    show "acyclic (folder_edges ?h)" unfolding edges using old(1) up by (intro acyclic_reparent) auto
    show "parents_exist ?h" unfolding parents_exist_def has edges using old(2) up by (auto simp: parents_exist_def)
    show "k \<in> set (hb_connectors ?h)" if "hm_get (hb_folders ?h) j = Some q \<and> fo_connector q = Some k" for j q k
      using that h r conn by (auto simp: hub_ok_def folders_ok_def hm.get_put changed_folder_def split: if_splits option.splits)
  qed
  moreover have "profile_suits ?h (dv_folder d) (dv_protocol d) p"
    if d: "hm_get (hb_devices h) k = Some d" "dv_profile d = Some p" for k d p
  proof -
    from device_suits [OF h d] obtain q where q: "hm_get (hb_profiles h) p = Some q" "pf_secret_kind q = ''ssh_key'' \<longrightarrow> dv_protocol d = ''ssh''"
      by (auto simp: profile_suits_def)
    have "(dv_folder d, home) \<in> (folder_edges ?h)\<^sup>*" if "pf_folder q = Some home" for home
    proof (rule in_reach_of_all [OF reach])
      show "tables_ok ?h" using old(3) by (simp add: tables_ok_def hm.ok_put)
      show "parents_exist ?h" using tree by (simp add: folders_ok_def)
      show "hub_has ?h (Folder (dv_folder d))" unfolding has using hub_ok_devicesD [OF h d(1)] by (simp add: device_ok_def)
    qed (use d q that in auto)
    with q show ?thesis by (auto simp: profile_suits_def)
  qed
  ultimately have "hub_ok ?h"
    by (intro hub_ok_folders [OF h]) (simp_all add: hm.ok_put hm.get_put hub_ok_tables [OF h])
  then show ?thesis by (simp add: h' forget_pins_ok)
qed

text \<open>What lies above another folder does not go through one nothing lies in.\<close>

lemma above_unused:
  assumes "(a, b) \<in> (folder_edges h)\<^sup>*" and "\<And>j. (j, i) \<notin> folder_edges h" and "a \<noteq> i"
  shows "b \<noteq> i \<and> (a, b) \<in> {(x, y) \<in> folder_edges h. x \<noteq> i}\<^sup>*"
  using assms(1)
proof (induction rule: rtrancl_induct)
  case (step y z)
  then have "(y, z) \<in> {(x, y) \<in> folder_edges h. x \<noteq> i}" by auto
  with step assms(2) show ?case by (auto intro: rtrancl_into_rtrancl)
qed (use assms(3) in auto)

lemma folder_edges_remove:
  "hm_ok m \<Longrightarrow> folder_edges (h\<lparr>hb_folders := hm_remove i m\<rparr>) = {(a, b) \<in> folder_edges (h\<lparr>hb_folders := m\<rparr>). a \<noteq> i}"
  by (auto simp: folder_edges_def hm.get_del split: if_splits)

lemma not_folder_used:
  assumes "\<not> folder_used h i"
  shows "(j, i) \<notin> folder_edges h" and "hm_get (hb_devices h) k = Some d \<Longrightarrow> dv_folder d \<noteq> i"
    and "hm_get (hb_profiles h) k = Some p \<Longrightarrow> pf_folder p \<noteq> Some i"
  using assms by (auto simp: folder_used_def list_ex_iff folder_edges_def dest!: map_of_SomeD)

lemma remove_folder_ok:
  assumes h: "hub_ok h" and u: "unreferenced h (Folder i)" and marks: "\<And>u. (u, i) \<notin> set (hb_open h)" and used: "\<not> folder_used h i"
  shows "hub_ok (h\<lparr>hb_folders := hm_remove i (hb_folders h)\<rparr>)" (is "hub_ok ?h")
proof -
  note t = hub_ok_tables [OF h]
  have edges: "folder_edges ?h = {(a, b) \<in> folder_edges h. a \<noteq> i}"
    by (simp add: folder_edges_remove [OF t(1)])
  have has: "hub_has ?h y" if "y \<noteq> Folder i" "hub_has h y" for y
    using that by (cases y) (auto simp: hub_has.simps hm.get_del [OF t(1)])
  have "acyclic (folder_edges ?h)"
    using h unfolding edges by (auto simp: hub_ok_def folders_ok_def intro: acyclic_subset)
  moreover have "parents_exist ?h"
    unfolding parents_exist_def edges
  proof (intro allI impI)
    fix a b
    assume "(a, b) \<in> {(a, b) \<in> folder_edges h. a \<noteq> i}"
    then show "hub_has ?h (Folder b)"
      using hub_okD(3) [OF h] not_folder_used(1) [OF used, of a] by (intro has) (auto simp: parents_exist_def)
  qed
  ultimately have tree: "folders_ok ?h"
    using h by (auto simp: folders_ok_def hub_ok_def hm.get_del [OF t(1)] split: if_splits)
  have dev: "device_ok ?h d" if d: "hm_get (hb_devices h) k = Some d" for k d
  proof -
    have i: "dv_folder d \<noteq> i" using not_folder_used(2) [OF used d] .
    have "profile_suits ?h (dv_folder d) (dv_protocol d) p" if "dv_profile d = Some p" for p
      using device_suits [OF h d that]
      by (rule profile_suits_mono) (use above_unused [OF _ not_folder_used(1) [OF used] i] in \<open>auto simp: edges\<close>)
    then show ?thesis using hub_ok_devicesD [OF h d] has i by (auto simp: device_ok_def)
  qed
  have "profile_ok ?h p" if "hm_get (hb_profiles h) k = Some p" for k p
    using hub_ok_profilesD [OF h that] not_folder_used(3) [OF used that] has by (auto simp: profile_ok_def)
  moreover have "hub_has ?h (Folder f)" if "(v, f) \<in> set (hb_open h)" for v f
    using that marks [of v] hub_ok_openD [OF h that] by (intro has) auto
  ultimately show ?thesis
    using h tree dev rows_kept [OF h u has]
    by (simp add: hub_ok_def tables_ok_def collections_ok_def credential_ok_def hm.ok_del)
qed

lemma delete_folder_Inr:
  "delete_folder h s addr now i = Inr h' \<longleftrightarrow> authorize (load_catalog h now) (session_subject s) Manage (Folder i) \<and> \<not> folder_used h i
     \<and> h' = hub_audit (h\<lparr>hb_grants := filter (\<lambda>(_, g). gr_folder g \<noteq> Some i) (hb_grants h),
               hb_requests := filter (\<lambda>(_, r). rq_folder r \<noteq> Some i) (hb_requests h),
               hb_open := filter (\<lambda>(_, f). f \<noteq> i) (hb_open h),
               hb_folders := hm_remove i (hb_folders h)\<rparr>) (audit_object s ''folder.deleted'' (Folder i) [] addr)"
  by (auto simp: delete_folder_def Let_def)

lemma delete_folder_ok:
  assumes "delete_folder h s addr now i = Inr h'" and h: "hub_ok h"
  shows "hub_ok h'"
proof -
  let ?h = "h\<lparr>hb_grants := filter (\<lambda>(_, g). gr_folder g \<noteq> Some i) (hb_grants h),
               hb_requests := filter (\<lambda>(_, r). rq_folder r \<noteq> Some i) (hb_requests h)\<rparr>"
  let ?k = "?h\<lparr>hb_open := filter (\<lambda>(_, f). f \<noteq> i) (hb_open h)\<rparr>"
  have ok: "hub_ok ?h" by (rule hub_ok_cascade [OF h])
  then have "hub_ok ?k" by (rule hub_ok_open) (use h in \<open>auto simp: hub_ok_def\<close>)
  moreover have "unreferenced ?k (Folder i)"
    by (auto simp: unreferenced_def row_object_def request_object_def grant_object_iffs
        dest!: filter_rowsD [OF hub_ok_tables(7) [OF h]] filter_rowsD [OF hub_ok_tables(8) [OF h]])
  moreover have "\<not> folder_used ?k i" using assms(1) by (simp add: delete_folder_Inr folder_used_def)
  ultimately have "hub_ok (?k\<lparr>hb_folders := hm_remove i (hb_folders ?k)\<rparr>)"
    by (intro remove_folder_ok) auto
  then show ?thesis using assms(1) by (simp add: delete_folder_Inr)
qed

section \<open>What a device is reached through\<close>

lemma reached_through_same:
  assumes "tables_ok h" and "tables_ok h'" and "hb_folders h' = hb_folders h"
  shows "device_connector h' mode own f = device_connector h mode own f"
  using folder_connector_cong [OF assms(1,2)] assms(3) by (simp add: device_connector_def)

lemma create_folder_reached:
  assumes "create_folder h s addr now i inp = Inr (h', j)" and h: "hub_ok h" and d: "hm_get (hb_devices h) k = Some d"
  shows "hm_get (hb_devices h') k = Some d \<and> reached_through h' d = reached_through h d"
proof -
  obtain r e where h': "h' = hub_audit (h\<lparr>hb_folders := hm_insert i r (hb_folders h)\<rparr>) e" and new: "hm_get (hb_folders h) i = None"
    using assms(1) by (auto simp: create_folder_def Let_def)
  have "(dv_folder d, i) \<notin> (folder_edges h)\<^sup>*"
    using above_exists [OF hub_okD(3) [OF h], of "dv_folder d" i] hub_ok_devicesD [OF h d] new
    by (auto simp: device_ok_def hub_has.simps)
  then have "folder_connector h' (dv_folder d) = folder_connector h (dv_folder d)"
    by (intro folder_connector_cong [OF hub_okD(1) [OF h] hub_okD(1) [OF create_folder_ok [OF assms(1) h]]]) (auto simp: h' hub_audit_def hm.get_put)
  with d show ?thesis by (simp add: reached_through_def device_connector_def h' hub_audit_def)
qed

lemma delete_folder_reached:
  assumes "delete_folder h s addr now i = Inr h'" and h: "hub_ok h" and d: "hm_get (hb_devices h) k = Some d"
  shows "hm_get (hb_devices h') k = Some d \<and> reached_through h' d = reached_through h d"
proof -
  have used: "\<not> folder_used h i" and f: "hb_folders h' = hm_remove i (hb_folders h)" "hb_devices h' = hb_devices h"
    using assms(1) by (auto simp: delete_folder_Inr hub_audit_def)
  have "a \<noteq> i" if "(dv_folder d, a) \<in> (folder_edges h)\<^sup>*" for a
    using above_unused [OF that not_folder_used(1) [OF used] not_folder_used(2) [OF used d]] by simp
  then have "folder_connector h' (dv_folder d) = folder_connector h (dv_folder d)"
    by (intro folder_connector_cong [OF hub_okD(1) [OF h] hub_okD(1) [OF delete_folder_ok [OF assms(1) h]]]) (auto simp: f hm.get_del [OF hub_ok_tables(1) [OF h]])
  with d show ?thesis by (simp add: reached_through_def device_connector_def f)
qed

text \<open>The way up to a folder does not use what lies above that folder.\<close>

lemma way_up_to:
  assumes "(a, i) \<in> E\<^sup>*"
  shows "(a, i) \<in> {(x, y) \<in> E. x \<noteq> i}\<^sup>*"
  using assms
proof (induction rule: converse_rtrancl_induct)
  case (step a b)
  then show ?case by (cases "a = i") (auto intro: converse_rtrancl_into_rtrancl)
qed simp

text \<open>
  A changed folder points a device at another machine only if the device is among those the
  handler found to be retargeted.
\<close>

lemma update_folder_retarget:
  assumes "update_folder lower h s addr now i inp = Inr h'" and h: "hub_ok h"
    and d: "hm_get (hb_devices h) k = Some d" "hm_get (hb_devices h') k = Some d'"
    and through: "reached_through h' d' \<noteq> reached_through h d"
  shows "dv_host_key d' = None \<and> dv_certificate d' = None \<and> dv_profile d' = dv_profile d
    \<and> authorize (load_catalog h now) (session_subject s) Reveal (Device k)
    \<and> (\<forall>p. dv_profile d = Some p \<longrightarrow> authorize (load_catalog h now) (session_subject s) Connect (Profile p))"
  using assms(1) hub_okD(1) [OF h]
proof (rule update_folder_Inr)
  fix r n e moved
  let ?h = "h\<lparr>hb_folders := hm_insert i (changed_folder inp n r) (hb_folders h)\<rparr>"
  assume r: "hm_get (hb_folders h) i = Some r"
    and h': "h' = hub_audit (forget_pins (map re_id moved) ?h) e"
    and moved: "moved = retargeted (devices_below h i) (devices_below ?h i)"
    and may: "\<And>d p. d \<in> set moved \<Longrightarrow> re_profile d = Some p \<Longrightarrow> authorize (load_catalog h now) (session_subject s) Connect (Profile p)"
    and manage: "authorize (load_catalog h now) (session_subject s) Manage (Folder i)"
  have ok': "hub_ok h'" by (rule update_folder_ok [OF assms(1) h])
  have t: "tables_ok ?h" using hub_okD(1) [OF h] by (simp add: tables_ok_def hm.ok_put)
  have same: "device_connector h' mode own f = device_connector ?h mode own f" for mode own f
    by (rule reached_through_same [OF t hub_okD(1) [OF ok']]) (simp add: h' hub_audit_def forget_pins_def)
  have d': "dv_connector_mode d' = dv_connector_mode d" "dv_connector d' = dv_connector d" "dv_folder d' = dv_folder d"
    using d by (auto simp: h' hub_audit_def forget_pins_def hm_get_map_rows split: if_splits)
  have diff: "reached_through ?h d \<noteq> reached_through h d"
    using through by (simp add: reached_through_def same d')
  have edges: "folder_edges ?h = {(a, b) \<in> folder_edges h. a \<noteq> i} \<union> {i} \<times> set_option (fo_parent (changed_folder inp n r))"
    by (simp add: folder_edges_put)
  have has: "hub_has h (Folder (dv_folder d))" using hub_ok_devicesD [OF h d(1)] by (simp add: device_ok_def)
  have below: "(dv_folder d, i) \<in> (folder_edges h)\<^sup>*"
  proof (rule ccontr)
    assume "(dv_folder d, i) \<notin> (folder_edges h)\<^sup>*"
    then have "folder_connector ?h (dv_folder d) = folder_connector h (dv_folder d)"
      using hub_okD(1) [OF h] t by (intro folder_connector_cong) (auto simp: hm.get_put)
    with diff show False by (simp add: reached_through_def device_connector_def split: if_splits)
  qed
  have "(dv_folder d, i) \<in> (folder_edges ?h)\<^sup>*"
    using way_up_to [OF below] rtrancl_mono [of "{(a, b) \<in> folder_edges h. a \<noteq> i}" "folder_edges ?h"] by (auto simp: edges)
  moreover have "parents_exist ?h" using hub_okD(3) [OF ok'] by (simp add: h' hub_audit_def forget_pins_def parents_exist_def)
  moreover have "hub_has ?h (Folder (dv_folder d))" using has r by (simp add: hub_has.simps hm.get_put)
  ultimately have after: "folder_within ?h (dv_folder d) i" using t by (simp add: folder_within_iff)
  have before: "folder_within h (dv_folder d) i"
    using below has h by (simp add: folder_within_iff hub_okD)
  let ?b = "\<lparr>re_id = k, re_name = dv_name d, re_profile = dv_profile d, re_through = reached_through h d\<rparr>"
  let ?a = "\<lparr>re_id = k, re_name = dv_name d, re_profile = dv_profile d, re_through = reached_through ?h d\<rparr>"
  have "?b \<in> set (devices_below h i)" and "?a \<in> set (devices_below ?h i)"
    using before after map_of_SomeD [OF d(1)] by (force simp: devices_below_def)+
  with diff have "?a \<in> set moved" by (force simp: moved retargeted_def list_ex_iff)
  moreover have "authorize (load_catalog h now) (session_subject s) Reveal (Device k)"
  proof (rule authorize_down [OF _ _ manage Manage_top])
    have "above (load_catalog h now) (Folder (dv_folder d)) (Folder i)"
      using below by (simp add: load_catalog_def above_folder [OF hub_okD(1) [OF h]])
    then show "above (load_catalog h now) (Device k) (Folder i)"
      by (rule above_step [rotated]) (simp add: load_catalog_def catalog_tables [OF hub_okD(1) [OF h]] d(1))
    show "contains (load_catalog h now) (Device k)"
      by (simp add: load_catalog_def catalog_tables [OF hub_okD(1) [OF h]] d(1))
  qed
  ultimately show ?thesis
    using may [of ?a] d by (force simp: h' hub_audit_def forget_pins_def hm_get_map_rows)
qed

end
