(* ===== verification/Devices.thy ===== *)
theory Devices
  imports Folders
begin

text \<open>
  Devices and the login profiles they share: the handlers of \<^verbatim>\<open>crates/server/src/api/catalog.rs\<close> for
  devices, \<^verbatim>\<open>crates/server/src/api/profiles.rs\<close>, and the check of SSH keys in
  \<^verbatim>\<open>crates/gateway/src/ssh.rs\<close>. What russh reads from a key and a certificate is a parameter.
\<close>

section \<open>Secrets as they are given\<close>

record ssh_private =
  pk_algorithm :: string
  pk_fingerprint :: string
  pk_public :: bytes

text \<open>
  \<open>decode_secret_key\<close>, and \<open>Certificate::from_openssh\<close>: whether it is a user's, and its public key.
\<close>

record ssh_crate =
  sk_decode :: "string \<Rightarrow> string option \<Rightarrow> ssh_private option"
  sk_certificate :: "string \<Rightarrow> (bool \<times> bytes) option"

datatype key_error = InvalidKey | PassphraseRequired | WrongPassphrase | InvalidCertificate | CertificateMismatch

fun infix_of :: "string \<Rightarrow> string \<Rightarrow> bool" where
  "infix_of p [] \<longleftrightarrow> p = []"
| "infix_of p (c # s) \<longleftrightarrow> take (length p) (c # s) = p \<or> infix_of p s"

definition looks_like_private_key :: "string \<Rightarrow> bool" where
  "looks_like_private_key s =
     (let s = trim s in strip_prefix ''-----BEGIN'' s \<noteq> None \<and> infix_of ''PRIVATE KEY-----'' s)"

definition non_empty :: "string option \<Rightarrow> string option" where
  "non_empty s = (case s of Some t \<Rightarrow> if t = [] then None else Some t | None \<Rightarrow> None)"

definition ssh_key_parse :: "ssh_crate \<Rightarrow> string \<Rightarrow> string option \<Rightarrow> string option \<Rightarrow> key_error + ssh_private" where
  "ssh_key_parse sk private_key passphrase certificate =
     and_then (case sk_decode sk (trim private_key) None of
          Some key \<Rightarrow> Inr key
        | None \<Rightarrow>
            if \<not> looks_like_private_key private_key then Inl InvalidKey
            else case non_empty passphrase of
              None \<Rightarrow> Inl PassphraseRequired
            | Some p \<Rightarrow> (case sk_decode sk (trim private_key) (Some p) of Some key \<Rightarrow> Inr key | None \<Rightarrow> Inl WrongPassphrase)) (\<lambda>key.
     case non_empty (map_option trim certificate) of
       None \<Rightarrow> Inr key
     | Some c \<Rightarrow>
         (case sk_certificate sk c of
            None \<Rightarrow> Inl InvalidCertificate
          | Some (user, public) \<Rightarrow>
              if \<not> user then Inl InvalidCertificate
              else if public \<noteq> pk_public key then Inl CertificateMismatch
              else Inr key))"

record secret_input =
  in_password :: "string option"
  in_private_key :: "string option"
  in_passphrase :: "string option"
  in_certificate :: "string option"

definition secrets_given :: "secret_input \<Rightarrow> secret_input" where
  "secrets_given inp =
     inp\<lparr>in_password := non_empty (in_password inp),
         in_private_key := (case in_private_key inp of Some k \<Rightarrow> if trim k = [] then None else Some k | None \<Rightarrow> None)\<rparr>"

text \<open>The arguments of \<open>KeySecret\<close>: the key, its passphrase and certificate, its algorithm and fingerprint.\<close>

datatype secrets = PasswordSecret string | KeySecret string "string option" "string option" string string

definition PASSWORD_FIELD :: string where "PASSWORD_FIELD = ''password''"
definition PRIVATE_KEY_FIELD :: string where "PRIVATE_KEY_FIELD = ''private_key''"
definition PASSPHRASE_FIELD :: string where "PASSPHRASE_FIELD = ''passphrase''"
definition CERTIFICATE_FIELD :: string where "CERTIFICATE_FIELD = ''certificate''"

fun secrets_fields :: "secrets \<Rightarrow> (string \<times> bytes) list" where
  "secrets_fields (PasswordSecret p) = [(PASSWORD_FIELD, as_bytes p)]"
| "secrets_fields (KeySecret k passphrase certificate _ _) =
     [(PRIVATE_KEY_FIELD, as_bytes k)]
     @ (case passphrase of Some p \<Rightarrow> [(PASSPHRASE_FIELD, as_bytes p)] | None \<Rightarrow> [])
     @ (case certificate of Some c \<Rightarrow> [(CERTIFICATE_FIELD, as_bytes c)] | None \<Rightarrow> [])"

fun key_info :: "secrets \<Rightarrow> string option \<times> string option \<times> bool" where
  "key_info (PasswordSecret _) = (None, None, False)"
| "key_info (KeySecret _ _ certificate algo fingerprint) = (Some algo, Some fingerprint, certificate \<noteq> None)"

fun key_field :: "key_error \<Rightarrow> string" where
  "key_field InvalidKey = ''private_key''"
| "key_field PassphraseRequired = ''passphrase''"
| "key_field WrongPassphrase = ''passphrase''"
| "key_field InvalidCertificate = ''certificate''"
| "key_field CertificateMismatch = ''certificate''"

definition new_secrets :: "ssh_crate \<Rightarrow> string \<Rightarrow> secret_input \<Rightarrow> problem + secrets option" where
  "new_secrets sk kind inp =
     (if kind = ''password'' then Inr (map_option PasswordSecret (in_password inp))
      else if kind = ''ssh_key'' then
        (case in_private_key inp of
           None \<Rightarrow> Inr None
         | Some private_key \<Rightarrow>
             (let passphrase = non_empty (in_passphrase inp);
                  certificate = non_empty (map_option trim (in_certificate inp))
              in case ssh_key_parse sk private_key passphrase certificate of
                   Inl e \<Rightarrow> Inl (invalid (key_field e))
                 | Inr key \<Rightarrow> Inr (Some (KeySecret private_key passphrase certificate (pk_algorithm key) (pk_fingerprint key)))))
      else Inl (invalid ''secret_kind''))"

definition missing_secret :: "string \<Rightarrow> problem" where
  "missing_secret kind = invalid (if kind = ''ssh_key'' then ''private_key'' else ''password'')"

definition seal_version :: "server \<Rightarrow> (string \<Rightarrow> seal_randomness) \<Rightarrow> uuid \<Rightarrow> int \<Rightarrow> secrets option \<Rightarrow> hub \<Rightarrow> problem + hub" where
  "seal_version sv rnd i version given h =
     (case given of Some s \<Rightarrow> hub_store_all sv rnd i version (secrets_fields s) h | None \<Rightarrow> Inr h)"

section \<open>Checking a device\<close>

record device_input =
  di_folder :: uuid
  di_name :: string
  di_protocol :: string
  di_host :: string
  di_port :: u16
  di_auth_mode :: string
  di_profile :: "uuid option"
  di_description :: string
  di_keyboard_layout :: "string option"
  di_connector_mode :: "string option"
  di_connector :: "uuid option"
  di_requires_confirmation :: bool
  di_username :: string
  di_domain :: string
  di_secret_kind :: "string option"
  di_secrets :: secret_input

record valid_device =
  va_folder :: uuid
  va_name :: string
  va_protocol :: string
  va_host :: string
  va_port :: int
  va_auth_mode :: string
  va_profile :: "uuid option"
  va_description :: string
  va_keyboard_layout :: "string option"
  va_connector_mode :: string
  va_connector :: "uuid option"
  va_requires_confirmation :: bool
  va_username :: string
  va_domain :: string
  va_secret_kind :: string
  va_secrets :: "secrets option"

definition KEYBOARD_LAYOUTS :: "string list" where
  "KEYBOARD_LAYOUTS = [''cs-cz-qwertz'', ''da-dk-qwerty'', ''de-ch-qwertz'', ''de-de-qwertz'', ''en-gb-qwerty'', ''en-us-qwerty'',
     ''es-es-qwerty'', ''es-latam-qwerty'', ''fr-be-azerty'', ''fr-ca-qwerty'', ''fr-ch-qwertz'', ''fr-fr-azerty'', ''hu-hu-qwertz'',
     ''it-it-qwerty'', ''ja-jp-qwerty'', ''no-no-qwerty'', ''pl-pl-qwerty'', ''pt-br-qwerty'', ''pt-pt-qwerty'', ''ro-ro-qwerty'',
     ''sv-se-qwerty'', ''tr-tr-qwerty'', ''failsafe'']"

definition connector_mode_of :: "device_input \<Rightarrow> problem + string" where
  "connector_mode_of inp =
     (case (di_connector_mode inp, di_connector inp) of
        (None, None) \<Rightarrow> Inr ''inherit''
      | (Some m, None) \<Rightarrow>
          if m = ''inherit'' then Inr ''inherit'' else if m = ''direct'' then Inr ''direct'' else Inl (invalid ''connector_id'')
      | (Some m, Some _) \<Rightarrow> if m = ''connector'' then Inr ''connector'' else Inl (invalid ''connector_id'')
      | (None, Some _) \<Rightarrow> Inl (invalid ''connector_id''))"

definition auth_mode_of :: "string \<Rightarrow> string \<Rightarrow> problem + string" where
  "auth_mode_of protocol mode =
     (if mode \<in> {''profile'', ''ask'', ''own'', ''device''} \<or> mode = ''certificate'' \<and> protocol = ''ssh''
         \<or> mode = ''laps'' \<and> (protocol = ''ssh'' \<or> protocol = ''rdp'')
      then Inr mode else Inl (invalid ''auth_mode''))"

definition secret_kind_of :: "bool \<Rightarrow> string \<Rightarrow> string option \<Rightarrow> problem + string" where
  "secret_kind_of own protocol kind =
     (case (if own then kind else None) of
        None \<Rightarrow> Inr ''password''
      | Some k \<Rightarrow>
          if k = ''password'' then Inr ''password''
          else if k = ''ssh_key'' \<and> protocol = ''ssh'' then Inr ''ssh_key''
          else Inl (invalid ''secret_kind''))"

definition host_ok :: "string \<Rightarrow> bool" where
  "host_ok v \<longleftrightarrow> v \<noteq> [] \<and> length v \<le> 253
     \<and> \<not> list_ex (\<lambda>c. is_whitespace c \<or> is_control c \<or> c \<in> {47, 92, 64, 63, 35}) (chars v)"

definition keyboard_layout_of :: "string \<Rightarrow> string option \<Rightarrow> problem + string option" where
  "keyboard_layout_of protocol layout =
     (case non_empty layout of
        Some l \<Rightarrow> if protocol = ''rdp'' then (if l \<in> set KEYBOARD_LAYOUTS then Inr (Some l) else Inl (invalid ''keyboard_layout'')) else Inr None
      | None \<Rightarrow> Inr None)"

definition validate :: "ssh_crate \<Rightarrow> device_input \<Rightarrow> problem + valid_device" where
  "validate sk inp =
     and_then (connector_mode_of inp) (\<lambda>connector_mode.
     and_then (ensure (di_protocol inp \<in> {''ssh'', ''rdp'', ''vnc'', ''https''}) (invalid ''protocol'')) (\<lambda>_.
     and_then (auth_mode_of (di_protocol inp) (di_auth_mode inp)) (\<lambda>auth_mode.
     (let own = (auth_mode = ''device'') in
     and_then (secret_kind_of own (di_protocol inp) (di_secret_kind inp)) (\<lambda>secret_kind.
     and_then (if own then new_secrets sk secret_kind (secrets_given (di_secrets inp)) else Inr None) (\<lambda>given.
     and_then (ensure ((auth_mode = ''profile'') = (di_profile inp \<noteq> None)) (invalid ''profile_id'')) (\<lambda>_.
     and_then (ensure (host_ok (trim (di_host inp))) (invalid ''host'')) (\<lambda>_.
     and_then (ensure (di_port inp \<noteq> 0) (invalid ''port'')) (\<lambda>_.
     and_then (ensure (length (chars (di_description inp)) \<le> 2000) (invalid ''description'')) (\<lambda>_.
     and_then (keyboard_layout_of (di_protocol inp) (di_keyboard_layout inp)) (\<lambda>layout.
     and_then (checked_name (di_name inp) ''name'') (\<lambda>n.
     and_then (if own then plain_text (di_username inp) ''username'' else Inr []) (\<lambda>user.
     and_then (if own then plain_text (di_domain inp) ''domain'' else Inr []) (\<lambda>domain.
       Inr \<lparr>va_folder = di_folder inp, va_name = n, va_protocol = di_protocol inp, va_host = trim (di_host inp), va_port = uint (di_port inp),
            va_auth_mode = auth_mode, va_profile = di_profile inp, va_description = trim (di_description inp), va_keyboard_layout = layout,
            va_connector_mode = connector_mode, va_connector = di_connector inp, va_requires_confirmation = di_requires_confirmation inp,
            va_username = user, va_domain = domain, va_secret_kind = secret_kind, va_secrets = given\<rparr>))))))))))))))"

text \<open>A device may use only a login profile in its folder or one above it, or one at the top level.\<close>

definition in_reach :: "catalog \<Rightarrow> uuid \<Rightarrow> uuid \<Rightarrow> problem + unit" where
  "in_reach c profile f =
     (case parent c (Profile profile) of
        Some home \<Rightarrow> ensure (is_within c f home) (problem ProfileOutOfReach)
      | None \<Rightarrow> Inr ())"

definition profile_fits :: "hub \<Rightarrow> uuid \<Rightarrow> string \<Rightarrow> problem + unit" where
  "profile_fits h profile protocol =
     ensure (\<not> (map_option pf_secret_kind (hm_get (hb_profiles h) profile) = Some ''ssh_key'' \<and> protocol \<noteq> ''ssh'')) (invalid ''profile_id'')"

text \<open>The login profile a device is to use; choosing one, or pointing it at another target, needs its use.\<close>

definition profile_use :: "hub \<Rightarrow> catalog \<Rightarrow> subject \<Rightarrow> bool \<Rightarrow> valid_device \<Rightarrow> problem + unit" where
  "profile_use h c sub needed d =
     (case va_profile d of
        None \<Rightarrow> Inr ()
      | Some p \<Rightarrow>
          and_then (if needed then require c sub Connect (Profile p) else Inr ()) (\<lambda>_.
          and_then (in_reach c p (va_folder d)) (\<lambda>_. profile_fits h p (va_protocol d))))"

definition device_taken :: "hub \<Rightarrow> uuid \<Rightarrow> uuid \<Rightarrow> string \<Rightarrow> bool" where
  "device_taken h i f n \<longleftrightarrow> list_ex (\<lambda>(j, d). j \<noteq> i \<and> dv_folder d = f \<and> dv_name d = n) (hb_devices h)"

definition device_details :: "valid_device \<Rightarrow> string option \<Rightarrow> (string \<times> json) list" where
  "device_details d fingerprint =
     [(''name'', JText (va_name d)), (''protocol'', JText (va_protocol d)), (''host'', JText (va_host d)), (''port'', JNumber (va_port d)),
      (''auth_mode'', JText (va_auth_mode d)), (''profile_id'', json_uuid (va_profile d)), (''keyboard_layout'', json_text (va_keyboard_layout d)),
      (''connector_mode'', JText (va_connector_mode d)), (''connector_id'', json_uuid (va_connector d)),
      (''requires_confirmation'', JBool (va_requires_confirmation d)), (''username'', JText (va_username d)), (''domain'', JText (va_domain d)),
      (''secret_kind'', JText (va_secret_kind d)), (''key_fingerprint'', json_text fingerprint)]"

section \<open>Handlers of devices\<close>

text \<open>A new row, with nothing pinned yet; \<open>info\<close> is what identifies its key.\<close>

definition device_row_of :: "valid_device \<Rightarrow> int \<Rightarrow> string option \<times> string option \<times> bool \<Rightarrow> device_row" where
  "device_row_of d version info =
     \<lparr>dv_folder = va_folder d, dv_name = va_name d, dv_protocol = va_protocol d, dv_host = va_host d, dv_port = va_port d,
      dv_auth_mode = va_auth_mode d, dv_profile = va_profile d, dv_description = va_description d,
      dv_keyboard_layout = va_keyboard_layout d, dv_connector_mode = va_connector_mode d, dv_connector = va_connector d,
      dv_requires_confirmation = va_requires_confirmation d, dv_username = va_username d, dv_domain = va_domain d,
      dv_secret_version = version, dv_secret_kind = va_secret_kind d, dv_key_algorithm = fst info, dv_key_fingerprint = fst (snd info),
      dv_has_certificate = snd (snd info), dv_host_key = None, dv_certificate = None, dv_keywords = [], dv_keywords_by = None\<rparr>"

definition create_device ::
  "server \<Rightarrow> ssh_crate \<Rightarrow> (string \<Rightarrow> seal_randomness) \<Rightarrow> hub \<Rightarrow> session \<Rightarrow> string \<Rightarrow> instant \<Rightarrow> uuid \<Rightarrow> device_input \<Rightarrow> problem + (hub \<times> uuid)" where
  "create_device sv sk rnd h s addr now i inp =
     and_then (validate sk inp) (\<lambda>d.
     (let c = load_catalog h now; sub = session_subject s in
     and_then (require c sub Edit (Folder (va_folder d))) (\<lambda>_.
     and_then (profile_use h c sub True d) (\<lambda>_.
     and_then (require_connector h (va_connector d)) (\<lambda>_.
     and_then (ensure (\<not> (va_auth_mode d = ''device'' \<and> va_secrets d = None)) (missing_secret (va_secret_kind d))) (\<lambda>_.
     (let version = (if va_secrets d = None then 0 else 1);
          info = (case va_secrets d of Some x \<Rightarrow> key_info x | None \<Rightarrow> (None, None, False)) in
     and_then (ensure (hm_get (hb_devices h) i = None \<and> \<not> device_taken h i (va_folder d) (va_name d)) (problem NameTaken)) (\<lambda>_.
     and_then (seal_version sv rnd i version (va_secrets d)
         (h\<lparr>hb_devices := hm_insert i (device_row_of d version info) (hb_devices h)\<rparr>)) (\<lambda>h.
       Inr (hub_audit h (audit_object s ''device.created'' (Device i) (device_details d (fst (snd info))) addr), i))))))))))"

text \<open>Whether a device would be reached at another machine: another address, or another connector.\<close>

definition target_changed :: "hub \<Rightarrow> device_row \<Rightarrow> valid_device \<Rightarrow> bool" where
  "target_changed h before d \<longleftrightarrow>
     dv_protocol before \<noteq> va_protocol d \<or> dv_host before \<noteq> va_host d \<or> dv_port before \<noteq> va_port d
     \<or> reached_through h before \<noteq> device_connector h (va_connector_mode d) (va_connector d) (va_folder d)"

text \<open>The version of the device's own secrets after a change; \<open>keeps\<close>: it may keep those it has.\<close>

definition secret_version_after :: "device_row \<Rightarrow> bool \<Rightarrow> valid_device \<Rightarrow> problem + int" where
  "secret_version_after before keeps d =
     (if va_secrets d \<noteq> None then Inr (dv_secret_version before + 1)
      else if va_auth_mode d = ''device'' then (if keeps then Inr (dv_secret_version before) else Inl (missing_secret (va_secret_kind d)))
      else Inr 0)"

definition update_device ::
  "server \<Rightarrow> ssh_crate \<Rightarrow> (string \<Rightarrow> seal_randomness) \<Rightarrow> hub \<Rightarrow> session \<Rightarrow> string \<Rightarrow> instant \<Rightarrow> uuid \<Rightarrow> device_input \<Rightarrow> problem + hub" where
  "update_device sv sk rnd h s addr now i inp =
     and_then (validate sk inp) (\<lambda>d.
     (let c = load_catalog h now; sub = session_subject s in
     and_then (require c sub Edit (Device i)) (\<lambda>_.
     and_then (if parent c (Device i) \<noteq> Some (va_folder d) then require c sub Edit (Folder (va_folder d)) else Inr ()) (\<lambda>_.
     and_then (case hm_get (hb_devices h) i of Some before \<Rightarrow> Inr before | None \<Rightarrow> Inl (problem Internal)) (\<lambda>before.
     and_then (require_connector h (va_connector d)) (\<lambda>_.
     (let changed = target_changed h before d in
     and_then (profile_use h c sub (dv_profile before \<noteq> va_profile d \<or> changed) d) (\<lambda>_.
     (let may_carry = (\<not> changed \<or> require c sub Reveal (Device i) = Inr ());
          keeps = (dv_auth_mode before = ''device'' \<and> dv_secret_version before > 0 \<and> dv_secret_kind before = va_secret_kind d \<and> may_carry);
          secret_kept = (keeps \<and> changed \<and> va_secrets d = None) in
     and_then (secret_version_after before keeps d) (\<lambda>version.
     (let info = (case va_secrets d of
              Some x \<Rightarrow> key_info x
            | None \<Rightarrow> if version > 0 then (dv_key_algorithm before, dv_key_fingerprint before, dv_has_certificate before)
                      else (None, None, False)) in
     and_then (seal_version sv rnd i version (va_secrets d) h) (\<lambda>h.
     (let h = drop_secrets (\<lambda>owner v. owner = i \<and> v \<noteq> version) h in
     and_then (ensure (\<not> device_taken h i (va_folder d) (va_name d)) (problem NameTaken)) (\<lambda>_.
       Inr (hub_audit (h\<lparr>hb_devices := hm_update i (\<lambda>b. (device_row_of d version info)
                \<lparr>dv_host_key := (if changed then None else dv_host_key b), dv_certificate := (if changed then None else dv_certificate b),
                 dv_keywords := dv_keywords b, dv_keywords_by := dv_keywords_by b\<rparr>) (hb_devices h)\<rparr>)
              (audit_object s ''device.updated'' (Device i)
                 (device_details d (fst (snd info)) @ [(''folder_id'', JText (uuid_show (va_folder d))),
                    (''secret_changed'', JBool (va_secrets d \<noteq> None)), (''secret_kept'', JBool secret_kept)]) addr))))))))))))))))"

text \<open>\<open>PUT /api/devices/{id}/folder\<close>.\<close>

definition move_device :: "hub \<Rightarrow> session \<Rightarrow> string \<Rightarrow> instant \<Rightarrow> uuid \<Rightarrow> uuid \<Rightarrow> problem + hub" where
  "move_device h s addr now i f =
     (let c = load_catalog h now; sub = session_subject s in
     and_then (require c sub Edit (Device i)) (\<lambda>_.
     and_then (require c sub Edit (Folder f)) (\<lambda>_.
     (let from_folder = parent c (Device i) in
     if from_folder = Some f then Inr h
     else
     and_then (case hm_get (hb_devices h) i of Some d \<Rightarrow> Inr d | None \<Rightarrow> Inl (problem Internal)) (\<lambda>d.
     (let after = device_connector h (dv_connector_mode d) (dv_connector d) f;
          changed = (reached_through h d \<noteq> after);
          own = (dv_auth_mode d = ''device'' \<and> dv_secret_version d > 0) in
     and_then (case dv_profile d of
          None \<Rightarrow> Inr ()
        | Some p \<Rightarrow> and_then (in_reach c p f) (\<lambda>_. if changed then require c sub Connect (Profile p) else Inr ())) (\<lambda>_.
     and_then (if changed \<and> own then require c sub Reveal (Device i) else Inr ()) (\<lambda>_.
     and_then (ensure (\<not> device_taken h i f (dv_name d)) (problem NameTaken)) (\<lambda>_.
       Inr (hub_audit (h\<lparr>hb_devices := hm_update i (\<lambda>b. b\<lparr>dv_folder := f,
                dv_host_key := (if changed then None else dv_host_key b), dv_certificate := (if changed then None else dv_certificate b)\<rparr>)
                (hb_devices h)\<rparr>)
              (audit_object s ''device.moved'' (Device i)
                 [(''from'', json_uuid from_folder), (''folder_id'', JText (uuid_show f)), (''reached_through'', json_uuid after),
                  (''secret_kept'', JBool (changed \<and> own))] addr)))))))))))"

definition delete_device :: "hub \<Rightarrow> session \<Rightarrow> string \<Rightarrow> instant \<Rightarrow> uuid \<Rightarrow> problem + hub" where
  "delete_device h s addr now i =
     (let c = load_catalog h now; sub = session_subject s in
     and_then (require c sub Edit (Device i)) (\<lambda>_.
       (let h = drop_secrets (\<lambda>owner _. owner = i) h in
        Inr (hub_audit (h\<lparr>hb_grants := filter (\<lambda>(_, g). gr_device g \<noteq> Some i) (hb_grants h),
                hb_requests := filter (\<lambda>(_, r). rq_device r \<noteq> Some i) (hb_requests h),
                hb_devices := hm_remove i (hb_devices h)\<rparr>)
               (audit_object s ''device.deleted'' (Device i) [] addr)))))"

text \<open>\<open>fingerprint\<close> is that of a host key in OpenSSH's format.\<close>

definition reset_host_key :: "(string \<Rightarrow> string option) \<Rightarrow> hub \<Rightarrow> session \<Rightarrow> string \<Rightarrow> instant \<Rightarrow> uuid \<Rightarrow> problem + hub" where
  "reset_host_key fingerprint h s addr now i =
     (let c = load_catalog h now; sub = session_subject s in
     and_then (require c sub Edit (Device i)) (\<lambda>_.
     and_then (case hm_get (hb_devices h) i of Some d \<Rightarrow> Inr d | None \<Rightarrow> Inl (problem Internal)) (\<lambda>d.
       Inr (hub_audit (forget_pins [i] h)
              (if dv_protocol d = ''rdp''
               then audit_object s ''device.certificate_reset'' (Device i) [(''fingerprint'', json_text (dv_certificate d))] addr
               else audit_object s ''device.host_key_reset'' (Device i)
                      [(''fingerprint'', json_text (Option.bind (dv_host_key d) fingerprint))] addr)))))"

definition MAX_KEYWORDS :: nat where "MAX_KEYWORDS = 500"

definition set_keywords :: "hub \<Rightarrow> session \<Rightarrow> string \<Rightarrow> instant \<Rightarrow> uuid \<Rightarrow> string \<Rightarrow> problem + hub" where
  "set_keywords h s addr now i given =
     (let words = trim given in
     and_then (ensure (\<not> (length (chars words) > MAX_KEYWORDS \<or> list_ex is_control (chars words))) (invalid ''keywords'')) (\<lambda>_.
     (let c = load_catalog h now; sub = session_subject s in
     and_then (require c sub List (Device i)) (\<lambda>_.
       Inr (hub_audit (h\<lparr>hb_devices := hm_update i (\<lambda>d. d\<lparr>dv_keywords := words, dv_keywords_by := Some (s_display_name s)\<rparr>) (hb_devices h)\<rparr>)
              (audit_object s ''device.keywords_changed'' (Device i) [(''keywords'', JText words)] addr))))))"

section \<open>Login profiles\<close>

record profile_input =
  pi_folder :: "uuid option"
  pi_name :: string
  pi_username :: string
  pi_domain :: string
  pi_secret_kind :: "string option"
  pi_secrets :: secret_input

definition profile_place :: "catalog \<Rightarrow> subject \<Rightarrow> uuid option \<Rightarrow> problem + unit" where
  "profile_place c sub f =
     (case f of
        Some f \<Rightarrow> require c sub Edit (Folder f)
      | None \<Rightarrow> if may_create_top_level c sub then Inr () else Inl (problem Forbidden))"

definition profile_kind :: "profile_input \<Rightarrow> problem + string" where
  "profile_kind inp =
     (case pi_secret_kind inp of
        None \<Rightarrow> Inr ''password''
      | Some k \<Rightarrow> if k = ''password'' \<or> k = ''ssh_key'' then Inr k else Inl (invalid ''secret_kind''))"

text \<open>\<open>UNIQUE NULLS NOT DISTINCT (folder_id, name)\<close>.\<close>

definition profile_taken :: "hub \<Rightarrow> uuid \<Rightarrow> uuid option \<Rightarrow> string \<Rightarrow> bool" where
  "profile_taken h i f n \<longleftrightarrow> list_ex (\<lambda>(j, p). j \<noteq> i \<and> pf_folder p = f \<and> pf_name p = n) (hb_profiles h)"

definition profile_details :: "profile_input \<Rightarrow> string \<Rightarrow> string \<Rightarrow> string \<Rightarrow> string \<Rightarrow> string option \<Rightarrow> (string \<times> json) list" where
  "profile_details inp n user domain kind fingerprint =
     [(''name'', JText n), (''folder_id'', json_uuid (pi_folder inp)), (''username'', JText user), (''domain'', JText domain),
      (''secret_kind'', JText kind), (''key_fingerprint'', json_text fingerprint)]"

definition create_profile ::
  "server \<Rightarrow> ssh_crate \<Rightarrow> (string \<Rightarrow> seal_randomness) \<Rightarrow> hub \<Rightarrow> session \<Rightarrow> string \<Rightarrow> instant \<Rightarrow> uuid \<Rightarrow> profile_input \<Rightarrow> problem + (hub \<times> uuid)" where
  "create_profile sv sk rnd h s addr now i inp =
     and_then (checked_name (pi_name inp) ''name'') (\<lambda>n.
     and_then (plain_text (pi_username inp) ''username'') (\<lambda>user.
     and_then (plain_text (pi_domain inp) ''domain'') (\<lambda>domain.
     and_then (profile_kind inp) (\<lambda>kind.
     and_then (new_secrets sk kind (secrets_given (pi_secrets inp))) (\<lambda>given.
     and_then (ensure (given \<noteq> None) (missing_secret kind)) (\<lambda>_.
     (let c = load_catalog h now; sub = session_subject s in
     and_then (profile_place c sub (pi_folder inp)) (\<lambda>_.
     (let info = (case given of Some x \<Rightarrow> key_info x | None \<Rightarrow> (None, None, False)) in
     and_then (ensure (hm_get (hb_profiles h) i = None \<and> \<not> profile_taken h i (pi_folder inp) n) (problem NameTaken)) (\<lambda>_.
     and_then (seal_version sv rnd i 1 given (h\<lparr>hb_profiles := hm_insert i
          \<lparr>pf_folder = pi_folder inp, pf_name = n, pf_username = user, pf_domain = domain, pf_secret_kind = kind, pf_secret_version = 1,
           pf_key_algorithm = fst info, pf_key_fingerprint = fst (snd info), pf_has_certificate = snd (snd info)\<rparr> (hb_profiles h)\<rparr>)) (\<lambda>h.
       Inr (hub_audit h (audit_object s ''profile.created'' (Profile i) (profile_details inp n user domain kind (fst (snd info))) addr), i))))))))))))"

text \<open>The devices of another protocol than SSH that use a profile, by name.\<close>

definition misfits :: "(string \<Rightarrow> string) \<Rightarrow> hub \<Rightarrow> uuid \<Rightarrow> string list" where
  "misfits lower h i =
     sort_key lower (map (\<lambda>(_, d). dv_name d) (filter (\<lambda>(_, d). dv_profile d = Some i \<and> dv_protocol d \<noteq> ''ssh'') (hb_devices h)))"

definition update_profile ::
  "server \<Rightarrow> ssh_crate \<Rightarrow> (string \<Rightarrow> seal_randomness) \<Rightarrow> hub \<Rightarrow> session \<Rightarrow> string \<Rightarrow> instant \<Rightarrow> uuid \<Rightarrow> profile_input \<Rightarrow> problem + hub" where
  "update_profile sv sk rnd h s addr now i inp =
     and_then (checked_name (pi_name inp) ''name'') (\<lambda>n.
     and_then (plain_text (pi_username inp) ''username'') (\<lambda>user.
     and_then (plain_text (pi_domain inp) ''domain'') (\<lambda>domain.
     and_then (profile_kind inp) (\<lambda>kind.
     and_then (new_secrets sk kind (secrets_given (pi_secrets inp))) (\<lambda>given.
     (let c = load_catalog h now; sub = session_subject s in
     and_then (require c sub Edit (Profile i)) (\<lambda>_.
     and_then (if parent c (Profile i) \<noteq> pi_folder inp then profile_place c sub (pi_folder inp) else Inr ()) (\<lambda>_.
     and_then (case hm_get (hb_profiles h) i of Some p \<Rightarrow> Inr p | None \<Rightarrow> Inl (problem Internal)) (\<lambda>before.
     and_then (ensure (\<not> (given = None \<and> kind \<noteq> pf_secret_kind before)) (missing_secret kind)) (\<lambda>_.
     (let version = pf_secret_version before + (if given = None then 0 else 1);
          info = (case given of Some x \<Rightarrow> key_info x
                  | None \<Rightarrow> (pf_key_algorithm before, pf_key_fingerprint before, pf_has_certificate before)) in
     and_then (ensure (\<not> profile_taken h i (pi_folder inp) n) (problem NameTaken)) (\<lambda>_.
     and_then (seal_version sv rnd i version given (h\<lparr>hb_profiles := hm_insert i
          \<lparr>pf_folder = pi_folder inp, pf_name = n, pf_username = user, pf_domain = domain, pf_secret_kind = kind, pf_secret_version = version,
           pf_key_algorithm = fst info, pf_key_fingerprint = fst (snd info), pf_has_certificate = snd (snd info)\<rparr> (hb_profiles h)\<rparr>)) (\<lambda>h.
     (let h = (if given = None then h else drop_secrets (\<lambda>owner v. owner = i \<and> v \<noteq> version) h);
          odd = misfits (sv_lower sv) h i; stranded = out_of_reach (sv_lower sv) h in
     and_then (ensure (\<not> (kind = ''ssh_key'' \<and> odd \<noteq> [])) (param (invalid ''secret_kind'') ''devices'' (JText (join '', '' odd)))) (\<lambda>_.
     and_then (ensure (stranded = []) (param (problem ProfileOutOfReach) ''devices'' (JText (join '', '' stranded)))) (\<lambda>_.
       Inr (hub_audit h (audit_object s ''profile.updated'' (Profile i)
              (profile_details inp n user domain kind (fst (snd info)) @ [(''secret_changed'', JBool (given \<noteq> None))]) addr))))))))))))))))))"

definition delete_profile :: "(string \<Rightarrow> string) \<Rightarrow> hub \<Rightarrow> session \<Rightarrow> string \<Rightarrow> instant \<Rightarrow> uuid \<Rightarrow> problem + hub" where
  "delete_profile lower h s addr now i =
     (let c = load_catalog h now; sub = session_subject s in
     and_then (require c sub Edit (Profile i)) (\<lambda>_.
     (let users = sort_key lower (map (\<lambda>(_, d). dv_name d) (filter (\<lambda>(_, d). dv_profile d = Some i) (hb_devices h))) in
     and_then (ensure (users = []) (param (problem ProfileInUse) ''devices'' (JText (join '', '' users)))) (\<lambda>_.
       (let h = drop_secrets (\<lambda>owner _. owner = i) h in
        Inr (hub_audit (h\<lparr>hb_profiles := hm_remove i (hb_profiles h)\<rparr>) (audit_object s ''profile.deleted'' (Profile i) [] addr)))))))"

section \<open>What a checked device is like\<close>

definition well_formed :: "valid_device \<Rightarrow> bool" where
  "well_formed d \<longleftrightarrow>
     va_protocol d \<in> {''ssh'', ''rdp'', ''vnc'', ''https''}
     \<and> va_auth_mode d \<in> {''profile'', ''ask'', ''own'', ''device'', ''certificate'', ''laps''}
     \<and> (va_auth_mode d = ''certificate'' \<longrightarrow> va_protocol d = ''ssh'')
     \<and> (va_auth_mode d = ''laps'' \<longrightarrow> va_protocol d \<in> {''ssh'', ''rdp''})
     \<and> va_connector_mode d \<in> {''inherit'', ''direct'', ''connector''}
     \<and> (va_connector_mode d = ''connector'' \<longleftrightarrow> va_connector d \<noteq> None)
     \<and> (va_auth_mode d = ''profile'' \<longleftrightarrow> va_profile d \<noteq> None)
     \<and> (va_secrets d \<noteq> None \<longrightarrow> va_auth_mode d = ''device'')
     \<and> va_secret_kind d \<in> {''password'', ''ssh_key''}
     \<and> (va_secret_kind d = ''ssh_key'' \<longrightarrow> va_protocol d = ''ssh'' \<and> va_auth_mode d = ''device'')
     \<and> (\<forall>x \<in> set_option (va_secrets d). va_secret_kind d = ''password'' \<longleftrightarrow> (\<exists>p. x = PasswordSecret p))
     \<and> host_ok (va_host d) \<and> 1 \<le> va_port d \<and> va_port d \<le> 65535
     \<and> va_name d \<noteq> [] \<and> length (chars (va_name d)) \<le> 200
     \<and> set_option (va_keyboard_layout d) \<subseteq> set KEYBOARD_LAYOUTS
     \<and> (va_keyboard_layout d \<noteq> None \<longrightarrow> va_protocol d = ''rdp'')"

lemma connector_mode_of_ok:
  "connector_mode_of inp = Inr m \<Longrightarrow> m \<in> {''inherit'', ''direct'', ''connector''} \<and> (m = ''connector'' \<longleftrightarrow> di_connector inp \<noteq> None)"
  by (auto simp: connector_mode_of_def split: option.splits if_splits)

lemma auth_mode_of_ok:
  "auth_mode_of protocol mode = Inr m \<Longrightarrow> m \<in> {''profile'', ''ask'', ''own'', ''device'', ''certificate'', ''laps''}
     \<and> (m = ''certificate'' \<longrightarrow> protocol = ''ssh'') \<and> (m = ''laps'' \<longrightarrow> protocol \<in> {''ssh'', ''rdp''})"
  by (auto simp: auth_mode_of_def split: if_splits)

lemma secret_kind_of_ok:
  "secret_kind_of own protocol kind = Inr k \<Longrightarrow> k \<in> {''password'', ''ssh_key''} \<and> (k = ''ssh_key'' \<longrightarrow> protocol = ''ssh'' \<and> own)"
  by (auto simp: secret_kind_of_def split: option.splits if_splits)

lemma new_secrets_ok:
  "new_secrets sk kind inp = Inr (Some x) \<Longrightarrow> kind = ''password'' \<longleftrightarrow> (\<exists>p. x = PasswordSecret p)"
  by (auto simp: new_secrets_def Let_def split: option.splits if_splits sum.splits)

lemma keyboard_layout_of_ok:
  "keyboard_layout_of protocol l = Inr k \<Longrightarrow> set_option k \<subseteq> set KEYBOARD_LAYOUTS \<and> (k \<noteq> None \<longrightarrow> protocol = ''rdp'')"
  by (auto simp: keyboard_layout_of_def split: option.splits if_splits)

lemma checked_name_ok: "checked_name v fld = Inr n \<Longrightarrow> n \<noteq> [] \<and> length (chars n) \<le> 200"
  by (auto simp: checked_name_def Let_def split: if_splits)

lemma port_bounds: "(p :: u16) \<noteq> 0 \<Longrightarrow> 1 \<le> uint p \<and> uint p \<le> 65535"
proof -
  assume "p \<noteq> 0"
  then have "uint p \<noteq> 0" by (simp add: uint_0_iff)
  moreover have "0 \<le> uint p" by (rule uint_ge_0)
  moreover have "uint p < 65536" using uint_lt2p [of p] by simp
  ultimately show ?thesis by linarith
qed

lemma validate_Inr:
  assumes "validate sk inp = Inr d"
  obtains
    "connector_mode_of inp = Inr (va_connector_mode d)"
    "di_protocol inp \<in> {''ssh'', ''rdp'', ''vnc'', ''https''}" "va_protocol d = di_protocol inp"
    "auth_mode_of (di_protocol inp) (di_auth_mode inp) = Inr (va_auth_mode d)"
    "secret_kind_of (va_auth_mode d = ''device'') (di_protocol inp) (di_secret_kind inp) = Inr (va_secret_kind d)"
    "(if va_auth_mode d = ''device'' then new_secrets sk (va_secret_kind d) (secrets_given (di_secrets inp)) else Inr None) = Inr (va_secrets d)"
    "va_auth_mode d = ''profile'' \<longleftrightarrow> di_profile inp \<noteq> None" "va_profile d = di_profile inp"
    "host_ok (va_host d)" "di_port inp \<noteq> 0" "va_port d = uint (di_port inp)"
    "keyboard_layout_of (di_protocol inp) (di_keyboard_layout inp) = Inr (va_keyboard_layout d)"
    "checked_name (di_name inp) ''name'' = Inr (va_name d)" "va_connector d = di_connector inp"
  using assms unfolding validate_def Let_def and_then_Inr_iff ensure_Inr_iff
  by (elim exE conjE, simp only: sum.inject, hypsubst, intro that) (simp_all split del: if_split cong: if_cong)

lemma validate_well_formed:
  assumes "validate sk inp = Inr d"
  shows "well_formed d"
  using assms
proof (rule validate_Inr)
  assume mode: "connector_mode_of inp = Inr (va_connector_mode d)"
    and protocol: "di_protocol inp \<in> {''ssh'', ''rdp'', ''vnc'', ''https''}" "va_protocol d = di_protocol inp"
    and auth: "auth_mode_of (di_protocol inp) (di_auth_mode inp) = Inr (va_auth_mode d)"
    and kind: "secret_kind_of (va_auth_mode d = ''device'') (di_protocol inp) (di_secret_kind inp) = Inr (va_secret_kind d)"
    and given: "(if va_auth_mode d = ''device'' then new_secrets sk (va_secret_kind d) (secrets_given (di_secrets inp)) else Inr None) = Inr (va_secrets d)"
    and profile: "va_auth_mode d = ''profile'' \<longleftrightarrow> di_profile inp \<noteq> None" "va_profile d = di_profile inp"
    and rest: "host_ok (va_host d)" "di_port inp \<noteq> 0" "va_port d = uint (di_port inp)"
    and layout: "keyboard_layout_of (di_protocol inp) (di_keyboard_layout inp) = Inr (va_keyboard_layout d)"
    and n: "checked_name (di_name inp) ''name'' = Inr (va_name d)" and conn: "va_connector d = di_connector inp"
  have "\<forall>x \<in> set_option (va_secrets d). va_secret_kind d = ''password'' \<longleftrightarrow> (\<exists>p. x = PasswordSecret p)"
    and "va_secrets d \<noteq> None \<longrightarrow> va_auth_mode d = ''device''"
    using given new_secrets_ok [of sk "va_secret_kind d" "secrets_given (di_secrets inp)"] by (auto split: if_splits)
  then show ?thesis
    unfolding well_formed_def
    using connector_mode_of_ok [OF mode] protocol auth_mode_of_ok [OF auth] secret_kind_of_ok [OF kind] profile rest
      keyboard_layout_of_ok [OF layout] checked_name_ok [OF n] conn port_bounds [OF rest(2)]
    by (intro conjI) (simp_all, blast)
qed

lemma well_formed_secrets: "well_formed d \<Longrightarrow> va_secrets d \<noteq> None \<Longrightarrow> va_auth_mode d = ''device''"
  unfolding well_formed_def by blast

section \<open>The tables stay right\<close>

text \<open>Sealing a secret writes only the table of secrets.\<close>

lemma hub_store_db: "hub_store sv rnd owner v fld plain h = Inr h' \<Longrightarrow> \<exists>x. h' = h\<lparr>hb_db := x\<rparr>"
  by (auto simp: hub_store_def split: sum.splits)

lemma hub_store_all_db: "hub_store_all sv rnd owner v fs h = Inr h' \<Longrightarrow> \<exists>x. h' = h\<lparr>hb_db := x\<rparr>"
proof (induction sv rnd owner v fs h rule: hub_store_all.induct)
  case (1 sv rnd owner v h)
  then have "h' = h\<lparr>hb_db := hb_db h\<rparr>" by simp
  then show ?case ..
next
  case (2 sv rnd owner v fld plain rest h)
  then obtain k where "hub_store sv rnd owner v fld plain h = Inr k" and "\<exists>x. h' = k\<lparr>hb_db := x\<rparr>" by auto
  with hub_store_db show ?case by fastforce
qed

lemma seal_version_db: "seal_version sv rnd i v given h = Inr h' \<Longrightarrow> \<exists>x. h' = h\<lparr>hb_db := x\<rparr>"
proof (cases given)
  case None
  assume "seal_version sv rnd i v given h = Inr h'"
  with None have "h' = h\<lparr>hb_db := hb_db h\<rparr>" by (simp add: seal_version_def)
  then show ?thesis ..
qed (auto simp: seal_version_def dest: hub_store_all_db)

lemma profile_suitsI:
  assumes "tables_ok h" and "hub_has h (Profile p)" and "in_reach (load_catalog h now) p f = Inr u" and "profile_fits h p protocol = Inr v"
  shows "profile_suits h f protocol p"
  using assms
  by (auto simp: profile_suits_def hub_has.simps in_reach_def profile_fits_def load_catalog_def parent_tables
      is_within_iff [unfolded load_catalog_def])

lemma profile_use_suits:
  assumes "profile_use h (load_catalog h now) sub needed d = Inr u" and t: "tables_ok h" and p: "va_profile d = Some p"
    and "\<not> needed \<Longrightarrow> hub_has h (Profile p)"
  shows "profile_suits h (va_folder d) (va_protocol d) p"
    and "needed \<Longrightarrow> authorize (load_catalog h now) sub Connect (Profile p)"
proof -
  have "hub_has h (Profile p)"
    using assms authorized_has [OF t] by (cases needed) (auto simp: profile_use_def)
  then show "profile_suits h (va_folder d) (va_protocol d) p"
    using assms(1) p by (intro profile_suitsI [OF t]) (auto simp: profile_use_def)
  show "needed \<Longrightarrow> authorize (load_catalog h now) sub Connect (Profile p)"
    using assms(1) p by (simp add: profile_use_def)
qed

lemma checked_device_ok:
  assumes "well_formed d" and "hub_has h (Folder (va_folder d))" and "require_connector h (va_connector d) = Inr u"
    and "\<And>p. va_profile d = Some p \<Longrightarrow> profile_suits h (va_folder d) (va_protocol d) p"
    and "v \<ge> 0" and "va_auth_mode d = ''device'' \<longleftrightarrow> v > 0"
  shows "device_ok h (device_row_of d v info)"
  using assms by (auto simp: device_ok_def device_row_of_def well_formed_def require_connector_def split: option.splits if_splits)

lemma device_pins_ok [simp]:
  "device_ok h (d\<lparr>dv_host_key := a\<rparr>) = device_ok h d" "device_ok h (d\<lparr>dv_certificate := b\<rparr>) = device_ok h d"
  "device_ok h (d\<lparr>dv_keywords := k\<rparr>) = device_ok h d" "device_ok h (d\<lparr>dv_keywords_by := l\<rparr>) = device_ok h d"
  by (simp_all add: device_ok_def)

lemma put_device_ok:
  "hub_ok h \<Longrightarrow> device_ok h d \<Longrightarrow> hub_ok (h\<lparr>hb_devices := hm_insert i d (hb_devices h)\<rparr>)"
  by (rule hub_ok_devices) (auto simp: hub_ok_tables hm.ok_put hm.get_put hub_ok_devicesD split: if_splits)

lemma create_device_Inr:
  assumes "create_device sv sk rnd h s addr now i inp = Inr (h', j)" and t: "tables_ok h"
  obtains d version info x where "validate sk inp = Inr d" "hub_has h (Folder (va_folder d))"
    "profile_use h (load_catalog h now) (session_subject s) True d = Inr ()" "require_connector h (va_connector d) = Inr ()"
    "\<not> (va_auth_mode d = ''device'' \<and> va_secrets d = None)" "version = (if va_secrets d = None then 0 else 1)" "hm_get (hb_devices h) i = None"
    "h' = h\<lparr>hb_devices := hm_insert i (device_row_of d version info) (hb_devices h), hb_db := x\<rparr>"
proof -
  from assms(1) obtain d version info k e where d: "validate sk inp = Inr d"
    and a: "authorize (load_catalog h now) (session_subject s) Edit (Folder (va_folder d))"
    and rest: "profile_use h (load_catalog h now) (session_subject s) True d = Inr ()" "require_connector h (va_connector d) = Inr ()"
    "\<not> (va_auth_mode d = ''device'' \<and> va_secrets d = None)" "version = (if va_secrets d = None then 0 else 1)" "hm_get (hb_devices h) i = None"
    and k: "seal_version sv rnd i version (va_secrets d)
       (h\<lparr>hb_devices := hm_insert i (device_row_of d version info) (hb_devices h)\<rparr>) = Inr k" "hub_audit k e = h'"
    unfolding create_device_def Let_def passed by (elim exE conjE) (rule that, (assumption | rule refl)+)
  from seal_version_db [OF k(1)] k(2) obtain x where
    "h' = h\<lparr>hb_devices := hm_insert i (device_row_of d version info) (hb_devices h), hb_db := x\<rparr>"
    by (auto simp: hub_audit_def)
  with d authorized_has [OF t a] rest show thesis by (intro that)
qed

lemma create_device_ok:
  assumes "create_device sv sk rnd h s addr now i inp = Inr (h', j)" and h: "hub_ok h"
  shows "hub_ok h'"
  using assms(1) hub_okD(1) [OF h]
proof (rule create_device_Inr)
  fix d version info x
  assume d: "validate sk inp = Inr d" and f: "hub_has h (Folder (va_folder d))"
    and use: "profile_use h (load_catalog h now) (session_subject s) True d = Inr ()" and conn: "require_connector h (va_connector d) = Inr ()"
    and v: "\<not> (va_auth_mode d = ''device'' \<and> va_secrets d = None)" "version = (if va_secrets d = None then 0 else 1)"
    and h': "h' = h\<lparr>hb_devices := hm_insert i (device_row_of d version info) (hb_devices h), hb_db := x\<rparr>"
  note wf = validate_well_formed [OF d]
  have "device_ok h (device_row_of d version info)"
    using v well_formed_secrets [OF wf]
    by (intro checked_device_ok [OF wf f conn] profile_use_suits(1) [OF use hub_okD(1) [OF h]]) (auto split: if_splits)
  then show ?thesis unfolding h' by (simp add: put_device_ok [OF h])
qed

text \<open>The row an update leaves: what was pinned stays only while the target does.\<close>

definition updated_row :: "device_row \<Rightarrow> valid_device \<Rightarrow> int \<Rightarrow> string option \<times> string option \<times> bool \<Rightarrow> bool \<Rightarrow> device_row" where
  "updated_row before d version info changed =
     (device_row_of d version info)\<lparr>dv_host_key := (if changed then None else dv_host_key before),
        dv_certificate := (if changed then None else dv_certificate before),
        dv_keywords := dv_keywords before, dv_keywords_by := dv_keywords_by before\<rparr>"

lemma update_device_Inr:
  assumes "update_device sv sk rnd h s addr now i inp = Inr h'" and t: "tables_ok h"
  obtains d before keeps version info x where "validate sk inp = Inr d" "hm_get (hb_devices h) i = Some before"
    "dv_folder before = va_folder d \<or> hub_has h (Folder (va_folder d))"
    "require_connector h (va_connector d) = Inr ()"
    "profile_use h (load_catalog h now) (session_subject s) (dv_profile before \<noteq> va_profile d \<or> target_changed h before d) d = Inr ()"
    "keeps \<longrightarrow> dv_secret_version before > 0
       \<and> (target_changed h before d \<longrightarrow> authorize (load_catalog h now) (session_subject s) Reveal (Device i))"
    "secret_version_after before keeps d = Inr version"
    "h' = h\<lparr>hb_devices := hm_insert i (updated_row before d version info (target_changed h before d)) (hb_devices h), hb_db := x\<rparr>"
proof -
  let ?c = "load_catalog h now" and ?sub = "session_subject s"
  from assms(1) obtain d before keeps version info k e where d: "validate sk inp = Inr d"
    and f: "(if parent ?c (Device i) \<noteq> Some (va_folder d) then require ?c ?sub Edit (Folder (va_folder d)) else Inr ()) = Inr ()"
    and b: "(case hm_get (hb_devices h) i of Some before \<Rightarrow> Inr before | None \<Rightarrow> Inl (problem Internal)) = Inr before"
    and rest: "require_connector h (va_connector d) = Inr ()"
      "profile_use h ?c ?sub (dv_profile before \<noteq> va_profile d \<or> target_changed h before d) d = Inr ()"
    and keeps: "keeps = (dv_auth_mode before = ''device'' \<and> dv_secret_version before > 0 \<and> dv_secret_kind before = va_secret_kind d
        \<and> (\<not> target_changed h before d \<or> authorize ?c ?sub Reveal (Device i)))"
    and v: "secret_version_after before keeps d = Inr version"
    and k: "seal_version sv rnd i version (va_secrets d) h = Inr k"
    and h': "hub_audit ((drop_secrets (\<lambda>owner v. owner = i \<and> v \<noteq> version) k)\<lparr>hb_devices := hm_update i (\<lambda>b. (device_row_of d version info)
                \<lparr>dv_host_key := (if target_changed h before d then None else dv_host_key b),
                 dv_certificate := (if target_changed h before d then None else dv_certificate b),
                 dv_keywords := dv_keywords b, dv_keywords_by := dv_keywords_by b\<rparr>)
                (hb_devices (drop_secrets (\<lambda>owner v. owner = i \<and> v \<noteq> version) k))\<rparr>) e = h'"
    unfolding update_device_def Let_def passed by (elim exE conjE) (rule that, (assumption | rule refl)+)
  from b have before: "hm_get (hb_devices h) i = Some before" by (simp split: option.splits)
  have "dv_folder before = va_folder d \<or> hub_has h (Folder (va_folder d))"
    using f before authorized_has [OF t, of now ?sub Edit]
    by (auto simp: load_catalog_def parent_tables [OF t] split: if_splits)
  moreover from seal_version_db [OF k] h' obtain x where
    "h' = h\<lparr>hb_devices := hm_insert i (updated_row before d version info (target_changed h before d)) (hb_devices h), hb_db := x\<rparr>"
    by (auto simp: hub_audit_def drop_secrets_def hm_update_insert [OF before] updated_row_def)
  ultimately show thesis using keeps by (intro that [OF d before _ rest _ v]) auto
qed

lemma updated_row_ok: "device_ok h (updated_row before d version info changed) = device_ok h (device_row_of d version info)"
  by (simp add: updated_row_def device_ok_def)

lemma update_device_ok:
  assumes "update_device sv sk rnd h s addr now i inp = Inr h'" and h: "hub_ok h"
  shows "hub_ok h'"
  using assms(1) hub_okD(1) [OF h]
proof (rule update_device_Inr)
  fix d before keeps version info x
  assume d: "validate sk inp = Inr d" and before: "hm_get (hb_devices h) i = Some before"
    and f: "dv_folder before = va_folder d \<or> hub_has h (Folder (va_folder d))"
    and conn: "require_connector h (va_connector d) = Inr ()"
    and use: "profile_use h (load_catalog h now) (session_subject s) (dv_profile before \<noteq> va_profile d \<or> target_changed h before d) d = Inr ()"
    and keeps: "keeps \<longrightarrow> dv_secret_version before > 0
       \<and> (target_changed h before d \<longrightarrow> authorize (load_catalog h now) (session_subject s) Reveal (Device i))"
    and v: "secret_version_after before keeps d = Inr version"
    and h': "h' = h\<lparr>hb_devices := hm_insert i (updated_row before d version info (target_changed h before d)) (hb_devices h), hb_db := x\<rparr>"
  note wf = validate_well_formed [OF d] and old = hub_ok_devicesD [OF h before]
  have has: "hub_has h (Folder (va_folder d))" using f old by (auto simp: device_ok_def)
  have p: "hub_has h (Profile p)" if "va_profile d = Some p" "dv_profile before = va_profile d" for p
    using that device_suits [OF h before, of p] by (auto simp: profile_suits_def hub_has.simps)
  have "version \<ge> 0 \<and> (va_auth_mode d = ''device'' \<longleftrightarrow> version > 0)"
    using v keeps old well_formed_secrets [OF wf] by (auto simp: secret_version_after_def device_ok_def split: if_splits)
  then have "device_ok h (device_row_of d version info)"
    using p by (intro checked_device_ok [OF wf has conn] profile_use_suits(1) [OF use hub_okD(1) [OF h]]) auto
  then show ?thesis unfolding h' by (simp add: put_device_ok [OF h] updated_row_ok)
qed

lemma move_device_Inr:
  assumes "move_device h s addr now i f = Inr h'" and t: "tables_ok h"
  obtains "h' = h" | d changed x where "hm_get (hb_devices h) i = Some d" "hub_has h (Folder f)"
    "changed \<longleftrightarrow> reached_through h d \<noteq> device_connector h (dv_connector_mode d) (dv_connector d) f"
    "\<And>p. dv_profile d = Some p \<Longrightarrow> in_reach (load_catalog h now) p f = Inr ()
       \<and> (changed \<longrightarrow> authorize (load_catalog h now) (session_subject s) Connect (Profile p))"
    "changed \<and> dv_auth_mode d = ''device'' \<and> dv_secret_version d > 0 \<longrightarrow> authorize (load_catalog h now) (session_subject s) Reveal (Device i)"
    "h' = h\<lparr>hb_devices := hm_insert i (d\<lparr>dv_folder := f, dv_host_key := (if changed then None else dv_host_key d),
        dv_certificate := (if changed then None else dv_certificate d)\<rparr>) (hb_devices h), hb_db := x\<rparr>"
proof (cases "parent (load_catalog h now) (Device i) = Some f")
  case True
  with assms(1) have "h' = h" by (auto simp: move_device_def Let_def)
  then show thesis by (rule that(1))
next
  case False
  let ?c = "load_catalog h now" and ?sub = "session_subject s"
  from assms(1) False obtain d where a: "authorize ?c ?sub Edit (Folder f)"
    and b: "(case hm_get (hb_devices h) i of Some d \<Rightarrow> Inr d | None \<Rightarrow> Inl (problem Internal)) = Inr d"
    and p: "(case dv_profile d of
          None \<Rightarrow> Inr ()
        | Some p \<Rightarrow> and_then (in_reach ?c p f) (\<lambda>_. if reached_through h d \<noteq> device_connector h (dv_connector_mode d) (dv_connector d) f
            then require ?c ?sub Connect (Profile p) else Inr ())) = Inr ()"
    and own: "(if reached_through h d \<noteq> device_connector h (dv_connector_mode d) (dv_connector d) f
         \<and> dv_auth_mode d = ''device'' \<and> dv_secret_version d > 0 then require ?c ?sub Reveal (Device i) else Inr ()) = Inr ()"
    and h': "\<exists>e. hub_audit (h\<lparr>hb_devices := hm_update i (\<lambda>b. b\<lparr>dv_folder := f,
         dv_host_key := (if reached_through h d \<noteq> device_connector h (dv_connector_mode d) (dv_connector d) f then None else dv_host_key b),
         dv_certificate := (if reached_through h d \<noteq> device_connector h (dv_connector_mode d) (dv_connector d) f then None else dv_certificate b)\<rparr>)
         (hb_devices h)\<rparr>) e = h'"
    unfolding move_device_def Let_def if_not_P [OF False] passed by (elim exE conjE) (rule that, (assumption | rule exI)+)
  from b have d: "hm_get (hb_devices h) i = Some d" by (simp split: option.splits)
  let ?changed = "reached_through h d \<noteq> device_connector h (dv_connector_mode d) (dv_connector d) f"
  from h' obtain e where e: "h' = h\<lparr>hb_devices := hm_insert i (d\<lparr>dv_folder := f, dv_host_key := (if ?changed then None else dv_host_key d),
        dv_certificate := (if ?changed then None else dv_certificate d)\<rparr>) (hb_devices h), hb_db := audit_record (hb_db h) e\<rparr>"
    by (auto simp: hub_audit_def hm_update_insert [OF d])
  show thesis
  proof (rule that(2) [OF d authorized_has [OF t a] refl _ _ e])
    show "in_reach ?c q f = Inr () \<and> (reached_through h d \<noteq> device_connector h (dv_connector_mode d) (dv_connector d) f
        \<longrightarrow> authorize ?c ?sub Connect (Profile q))" if "dv_profile d = Some q" for q
      using p that by (auto split: if_splits)
  qed (use own in \<open>auto split: if_splits\<close>)
qed

lemma move_device_ok:
  assumes "move_device h s addr now i f = Inr h'" and h: "hub_ok h"
  shows "hub_ok h'"
  using assms(1) hub_okD(1) [OF h]
proof (cases rule: move_device_Inr)
  case (2 d changed x)
  note old = hub_ok_devicesD [OF h 2(1)]
  have "profile_suits h f (dv_protocol d) p" if p: "dv_profile d = Some p" for p
    using device_suits [OF h 2(1) p]
    by (intro profile_suitsI [OF hub_okD(1) [OF h], where now = now and u = "()" and v = "()"])
      (use 2(4) [OF p] in \<open>auto simp: profile_suits_def hub_has.simps profile_fits_def\<close>)
  with old 2(2) have "device_ok h (d\<lparr>dv_folder := f, dv_host_key := (if changed then None else dv_host_key d),
        dv_certificate := (if changed then None else dv_certificate d)\<rparr>)"
    by (auto simp: device_ok_def)
  then show ?thesis unfolding 2(6) by (simp add: put_device_ok [OF h])
qed (use h in simp)

lemma device_removed_ok:
  assumes h: "hub_ok h" and u: "unreferenced h (Device i)"
  shows "hub_ok (h\<lparr>hb_devices := hm_remove i (hb_devices h)\<rparr>)" (is "hub_ok ?h")
proof -
  note t = hub_ok_tables [OF h]
  have has: "hub_has ?h y" if "y \<noteq> Device i" "hub_has h y" for y
    using that by (cases y) (auto simp: hub_has.simps hm.get_del [OF t(2)])
  have "device_ok ?h d" if "hm_get (hb_devices ?h) k = Some d" for k d
    using that hub_ok_devicesD [OF h, of k] by (auto simp: hm.get_del [OF t(2)] device_ok_def profile_suits_def split: if_splits)
  then show ?thesis
    using h rows_kept [OF h u has]
    by (simp add: hub_ok_def tables_ok_def folders_ok_def collections_ok_def parents_exist_def credential_ok_def profile_ok_def hm.ok_del)
qed

lemma delete_device_Inr:
  "delete_device h s addr now i = Inr h' \<longleftrightarrow> authorize (load_catalog h now) (session_subject s) Edit (Device i)
     \<and> h' = hub_audit ((drop_secrets (\<lambda>owner _. owner = i) h)
          \<lparr>hb_grants := filter (\<lambda>(_, g). gr_device g \<noteq> Some i) (hb_grants h),
           hb_requests := filter (\<lambda>(_, r). rq_device r \<noteq> Some i) (hb_requests h),
           hb_devices := hm_remove i (hb_devices h)\<rparr>) (audit_object s ''device.deleted'' (Device i) [] addr)"
  by (auto simp: delete_device_def Let_def drop_secrets_def)

lemma delete_device_ok:
  assumes "delete_device h s addr now i = Inr h'" and h: "hub_ok h"
  shows "hub_ok h'"
proof -
  let ?d = "drop_secrets (\<lambda>owner _. owner = i) h"
  let ?h = "?d\<lparr>hb_grants := filter (\<lambda>(_, g). gr_device g \<noteq> Some i) (hb_grants ?d),
           hb_requests := filter (\<lambda>(_, r). rq_device r \<noteq> Some i) (hb_requests ?d)\<rparr>"
  have d: "hub_ok ?d" using h by simp
  have "hub_ok ?h" by (rule hub_ok_cascade [OF d])
  moreover have "unreferenced ?h (Device i)"
    by (auto simp: unreferenced_def row_object_def request_object_def grant_object_iffs
        dest!: filter_rowsD [OF hub_ok_tables(7) [OF d]] filter_rowsD [OF hub_ok_tables(8) [OF d]])
  ultimately have "hub_ok (?h\<lparr>hb_devices := hm_remove i (hb_devices ?h)\<rparr>)" by (rule device_removed_ok)
  then show ?thesis using assms(1) by (simp add: delete_device_Inr drop_secrets_def)
qed

lemma reset_host_key_ok: "reset_host_key fp h s addr now i = Inr h' \<Longrightarrow> hub_ok h \<Longrightarrow> hub_ok h'"
  by (auto simp: reset_host_key_def Let_def forget_pins_ok split: if_splits)

lemma set_keywords_ok:
  assumes "set_keywords h s addr now i words = Inr h'" and h: "hub_ok h"
  shows "hub_ok h'"
proof -
  from assms(1) obtain e where a: "authorize (load_catalog h now) (session_subject s) List (Device i)"
    and h': "h' = hub_audit (h\<lparr>hb_devices := hm_update i (\<lambda>d. d\<lparr>dv_keywords := trim words, dv_keywords_by := Some (s_display_name s)\<rparr>) (hb_devices h)\<rparr>) e"
    by (auto simp: set_keywords_def Let_def)
  from authorized_has [OF hub_okD(1) [OF h] a] obtain d where d: "hm_get (hb_devices h) i = Some d" by (auto simp: hub_has.simps)
  then show ?thesis
    using put_device_ok [OF h, of "d\<lparr>dv_keywords := trim words, dv_keywords_by := Some (s_display_name s)\<rparr>" i] hub_ok_devicesD [OF h d]
    by (simp add: h' hm_update_insert [OF d])
qed

section \<open>Login profiles\<close>

lemma put_profile_ok:
  assumes h: "hub_ok h" and "profile_ok h p"
    and reach: "\<And>k d. hm_get (hb_devices h) k = Some d \<Longrightarrow> dv_profile d = Some i \<Longrightarrow>
       profile_suits (h\<lparr>hb_profiles := hm_insert i p (hb_profiles h)\<rparr>) (dv_folder d) (dv_protocol d) i"
  shows "hub_ok (h\<lparr>hb_profiles := hm_insert i p (hb_profiles h)\<rparr>)" (is "hub_ok ?h")
proof (rule hub_ok_profiles [OF h])
  show "profile_suits ?h (dv_folder d) (dv_protocol d) q" if "hm_get (hb_devices h) k = Some d" "dv_profile d = Some q" for k d q
  proof (cases "q = i")
    case False
    then show ?thesis using device_suits [OF h that] by (rule_tac profile_suits_mono [of h]) (auto simp: hm.get_put)
  qed (use reach that in auto)
qed (use assms(2) hub_ok_profilesD [OF h] in \<open>auto simp: hub_ok_tables [OF h] hm.ok_put hm.get_put split: if_splits\<close>)

lemma profile_place_has: "profile_place (load_catalog h now) sub (Some f) = Inr u \<Longrightarrow> tables_ok h \<Longrightarrow> hub_has h (Folder f)"
  by (auto simp: profile_place_def dest: authorized_has)

lemma profile_kind_ok: "profile_kind inp = Inr k \<Longrightarrow> k \<in> {''password'', ''ssh_key''}"
  by (auto simp: profile_kind_def split: option.splits if_splits)

lemma create_profile_ok:
  assumes "create_profile sv sk rnd h s addr now i inp = Inr (h', j)" and h: "hub_ok h"
  shows "hub_ok h'"
proof -
  from assms(1) obtain n user domain kind given info k e where kind: "profile_kind inp = Inr kind"
    and place: "profile_place (load_catalog h now) (session_subject s) (pi_folder inp) = Inr ()"
    and new: "hm_get (hb_profiles h) i = None"
    and k: "seal_version sv rnd i 1 given (h\<lparr>hb_profiles := hm_insert i
          \<lparr>pf_folder = pi_folder inp, pf_name = n, pf_username = user, pf_domain = domain, pf_secret_kind = kind, pf_secret_version = 1,
           pf_key_algorithm = fst info, pf_key_fingerprint = fst (snd info), pf_has_certificate = snd (snd info)\<rparr> (hb_profiles h)\<rparr>) = Inr k"
      "hub_audit k e = h'"
    unfolding create_profile_def Let_def passed by (elim exE conjE) (rule that, (assumption | rule refl)+)
  let ?p = "\<lparr>pf_folder = pi_folder inp, pf_name = n, pf_username = user, pf_domain = domain, pf_secret_kind = kind, pf_secret_version = 1,
           pf_key_algorithm = fst info, pf_key_fingerprint = fst (snd info), pf_has_certificate = snd (snd info)\<rparr>"
  have "profile_ok h ?p"
    using profile_kind_ok [OF kind] place hub_okD(1) [OF h] by (auto simp: profile_ok_def intro: profile_place_has)
  moreover have "dv_profile d \<noteq> Some i" if "hm_get (hb_devices h) k = Some d" for k d
    using device_suits [OF h that] new by (auto simp: profile_suits_def)
  ultimately have "hub_ok (h\<lparr>hb_profiles := hm_insert i ?p (hb_profiles h)\<rparr>)"
    by (intro put_profile_ok [OF h]) blast+
  with seal_version_db [OF k(1)] k(2) show ?thesis by auto
qed

lemma update_profile_Inr:
  assumes "update_profile sv sk rnd h s addr now i inp = Inr h'"
  obtains n user domain kind given before version info x where "profile_kind inp = Inr kind"
    "hm_get (hb_profiles h) i = Some before"
    "parent (load_catalog h now) (Profile i) = pi_folder inp
       \<or> profile_place (load_catalog h now) (session_subject s) (pi_folder inp) = Inr ()"
    "version \<ge> pf_secret_version before"
    "h' = h\<lparr>hb_profiles := hm_insert i
          \<lparr>pf_folder = pi_folder inp, pf_name = n, pf_username = user, pf_domain = domain, pf_secret_kind = kind, pf_secret_version = version,
           pf_key_algorithm = fst info, pf_key_fingerprint = fst (snd info), pf_has_certificate = snd (snd info)\<rparr> (hb_profiles h), hb_db := x\<rparr>"
    "\<not> (kind = ''ssh_key'' \<and> misfits (sv_lower sv) h' i \<noteq> [])" "out_of_reach (sv_lower sv) (h'\<lparr>hb_db := y\<rparr>) = []"
proof -
  let ?row = "\<lambda>n user domain kind version info.
          \<lparr>pf_folder = pi_folder inp, pf_name = n, pf_username = user, pf_domain = domain, pf_secret_kind = kind, pf_secret_version = version,
           pf_key_algorithm = fst info, pf_key_fingerprint = fst (snd info), pf_has_certificate = snd (snd info)\<rparr>"
  let ?drop = "\<lambda>given version k. if given = None then k else drop_secrets (\<lambda>owner v. owner = i \<and> v \<noteq> version) k"
  from assms obtain n user domain kind given before version info k e where kind: "profile_kind inp = Inr kind"
    and place: "(if parent (load_catalog h now) (Profile i) \<noteq> pi_folder inp
        then profile_place (load_catalog h now) (session_subject s) (pi_folder inp) else Inr ()) = Inr ()"
    and b: "(case hm_get (hb_profiles h) i of Some p \<Rightarrow> Inr p | None \<Rightarrow> Inl (problem Internal)) = Inr before"
    and v: "version = pf_secret_version before + (if given = None then 0 else 1)"
    and k: "seal_version sv rnd i version given (h\<lparr>hb_profiles := hm_insert i (?row n user domain kind version info) (hb_profiles h)\<rparr>) = Inr k"
    and fits: "\<not> (kind = ''ssh_key'' \<and> misfits (sv_lower sv) (?drop given version k) i \<noteq> [])"
    and reach: "out_of_reach (sv_lower sv) (?drop given version k) = []"
    and h': "hub_audit (?drop given version k) e = h'"
    unfolding update_profile_def Let_def passed by (elim exE conjE) (rule that, (assumption | rule refl)+)
  from seal_version_db [OF k] obtain z where z: "k = h\<lparr>hb_profiles := hm_insert i (?row n user domain kind version info) (hb_profiles h), hb_db := z\<rparr>"
    by auto
  obtain x where x: "?drop given version k = h\<lparr>hb_profiles := hm_insert i (?row n user domain kind version info) (hb_profiles h), hb_db := x\<rparr>"
    by (cases given) (auto simp: z drop_secrets_def)
  have within: "folder_within (g\<lparr>hb_db := a\<rparr>) = folder_within g" for g a
    by (intro ext) (simp add: folder_within_def folders_above_def hub_objects_def)
  have db: "out_of_reach l (g\<lparr>hb_db := a\<rparr>) = out_of_reach l g" "misfits l (g\<lparr>hb_db := a\<rparr>) i = misfits l g i" for l g a
    unfolding out_of_reach_def misfits_def within by simp_all
  from b have before: "hm_get (hb_profiles h) i = Some before" by (simp split: option.splits)
  show thesis
  proof (rule that [OF kind before])
    show "h' = h\<lparr>hb_profiles := hm_insert i (?row n user domain kind version info) (hb_profiles h), hb_db := audit_record x e\<rparr>"
      using h' x by (simp add: hub_audit_def)
  qed (use place v fits reach h' in \<open>auto simp: x hub_audit_def db split: if_splits\<close>)
qed

lemma no_misfit:
  assumes "misfits lower h i = []" and "hm_get (hb_devices h) k = Some d" and "dv_profile d = Some i"
  shows "dv_protocol d = ''ssh''"
  using assms map_of_SomeD [OF assms(2)] by (auto simp: misfits_def filter_empty_conv)

lemma update_profile_ok:
  assumes "update_profile sv sk rnd h s addr now i inp = Inr h'" and h: "hub_ok h"
  shows "hub_ok h'"
  using assms(1)
proof (rule update_profile_Inr)
  fix n user domain kind before version info x
  let ?p = "\<lparr>pf_folder = pi_folder inp, pf_name = n, pf_username = user, pf_domain = domain, pf_secret_kind = kind, pf_secret_version = version,
           pf_key_algorithm = fst info, pf_key_fingerprint = fst (snd info), pf_has_certificate = snd (snd info)\<rparr>"
  let ?h = "h\<lparr>hb_profiles := hm_insert i ?p (hb_profiles h)\<rparr>"
  assume kind: "profile_kind inp = Inr kind" and before: "hm_get (hb_profiles h) i = Some before"
    and place: "parent (load_catalog h now) (Profile i) = pi_folder inp
       \<or> profile_place (load_catalog h now) (session_subject s) (pi_folder inp) = Inr ()"
    and v: "version \<ge> pf_secret_version before"
    and h': "h' = h\<lparr>hb_profiles := hm_insert i ?p (hb_profiles h), hb_db := x\<rparr>"
    and fits: "\<not> (kind = ''ssh_key'' \<and> misfits (sv_lower sv) h' i \<noteq> [])" and reach: "out_of_reach (sv_lower sv) (h'\<lparr>hb_db := hb_db h\<rparr>) = []"
  note t = hub_okD(1) [OF h] and old = hub_ok_profilesD [OF h before]
  have "hub_has h (Folder f)" if "pi_folder inp = Some f" for f
    using place that old before profile_place_has [OF _ t]
    by (auto simp: load_catalog_def parent_tables [OF t] profile_ok_def)
  then have p: "profile_ok h ?p" using profile_kind_ok [OF kind] old v by (auto simp: profile_ok_def)
  have "h'\<lparr>hb_db := hb_db h\<rparr> = ?h" by (simp add: h')
  with reach have reach': "out_of_reach (sv_lower sv) ?h = []" by simp
  have "profile_suits ?h (dv_folder d) (dv_protocol d) i" if d: "hm_get (hb_devices h) k = Some d" "dv_profile d = Some i" for k d
  proof -
    have "(dv_folder d, home) \<in> (folder_edges ?h)\<^sup>*" if "pi_folder inp = Some home" for home
    proof (rule in_reach_of_all [OF reach' _ _ _ _ d(2)])
      show "tables_ok ?h" using t by (simp add: tables_ok_def hm.ok_put)
      show "parents_exist ?h" using hub_okD(3) [OF h] by (simp add: parents_exist_def)
      show "hub_has ?h (Folder (dv_folder d))" using hub_ok_devicesD [OF h d(1)] by (simp add: device_ok_def)
    qed (use d that in \<open>auto simp: hm.get_put\<close>)
    moreover have "kind = ''ssh_key'' \<longrightarrow> dv_protocol d = ''ssh''"
      using fits no_misfit [of "sv_lower sv" h' i k d] d by (auto simp: h')
    ultimately show ?thesis by (auto simp: profile_suits_def hm.get_put)
  qed
  then show ?thesis unfolding h' hub_ok_db by (intro put_profile_ok [OF h p])
qed

lemma delete_profile_ok:
  assumes "delete_profile lower h s addr now i = Inr h'" and h: "hub_ok h"
  shows "hub_ok h'"
proof -
  let ?h = "h\<lparr>hb_profiles := hm_remove i (hb_profiles h)\<rparr>"
  from assms(1) obtain x where h': "h' = ?h\<lparr>hb_db := x\<rparr>" and unused: "filter (\<lambda>(_, d). dv_profile d = Some i) (hb_devices h) = []"
    by (auto simp: delete_profile_def Let_def hub_audit_def drop_secrets_def)
  note t = hub_ok_tables(3) [OF h]
  have "hub_ok ?h"
  proof (rule hub_ok_profiles [OF h hm.ok_del [OF t]])
    show "profile_ok h p" if "hm_get (hm_remove i (hb_profiles h)) k = Some p" for k p
      using that hub_ok_profilesD [OF h, of k] by (auto simp: hm.get_del [OF t] split: if_splits)
    show "profile_suits ?h (dv_folder d) (dv_protocol d) q" if d: "hm_get (hb_devices h) k = Some d" "dv_profile d = Some q" for k d q
    proof (rule profile_suits_mono [OF device_suits [OF h d]])
      show "hm_get (hb_profiles ?h) q = hm_get (hb_profiles h) q"
        using unused d map_of_SomeD [OF d(1)] by (auto simp: hm.get_del [OF t] filter_empty_conv)
    qed simp
  qed
  then show ?thesis by (simp add: h')
qed

section \<open>Pointing a device at another machine\<close>

text \<open>Where a connection to the device goes.\<close>

definition device_target :: "hub \<Rightarrow> device_row \<Rightarrow> string \<times> string \<times> int \<times> uuid option" where
  "device_target h d = (dv_protocol d, dv_host d, dv_port d, reached_through h d)"

lemma target_changed_iff:
  "target_changed h before d \<longleftrightarrow> device_target h (updated_row before d version info changed) \<noteq> device_target h before"
  by (auto simp: target_changed_def device_target_def updated_row_def device_row_of_def reached_through_def)

lemma device_target_same:
  assumes "tables_ok h" and "tables_ok h'" and "hb_folders h' = hb_folders h"
  shows "device_target h' d = device_target h d"
  by (simp add: device_target_def reached_through_def reached_through_same [OF assms])

text \<open>The secrets a device signs in with stay its own only for someone who may see them.\<close>

definition retarget_allowed :: "catalog \<Rightarrow> subject \<Rightarrow> uuid \<Rightarrow> device_row \<Rightarrow> device_row \<Rightarrow> bool" where
  "retarget_allowed c sub i before after \<longleftrightarrow> dv_host_key after = None \<and> dv_certificate after = None
     \<and> (\<forall>p. dv_profile after = Some p \<longrightarrow> authorize c sub Connect (Profile p))
     \<and> (dv_auth_mode after = ''device'' \<and> dv_secret_version after = dv_secret_version before \<longrightarrow> authorize c sub Reveal (Device i))"

lemma update_device_retarget:
  assumes "update_device sv sk rnd h s addr now i inp = Inr h'" and h: "hub_ok h"
    and d: "hm_get (hb_devices h) k = Some d" "hm_get (hb_devices h') k = Some d'"
    and moved: "device_target h' d' \<noteq> device_target h d"
  shows "retarget_allowed (load_catalog h now) (session_subject s) k d d'"
  using assms(1) hub_okD(1) [OF h]
proof (rule update_device_Inr)
  fix v before keeps version info x
  assume before: "hm_get (hb_devices h) i = Some before"
    and keeps: "keeps \<longrightarrow> dv_secret_version before > 0
       \<and> (target_changed h before v \<longrightarrow> authorize (load_catalog h now) (session_subject s) Reveal (Device i))"
    and version: "secret_version_after before keeps v = Inr version"
    and use: "profile_use h (load_catalog h now) (session_subject s) (dv_profile before \<noteq> va_profile v \<or> target_changed h before v) v = Inr ()"
    and h': "h' = h\<lparr>hb_devices := hm_insert i (updated_row before v version info (target_changed h before v)) (hb_devices h), hb_db := x\<rparr>"
  have same: "device_target h' e = device_target h e" for e
    by (rule device_target_same [OF hub_okD(1) [OF h] hub_okD(1) [OF update_device_ok [OF assms(1) h]]]) (simp add: h')
  have k: "k = i" using moved d unfolding same by (auto simp: h' hm.get_put split: if_splits)
  then have d': "d = before" "d' = updated_row before v version info (target_changed h before v)"
    using d before by (auto simp: h' hm.get_put)
  have "target_changed h before v"
    using moved unfolding same d' by (rule target_changed_iff [THEN iffD2])
  then show ?thesis
    using use keeps version
    by (auto simp: k d' retarget_allowed_def updated_row_def device_row_of_def profile_use_def secret_version_after_def split: if_splits)
qed

lemma move_device_retarget:
  assumes "move_device h s addr now i f = Inr h'" and h: "hub_ok h"
    and d: "hm_get (hb_devices h) k = Some d" "hm_get (hb_devices h') k = Some d'"
    and moved: "device_target h' d' \<noteq> device_target h d"
  shows "retarget_allowed (load_catalog h now) (session_subject s) k d d'"
  using assms(1) hub_okD(1) [OF h]
proof (cases rule: move_device_Inr)
  case 1
  with d moved show ?thesis by simp
next
  case (2 b changed x)
  have same: "device_target h' e = device_target h e" for e
    by (rule device_target_same [OF hub_okD(1) [OF h] hub_okD(1) [OF move_device_ok [OF assms(1) h]]]) (simp add: 2(6))
  have k: "k = i" using moved d unfolding same by (auto simp: 2(6) hm.get_put split: if_splits)
  then have d': "d = b" "d' = b\<lparr>dv_folder := f, dv_host_key := (if changed then None else dv_host_key b),
      dv_certificate := (if changed then None else dv_certificate b)\<rparr>"
    using d 2(1) by (auto simp: 2(6) hm.get_put)
  with moved have changed using 2(3) unfolding same by (simp add: device_target_def reached_through_def)
  then show ?thesis using 2(4,5) hub_ok_devicesD [OF h 2(1)] by (auto simp: k d' retarget_allowed_def device_ok_def)
qed

section \<open>Properties\<close>


definition sample_ssh :: ssh_crate where
  "sample_ssh = \<lparr>sk_decode = (\<lambda>_ _. None), sk_certificate = (\<lambda>_. None)\<rparr>"

lemma sample_site: "checked_name ''site'' fld = Inr ''site''" "plain_text [] fld = Inr []"
proof -
  have "trim ''site'' = ''site''" by (rule trim_visible_ascii) code_simp
  moreover have "length (chars ''site'') = 4" "\<not> list_ex is_control (chars ''site'')" by code_simp+
  ultimately show "checked_name ''site'' fld = Inr ''site''" by (simp add: checked_name_def)
  have "trim [] = []" "chars [] = []" by code_simp+
  then show "plain_text [] fld = Inr []" by (simp add: plain_text_def)
qed

definition sample_input :: device_input where
  "sample_input = \<lparr>di_folder = 4, di_name = ''site'', di_protocol = ''ssh'', di_host = ''site'', di_port = 22, di_auth_mode = ''ask'', di_profile = None,
     di_description = [], di_keyboard_layout = None, di_connector_mode = None, di_connector = None, di_requires_confirmation = False,
     di_username = [], di_domain = [], di_secret_kind = None,
     di_secrets = \<lparr>in_password = None, in_private_key = None, in_passphrase = None, in_certificate = None\<rparr>\<rparr>"


end
