(* ===== verification/Credentials.thy ===== *)
theory Credentials
  imports Devices
begin

text \<open>
  Shared credentials and the collections they lie in: the handlers of \<^verbatim>\<open>crates/server/src/api/catalog.rs\<close>
  for credentials, their custom fields (\<^verbatim>\<open>crates/server/src/api/fields.rs\<close>) and
  \<^verbatim>\<open>crates/server/src/api/collections.rs\<close>. Every secret belongs to a version of its credential: a change of
  one makes a new version, into which what did not change is copied.
\<close>

section \<open>Custom fields\<close>

record field_input =
  fn_name :: string
  fn_protected :: bool
  fn_value :: "string option"

definition MAX_FIELDS :: nat where "MAX_FIELDS = 50"
definition MAX_FIELD_NAME :: nat where "MAX_FIELD_NAME = 100"
definition MAX_FIELD_VALUE :: nat where "MAX_FIELD_VALUE = 10000"

text \<open>What is stored in plain, what is sealed anew, and the names of those that keep their value.\<close>

record checked_fields =
  ch_stored :: "custom_field list"
  ch_sealed :: "(string \<times> string) list"
  ch_kept :: "string list"

definition secret_name :: "string \<Rightarrow> string" where
  "secret_name n = ''field:'' @ n"

definition field_text :: "string \<Rightarrow> nat \<Rightarrow> bool" where
  "field_text v limit \<longleftrightarrow> length (chars v) \<le> limit \<and> \<not> list_ex (\<lambda>c. is_control c \<and> c \<noteq> 10) (chars v)"

fun check_fields_loop :: "checked_fields \<Rightarrow> field_input list \<Rightarrow> problem + checked_fields" where
  "check_fields_loop acc [] = Inr acc"
| "check_fields_loop acc (f # fs) =
     (let n = trim (fn_name f) in
     and_then (ensure (\<not> (n = [] \<or> CHR 0x0A \<in> set n \<or> \<not> field_text n MAX_FIELD_NAME
         \<or> list_ex (\<lambda>k. fi_name k = n) (ch_stored acc))) (invalid ''fields'')) (\<lambda>_.
     and_then (ensure (case fn_value f of Some v \<Rightarrow> field_text v MAX_FIELD_VALUE | None \<Rightarrow> True) (invalid ''fields'')) (\<lambda>_.
       check_fields_loop
         \<lparr>ch_stored = ch_stored acc @ [\<lparr>fi_name = n, fi_protected = fn_protected f,
             fi_value = (if fn_protected f then None else Some (case fn_value f of Some v \<Rightarrow> v | None \<Rightarrow> []))\<rparr>],
          ch_sealed = ch_sealed acc @ (case fn_value f of Some v \<Rightarrow> if fn_protected f then [(n, v)] else [] | None \<Rightarrow> []),
          ch_kept = ch_kept acc @ (if fn_protected f \<and> fn_value f = None then [n] else [])\<rparr> fs)))"

definition check_fields :: "field_input list \<Rightarrow> problem + checked_fields" where
  "check_fields fs =
     and_then (ensure (length fs \<le> MAX_FIELDS) (invalid ''fields'')) (\<lambda>_.
       check_fields_loop \<lparr>ch_stored = [], ch_sealed = [], ch_kept = []\<rparr> fs)"

definition changes_secrets :: "checked_fields \<Rightarrow> custom_field list \<Rightarrow> bool" where
  "changes_secrets ch before \<longleftrightarrow> ch_sealed ch \<noteq> []
     \<or> sort (map fi_name (filter fi_protected (ch_stored ch))) \<noteq> sort (map fi_name (filter fi_protected before))"

definition keeps_only_what_was :: "checked_fields \<Rightarrow> custom_field list \<Rightarrow> bool" where
  "keeps_only_what_was ch before \<longleftrightarrow> list_all (\<lambda>n. list_ex (\<lambda>f. fi_protected f \<and> fi_name f = n) before) (ch_kept ch)"

section \<open>Checking a credential\<close>

record credential_input =
  ci_collection :: uuid
  ci_name :: string
  ci_username :: string
  ci_url :: string
  ci_notes :: string
  ci_icon :: int
  ci_fields :: "field_input list"
  ci_tags :: "string list"
  ci_expires_on :: "string option"
  ci_totp :: "string option"
  ci_secrets :: secret_input

record credential_details =
  cd_url :: string
  cd_notes :: string
  cd_icon :: int
  cd_fields :: checked_fields
  cd_tags :: "string list"
  cd_expires_on :: "string option"

definition trim_end :: "string \<Rightarrow> string" where
  "trim_end s = from_chars (rev (dropWhile is_whitespace (rev (chars s))))"

fun check_tags :: "string list \<Rightarrow> string list \<Rightarrow> problem + string list" where
  "check_tags acc [] = Inr acc"
| "check_tags acc (t # ts) =
     (let t = trim t in
     and_then (ensure (\<not> (t = [] \<or> length (chars t) > 50 \<or> list_ex is_control (chars t))) (invalid ''tags'')) (\<lambda>_.
       check_tags (if list_ex (\<lambda>k. eq_ignore_ascii_case k t) acc then acc else acc @ [t]) ts))"

text \<open>\<open>date\<close> is whether the \<open>time\<close> crate knows the day.\<close>

definition calendar_day :: "(int \<Rightarrow> nat \<Rightarrow> nat \<Rightarrow> bool) \<Rightarrow> string \<Rightarrow> string option" where
  "calendar_day date t =
     Option.bind (split_once CHR ''-'' t) (\<lambda>(y, rest).
     Option.bind (parse_signed 31 y) (\<lambda>year.
     if \<not> (1 \<le> year \<and> year \<le> 9999) then None else
     Option.bind (split_once CHR ''-'' rest) (\<lambda>(m, d).
     Option.bind (parse_unsigned 255 m) (\<lambda>month.
     Option.bind (parse_unsigned 255 d) (\<lambda>day.
       if date year month day
       then Some (zero_padded 4 (nat year) @ ''-'' @ zero_padded 2 month @ ''-'' @ zero_padded 2 day) else None)))))"

definition check_details :: "(int \<Rightarrow> nat \<Rightarrow> nat \<Rightarrow> bool) \<Rightarrow> credential_input \<Rightarrow> problem + credential_details" where
  "check_details date inp =
     (let url = trim (ci_url inp); notes = trim_end (ci_notes inp) in
     and_then (ensure (\<not> (length (chars url) > 2000 \<or> list_ex is_control (chars url))) (invalid ''url'')) (\<lambda>_.
     and_then (ensure (\<not> (length (chars notes) > 10000 \<or> list_ex (\<lambda>c. is_control c \<and> c \<noteq> 10) (chars notes))) (invalid ''notes'')) (\<lambda>_.
     and_then (ensure (0 \<le> ci_icon inp \<and> ci_icon inp \<le> 68) (invalid ''icon'')) (\<lambda>_.
     and_then (check_tags [] (ci_tags inp)) (\<lambda>tags.
     and_then (ensure (length tags \<le> 20) (invalid ''tags'')) (\<lambda>_.
     and_then (case non_empty (map_option trim (ci_expires_on inp)) of
          None \<Rightarrow> Inr None
        | Some d \<Rightarrow> (case calendar_day date d of Some t \<Rightarrow> Inr (Some t) | None \<Rightarrow> Inl (invalid ''expires_on''))) (\<lambda>expires.
     and_then (check_fields (ci_fields inp)) (\<lambda>fs.
       Inr \<lparr>cd_url = url, cd_notes = notes, cd_icon = ci_icon inp, cd_fields = fs, cd_tags = tags, cd_expires_on = expires\<rparr>))))))))"

text \<open>None to keep the sealed one, \<open>Some None\<close> to remove it.\<close>

definition totp_input :: "server \<Rightarrow> credential_input \<Rightarrow> problem + string option option" where
  "totp_input sv inp =
     (case ci_totp inp of
        None \<Rightarrow> Inr None
      | Some t \<Rightarrow>
          if trim t = [] then Inr (Some None)
          else if params_parse (sv_b32_decode sv) t = None then Inl (invalid ''totp'')
          else Inr (Some (Some (trim t))))"

definition credential_taken :: "hub \<Rightarrow> uuid \<Rightarrow> uuid \<Rightarrow> string \<Rightarrow> bool" where
  "credential_taken h i k n \<longleftrightarrow> list_ex (\<lambda>(j, r). j \<noteq> i \<and> cr_collection r = k \<and> cr_name r = n) (hb_credentials h)"

definition sealed_fields :: "checked_fields \<Rightarrow> (string \<times> bytes) list" where
  "sealed_fields ch = map (\<lambda>(n, v). (secret_name n, as_bytes v)) (ch_sealed ch)"

definition totp_fields :: "string option \<Rightarrow> (string \<times> bytes) list" where
  "totp_fields t = (case t of Some t \<Rightarrow> [(TOTP_FIELD, as_bytes t)] | None \<Rightarrow> [])"

section \<open>Handlers of credentials\<close>

definition create_credential ::
  "server \<Rightarrow> ssh_crate \<Rightarrow> (int \<Rightarrow> nat \<Rightarrow> nat \<Rightarrow> bool) \<Rightarrow> (string \<Rightarrow> seal_randomness) \<Rightarrow> hub \<Rightarrow> session \<Rightarrow> string \<Rightarrow> instant \<Rightarrow> uuid
    \<Rightarrow> credential_input \<Rightarrow> problem + (hub \<times> uuid)" where
  "create_credential sv sk date rnd h s addr now i inp =
     and_then (checked_name (ci_name inp) ''name'') (\<lambda>n.
     and_then (plain_text (ci_username inp) ''username'') (\<lambda>user.
     and_then (new_secrets sk ''password'' (ci_secrets inp)) (\<lambda>given.
     and_then (ensure (given \<noteq> None) (invalid ''password'')) (\<lambda>_.
     and_then (check_details date inp) (\<lambda>d.
     and_then (totp_input sv inp) (\<lambda>t.
     (let totp = Option.bind t (\<lambda>x. x) in
     and_then (ensure (ch_kept (cd_fields d) = []) (invalid ''fields'')) (\<lambda>_.
     (let c = load_catalog h now; sub = session_subject s in
     and_then (require c sub Edit (Collection (ci_collection inp))) (\<lambda>_.
     and_then (ensure (hm_get (hb_credentials h) i = None \<and> \<not> credential_taken h i (ci_collection inp) n) (problem NameTaken)) (\<lambda>_.
     and_then (seal_version sv rnd i 1 given (h\<lparr>hb_credentials := hm_insert i
          \<lparr>cr_collection = ci_collection inp, cr_name = n, cr_username = user, cr_version = 1, cr_url = cd_url d, cr_notes = cd_notes d,
           cr_icon = cd_icon d, cr_fields = ch_stored (cd_fields d), cr_tags = cd_tags d, cr_expires_on = cd_expires_on d,
           cr_has_totp = (totp \<noteq> None), cr_deleted = None\<rparr> (hb_credentials h)\<rparr>)) (\<lambda>h.
     and_then (hub_store_all sv rnd i 1 (sealed_fields (cd_fields d)) h) (\<lambda>h.
     and_then (hub_store_all sv rnd i 1 (totp_fields totp) h) (\<lambda>h.
       Inr (hub_audit h (audit_object s ''credential.created'' (Credential i)
              [(''name'', JText n), (''username'', JText user), (''tags'', JList (map JText (cd_tags d))),
               (''expires_on'', json_text (cd_expires_on d)), (''has_totp'', JBool (totp \<noteq> None))] addr), i)))))))))))))))"

text \<open>Copies sealed fields of one version into another.\<close>

fun carry :: "server \<Rightarrow> (string \<Rightarrow> seal_randomness) \<Rightarrow> uuid \<Rightarrow> int \<Rightarrow> int \<Rightarrow> string list \<Rightarrow> hub \<Rightarrow> problem + hub" where
  "carry sv rnd i v w [] h = Inr h"
| "carry sv rnd i v w (n # ns) h =
     and_then (hub_load sv h i v n) (\<lambda>found.
     and_then (case found of Some plain \<Rightarrow> hub_store sv rnd i w n plain h | None \<Rightarrow> Inr h) (carry sv rnd i v w ns))"

definition update_credential ::
  "server \<Rightarrow> ssh_crate \<Rightarrow> (int \<Rightarrow> nat \<Rightarrow> nat \<Rightarrow> bool) \<Rightarrow> (string \<Rightarrow> seal_randomness) \<Rightarrow> hub \<Rightarrow> session \<Rightarrow> string \<Rightarrow> instant \<Rightarrow> uuid
    \<Rightarrow> credential_input \<Rightarrow> problem + hub" where
  "update_credential sv sk date rnd h s addr now i inp =
     and_then (checked_name (ci_name inp) ''name'') (\<lambda>n.
     and_then (plain_text (ci_username inp) ''username'') (\<lambda>user.
     (let c = load_catalog h now; sub = session_subject s in
     and_then (require c sub Edit (Credential i)) (\<lambda>_.
     and_then (if parent c (Credential i) \<noteq> Some (ci_collection inp) then require c sub Edit (Collection (ci_collection inp)) else Inr ()) (\<lambda>_.
     and_then (case hm_get (hb_credentials h) i of Some r \<Rightarrow> Inr r | None \<Rightarrow> Inl (problem Internal)) (\<lambda>before.
     and_then (new_secrets sk ''password'' (ci_secrets inp)) (\<lambda>given.
     and_then (check_details date inp) (\<lambda>d.
     and_then (totp_input sv inp) (\<lambda>totp.
     and_then (ensure (keeps_only_what_was (cd_fields d) (cr_fields before)) (invalid ''fields'')) (\<lambda>_.
     (let fields_changed = changes_secrets (cd_fields d) (cr_fields before);
          totp_changed = ((case totp of Some (Some _) \<Rightarrow> True | _ \<Rightarrow> False) \<or> cr_has_totp before \<and> totp = Some None);
          changed = (given \<noteq> None \<or> fields_changed \<or> totp_changed);
          has_totp = (case totp of None \<Rightarrow> cr_has_totp before | Some t \<Rightarrow> t \<noteq> None);
          version = cr_version before + (if changed then 1 else 0);
          kept = map secret_name (ch_kept (cd_fields d)) @ (if given = None then [PASSWORD_FIELD] else [])
            @ (if totp = None \<and> cr_has_totp before then [TOTP_FIELD] else []) in
     and_then (ensure (\<not> credential_taken h i (ci_collection inp) n) (problem NameTaken)) (\<lambda>_.
     (let h = h\<lparr>hb_credentials := hm_update i (\<lambda>r. r\<lparr>cr_collection := ci_collection inp, cr_name := n, cr_username := user,
              cr_url := cd_url d, cr_notes := cd_notes d, cr_icon := cd_icon d, cr_fields := ch_stored (cd_fields d), cr_tags := cd_tags d,
              cr_expires_on := cd_expires_on d, cr_has_totp := has_totp, cr_version := version\<rparr>) (hb_credentials h)\<rparr> in
     and_then (if changed then and_then (carry sv rnd i (cr_version before) version kept h)
            (hub_store_all sv rnd i version (sealed_fields (cd_fields d))) else Inr h) (\<lambda>h.
     and_then (seal_version sv rnd i version given h) (\<lambda>h.
     and_then (hub_store_all sv rnd i version (totp_fields (Option.bind totp (\<lambda>x. x))) h) (\<lambda>h.
       Inr (hub_audit h (audit_object s ''credential.updated'' (Credential i)
              [(''name'', JText n), (''username'', JText user), (''tags'', JList (map JText (cd_tags d))),
               (''expires_on'', json_text (cd_expires_on d)), (''has_totp'', JBool has_totp),
               (''collection_id'', JText (uuid_show (ci_collection inp))), (''secret_changed'', JBool (given \<noteq> None)),
               (''fields_changed'', JBool fields_changed), (''totp_changed'', JBool totp_changed)] addr))))))))))))))))))"

definition purge_credentials :: "uuid list \<Rightarrow> hub \<Rightarrow> hub" where
  "purge_credentials is h =
     (let files = map fst (filter (\<lambda>(_, k). k \<in> set is) (hb_attachments h));
          h = drop_secrets (\<lambda>owner _. owner \<in> set files) h;
          h = drop_secrets (\<lambda>owner _. owner \<in> set is) h
      in h\<lparr>hb_grants := filter (\<lambda>(_, g). case gr_credential g of Some k \<Rightarrow> k \<notin> set is | None \<Rightarrow> True) (hb_grants h),
           hb_requests := filter (\<lambda>(_, r). case rq_credential r of Some k \<Rightarrow> k \<notin> set is | None \<Rightarrow> True) (hb_requests h),
           hb_attachments := filter (\<lambda>(_, k). k \<notin> set is) (hb_attachments h),
           hb_credentials := filter (\<lambda>(i, _). i \<notin> set is) (hb_credentials h)\<rparr>)"

definition delete_credential :: "hub \<Rightarrow> session \<Rightarrow> string \<Rightarrow> instant \<Rightarrow> uuid \<Rightarrow> bool \<Rightarrow> problem + hub" where
  "delete_credential h s addr now i purged =
     (let c = load_catalog h now; sub = session_subject s;
          e = audit_object s ''credential.deleted'' (Credential i) [(''purged'', JBool purged)] addr in
     and_then (require c sub Edit (Credential i)) (\<lambda>_.
       if purged then Inr (hub_audit (purge_credentials [i] h) e)
       else case hm_get (hb_credentials h) i of
              Some r \<Rightarrow> if cr_deleted r = None
                then Inr (hub_audit (h\<lparr>hb_credentials := hm_update i (\<lambda>r. r\<lparr>cr_deleted := Some now\<rparr>) (hb_credentials h)\<rparr>) e) else Inr h
            | None \<Rightarrow> Inr h))"

definition restore_credential :: "hub \<Rightarrow> session \<Rightarrow> string \<Rightarrow> instant \<Rightarrow> uuid \<Rightarrow> problem + hub" where
  "restore_credential h s addr now i =
     (let c = load_catalog h now; sub = session_subject s in
     and_then (require c sub Edit (Credential i)) (\<lambda>_.
     and_then (ensure (case hm_get (hb_credentials h) i of Some r \<Rightarrow> cr_deleted r \<noteq> None | None \<Rightarrow> False) (invalid ''id'')) (\<lambda>_.
       Inr (hub_audit (h\<lparr>hb_credentials := hm_update i (\<lambda>r. r\<lparr>cr_deleted := None\<rparr>) (hb_credentials h)\<rparr>)
              (audit_object s ''credential.restored'' (Credential i) [] addr)))))"

section \<open>Collections\<close>

definition collection_taken :: "hub \<Rightarrow> uuid \<Rightarrow> uuid option \<Rightarrow> string \<Rightarrow> bool" where
  "collection_taken h i p n \<longleftrightarrow> list_ex (\<lambda>(j, r). j \<noteq> i \<and> co_parent r = p \<and> co_name r = n) (hb_collections h)"

definition collection_place :: "catalog \<Rightarrow> subject \<Rightarrow> uuid option \<Rightarrow> problem + unit" where
  "collection_place c sub p =
     (case p of
        None \<Rightarrow> if may_create_top_level c sub then Inr () else Inl (problem Forbidden)
      | Some k \<Rightarrow> require c sub Manage (Collection k))"

definition create_collection :: "hub \<Rightarrow> session \<Rightarrow> string \<Rightarrow> instant \<Rightarrow> uuid \<Rightarrow> uuid option \<Rightarrow> string \<Rightarrow> problem + (hub \<times> uuid)" where
  "create_collection h s addr now i p name =
     and_then (checked_name name ''name'') (\<lambda>n.
     (let c = load_catalog h now; sub = session_subject s in
     and_then (collection_place c sub p) (\<lambda>_.
     and_then (ensure (hm_get (hb_collections h) i = None \<and> \<not> collection_taken h i p n) (problem NameTaken)) (\<lambda>_.
       Inr (hub_audit (h\<lparr>hb_collections := hm_insert i \<lparr>co_parent = p, co_name = n\<rparr> (hb_collections h)\<rparr>)
              (audit_object s ''collection.created'' (Collection i) [(''name'', JText n), (''parent_id'', json_uuid p)] addr), i)))))"

definition update_collection ::
  "hub \<Rightarrow> session \<Rightarrow> string \<Rightarrow> instant \<Rightarrow> uuid \<Rightarrow> string option \<Rightarrow> uuid option option \<Rightarrow> problem + hub" where
  "update_collection h s addr now i name place =
     (let c = load_catalog h now; sub = session_subject s in
     and_then (require c sub Manage (Collection i)) (\<lambda>_.
     and_then (case name of None \<Rightarrow> Inr None | Some n \<Rightarrow> and_then (checked_name n ''name'') (\<lambda>n. Inr (Some n))) (\<lambda>n.
     and_then (case place of
          None \<Rightarrow> Inr ()
        | Some p \<Rightarrow> and_then (collection_place c sub p) (\<lambda>_.
            ensure (case p of Some k \<Rightarrow> \<not> is_within_collection c k i | None \<Rightarrow> True) (invalid ''parent_id''))) (\<lambda>_.
     (let h = h\<lparr>hb_collections := hm_update i (\<lambda>r. r\<lparr>co_name := (case n of Some n \<Rightarrow> n | None \<Rightarrow> co_name r),
              co_parent := (case place of Some p \<Rightarrow> p | None \<Rightarrow> co_parent r)\<rparr>) (hb_collections h)\<rparr> in
     and_then (ensure (case hm_get (hb_collections h) i of Some r \<Rightarrow> \<not> collection_taken h i (co_parent r) (co_name r) | None \<Rightarrow> True)
         (problem NameTaken)) (\<lambda>_.
       Inr (hub_audit h (audit_object s ''collection.updated'' (Collection i)
              [(''name'', json_text n), (''parent_id'', json_uuid (Option.bind place (\<lambda>p. p)))] addr))))))))"

definition delete_collection :: "hub \<Rightarrow> session \<Rightarrow> string \<Rightarrow> instant \<Rightarrow> uuid \<Rightarrow> problem + hub" where
  "delete_collection h s addr now i =
     (let c = load_catalog h now; sub = session_subject s in
     and_then (require c sub Manage (Collection i)) (\<lambda>_.
     (let binned = map fst (filter (\<lambda>(_, r). cr_collection r = i \<and> cr_deleted r \<noteq> None) (hb_credentials h));
          h = purge_credentials binned h in
     and_then (ensure (\<not> (list_ex (\<lambda>(_, r). co_parent r = Some i) (hb_collections h)
          \<or> list_ex (\<lambda>(_, r). cr_collection r = i) (hb_credentials h))) (problem FolderNotEmpty)) (\<lambda>_.
       Inr (hub_audit (h\<lparr>hb_grants := filter (\<lambda>(_, g). gr_collection g \<noteq> Some i) (hb_grants h),
               hb_collections := hm_remove i (hb_collections h)\<rparr>)
              (audit_object s ''collection.deleted'' (Collection i) [(''purged'', JNumber (int (length binned)))] addr))))))"

section \<open>What the check of the fields leaves\<close>

text \<open>
  What the check of the fields leaves: one field for each name, a protected one without its value, and
  the values to seal and the names that keep theirs apart, all of protected fields.
\<close>

definition fields_split :: "checked_fields \<Rightarrow> bool" where
  "fields_split ch \<longleftrightarrow> distinct (map fi_name (ch_stored ch))
     \<and> (\<forall>f \<in> set (ch_stored ch). fi_protected f \<longleftrightarrow> fi_value f = None)
     \<and> distinct (map fst (ch_sealed ch) @ ch_kept ch)
     \<and> set (map fst (ch_sealed ch) @ ch_kept ch) = set (map fi_name (filter fi_protected (ch_stored ch)))"

lemma check_fields_loop_split:
  "check_fields_loop acc fs = Inr ch \<Longrightarrow> fields_split acc \<Longrightarrow> fields_split ch"
proof (induction acc fs rule: check_fields_loop.induct)
  case (2 acc f fs)
  let ?n = "trim (fn_name f)"
  let ?new = "\<lparr>ch_stored = ch_stored acc @ [\<lparr>fi_name = ?n, fi_protected = fn_protected f,
             fi_value = (if fn_protected f then None else Some (case fn_value f of Some v \<Rightarrow> v | None \<Rightarrow> []))\<rparr>],
          ch_sealed = ch_sealed acc @ (case fn_value f of Some v \<Rightarrow> if fn_protected f then [(?n, v)] else [] | None \<Rightarrow> []),
          ch_kept = ch_kept acc @ (if fn_protected f \<and> fn_value f = None then [?n] else [])\<rparr>"
  from "2.prems"(1) have new: "?n \<notin> fi_name ` set (ch_stored acc)" and rest: "check_fields_loop ?new fs = Inr ch"
    by (auto simp: Let_def list_ex_iff)
  have names: "?n \<notin> set (map fst (ch_sealed acc) @ ch_kept acc)"
    using new "2.prems"(2) by (auto simp: fields_split_def)
  have "fields_split ?new"
    using "2.prems"(2) new names by (cases "fn_value f"; cases "fn_protected f") (auto simp: fields_split_def)
  with rest show ?case
    using "2.prems"(1) by (intro "2.IH" [OF refl]) (auto simp: Let_def)
qed simp

lemma check_fields_split: "check_fields fs = Inr ch \<Longrightarrow> fields_split ch"
  unfolding check_fields_def passed by (elim conjE, erule check_fields_loop_split) (simp add: fields_split_def)

section \<open>The tables stay right\<close>

lemma unreferencedI:
  assumes "hm_ok gs" and "hm_ok rs" and "hb_grants h = filter P gs" and "hb_requests h = filter Q rs"
    and "\<And>i g. P (i, g) \<Longrightarrow> row_object g \<noteq> Some x"
    and "\<And>i r. Q (i, r) \<Longrightarrow> request_object (rq_folder r) (rq_device r) (rq_credential r) \<noteq> Some x"
  shows "unreferenced h x"
  using assms filter_rowsD [OF assms(1)] filter_rowsD [OF assms(2)] unfolding unreferenced_def by metis

lemma carry_db: "carry sv rnd i v w ns h = Inr h' \<Longrightarrow> \<exists>x. h' = h\<lparr>hb_db := x\<rparr>"
proof (induction sv rnd i v w ns h rule: carry.induct)
  case (1 sv rnd i v w h)
  then have "h' = h\<lparr>hb_db := hb_db h\<rparr>" by simp
  then show ?case ..
next
  case (2 sv rnd i v w n ns h)
  then obtain found k where found: "hub_load sv h i v n = Inr found"
    and k: "(case found of Some plain \<Rightarrow> hub_store sv rnd i w n plain h | None \<Rightarrow> Inr h) = Inr k" and "\<exists>x. h' = k\<lparr>hb_db := x\<rparr>"
    by auto
  moreover have "\<exists>x. k = h\<lparr>hb_db := x\<rparr>"
  proof (cases found)
    case None
    with k have "k = h\<lparr>hb_db := hb_db h\<rparr>" by simp
    then show ?thesis ..
  qed (use k hub_store_db in auto)
  ultimately show ?case by auto
qed

lemma put_credential_ok:
  "hub_ok h \<Longrightarrow> credential_ok h r \<Longrightarrow> hub_ok (h\<lparr>hb_credentials := hm_insert i r (hb_credentials h)\<rparr>)"
  by (rule hub_ok_credentials) (auto simp: hub_ok_tables hm.ok_put hm.get_put hub_ok_credentialsD split: if_splits)

lemma check_details_split:
  assumes "check_details date inp = Inr d"
  shows "fields_split (cd_fields d)"
proof -
  from assms have "check_fields (ci_fields inp) = Inr (cd_fields d)"
    unfolding check_details_def Let_def passed by (elim exE conjE) (hypsubst, simp)
  then show ?thesis by (rule check_fields_split)
qed

lemma create_credential_Inr:
  assumes "create_credential sv sk date rnd h s addr now i inp = Inr (h', j)"
  obtains n user d totp x where "check_details date inp = Inr d" "hm_get (hb_credentials h) i = None"
    "authorize (load_catalog h now) (session_subject s) Edit (Collection (ci_collection inp))"
    "h' = h\<lparr>hb_credentials := hm_insert i
          \<lparr>cr_collection = ci_collection inp, cr_name = n, cr_username = user, cr_version = 1, cr_url = cd_url d, cr_notes = cd_notes d,
           cr_icon = cd_icon d, cr_fields = ch_stored (cd_fields d), cr_tags = cd_tags d, cr_expires_on = cd_expires_on d,
           cr_has_totp = totp, cr_deleted = None\<rparr> (hb_credentials h), hb_db := x\<rparr>"
proof -
  let ?r = "\<lambda>n user (d :: credential_details) t. \<lparr>cr_collection = ci_collection inp, cr_name = n, cr_username = user, cr_version = 1, cr_url = cd_url d, cr_notes = cd_notes d,
           cr_icon = cd_icon d, cr_fields = ch_stored (cd_fields d), cr_tags = cd_tags d, cr_expires_on = cd_expires_on d,
           cr_has_totp = (Option.bind t (\<lambda>x. x) \<noteq> None), cr_deleted = None\<rparr>"
  from assms obtain n user given d t k l m e where d: "check_details date inp = Inr d"
    and a: "authorize (load_catalog h now) (session_subject s) Edit (Collection (ci_collection inp))"
    and new: "hm_get (hb_credentials h) i = None"
    and k: "seal_version sv rnd i 1 given (h\<lparr>hb_credentials := hm_insert i (?r n user d t) (hb_credentials h)\<rparr>) = Inr k"
    and l: "hub_store_all sv rnd i 1 (sealed_fields (cd_fields d)) k = Inr l"
    and m: "hub_store_all sv rnd i 1 (totp_fields (Option.bind t (\<lambda>x. x))) l = Inr m" and h': "hub_audit m e = h'"
    unfolding create_credential_def Let_def passed by (elim exE conjE) (rule that, (assumption | rule refl)+)
  from seal_version_db [OF k] hub_store_all_db [OF l] hub_store_all_db [OF m] h'
  obtain x where "h' = h\<lparr>hb_credentials := hm_insert i (?r n user d t) (hb_credentials h), hb_db := x\<rparr>"
    by (auto simp: hub_audit_def)
  with d new a show thesis by (rule that)
qed

lemma create_credential_ok:
  assumes "create_credential sv sk date rnd h s addr now i inp = Inr (h', j)" and h: "hub_ok h"
  shows "hub_ok h'"
  using assms(1)
proof (rule create_credential_Inr)
  fix n user totp x and d :: credential_details
  let ?r = "\<lparr>cr_collection = ci_collection inp, cr_name = n, cr_username = user, cr_version = 1, cr_url = cd_url d, cr_notes = cd_notes d,
           cr_icon = cd_icon d, cr_fields = ch_stored (cd_fields d), cr_tags = cd_tags d, cr_expires_on = cd_expires_on d,
           cr_has_totp = totp, cr_deleted = None\<rparr>"
  assume d: "check_details date inp = Inr d" and a: "authorize (load_catalog h now) (session_subject s) Edit (Collection (ci_collection inp))"
    and h': "h' = h\<lparr>hb_credentials := hm_insert i ?r (hb_credentials h), hb_db := x\<rparr>"
  have "credential_ok h ?r"
    using authorized_has [OF hub_okD(1) [OF h] a] check_details_split [OF d] by (auto simp: credential_ok_def fields_split_def)
  then show ?thesis unfolding h' hub_ok_db by (rule put_credential_ok [OF h])
qed

lemma update_credential_Inr:
  assumes "update_credential sv sk date rnd h s addr now i inp = Inr h'" and t: "tables_ok h"
  obtains n user d totp version before x where "check_details date inp = Inr d" "hm_get (hb_credentials h) i = Some before"
    "cr_collection before = ci_collection inp \<or> hub_has h (Collection (ci_collection inp))" "version \<ge> cr_version before"
    "h' = h\<lparr>hb_credentials := hm_insert i (before\<lparr>cr_collection := ci_collection inp, cr_name := n, cr_username := user,
              cr_url := cd_url d, cr_notes := cd_notes d, cr_icon := cd_icon d, cr_fields := ch_stored (cd_fields d), cr_tags := cd_tags d,
              cr_expires_on := cd_expires_on d, cr_has_totp := totp, cr_version := version\<rparr>) (hb_credentials h), hb_db := x\<rparr>"
proof -
  let ?c = "load_catalog h now" and ?sub = "session_subject s"
  let ?f = "\<lambda>n user (d :: credential_details) totp version r. r\<lparr>cr_collection := ci_collection inp, cr_name := n, cr_username := user,
              cr_url := cd_url d, cr_notes := cd_notes d, cr_icon := cd_icon d, cr_fields := ch_stored (cd_fields d), cr_tags := cd_tags d,
              cr_expires_on := cd_expires_on d, cr_has_totp := totp, cr_version := version\<rparr>"
  from assms(1) obtain n user d totp changed version before given fs ns w k l m e where d: "check_details date inp = Inr d"
    and f: "(if parent ?c (Credential i) \<noteq> Some (ci_collection inp) then require ?c ?sub Edit (Collection (ci_collection inp)) else Inr ()) = Inr ()"
    and b: "(case hm_get (hb_credentials h) i of Some r \<Rightarrow> Inr r | None \<Rightarrow> Inl (problem Internal)) = Inr before"
    and v: "version = cr_version before + (if changed then 1 else 0)"
    and k: "(if changed then and_then (carry sv rnd i (cr_version before) version ns
          (h\<lparr>hb_credentials := hm_update i (?f n user d totp version) (hb_credentials h)\<rparr>))
          (hub_store_all sv rnd i version (sealed_fields (cd_fields d)))
        else Inr (h\<lparr>hb_credentials := hm_update i (?f n user d totp version) (hb_credentials h)\<rparr>)) = Inr k"
    and l: "seal_version sv rnd i version given k = Inr l" and m: "hub_store_all sv rnd i version fs l = Inr m" and h': "hub_audit m e = h'"
    unfolding update_credential_def Let_def passed by (elim exE conjE) (rule that, (assumption | rule refl)+)
  from b have before: "hm_get (hb_credentials h) i = Some before" by (simp split: option.splits)
  have "cr_collection before = ci_collection inp \<or> hub_has h (Collection (ci_collection inp))"
    using f before authorized_has [OF t, of now ?sub Edit]
    by (auto simp: load_catalog_def parent_tables [OF t] split: if_splits)
  moreover obtain z where "k = h\<lparr>hb_credentials := hm_insert i (?f n user d totp version before) (hb_credentials h), hb_db := z\<rparr>"
  proof (cases changed)
    case True
    with k obtain y where "carry sv rnd i (cr_version before) version ns (h\<lparr>hb_credentials := hm_insert i (?f n user d totp version before) (hb_credentials h)\<rparr>) = Inr y"
      and "hub_store_all sv rnd i version (sealed_fields (cd_fields d)) y = Inr k"
      by (auto simp: hm_update_insert [OF before])
    from carry_db [OF this(1)] hub_store_all_db [OF this(2)] show thesis by (auto intro: that)
  next
    case False
    with k have "k = h\<lparr>hb_credentials := hm_insert i (?f n user d totp version before) (hb_credentials h), hb_db := hb_db h\<rparr>"
      by (auto simp: hm_update_insert [OF before])
    then show thesis by (rule that)
  qed
  then obtain x where "h' = h\<lparr>hb_credentials := hm_insert i (?f n user d totp version before) (hb_credentials h), hb_db := x\<rparr>"
    using seal_version_db [OF l] hub_store_all_db [OF m] h' by (auto simp: hub_audit_def)
  ultimately show thesis using v by (intro that [OF d before]) auto
qed

lemma update_credential_ok:
  assumes "update_credential sv sk date rnd h s addr now i inp = Inr h'" and h: "hub_ok h"
  shows "hub_ok h'"
  using assms(1) hub_okD(1) [OF h]
proof (rule update_credential_Inr)
  fix n user totp version x and d :: credential_details and before :: credential_row
  let ?r = "before\<lparr>cr_collection := ci_collection inp, cr_name := n, cr_username := user,
              cr_url := cd_url d, cr_notes := cd_notes d, cr_icon := cd_icon d, cr_fields := ch_stored (cd_fields d), cr_tags := cd_tags d,
              cr_expires_on := cd_expires_on d, cr_has_totp := totp, cr_version := version\<rparr>"
  assume d: "check_details date inp = Inr d" and before: "hm_get (hb_credentials h) i = Some before"
    and f: "cr_collection before = ci_collection inp \<or> hub_has h (Collection (ci_collection inp))" and v: "version \<ge> cr_version before"
    and h': "h' = h\<lparr>hb_credentials := hm_insert i ?r (hb_credentials h), hb_db := x\<rparr>"
  have "credential_ok h ?r"
    using f v hub_ok_credentialsD [OF h before] check_details_split [OF d] by (auto simp: credential_ok_def fields_split_def)
  then show ?thesis unfolding h' hub_ok_db by (rule put_credential_ok [OF h])
qed

lemma hub_ok_attachments:
  "hub_ok h \<Longrightarrow> hm_ok m \<Longrightarrow> (\<And>i k. hm_get m i = Some k \<Longrightarrow> hub_has h (Credential k)) \<Longrightarrow> hub_ok (h\<lparr>hb_attachments := m\<rparr>)"
  by (simp add: hub_ok_def row_ok_defs tables_ok_def)

lemma hub_ok_attachmentsD: "hub_ok h \<Longrightarrow> hm_get (hb_attachments h) i = Some k \<Longrightarrow> hub_has h (Credential k)"
  by (simp add: hub_ok_def)

text \<open>Credentials go together with everything that refers to them.\<close>

lemma remove_credentials_ok:
  assumes h: "hub_ok h" and u: "\<And>x. P x \<Longrightarrow> unreferenced h (Credential x)"
    and files: "\<And>i k. hm_get (hb_attachments h) i = Some k \<Longrightarrow> \<not> P k"
  shows "hub_ok (h\<lparr>hb_credentials := filter (\<lambda>(i, _). \<not> P i) (hb_credentials h)\<rparr>)" (is "hub_ok ?h")
proof -
  note t = hub_ok_tables [OF h]
  have has: "hub_has ?h y" if "\<And>x. P x \<Longrightarrow> y \<noteq> Credential x" "hub_has h y" for y
    using that by (cases y) (auto simp: hub_has.simps hm_get_filter [OF t(5)] split: option.splits)
  have "credential_ok ?h r" if "hm_get (hb_credentials ?h) k = Some r" for k r
    using that hub_ok_credentialsD [OF h, of k] by (auto simp: credential_ok_def dest: filter_rowsD [OF t(5)])
  moreover have "grant_ok ?h g" if "hm_get (hb_grants h) k = Some g" for k g
    using hub_ok_grantsD [OF h that] u that by (auto simp: grant_ok_def unreferenced_def intro!: has)
  moreover have "request_ok ?h r" if "hm_get (hb_requests h) k = Some r" for k r
    using hub_ok_requestsD [OF h that] u that by (auto simp: request_ok_def unreferenced_def intro!: has)
  moreover have "hub_has ?h (Credential k)" if "hm_get (hb_attachments h) j = Some k" for j k
    using that files hub_ok_attachmentsD [OF h that] by (intro has) auto
  ultimately show ?thesis
    using h by (simp add: hub_ok_def tables_ok_def folders_ok_def collections_ok_def parents_exist_def profile_ok_def device_ok_def profile_suits_def)
qed

lemma purge_credentials_ok: "hub_ok h \<Longrightarrow> hub_ok (purge_credentials gone h)"
proof -
  assume "hub_ok h"
  let ?d = "drop_secrets (\<lambda>owner _. owner \<in> set gone) (drop_secrets (\<lambda>owner _. owner \<in> set (map fst (filter (\<lambda>(_, k). k \<in> set gone) (hb_attachments h)))) h)"
  let ?g = "?d\<lparr>hb_grants := filter (\<lambda>(_, g). case gr_credential g of Some k \<Rightarrow> k \<notin> set gone | None \<Rightarrow> True) (hb_grants ?d),
           hb_requests := filter (\<lambda>(_, r). case rq_credential r of Some k \<Rightarrow> k \<notin> set gone | None \<Rightarrow> True) (hb_requests ?d)\<rparr>"
  let ?a = "?g\<lparr>hb_attachments := filter (\<lambda>(_, k). k \<notin> set gone) (hb_attachments ?g)\<rparr>"
  from \<open>hub_ok h\<close> have d: "hub_ok ?d" by simp
  then have g: "hub_ok ?g" by (rule hub_ok_cascade)
  note t = hub_ok_tables [OF g]
  have "hub_ok ?a"
  proof (rule hub_ok_attachments [OF g])
    fix j k
    assume "hm_get (filter (\<lambda>(_, k). k \<notin> set gone) (hb_attachments ?g)) j = Some k"
    from filter_rowsD [OF t(6) this] show "hub_has ?g (Credential k)" by (blast intro: hub_ok_attachmentsD [OF g])
  qed (rule hm_ok_filter [OF t(6)])
  moreover have "unreferenced ?a (Credential x)" if "x \<in> set gone" for x
    by (rule unreferencedI [OF hub_ok_tables(7) [OF d] hub_ok_tables(8) [OF d],
          where P = "\<lambda>(_, g). case gr_credential g of Some k \<Rightarrow> k \<notin> set gone | None \<Rightarrow> True"
            and Q = "\<lambda>(_, r). case rq_credential r of Some k \<Rightarrow> k \<notin> set gone | None \<Rightarrow> True"])
      (use that in \<open>auto simp: row_object_def request_object_def grant_object_iffs\<close>)
  moreover have "k \<notin> set gone" if "hm_get (hb_attachments ?a) i = Some k" for i k
    using filter_rowsD [OF t(6)] that by force
  ultimately have "hub_ok (?a\<lparr>hb_credentials := filter (\<lambda>(i, _). \<not> i \<in> set gone) (hb_credentials ?a)\<rparr>)"
    by (rule remove_credentials_ok [where P = "\<lambda>i. i \<in> set gone"])
  then show "hub_ok (purge_credentials gone h)" by (simp add: purge_credentials_def Let_def drop_secrets_def)
qed

lemma credential_deleted_ok [simp]: "credential_ok h (r\<lparr>cr_deleted := d\<rparr>) = credential_ok h r"
  by (simp add: credential_ok_def)

lemma mark_deleted_ok:
  assumes h: "hub_ok h"
  shows "hub_ok (h\<lparr>hb_credentials := hm_update i (\<lambda>r. r\<lparr>cr_deleted := d\<rparr>) (hb_credentials h)\<rparr>)"
proof (cases "hm_get (hb_credentials h) i")
  case None
  then show ?thesis using h by (simp add: hm_update_def)
next
  case (Some r)
  then show ?thesis using put_credential_ok [OF h] hub_ok_credentialsD [OF h Some] by (simp add: hm_update_insert)
qed

lemma delete_credential_ok: "delete_credential h s addr now i purged = Inr h' \<Longrightarrow> hub_ok h \<Longrightarrow> hub_ok h'"
  by (auto simp: delete_credential_def Let_def purge_credentials_ok mark_deleted_ok split: if_splits option.splits)

lemma restore_credential_ok: "restore_credential h s addr now i = Inr h' \<Longrightarrow> hub_ok h \<Longrightarrow> hub_ok h'"
  by (auto simp: restore_credential_def Let_def mark_deleted_ok)

section \<open>The collections stay a tree\<close>

lemma put_collection_ok:
  assumes h: "hub_ok h" and p: "\<And>p. co_parent r = Some p \<Longrightarrow> hub_has h (Collection p) \<and> (p, i) \<notin> (collection_edges h)\<^sup>*"
  shows "hub_ok (h\<lparr>hb_collections := hm_insert i r (hb_collections h)\<rparr>)" (is "hub_ok ?h")
proof -
  have old: "acyclic (collection_edges h)" "\<And>a b. (a, b) \<in> collection_edges h \<Longrightarrow> hub_has h (Collection b)"
    using h by (auto simp: hub_ok_def collections_ok_def)
  have edges: "collection_edges ?h = {(a, b) \<in> collection_edges h. a \<noteq> i} \<union> {i} \<times> set_option (co_parent r)"
    by (simp add: collection_edges_put)
  have has: "hub_has h (Collection a) \<Longrightarrow> hub_has ?h (Collection a)" for a
    by (simp add: hub_has.simps hm.get_put)
  have "acyclic (collection_edges ?h)" unfolding edges using old(1) p by (intro acyclic_reparent) auto
  moreover have "\<forall>a b. (a, b) \<in> collection_edges ?h \<longrightarrow> hub_has ?h (Collection b)"
    unfolding edges using old(2) p has by auto
  ultimately show ?thesis
    by (intro hub_ok_collections [OF h]) (auto simp: collections_ok_def hub_ok_tables [OF h] hm.ok_put hm.get_put)
qed

lemma collection_place_has: "collection_place (load_catalog h now) sub (Some k) = Inr u \<Longrightarrow> tables_ok h \<Longrightarrow> hub_has h (Collection k)"
  by (auto simp: collection_place_def dest: authorized_has)

lemma above_collection_exists:
  assumes "hub_ok h" and "(f, a) \<in> (collection_edges h)\<^sup>*" and "hub_has h (Collection f)"
  shows "hub_has h (Collection a)"
  using assms(2,3)
  by (induction rule: rtrancl_induct) (use assms(1) in \<open>auto simp: hub_ok_def collections_ok_def\<close>)

lemma create_collection_ok:
  assumes "create_collection h s addr now i p name = Inr (h', j)" and h: "hub_ok h"
  shows "hub_ok h'"
proof -
  from assms(1) obtain n e where place: "collection_place (load_catalog h now) (session_subject s) p = Inr ()"
    and new: "hm_get (hb_collections h) i = None"
    and h': "h' = hub_audit (h\<lparr>hb_collections := hm_insert i \<lparr>co_parent = p, co_name = n\<rparr> (hb_collections h)\<rparr>) e"
    by (auto simp: create_collection_def Let_def)
  have "hub_has h (Collection q) \<and> (q, i) \<notin> (collection_edges h)\<^sup>*" if "p = Some q" for q
    using that place new collection_place_has [OF _ hub_okD(1) [OF h]] above_collection_exists [OF h, of q i] by (auto simp: hub_has.simps)
  then show ?thesis unfolding h' hub_audit_ok by (intro put_collection_ok [OF h]) simp
qed

lemma update_collection_ok:
  assumes "update_collection h s addr now i name place = Inr h'" and h: "hub_ok h"
  shows "hub_ok h'"
proof -
  let ?c = "load_catalog h now" and ?sub = "session_subject s"
  let ?f = "\<lambda>n r. r\<lparr>co_name := (case n of Some n \<Rightarrow> n | None \<Rightarrow> co_name r), co_parent := (case place of Some p \<Rightarrow> p | None \<Rightarrow> co_parent r)\<rparr>"
  from assms(1) obtain n e where a: "authorize ?c ?sub Manage (Collection i)"
    and place: "(case place of
          None \<Rightarrow> Inr ()
        | Some p \<Rightarrow> and_then (collection_place ?c ?sub p) (\<lambda>_.
            ensure (case p of Some k \<Rightarrow> \<not> is_within_collection ?c k i | None \<Rightarrow> True) (invalid ''parent_id''))) = Inr ()"
    and h': "hub_audit (h\<lparr>hb_collections := hm_update i (?f n) (hb_collections h)\<rparr>) e = h'"
    unfolding update_collection_def Let_def passed by (elim exE conjE) (rule that, (assumption | rule refl)+)
  note t = hub_okD(1) [OF h]
  from authorized_has [OF t a] obtain r where r: "hm_get (hb_collections h) i = Some r" by (auto simp: hub_has.simps)
  have "hub_has h (Collection p) \<and> (p, i) \<notin> (collection_edges h)\<^sup>*" if p: "co_parent (?f n r) = Some p" for p
  proof (cases place)
    case None
    with p r have "(i, p) \<in> collection_edges h" by (auto simp: collection_edges_def)
    then show ?thesis using h by (auto simp: hub_ok_def collections_ok_def acyclic_def dest: rtrancl_into_trancl2)
  next
    case (Some q)
    with p place show ?thesis
      using collection_place_has [OF _ t] by (auto simp: is_within_collection_iff [OF t])
  qed
  then have "hub_ok (h\<lparr>hb_collections := hm_insert i (?f n r) (hb_collections h)\<rparr>)" by (intro put_collection_ok [OF h])
  then show ?thesis using h' by (auto simp: hm_update_insert [OF r])
qed

lemma remove_collection_ok:
  assumes h: "hub_ok h" and u: "unreferenced h (Collection i)"
    and children: "\<And>a. (a, i) \<notin> collection_edges h" and inside: "\<And>k r. hm_get (hb_credentials h) k = Some r \<Longrightarrow> cr_collection r \<noteq> i"
  shows "hub_ok (h\<lparr>hb_collections := hm_remove i (hb_collections h)\<rparr>)" (is "hub_ok ?h")
proof -
  note t = hub_ok_tables [OF h]
  have edges: "collection_edges ?h = {(a, b) \<in> collection_edges h. a \<noteq> i}"
    by (auto simp: collection_edges_def hm.get_del [OF t(4)] split: if_splits)
  have has: "hub_has ?h y" if "y \<noteq> Collection i" "hub_has h y" for y
    using that by (cases y) (auto simp: hub_has.simps hm.get_del [OF t(4)])
  have "acyclic (collection_edges ?h)"
    using h unfolding edges by (auto simp: hub_ok_def collections_ok_def intro: acyclic_subset)
  moreover have "hub_has ?h (Collection b)" if "(a, b) \<in> collection_edges ?h" for a b
    using that h children [of a] unfolding edges by (intro has) (auto simp: hub_ok_def collections_ok_def)
  ultimately have "collections_ok ?h" by (simp add: collections_ok_def)
  moreover have "credential_ok ?h r" if "hm_get (hb_credentials h) k = Some r" for k r
    using hub_ok_credentialsD [OF h that] inside [OF that] has by (auto simp: credential_ok_def)
  ultimately show ?thesis
    using h rows_kept [OF h u has]
    by (simp add: hub_ok_def tables_ok_def folders_ok_def parents_exist_def profile_ok_def device_ok_def profile_suits_def hm.ok_del)
qed

lemma hub_ok_grants_filter: "hub_ok h \<Longrightarrow> hub_ok (h\<lparr>hb_grants := filter P (hb_grants h)\<rparr>)"
  by (rule hub_ok_grants) (auto simp: hub_ok_tables dest!: filter_rowsD [OF hub_ok_tables(7), rotated] intro: hub_ok_grantsD)

lemma delete_collection_ok:
  assumes "delete_collection h s addr now i = Inr h'" and h: "hub_ok h"
  shows "hub_ok h'"
proof -
  let ?p = "purge_credentials (map fst (filter (\<lambda>(_, r). cr_collection r = i \<and> cr_deleted r \<noteq> None) (hb_credentials h))) h"
  from assms(1) obtain e where empty: "\<not> (list_ex (\<lambda>(_, r). co_parent r = Some i) (hb_collections ?p)
          \<or> list_ex (\<lambda>(_, r). cr_collection r = i) (hb_credentials ?p))"
    and h': "hub_audit (?p\<lparr>hb_grants := filter (\<lambda>(_, g). gr_collection g \<noteq> Some i) (hb_grants ?p),
               hb_collections := hm_remove i (hb_collections ?p)\<rparr>) e = h'"
    unfolding delete_collection_def Let_def passed by (elim exE conjE) (rule that, (assumption | rule refl)+)
  let ?g = "?p\<lparr>hb_grants := filter (\<lambda>(_, g). gr_collection g \<noteq> Some i) (hb_grants ?p)\<rparr>"
  have p: "hub_ok ?p" by (rule purge_credentials_ok [OF h])
  then have g: "hub_ok ?g" by (rule hub_ok_grants_filter)
  have "hub_ok (?g\<lparr>hb_collections := hm_remove i (hb_collections ?g)\<rparr>)"
  proof (rule remove_collection_ok [OF g])
    show "unreferenced ?g (Collection i)"
      by (rule unreferencedI [OF hub_ok_tables(7) [OF p] hub_ok_tables(8) [OF p], 
            where P = "\<lambda>(_, g). gr_collection g \<noteq> Some i" and Q = "\<lambda>_. True"])
        (auto simp: row_object_def request_object_def grant_object_iffs)
  qed (use empty in \<open>auto simp: list_ex_iff collection_edges_def dest: map_of_SomeD\<close>)
  then show ?thesis using h' by auto
qed

section \<open>Secrets survive a change\<close>

text \<open>What can be read stays readable.\<close>

definition loads_kept :: "server \<Rightarrow> hub \<Rightarrow> hub \<Rightarrow> bool" where
  "loads_kept sv h h' \<longleftrightarrow> (\<forall>owner v fld. hub_load sv h owner v fld \<noteq> Inr None \<longrightarrow> hub_load sv h' owner v fld = hub_load sv h owner v fld)"

lemma loads_kept_refl [simp]: "loads_kept sv h h"
  by (simp add: loads_kept_def)

lemma loads_kept_trans [trans]: "loads_kept sv h k \<Longrightarrow> loads_kept sv k h' \<Longrightarrow> loads_kept sv h h'"
  by (simp add: loads_kept_def)

lemma loads_keptD: "loads_kept sv h h' \<Longrightarrow> hub_load sv h owner v fld = Inr (Some p) \<Longrightarrow> hub_load sv h' owner v fld = Inr (Some p)"
  by (simp add: loads_kept_def)

lemma hub_load_tables [simp]:
  "hub_load sv (h\<lparr>hb_credentials := a\<rparr>) = hub_load sv h" "hub_load sv (hub_audit h e) = hub_load sv h"
  by (intro ext, simp add: hub_load_def hub_audit_def audit_record_def)+

lemma hub_store_loads:
  assumes sv: "server_ok sv" "randomness_ok (rnd fld)" and "hub_store sv rnd owner v fld plain h = Inr h'"
  shows "hub_load sv h' owner v fld = Inr (Some plain)" and "loads_kept sv h h'"
proof -
  obtain secrets where s: "store (sv_aead sv) (sv_keyring sv) (rnd fld) (db_secrets (hb_db h)) owner v fld plain = Inr secrets"
    and h': "h' = h\<lparr>hb_db := (hb_db h)\<lparr>db_secrets := secrets\<rparr>\<rparr>"
    using assms(3) by (auto simp: hub_store_def split: sum.splits)
  show "hub_load sv h' owner v fld = Inr (Some plain)"
    using store_load [OF _ _ sv(2) s] sv(1) by (simp add: hub_load_def h' server_ok_def)
  from s obtain se where "secrets = hm_insert (owner, v, fld) se (db_secrets (hb_db h))" "hm_get (db_secrets (hb_db h)) (owner, v, fld) = None"
    by (auto simp: store_def split: sum.splits if_splits)
  then show "loads_kept sv h h'"
    by (auto simp: loads_kept_def hub_load_def load_secret_def h' hm.get_put split: if_splits)
qed

lemma hub_store_all_loads:
  assumes "hub_store_all sv rnd owner v fs h = Inr h'" and "server_ok sv" and "\<And>f. randomness_ok (rnd f)"
  shows "loads_kept sv h h' \<and> (\<forall>(fld, plain) \<in> set fs. hub_load sv h' owner v fld = Inr (Some plain))"
  using assms
proof (induction sv rnd owner v fs h rule: hub_store_all.induct)
  case (2 sv rnd owner v fld plain rest h)
  from "2.prems"(1) obtain k where k: "hub_store sv rnd owner v fld plain h = Inr k" and rest: "hub_store_all sv rnd owner v rest k = Inr h'" by auto
  note first = hub_store_loads [OF "2.prems"(2,3) k] and later = "2.IH" [OF rest "2.prems"(2,3)]
  from later have "hub_load sv h' owner v fld = Inr (Some plain)" using loads_keptD [OF _ first(1)] by blast
  moreover have "loads_kept sv h h'" using loads_kept_trans [OF first(2)] later by blast
  ultimately show ?case using later by auto
qed simp

lemma seal_version_loads:
  assumes "seal_version sv rnd i v given h = Inr h'" and "server_ok sv" and "\<And>f. randomness_ok (rnd f)"
  shows "loads_kept sv h h' \<and> (\<forall>s \<in> set_option given. \<forall>(fld, plain) \<in> set (secrets_fields s). hub_load sv h' i v fld = Inr (Some plain))"
proof (cases given)
  case (Some x)
  then show ?thesis using hub_store_all_loads [OF _ assms(2,3)] assms(1) by (simp add: seal_version_def)
qed (use assms in \<open>simp add: seal_version_def\<close>)

lemma carry_loads:
  assumes "carry sv rnd i v w ns h = Inr h'" and "server_ok sv" and "\<And>f. randomness_ok (rnd f)"
  shows "loads_kept sv h h' \<and> (\<forall>n \<in> set ns. \<forall>p. hub_load sv h i v n = Inr (Some p) \<longrightarrow> hub_load sv h' i w n = Inr (Some p))"
  using assms
proof (induction sv rnd i v w ns h rule: carry.induct)
  case (2 sv rnd i v w n ns h)
  from "2.prems"(1) obtain found k where found: "hub_load sv h i v n = Inr found"
    and k: "(case found of Some plain \<Rightarrow> hub_store sv rnd i w n plain h | None \<Rightarrow> Inr h) = Inr k" and rest: "carry sv rnd i v w ns k = Inr h'"
    by auto
  have first: "loads_kept sv h k \<and> (\<forall>p. found = Some p \<longrightarrow> hub_load sv k i w n = Inr (Some p))"
    using k hub_store_loads [OF "2.prems"(2,3)] by (cases found) auto
  note later = "2.IH" [OF rest "2.prems"(2,3)]
  have "loads_kept sv h h'" using loads_kept_trans [of sv h k] first later by blast
  moreover have "hub_load sv h' i w n = Inr (Some p)" if "hub_load sv h i v n = Inr (Some p)" for p
    using first later found that loads_keptD by fastforce
  moreover have "hub_load sv h' i w m = Inr (Some p)" if "m \<in> set ns" "hub_load sv h i v m = Inr (Some p)" for m p
    using first later that loads_keptD by blast
  ultimately show ?case by auto
qed simp

text \<open>
  C13: An update of a credential leaves what it was not asked to change: a password that was not given anew, and
  a protected field that keeps its value, read the same in the new version as in the old, a new
  password reads as given, and the old version stays readable.
\<close>

theorem update_keeps_secrets:
  assumes "update_credential sv sk date rnd h s addr now i inp = Inr h'" and "server_ok sv" and "\<And>f. randomness_ok (rnd f)"
    and "hm_get (hb_credentials h) i = Some before" and "hm_get (hb_credentials h') i = Some after"
    and "check_details date inp = Inr d"
    and "hub_load sv h i (cr_version before) f = Inr (Some old)"
  shows "hub_load sv h' i (cr_version before) f = Inr (Some old)
    \<and> (f = PASSWORD_FIELD \<and> in_password (ci_secrets inp) = None \<or> f \<in> secret_name ` set (ch_kept (cd_fields d)) \<longrightarrow>
        hub_load sv h' i (cr_version after) f = Inr (Some old))
    \<and> (\<forall>p. in_password (ci_secrets inp) = Some p \<longrightarrow> hub_load sv h' i (cr_version after) PASSWORD_FIELD = Inr (Some (as_bytes p)))"
proof -
  from assms(1) obtain changed v rows kept d2 b given fs k l m e where b: "(case hm_get (hb_credentials h) i of Some r \<Rightarrow> Inr r | None \<Rightarrow> Inl (problem Internal)) = Inr b"
    and given: "new_secrets sk ''password'' (ci_secrets inp) = Inr given" and d2: "check_details date inp = Inr d2"
    and v: "v = cr_version b + (if changed then 1 else 0)"
    and kept: "kept = map secret_name (ch_kept (cd_fields d2)) @ (if given = None then [PASSWORD_FIELD] else []) @ fs"
    and k: "(if changed then and_then (carry sv rnd i (cr_version b) v kept (h\<lparr>hb_credentials := rows\<rparr>))
        (hub_store_all sv rnd i v (sealed_fields (cd_fields d2))) else Inr (h\<lparr>hb_credentials := rows\<rparr>)) = Inr k"
    and l: "seal_version sv rnd i v given k = Inr l" and m: "\<exists>gs. hub_store_all sv rnd i v gs l = Inr m" and h': "\<exists>e. hub_audit m e = h'"
    and row: "\<exists>n user totp. rows = hm_update i (\<lambda>r. r\<lparr>cr_collection := ci_collection inp, cr_name := n, cr_username := user,
              cr_url := cd_url d2, cr_notes := cd_notes d2, cr_icon := cd_icon d2, cr_fields := ch_stored (cd_fields d2), cr_tags := cd_tags d2,
              cr_expires_on := cd_expires_on d2, cr_has_totp := totp, cr_version := v\<rparr>) (hb_credentials h)"
    unfolding update_credential_def Let_def passed by (elim exE conjE) (rule that, (assumption | rule refl | rule exI)+)
  have same: "b = before" "d2 = d" using b d2 assms(4,6) by (auto split: option.splits)
  have loads_k: "loads_kept sv h k \<and> (\<forall>n \<in> set kept. \<forall>p. hub_load sv h i (cr_version before) n = Inr (Some p) \<longrightarrow> hub_load sv k i v n = Inr (Some p))"
  proof (cases changed)
    case True
    with k obtain y where y: "carry sv rnd i (cr_version b) v kept (h\<lparr>hb_credentials := rows\<rparr>) = Inr y"
      and z: "hub_store_all sv rnd i v (sealed_fields (cd_fields d2)) y = Inr k" by auto
    note carry_loads [OF y assms(2,3)] hub_store_all_loads [OF z assms(2,3)]
    then show ?thesis unfolding same by (auto simp: loads_kept_def)
  next
    case False
    with k v show ?thesis by (auto simp: same loads_kept_def)
  qed
  obtain gs e where gs: "hub_store_all sv rnd i v gs l = Inr m" and e: "h' = hub_audit m e" using m h' by blast
  have after: "cr_version after = v" using row assms(4,5) hub_store_all_db [OF gs] seal_version_db [OF l] k
    by (auto simp: e hub_audit_def hm_get_update dest!: carry_db hub_store_all_db split: if_splits)
  note loads_l = seal_version_loads [OF l assms(2,3)] and loads_m = hub_store_all_loads [OF gs assms(2,3)]
  have fin: "loads_kept sv k h'" using loads_l loads_m loads_kept_trans by (auto simp: e loads_kept_def)
  have mine: "in_password (ci_secrets inp) = None \<Longrightarrow> given = None" "in_password (ci_secrets inp) = Some p \<Longrightarrow> given = Some (PasswordSecret p)" for p
    using given by (auto simp: new_secrets_def)
  have new: "hub_load sv h' i v PASSWORD_FIELD = Inr (Some (as_bytes p))" if "in_password (ci_secrets inp) = Some p" for p
    using mine(2) [OF that] loads_l loads_m by (auto simp: e loads_kept_def)
  have kept': "hub_load sv h' i v f = Inr (Some old)" if "f \<in> set kept"
    using loads_k that assms(7) by (blast intro: loads_keptD [OF fin])
  have "hub_load sv h' i (cr_version before) f = Inr (Some old)"
    using loads_k assms(7) by (blast intro: loads_keptD [OF fin] loads_keptD)
  moreover have "f \<in> set kept" if "f = PASSWORD_FIELD \<and> in_password (ci_secrets inp) = None \<or> f \<in> secret_name ` set (ch_kept (cd_fields d))"
    using that mine(1) by (auto simp: kept same)
  ultimately show ?thesis using new kept' by (auto simp: after)
qed

definition sample_entry :: credential_row where
  "sample_entry = \<lparr>cr_collection = 8, cr_name = ''site'', cr_username = [], cr_version = 1, cr_url = [], cr_notes = [], cr_icon = 0, cr_fields = [],
     cr_tags = [], cr_expires_on = None, cr_has_totp = False, cr_deleted = None\<rparr>"

definition sample_sealed :: secret_fields where
  "sample_sealed = projr (store sample_aead sample_keyring sample_seal_randomness [] 6 1 PASSWORD_FIELD (as_bytes ''old''))"

definition sample_vault :: hub where
  "sample_vault = \<lparr>hb_db = empty_db\<lparr>db_secrets := sample_sealed\<rparr>, hb_folders = [], hb_devices = [], hb_profiles = [],
     hb_collections = [(8, \<lparr>co_parent = None, co_name = ''all''\<rparr>)], hb_credentials = [(6, sample_entry)],
     hb_attachments = [], hb_grants = [], hb_requests = [], hb_connectors = [], hb_groups = [], hb_open = [], hb_assigned = []\<rparr>"

definition sample_owner :: session where
  "sample_owner = \<lparr>s_hash = [], s_id = 1, s_client = ''browser'', s_user = 11, s_username = ''ann'', s_display_name = ''Ann'', s_kind = ''break_glass'',
     s_sid = None, s_upn = None, s_groups = [], s_identity = None, s_memberships = [], s_roles = [], s_locked = False, s_confirmed = True\<rparr>"

definition sample_edit :: credential_input where
  "sample_edit = \<lparr>ci_collection = 8, ci_name = ''site'', ci_username = [], ci_url = [], ci_notes = [], ci_icon = 0, ci_fields = [], ci_tags = [],
     ci_expires_on = None, ci_totp = None, ci_secrets = \<lparr>in_password = Some ''new'', in_private_key = None, in_passphrase = None, in_certificate = None\<rparr>\<rparr>"

definition sample_details :: credential_details where
  "sample_details = \<lparr>cd_url = [], cd_notes = [], cd_icon = 0, cd_fields = \<lparr>ch_stored = [], ch_sealed = [], ch_kept = []\<rparr>, cd_tags = [], cd_expires_on = None\<rparr>"

lemma sample_details: "check_details (\<lambda>_ _ _. True) sample_edit = Inr sample_details"
  by code_simp

lemma sample_sealed: "store sample_aead sample_keyring sample_seal_randomness [] 6 1 PASSWORD_FIELD (as_bytes ''old'') = Inr sample_sealed"
  using sample_store [of 1 6 PASSWORD_FIELD "as_bytes ''old''"] by (auto simp: sample_sealed_def)

lemma sample_vault_load: "hub_load sample_server sample_vault 6 1 PASSWORD_FIELD = Inr (Some (as_bytes ''old''))"
  using store_load [OF sample_aead_ok(1) sample_keyring_ok(1,3) sample_sealed]
  by (simp add: hub_load_def sample_vault_def sample_server_def)

lemma sample_may_edit: "authorize (load_catalog sample_vault 0) (session_subject sample_owner) Edit (Credential 6)"
proof -
  have t: "tables_ok sample_vault" by (simp add: tables_ok_def hm_ok_def sample_vault_def)
  have "contains (catalog_new (hub_objects sample_vault) gs t) (Credential 6)" for gs t
    by (subst contains_tables [OF t]) (simp add: hub_has.simps sample_vault_def)
  then show ?thesis
    unfolding load_catalog_def authorize_new by (simp add: session_subject_def is_admin_def sample_owner_def)
qed

lemma sample_seal_new:
  "\<exists>x. seal_version sample_server (\<lambda>_. sample_seal_randomness) 6 2 (Some (PasswordSecret ''new'')) (sample_vault\<lparr>hb_credentials := rows\<rparr>)
     = Inr (sample_vault\<lparr>hb_credentials := rows, hb_db := x\<rparr>)"
proof -
  obtain se where se: "seal sample_aead sample_keyring sample_seal_randomness \<lparr>cx_owner = 6, cx_version = 2, cx_field = PASSWORD_FIELD\<rparr> (as_bytes ''new'') = Inr se"
    using seal_Inr [OF sample_keyring_ok(1)] by blast
  obtain first where first: "[((6, 1, PASSWORD_FIELD), first)] = sample_sealed"
    using sample_sealed by (auto simp: store_def split: sum.splits if_splits)
  have "hm_get sample_sealed (6, 2, PASSWORD_FIELD) = None" unfolding first [symmetric] by simp
  with se show ?thesis
    by (auto simp: seal_version_def hub_store_def store_def sample_server_def sample_vault_def)
qed

theorem update_keeps_secrets_witness:
  "\<exists>h'. hub_load sample_server h' 6 1 PASSWORD_FIELD = Inr (Some (as_bytes ''old''))
     \<and> hub_load sample_server h' 6 2 PASSWORD_FIELD = Inr (Some (as_bytes ''new''))
     \<and> update_credential sample_server sample_ssh (\<lambda>_ _ _. True) (\<lambda>_. sample_seal_randomness) sample_vault sample_owner ''10.0.0.1'' 0 6 sample_edit = Inr h'"
proof -
  let ?row = "sample_entry\<lparr>cr_version := 2\<rparr>"
  have rows: "hm_update 6 (\<lambda>r. r\<lparr>cr_collection := 8, cr_name := ''site'', cr_username := [], cr_url := [], cr_notes := [], cr_icon := 0, cr_fields := [],
      cr_tags := [], cr_expires_on := None, cr_has_totp := False, cr_version := 2\<rparr>) (hb_credentials sample_vault) = [(6, ?row)]"
    by (simp add: hm_update_def sample_vault_def sample_entry_def)
  obtain x where x: "seal_version sample_server (\<lambda>_. sample_seal_randomness) 6 2 (Some (PasswordSecret ''new'')) (sample_vault\<lparr>hb_credentials := [(6, ?row)]\<rparr>)
     = Inr (sample_vault\<lparr>hb_credentials := [(6, ?row)], hb_db := x\<rparr>)"
    using sample_seal_new by blast
  have tables: "tables_ok sample_vault" by (simp add: tables_ok_def hm_ok_def sample_vault_def)
  have place: "parent (load_catalog sample_vault 0) (Credential 6) = Some 8"
    by (simp add: load_catalog_def parent_tables [OF tables]) (simp add: sample_vault_def sample_entry_def)
  have may: "require (load_catalog sample_vault 0) (session_subject sample_owner) Edit (Credential 6) = Inr ()"
    using sample_may_edit by simp
  have fields: "ci_name sample_edit = ''site''" "ci_username sample_edit = []" "ci_collection sample_edit = 8" "ci_totp sample_edit = None"
    "ci_secrets sample_edit = \<lparr>in_password = Some ''new'', in_private_key = None, in_passphrase = None, in_certificate = None\<rparr>"
    by (simp_all add: sample_edit_def)
  have entry: "cr_version sample_entry = 1" "cr_has_totp sample_entry = False" "cr_fields sample_entry = []"
    by (simp_all add: sample_entry_def)
  have taken: "\<not> credential_taken sample_vault 6 8 ''site''" by (simp add: credential_taken_def sample_vault_def)
  have get: "hm_get (hb_credentials sample_vault) 6 = Some sample_entry" by (simp add: sample_vault_def)
  have "\<exists>e. update_credential sample_server sample_ssh (\<lambda>_ _ _. True) (\<lambda>_. sample_seal_randomness) sample_vault sample_owner ''10.0.0.1'' 0 6 sample_edit
      = Inr (hub_audit (sample_vault\<lparr>hb_credentials := [(6, ?row)], hb_db := x\<rparr>) e)"
    unfolding update_credential_def fields sample_site and_then_simps Let_def may place get sample_details
    using rows x
    by (simp add: new_secrets_def totp_input_def fields keeps_only_what_was_def changes_secrets_def sample_details_def entry
        taken ensure_def sealed_fields_def totp_fields_def) blast
  then obtain e where e: "update_credential sample_server sample_ssh (\<lambda>_ _ _. True) (\<lambda>_. sample_seal_randomness) sample_vault sample_owner ''10.0.0.1'' 0 6 sample_edit
      = Inr (hub_audit (sample_vault\<lparr>hb_credentials := [(6, ?row)], hb_db := x\<rparr>) e)" by blast
  have "hm_get (hb_credentials (hub_audit (sample_vault\<lparr>hb_credentials := [(6, ?row)], hb_db := x\<rparr>) e)) 6 = Some ?row"
    by (simp add: hub_audit_def)
  from update_keeps_secrets [OF e sample_server_ok sample_keyring_ok(3) get this sample_details, of PASSWORD_FIELD "as_bytes ''old''"] e
  show ?thesis by (auto simp: sample_vault_load entry fields)
qed

end
