(* ===== verification/Connect.thy ===== *)
theory Connect
  imports Credentials Directory Switchboard
begin

text \<open>
  What every connection to a device shares, \<^verbatim>\<open>crates/server/src/api/connect.rs\<close>: the device and the
  caller's right to it, the way to it, the purpose, and the credentials resolved on the server; with
  the directory's answer before a connection (\<^verbatim>\<open>refresh.rs\<close>), the device's journal (\<^verbatim>\<open>api/journal.rs\<close>) and
  the certificates of the SSH authority (\<^verbatim>\<open>crates/gateway/src/ssh_ca.rs\<close>). The directory, the signature of a
  certificate and what a connector answers are parameters.
\<close>

section \<open>The directory's answer of now\<close>

text \<open>\<open>refresh\<close> is the directory's: the user's groups, or why they may not sign in; none: no directory is set up.\<close>

definition end_reason :: "auth_error \<Rightarrow> error_code option" where
  "end_reason e =
     (case e of
        AuthUnavailable _ \<Rightarrow> None
      | AuthDirectory _ \<Rightarrow> None
      | AuthAccountDisabled \<Rightarrow> Some AccountDisabled
      | AuthAccountExpired \<Rightarrow> Some AccountExpired
      | _ \<Rightarrow> Some InvalidCredentials)"

definition refresh_user ::
  "(string \<Rightarrow> auth_error + string list) option \<Rightarrow> database \<Rightarrow> uuid \<Rightarrow> string \<Rightarrow> database \<times> bool" where
  "refresh_user directory db u sid =
     (case (directory, sid_parse sid) of
        (Some refresh, Some parsed) \<Rightarrow>
          (case refresh parsed of
             Inr groups \<Rightarrow>
               (db\<lparr>db_sessions := map (\<lambda>(h, r). (h, if sr_user r = u then r\<lparr>sr_groups := groups\<rparr> else r)) (db_sessions db)\<rparr>, True)
           | Inl e \<Rightarrow>
               (case end_reason e of
                  None \<Rightarrow> (db, True)
                | Some why \<Rightarrow>
                    (audit_record (db\<lparr>db_sessions := filter (\<lambda>(_, r). sr_user r \<noteq> u) (db_sessions db)\<rparr>)
                       \<lparr>au_actor = None, au_name = ''directory'', au_action = ''session.ended_by_directory'', au_object = Some (''user'', u),
                        au_details = JObject [(''reason'', JText (error_code_as_str why)), (''sid'', JText sid),
                          (''sessions_ended'', JNumber (int (length (filter (\<lambda>(_, r). sr_user r = u) (db_sessions db)))))],
                        au_address = None\<rparr>, False)))
      | _ \<Rightarrow> (db, True))"

definition before_connecting ::
  "(string \<Rightarrow> auth_error + string list) option \<Rightarrow> instant \<Rightarrow> instant \<Rightarrow> database \<Rightarrow> session \<Rightarrow> database \<times> (problem + session)" where
  "before_connecting directory idle now db s =
     (case s_sid s of
        None \<Rightarrow> (db, Inr s)
      | Some sid \<Rightarrow>
          (let (db, keeps) = refresh_user directory db (s_user s) sid
           in (db, if \<not> keeps then Inl (problem Unauthenticated)
                   else case by_hash db (s_hash s) idle now of Some s' \<Rightarrow> Inr s' | None \<Rightarrow> Inl (problem Unauthenticated))))"

section \<open>The device\<close>

record conn_target =
  tg_id :: uuid
  tg_name :: string
  tg_protocol :: string
  tg_host :: string
  tg_port :: int
  tg_auth_mode :: string
  tg_profile :: "uuid option"
  tg_host_key :: "string option"
  tg_keyboard_layout :: "string option"
  tg_certificate :: "string option"
  tg_connector :: "uuid option"
  tg_requires_confirmation :: bool

definition target_of :: "hub \<Rightarrow> uuid \<Rightarrow> device_row \<Rightarrow> conn_target" where
  "target_of h i d =
     \<lparr>tg_id = i, tg_name = dv_name d, tg_protocol = dv_protocol d, tg_host = dv_host d, tg_port = dv_port d, tg_auth_mode = dv_auth_mode d,
      tg_profile = dv_profile d, tg_host_key = dv_host_key d, tg_keyboard_layout = dv_keyboard_layout d, tg_certificate = dv_certificate d,
      tg_connector = reached_through h d, tg_requires_confirmation = dv_requires_confirmation d\<rparr>"

definition find_target :: "hub \<Rightarrow> session \<Rightarrow> instant \<Rightarrow> uuid \<Rightarrow> string list \<Rightarrow> problem + conn_target" where
  "find_target h s now i protocols =
     and_then (require (load_catalog h now) (session_subject s) Connect (Device i)) (\<lambda>_.
     and_then (case hm_get (hb_devices h) i of Some d \<Rightarrow> Inr d | None \<Rightarrow> Inl (problem Internal)) (\<lambda>d.
     and_then (ensure (dv_protocol d \<in> set protocols) (invalid ''protocol'')) (\<lambda>_. Inr (target_of h i d))))"

definition ws_same_origin :: "string \<Rightarrow> string option \<Rightarrow> problem + unit" where
  "ws_same_origin public origin =
     (case origin of
        Some x \<Rightarrow> if eq_ignore_ascii_case x public then Inr () else Inl (problem ForbiddenOrigin)
      | None \<Rightarrow> Inl (problem ForbiddenOrigin))"

section \<open>The way to it\<close>

text \<open>\<open>u16::try_from(port).unwrap_or_default()\<close>, and \<open>host:port\<close> with an IPv6 address in brackets.\<close>

definition port_u16 :: "int \<Rightarrow> nat" where
  "port_u16 p = (if 0 \<le> p \<and> p < 65536 then nat p else 0)"

definition authority :: "string \<Rightarrow> nat \<Rightarrow> string" where
  "authority hst port =
     (if CHR '':'' \<in> set hst then ''['' @ hst @ '']:'' @ show_nat port else hst @ '':'' @ show_nat port)"

datatype engine = EngineServer | EngineService string

text \<open>
  What a connector answers to a check within the time, whether the service's address is found, and the
  address the forward's listener gets.
\<close>

record route_env =
  rv_check :: "uuid \<Rightarrow> string \<Rightarrow> connector_error + checked"
  rv_towards :: "string \<Rightarrow> bool"
  rv_listener :: "(string \<times> nat) option"

text \<open>A forward carries what connects to it through the connector to the target, for the requester.\<close>

record route =
  ro_host :: string
  ro_port :: nat
  ro_forward :: "(uuid \<times> string \<times> requester) option"

definition closed_reported :: "agent_state option \<Rightarrow> bool" where
  "closed_reported a \<longleftrightarrow> (case a of Some st \<Rightarrow> \<not> as_open st \<and> \<not> as_partly st | None \<Rightarrow> False)"

definition find_route :: "route_env \<Rightarrow> switchboard \<Rightarrow> instant \<Rightarrow> conn_target \<Rightarrow> engine \<Rightarrow> string \<Rightarrow> problem + route" where
  "find_route rv b now t engine user =
     (let port = port_u16 (tg_port t) in
     (case tg_connector t of
        None \<Rightarrow> Inr \<lparr>ro_host = tg_host t, ro_port = port, ro_forward = None\<rparr>
      | Some c \<Rightarrow>
     (let reported = sw_access_of b now c in
      if \<not> is_online b c then Inl (problem (if closed_reported reported then ConnectorClosed else ConnectorOffline))
      else
     and_then (ensure (\<not> ((case reported of Some st \<Rightarrow> as_partly st | None \<Rightarrow> False)
           \<and> (case rv_check rv c (authority (tg_host t) port) of Inr k \<Rightarrow> \<not> ck_open k | Inl _ \<Rightarrow> False)))
         (problem ConnectorTargetClosed)) (\<lambda>_.
     and_then (ensure (case engine of EngineServer \<Rightarrow> True | EngineService service \<Rightarrow> rv_towards rv service) (problem ConnectionFailed)) (\<lambda>_.
     (case rv_listener rv of
        None \<Rightarrow> Inl (problem ConnectionFailed)
      | Some (hst, p) \<Rightarrow>
          Inr \<lparr>ro_host = hst, ro_port = p,
               ro_forward = Some (c, authority (tg_host t) port, \<lparr>rr_user = user, rr_device = tg_name t\<rparr>)\<rparr>))))))"

definition connector_access ::
  "route_env \<Rightarrow> switchboard \<Rightarrow> hub \<Rightarrow> session \<Rightarrow> instant \<Rightarrow> uuid \<Rightarrow> problem + (string \<times> string option)" where
  "connector_access rv b h s now i =
     and_then (find_target h s now i [''ssh'', ''rdp'', ''vnc'', ''https'']) (\<lambda>t. Inr
     (case tg_connector t of
        None \<Rightarrow> (''direct'', None)
      | Some c \<Rightarrow>
          if \<not> is_online b c then (if closed_reported (sw_access_of b now c) then ''closed'' else ''offline'', None)
          else case rv_check rv c (authority (tg_host t) (port_u16 (tg_port t))) of
            Inr k \<Rightarrow> if ck_open k then (''open'', ck_until k) else (''closed'', None)
          | Inl _ \<Rightarrow> (''unknown'', None)))"

section \<open>Purposes and the journal of a device\<close>

record journal_row =
  jr_device :: uuid
  jr_user :: uuid
  jr_kind :: string
  jr_protocol :: "string option"
  jr_text :: string
  jr_created :: instant
  jr_ended :: "instant option"

text \<open>The tables of a connection beside the tree's; a purpose principal has its kind and name.\<close>

record desk =
  dk_hub :: hub
  dk_journal :: "(uuid, journal_row) hashmap"
  dk_purposes :: "(string, string \<times> string) hashmap"

definition desk_audit :: "desk \<Rightarrow> audit_entry \<Rightarrow> desk" where
  "desk_audit d e = d\<lparr>dk_hub := hub_audit (dk_hub d) e\<rparr>"

definition PURPOSE_MAX :: nat where "PURPOSE_MAX = 500"

definition purpose_required :: "desk \<Rightarrow> session \<Rightarrow> bool" where
  "purpose_required d s \<longleftrightarrow> list_ex (\<lambda>(p, _). p \<in> set (session_sids s)) (dk_purposes d)"

definition purpose :: "desk \<Rightarrow> session \<Rightarrow> string option \<Rightarrow> problem + string" where
  "purpose d s given =
     (let given = trim (case given of Some g \<Rightarrow> g | None \<Rightarrow> []) in
     if length (chars given) > PURPOSE_MAX then Inl (invalid ''purpose'')
     else if given = [] \<and> purpose_required d s then Inl (problem PurposeRequired)
     else Inr given)"

text \<open>The row of an opened connection; there is none if the device or the user is gone by then.\<close>

definition journal_opened :: "session \<Rightarrow> conn_target \<Rightarrow> string \<Rightarrow> uuid \<Rightarrow> instant \<Rightarrow> desk \<Rightarrow> desk \<times> uuid option" where
  "journal_opened s t text i now d =
     (if hm_get (hb_devices (dk_hub d)) (tg_id t) = None \<or> hm_get (db_users (hb_db (dk_hub d))) (s_user s) = None
         \<or> hm_get (dk_journal d) i \<noteq> None
      then (d, None)
      else (d\<lparr>dk_journal := hm_insert i \<lparr>jr_device = tg_id t, jr_user = s_user s, jr_kind = ''connection'', jr_protocol = Some (tg_protocol t),
              jr_text = text, jr_created = now, jr_ended = None\<rparr> (dk_journal d)\<rparr>, Some i))"

definition journal_closed :: "uuid option \<Rightarrow> instant \<Rightarrow> desk \<Rightarrow> desk" where
  "journal_closed entry now d =
     (case entry of None \<Rightarrow> d | Some i \<Rightarrow> d\<lparr>dk_journal := hm_update i (\<lambda>r. r\<lparr>jr_ended := Some now\<rparr>) (dk_journal d)\<rparr>)"

definition JOURNAL_LIMIT :: nat where "JOURNAL_LIMIT = 200"
definition NOTE_MAX :: nat where "NOTE_MAX = 2000"

text \<open>The newest entries of users that exist; rows of one moment are in the order of their identifiers.\<close>

definition journal_list :: "desk \<Rightarrow> session \<Rightarrow> instant \<Rightarrow> uuid \<Rightarrow> problem + (uuid \<times> journal_row) list" where
  "journal_list d s now i =
     and_then (require (load_catalog (dk_hub d) now) (session_subject s) Connect (Device i)) (\<lambda>_.
       Inr (take JOURNAL_LIMIT (sort_key (\<lambda>(j, r). (- jr_created r, j))
         (filter (\<lambda>(_, r). jr_device r = i \<and> hm_get (db_users (hb_db (dk_hub d))) (jr_user r) \<noteq> None) (dk_journal d)))))"

definition add_note :: "desk \<Rightarrow> session \<Rightarrow> instant \<Rightarrow> uuid \<Rightarrow> uuid \<Rightarrow> string \<Rightarrow> problem + desk" where
  "add_note d s now i note text =
     (let text = trim text in
     and_then (ensure (\<not> (text = [] \<or> length (chars text) > NOTE_MAX)) (invalid ''text'')) (\<lambda>_.
     and_then (require (load_catalog (dk_hub d) now) (session_subject s) Connect (Device i)) (\<lambda>_.
     and_then (ensure (hm_get (dk_journal d) note = None) (problem Internal)) (\<lambda>_.
       Inr (d\<lparr>dk_journal := hm_insert note \<lparr>jr_device = i, jr_user = s_user s, jr_kind = ''note'', jr_protocol = None,
               jr_text = text, jr_created = now, jr_ended = None\<rparr> (dk_journal d)\<rparr>)))))"

definition audit_plain :: "session \<Rightarrow> string \<Rightarrow> (string \<times> json) list \<Rightarrow> string \<Rightarrow> audit_entry" where
  "audit_plain s action details addr =
     \<lparr>au_actor = Some (s_user s), au_name = s_username s, au_action = action, au_object = None, au_details = JObject details,
      au_address = Some addr\<rparr>"

definition require_purpose ::
  "(string \<Rightarrow> uuid option) \<Rightarrow> desk \<Rightarrow> session \<Rightarrow> string \<Rightarrow> string \<Rightarrow> string \<Rightarrow> string \<Rightarrow> problem + desk" where
  "require_purpose uuid_parse d s addr sid kind name =
     and_then (ensure (is_admin s) (problem Forbidden)) (\<lambda>_.
     and_then (case principal_parse uuid_parse sid of Some p \<Rightarrow> Inr p | None \<Rightarrow> Inl (invalid ''principal_sid'')) (\<lambda>p.
     and_then (ensure (kind = ''user'' \<or> kind = ''group'') (invalid ''principal_kind'')) (\<lambda>_.
     and_then (ensure (principal_check (hb_db (dk_hub d)) (hb_groups (dk_hub d)) p kind) (invalid ''principal_sid'')) (\<lambda>_.
     and_then (checked_name name ''principal_name'') (\<lambda>n.
       Inr (if hm_get (dk_purposes d) (principal_show p) \<noteq> None then d
            else desk_audit (d\<lparr>dk_purposes := hm_insert (principal_show p) (kind, n) (dk_purposes d)\<rparr>)
                   (audit_plain s ''purpose.required'' [(''principal_kind'', JText kind), (''principal_sid'', JText (principal_show p)),
                      (''principal_name'', JText n)] addr)))))))"

definition waive_purpose :: "desk \<Rightarrow> session \<Rightarrow> string \<Rightarrow> string \<Rightarrow> problem + desk" where
  "waive_purpose d s addr sid =
     and_then (ensure (is_admin s) (problem Forbidden)) (\<lambda>_.
     (case hm_get (dk_purposes d) sid of
        None \<Rightarrow> Inl (problem NotFound)
      | Some (kind, n) \<Rightarrow>
          Inr (desk_audit (d\<lparr>dk_purposes := hm_remove sid (dk_purposes d)\<rparr>)
                 (audit_plain s ''purpose.waived'' [(''principal_kind'', JText kind), (''principal_sid'', JText sid),
                    (''principal_name'', JText n)] addr))))"

section \<open>Credentials\<close>

text \<open>A password, or a key with the certificate that goes with it.\<close>

datatype login = LoginPassword string | LoginKey ssh_private "string option"

record conn_credentials =
  cc_username :: string
  cc_domain :: string
  cc_login :: login

definition bytes_text :: "bytes \<Rightarrow> string" where
  "bytes_text b = map (\<lambda>x. char_of (unat x)) b"

definition stored_text :: "server \<Rightarrow> hub \<Rightarrow> uuid \<Rightarrow> int \<Rightarrow> string \<Rightarrow> problem + string option" where
  "stored_text sv h owner version fld =
     and_then (hub_load sv h owner version fld) (\<lambda>found.
       case found of
         None \<Rightarrow> Inr None
       | Some b \<Rightarrow> (case from_utf8 (bytes_text b) of Some t \<Rightarrow> Inr (Some t) | None \<Rightarrow> Inl (problem Internal)))"

definition stored_required :: "server \<Rightarrow> hub \<Rightarrow> uuid \<Rightarrow> int \<Rightarrow> string \<Rightarrow> problem + string" where
  "stored_required sv h owner version fld =
     and_then (stored_text sv h owner version fld) (\<lambda>t. case t of Some t \<Rightarrow> Inr t | None \<Rightarrow> Inl (problem Internal))"

definition sealed_login :: "server \<Rightarrow> ssh_crate \<Rightarrow> hub \<Rightarrow> uuid \<Rightarrow> int \<Rightarrow> string \<Rightarrow> problem + login" where
  "sealed_login sv sk h owner version kind =
     (if kind \<noteq> ''ssh_key'' then and_then (stored_required sv h owner version PASSWORD_FIELD) (\<lambda>p. Inr (LoginPassword p))
      else
     and_then (stored_required sv h owner version PRIVATE_KEY_FIELD) (\<lambda>key.
     and_then (stored_text sv h owner version PASSPHRASE_FIELD) (\<lambda>passphrase.
     and_then (stored_text sv h owner version CERTIFICATE_FIELD) (\<lambda>certificate.
       case ssh_key_parse sk key passphrase certificate of
         Inr k \<Rightarrow> Inr (LoginKey k (non_empty (map_option trim certificate)))
       | Inl _ \<Rightarrow> Inl (problem Internal)))))"

text \<open>\<open>laps\<close> is the directory's: the password of a computer's local administrator; none: no directory is set up.\<close>

definition resolve_credentials ::
  "server \<Rightarrow> ssh_crate \<Rightarrow> (string \<Rightarrow> laps_error + laps_password) option \<Rightarrow> hub \<Rightarrow> conn_target \<Rightarrow> string option \<Rightarrow> string option
    \<Rightarrow> problem + conn_credentials" where
  "resolve_credentials sv sk laps h t username password =
     (if tg_auth_mode t = ''profile'' then
        (case tg_profile t of
           None \<Rightarrow> Inl (invalid ''profile_id'')
         | Some p \<Rightarrow>
             (case hm_get (hb_profiles h) p of
                None \<Rightarrow> Inl (problem Internal)
              | Some r \<Rightarrow>
                  and_then (sealed_login sv sk h p (pf_secret_version r) (pf_secret_kind r)) (\<lambda>l.
                    Inr \<lparr>cc_username = pf_username r, cc_domain = pf_domain r, cc_login = l\<rparr>)))
      else if tg_auth_mode t = ''laps'' then
        (case laps of
           None \<Rightarrow> Inl (problem DirectoryUnavailable)
         | Some f \<Rightarrow>
             (case f (tg_host t) of
                Inl (LapsDirectory (AuthUnavailable _)) \<Rightarrow> Inl (problem DirectoryUnavailable)
              | Inl _ \<Rightarrow> Inl (problem LapsUnavailable)
              | Inr l \<Rightarrow> Inr \<lparr>cc_username = la_account l, cc_domain = la_computer l, cc_login = LoginPassword (la_password l)\<rparr>))
      else if tg_auth_mode t = ''device'' then
        (case hm_get (hb_devices h) (tg_id t) of
           None \<Rightarrow> Inl (problem Internal)
         | Some r \<Rightarrow>
             and_then (sealed_login sv sk h (tg_id t) (dv_secret_version r) (dv_secret_kind r)) (\<lambda>l.
               Inr \<lparr>cc_username = dv_username r, cc_domain = dv_domain r, cc_login = l\<rparr>))
      else if tg_auth_mode t = ''ask'' then
        and_then (case username of Some u \<Rightarrow> if trim u = [] then Inl (invalid ''username'') else Inr u | None \<Rightarrow> Inl (invalid ''username'')) (\<lambda>u.
        and_then (case password of Some p \<Rightarrow> Inr p | None \<Rightarrow> Inl (invalid ''password'')) (\<lambda>p.
          Inr \<lparr>cc_username = trim u, cc_domain = [], cc_login = LoginPassword p\<rparr>))
      else Inl (invalid ''auth_mode''))"

text \<open>
  The signed-in user's own account. \<open>headers\<close> are the request's cookies; the outer error ends the request,
  the inner one is told on the opened socket.
\<close>

definition own_account ::
  "server \<Rightarrow> (string \<Rightarrow> bytes option) \<Rightarrow> bool \<Rightarrow> hub \<Rightarrow> session \<Rightarrow> string list \<Rightarrow> problem + (problem + conn_credentials)" where
  "own_account sv b64url_decode enabled h s headers =
     (if \<not> enabled \<or> s_kind s \<noteq> ''directory'' then Inr (Inl (problem OwnAccountUnavailable))
      else case sign_in_password (sv_sha sv) (sv_aead sv) b64url_decode (hb_db h) headers of
        None \<Rightarrow> Inr (Inl (problem OwnAccountUnavailable))
      | Some b \<Rightarrow>
          (case from_utf8 (bytes_text b) of
             Some p \<Rightarrow> Inr (Inr \<lparr>cc_username = s_username s, cc_domain = [], cc_login = LoginPassword p\<rparr>)
           | None \<Rightarrow> Inl (problem Internal)))"

section \<open>Certificates of the SSH authority\<close>

text \<open>What a certificate says; times are seconds since 1970.\<close>

record ssh_certificate =
  ct_key :: ssh_private
  ct_principal :: string
  ct_key_id :: string
  ct_valid_after :: nat
  ct_valid_before :: nat
  ct_user :: bool
  ct_extensions :: "string list"

definition CLOCK_SKEW :: nat where "CLOCK_SKEW = 60"
definition CERTIFICATE_VALIDITY :: nat where "CERTIFICATE_VALIDITY = 5 * 60"

definition ca_sign :: "(ssh_certificate \<Rightarrow> string option) \<Rightarrow> ssh_private \<Rightarrow> string \<Rightarrow> string \<Rightarrow> nat \<Rightarrow> nat \<Rightarrow> string option" where
  "ca_sign signer key login_name key_id unix validity =
     signer \<lparr>ct_key = key, ct_principal = login_name, ct_key_id = key_id, ct_valid_after = unix - CLOCK_SKEW, ct_valid_before = unix + validity,
             ct_user = True, ct_extensions = [''permit-pty'']\<rparr>"

text \<open>\<open>signer\<close> is the authority's key; \<open>fresh_key\<close> the key made for the connection.\<close>

definition conn_certificate ::
  "(ssh_certificate \<Rightarrow> string option) option \<Rightarrow> ssh_private \<Rightarrow> nat \<Rightarrow> session \<Rightarrow> conn_target \<Rightarrow> problem + conn_credentials" where
  "conn_certificate ca fresh_key unix s t =
     (case ca of
        None \<Rightarrow> Inl (problem SshCaUnavailable)
      | Some signer \<Rightarrow>
          (case ca_sign signer fresh_key (s_username s) (''remotehub '' @ s_username s @ '' device '' @ uuid_show (tg_id t)) unix CERTIFICATE_VALIDITY of
             None \<Rightarrow> Inl (problem Internal)
           | Some c \<Rightarrow> Inr \<lparr>cc_username = s_username s, cc_domain = [], cc_login = LoginKey fresh_key (Some c)\<rparr>))"

section \<open>Accounts the directory no longer lets in\<close>

lemma by_hash_groups: "by_hash db h idle now = Some s \<Longrightarrow> \<exists>r. hm_get (db_sessions db) h = Some r \<and> s_groups s = sr_groups r \<and> s_user s = sr_user r"
  by (auto simp: by_hash_def split: option.split_asm if_split_asm)

lemma refresh_user_answers:
  assumes "sid_parse sid = Some p"
  shows "refresh p = Inr groups \<Longrightarrow> refresh_user (Some refresh) db u sid
      = (db\<lparr>db_sessions := map (\<lambda>(h, r). (h, if sr_user r = u then r\<lparr>sr_groups := groups\<rparr> else r)) (db_sessions db)\<rparr>, True)"
    and "refresh p = Inl e \<Longrightarrow> end_reason e = None \<Longrightarrow> refresh_user (Some refresh) db u sid = (db, True)"
    and "refresh p = Inl e \<Longrightarrow> end_reason e = Some why \<Longrightarrow> \<exists>a. refresh_user (Some refresh) db u sid
      = (audit_record (db\<lparr>db_sessions := filter (\<lambda>(_, r). sr_user r \<noteq> u) (db_sessions db)\<rparr>) a, False)
         \<and> au_action a = ''session.ended_by_directory'' \<and> au_object a = Some (''user'', u)"
  using assms by (auto simp: refresh_user_def)


definition sample_visitor :: session where
  "sample_visitor = \<lparr>s_hash = as_bytes ''tok'', s_id = 1, s_client = ''web'', s_user = 5, s_username = ''bob'', s_display_name = ''Bob'', s_kind = ''directory'',
     s_sid = Some ''S-1-5-21-7'', s_upn = None, s_groups = [], s_identity = None, s_memberships = [], s_roles = [], s_locked = False, s_confirmed = False\<rparr>"

lemma sample_gone: "ldap_refresh sample_ldap sample_ldap_config (Some 0) ''S-1-5-21-7'' = Inl AuthInvalidCredentials"
proof -
  have "hd (drop 44 (sid_filter sample_ldap_config ''S-1-5-21-7'')) = CHR ''o''"
    by (simp add: sid_filter_def)
  moreover have "hd (drop 44 ''(&(objectCategory=person)(objectClass=user)(sAMAccountName=bob))'') \<noteq> CHR ''o''" by code_simp
  ultimately have "sid_filter sample_ldap_config ''S-1-5-21-7'' \<noteq> ''(&(objectCategory=person)(objectClass=user)(sAMAccountName=bob))''" by metis
  then show ?thesis by (simp add: ldap_refresh_def sample_binds ldap_search_def) (simp add: sample_ldap_def ensure_def unavailable_def)
qed


end
