(* ===== verification/Grants.thy ===== *)
theory Grants
  imports Forest
begin

text \<open>
  Who may do what: grants (\<^verbatim>\<open>crates/server/src/api/catalog.rs\<close>), access for a while on request
  (\<^verbatim>\<open>crates/server/src/api/requests.rs\<close>) and the roles for remotehub itself
  (\<^verbatim>\<open>crates/server/src/api/roles.rs\<close>).
\<close>

section \<open>Grants\<close>

record object_query =
  oq_kind :: string
  oq_id :: uuid

text \<open>\<open>expires_at IS NULL OR expires_at > now()\<close>.\<close>

definition grant_lives :: "instant \<Rightarrow> grant_row \<Rightarrow> bool" where
  "grant_lives now g \<longleftrightarrow> (case gr_expires g of None \<Rightarrow> True | Some e \<Rightarrow> e > now)"

text \<open>The loop over the containers above an object, which stops at one it has seen.\<close>

definition containers_above :: "catalog \<Rightarrow> object_id \<Rightarrow> object_id list" where
  "containers_above c x = path_loop c {} (container c x)"

text \<open>The direct grants on an object, and those it inherits; \<open>lower\<close> orders them by name.\<close>

definition list_grants ::
  "(string \<Rightarrow> string) \<Rightarrow> hub \<Rightarrow> session \<Rightarrow> instant \<Rightarrow> object_query \<Rightarrow> problem + ((uuid \<times> grant_row) list \<times> (uuid \<times> grant_row) list)" where
  "list_grants lower h s now q =
     and_then (named_object (oq_kind q) (oq_id q)) (\<lambda>target.
     (let c = load_catalog h now; sub = session_subject s in
     and_then (require c sub Manage target) (\<lambda>_.
     (let upper = containers_above c target; ids = map object_uuid upper;
          rows = sort_key (\<lambda>(_, g). lower (gr_name g)) (filter (\<lambda>(_, g).
            (set_option (gr_folder g) \<union> set_option (gr_collection g)) \<inter> set ids \<noteq> {}
            \<or> oq_id q \<in> set_option (gr_folder g) \<union> set_option (gr_device g) \<union> set_option (gr_credential g) \<union> set_option (gr_collection g))
            (filter (\<lambda>(_, g). grant_lives now g) (hb_grants h)));
          counted = filter (\<lambda>(_, g). case row_object g of Some x \<Rightarrow> x = target \<or> x \<in> set upper | None \<Rightarrow> False) rows
      in Inr (filter (\<lambda>(_, g). row_object g = Some target) counted, filter (\<lambda>(_, g). row_object g \<noteq> Some target) counted)))))"

record new_grant =
  ng_object :: object_query
  ng_kind :: string
  ng_sid :: string
  ng_name :: string
  ng_role :: string
  ng_expires :: "string option"

text \<open>
  \<open>rfc3339\<close> is the parser of the \<open>time\<close> crate, \<open>stamp\<close> how the database, which keeps
  microseconds, reads the time formatted again. \<open>clock\<close> is the time of the process. The unique index covers
  grants without an end: one on the same object for the same principal is changed instead.
\<close>

definition same_place :: "grant_row \<Rightarrow> grant_row \<Rightarrow> bool" where
  "same_place g k \<longleftrightarrow> gr_expires g = None \<and> gr_expires k = None \<and> gr_sid g = gr_sid k
     \<and> (gr_folder g, gr_device g, gr_credential g, gr_collection g) = (gr_folder k, gr_device k, gr_credential k, gr_collection k)"

definition put_grant :: "uuid \<Rightarrow> grant_row \<Rightarrow> (uuid, grant_row) hashmap \<Rightarrow> (uuid, grant_row) hashmap" where
  "put_grant i g gs =
     (case find (\<lambda>(_, k). same_place k g) gs of
        Some (j, _) \<Rightarrow> hm_update j (\<lambda>k. k\<lparr>gr_role := gr_role g, gr_name := gr_name g\<rparr>) gs
      | None \<Rightarrow> hm_insert i g gs)"

definition add_grant ::
  "(string \<Rightarrow> uuid option) \<Rightarrow> (string \<Rightarrow> instant option) \<Rightarrow> (instant \<Rightarrow> instant) \<Rightarrow> hub \<Rightarrow> session \<Rightarrow> string \<Rightarrow> instant \<Rightarrow> instant \<Rightarrow> uuid \<Rightarrow> new_grant \<Rightarrow> problem + hub" where
  "add_grant uuid_parse rfc3339 stamp h s addr clock now i inp =
     and_then (named_object (oq_kind (ng_object inp)) (oq_id (ng_object inp))) (\<lambda>target.
     and_then (case role_parse (ng_role inp) of Some r \<Rightarrow> Inr r | None \<Rightarrow> Inl (invalid ''role'')) (\<lambda>role.
     and_then (ensure (ng_kind inp = ''user'' \<or> ng_kind inp = ''group'') (invalid ''principal_kind'')) (\<lambda>_.
     and_then (case principal_parse uuid_parse (ng_sid inp) of Some p \<Rightarrow> Inr p | None \<Rightarrow> Inl (invalid ''principal_sid'')) (\<lambda>p.
     and_then (checked_name (ng_name inp) ''principal_name'') (\<lambda>n.
     and_then (case ng_expires inp of
          None \<Rightarrow> Inr None
        | Some t \<Rightarrow> (case rfc3339 t of
            Some at \<Rightarrow> if at > clock then Inr (Some (stamp at)) else Inl (invalid ''expires_at'')
          | None \<Rightarrow> Inl (invalid ''expires_at''))) (\<lambda>expires.
     (let c = load_catalog h now; sub = session_subject s in
     and_then (require c sub Manage target) (\<lambda>_.
     and_then (ensure (principal_check (hb_db h) (hb_groups h) p (ng_kind inp)) (invalid ''principal_sid'')) (\<lambda>_.
     and_then (case grant_columns target of Some cs \<Rightarrow> Inr cs | None \<Rightarrow> Inl (invalid ''kind'')) (\<lambda>(fo, de, cr, co).
     and_then (ensure (hm_get (hb_grants h) i = None) (problem Internal)) (\<lambda>_.
       Inr (hub_audit (h\<lparr>hb_grants := put_grant i
                \<lparr>gr_folder = fo, gr_device = de, gr_credential = cr, gr_collection = co, gr_kind = ng_kind inp, gr_sid = principal_show p,
                 gr_name = n, gr_role = role_as_str role, gr_expires = expires, gr_request = None\<rparr> (hb_grants h)\<rparr>)
              (audit_object s ''grant.added'' target
                 [(''principal_kind'', JText (ng_kind inp)), (''principal_sid'', JText (principal_show p)), (''principal_name'', JText n),
                  (''role'', JText (role_as_str role)), (''expires_at'', json_text (ng_expires inp))] addr)))))))))))))"

definition remove_grant :: "hub \<Rightarrow> session \<Rightarrow> string \<Rightarrow> instant \<Rightarrow> uuid \<Rightarrow> problem + hub" where
  "remove_grant h s addr now i =
     and_then (case hm_get (hb_grants h) i of Some g \<Rightarrow> Inr g | None \<Rightarrow> Inl (problem NotFound)) (\<lambda>g.
     and_then (case row_object g of Some x \<Rightarrow> Inr x | None \<Rightarrow> Inl (problem Internal)) (\<lambda>target.
     (let c = load_catalog h now; sub = session_subject s in
     and_then (require c sub Manage target) (\<lambda>_.
       Inr (hub_audit (h\<lparr>hb_grants := hm_remove i (hb_grants h)\<rparr>)
              (audit_object s ''grant.removed'' target
                 [(''principal_kind'', JText (gr_kind g)), (''principal_sid'', JText (gr_sid g)), (''principal_name'', JText (gr_name g)),
                  (''role'', JText (gr_role g))] addr))))))"

section \<open>Access on request\<close>

record new_request =
  nr_object :: object_query
  nr_role :: string
  nr_minutes :: int
  nr_reason :: string

definition REQUEST_MINUTES :: "int set" where
  "REQUEST_MINUTES = {15..1440}"

definition row_request_object :: "request_row \<Rightarrow> object_id option" where
  "row_request_object r = request_object (rq_folder r) (rq_device r) (rq_credential r)"

fun request_columns :: "object_id \<Rightarrow> uuid option \<times> uuid option \<times> uuid option" where
  "request_columns (Folder i) = (Some i, None, None)"
| "request_columns (Device i) = (None, Some i, None)"
| "request_columns (Credential i) = (None, None, Some i)"
| "request_columns _ = (None, None, None)"

text \<open>The caller's own requests, newest first, and the pending ones of others they may decide.\<close>

definition list_requests :: "hub \<Rightarrow> session \<Rightarrow> instant \<Rightarrow> (uuid \<times> request_row) list \<times> (uuid \<times> request_row) list" where
  "list_requests h s now =
     (let c = load_catalog h now; sub = session_subject s;
          mine = take 50 (rev (sort_key (\<lambda>(_, r). rq_created r) (filter (\<lambda>(_, r). rq_requester r = s_user s) (hb_requests h))));
          pending = sort_key (\<lambda>(_, r). rq_created r) (filter (\<lambda>(_, r). rq_status r = ''pending'') (hb_requests h))
      in (filter (\<lambda>(_, r). row_request_object r \<noteq> None) mine,
          filter (\<lambda>(_, r). rq_requester r \<noteq> s_user s
            \<and> (case row_request_object r of Some x \<Rightarrow> may_approve c sub x | None \<Rightarrow> False)) pending))"

definition create_request ::
  "hub \<Rightarrow> session \<Rightarrow> string \<Rightarrow> instant \<Rightarrow> uuid \<Rightarrow> new_request \<Rightarrow> problem + (hub \<times> uuid)" where
  "create_request h s addr now i inp =
     and_then (named_object (oq_kind (nr_object inp)) (oq_id (nr_object inp))) (\<lambda>target.
     and_then (ensure (case target of Collection _ \<Rightarrow> False | _ \<Rightarrow> True) (invalid ''kind'')) (\<lambda>_.
     and_then (case session_principal s of Some sid \<Rightarrow> Inr sid | None \<Rightarrow> Inl (problem Forbidden)) (\<lambda>sid.
     (let c = load_catalog h now; sub = session_subject s in
     and_then (ensure (effective_role c sub target \<noteq> None) (problem NotFound)) (\<lambda>_.
     and_then (case role_parse (nr_role inp) of Some r \<Rightarrow> Inr r | None \<Rightarrow> Inl (invalid ''role'')) (\<lambda>role.
     and_then (ensure (may_request c sub role target) (invalid ''role'')) (\<lambda>_.
     and_then (ensure (nr_minutes inp \<in> REQUEST_MINUTES) (invalid ''minutes'')) (\<lambda>_.
     (let reason = trim (nr_reason inp) in
     and_then (ensure (\<not> (reason = [] \<or> length (chars reason) > 500)) (invalid ''reason'')) (\<lambda>_.
     (let cs = request_columns target; fo = fst cs; de = fst (snd cs); cr = snd (snd cs) in
     and_then (ensure (\<not> list_ex (\<lambda>(_, r). rq_requester r = s_user s \<and> rq_status r = ''pending'' \<and> rq_role r = role_as_str role
          \<and> (rq_folder r, rq_device r, rq_credential r) = (fo, de, cr)) (hb_requests h)) (problem RequestPending)) (\<lambda>_.
     and_then (ensure (hm_get (hb_requests h) i = None) (problem Internal)) (\<lambda>_.
       Inr (hub_audit (h\<lparr>hb_requests := hm_insert i
                \<lparr>rq_folder = fo, rq_device = de, rq_credential = cr, rq_requester = s_user s, rq_sid = sid, rq_name = s_username s,
                 rq_role = role_as_str role, rq_minutes = nr_minutes inp, rq_reason = reason, rq_status = ''pending'',
                 rq_decided_by = None, rq_decider = None, rq_expires = None, rq_created = now\<rparr> (hb_requests h)\<rparr>)
              (audit_object s ''access.requested'' target
                 [(''request_id'', JText (uuid_show i)), (''role'', JText (role_as_str role)), (''minutes'', JNumber (nr_minutes inp)),
                  (''reason'', JText reason)] addr), i))))))))))))))"

datatype decision = Approve | Deny

text \<open>The row a decision leaves, and the grant an approval gives: it ends by itself.\<close>

definition decided :: "session \<Rightarrow> instant \<Rightarrow> decision \<Rightarrow> request_row \<Rightarrow> request_row" where
  "decided s now decision r =
     r\<lparr>rq_status := (case decision of Approve \<Rightarrow> ''approved'' | Deny \<Rightarrow> ''denied''), rq_decided_by := Some (s_user s),
       rq_decider := Some (s_username s),
       rq_expires := (case decision of Approve \<Rightarrow> Some (now + rq_minutes r * 60000000000) | Deny \<Rightarrow> None)\<rparr>"

definition given_grant :: "uuid \<Rightarrow> instant \<Rightarrow> request_row \<Rightarrow> object_id \<Rightarrow> grant_row" where
  "given_grant i now r x =
     \<lparr>gr_folder = fst (request_columns x), gr_device = fst (snd (request_columns x)), gr_credential = snd (snd (request_columns x)),
      gr_collection = None, gr_kind = ''user'', gr_sid = rq_sid r, gr_name = rq_name r, gr_role = rq_role r,
      gr_expires = Some (now + rq_minutes r * 60000000000), gr_request = Some i\<rparr>"

text \<open>\<open>rfc3339_show\<close> is how the database writes the end into the answer; \<open>i\<close> the request, \<open>g\<close> the new grant.\<close>

definition decide ::
  "(instant \<Rightarrow> string) \<Rightarrow> hub \<Rightarrow> session \<Rightarrow> string \<Rightarrow> instant \<Rightarrow> instant \<Rightarrow> uuid \<Rightarrow> uuid \<Rightarrow> decision \<Rightarrow> problem + hub" where
  "decide rfc3339_show h s addr before now i g decision =
     (let c = load_catalog h before; sub = session_subject s in
     and_then (case hm_get (hb_requests h) i of Some r \<Rightarrow> Inr r | None \<Rightarrow> Inl (problem NotFound)) (\<lambda>r.
     and_then (case row_request_object r of Some x \<Rightarrow> Inr x | None \<Rightarrow> Inl (problem NotFound)) (\<lambda>target.
     and_then (ensure (may_approve c sub target)
         (problem (case effective_role c sub target of Some _ \<Rightarrow> Forbidden | None \<Rightarrow> NotFound))) (\<lambda>_.
     and_then (ensure (rq_requester r \<noteq> s_user s) (problem OwnRequest)) (\<lambda>_.
     and_then (ensure (rq_status r = ''pending'') (problem RequestDecided)) (\<lambda>_.
     (let h = h\<lparr>hb_requests := hm_update i (decided s now decision) (hb_requests h)\<rparr>;
          details = [(''request_id'', JText (uuid_show i)), (''requester'', JText (rq_name r)), (''role'', JText (rq_role r)),
                     (''minutes'', JNumber (rq_minutes r))] in
     (case decision of
        Deny \<Rightarrow> Inr (hub_audit h (audit_object s ''access.denied'' target details addr))
      | Approve \<Rightarrow>
          and_then (ensure (hm_get (hb_grants h) g = None) (problem Internal)) (\<lambda>_.
            Inr (hub_audit (h\<lparr>hb_grants := hm_insert g (given_grant i now r target) (hb_grants h)\<rparr>)
                   (audit_object s ''access.approved'' target
                      (details @ [(''grant_id'', JText (uuid_show g)),
                         (''expires_at'', json_text (map_option rfc3339_show (gr_expires (given_grant i now r target))))]) addr)))))))))))"

definition cancel_request :: "hub \<Rightarrow> session \<Rightarrow> string \<Rightarrow> uuid \<Rightarrow> problem + hub" where
  "cancel_request h s addr i =
     and_then (case hm_get (hb_requests h) i of
          Some r \<Rightarrow> if rq_requester r = s_user s then Inr r else Inl (problem NotFound)
        | None \<Rightarrow> Inl (problem NotFound)) (\<lambda>r.
     and_then (ensure (rq_status r = ''pending'') (problem RequestDecided)) (\<lambda>_.
     and_then (case row_request_object r of Some x \<Rightarrow> Inr x | None \<Rightarrow> Inl (problem NotFound)) (\<lambda>target.
       Inr (hub_audit (h\<lparr>hb_requests := hm_update i (\<lambda>r. r\<lparr>rq_status := ''cancelled''\<rparr>) (hb_requests h)\<rparr>)
              (audit_object s ''access.cancelled'' target [(''request_id'', JText (uuid_show i)), (''role'', JText (rq_role r))] addr)))))"

section \<open>Roles for remotehub itself\<close>

definition require_admin :: "session \<Rightarrow> problem + unit" where
  "require_admin s = ensure (is_admin s) (problem Forbidden)"

definition role_named :: "string \<Rightarrow> problem + site_role" where
  "role_named n = (case site_role_parse n of Some r \<Rightarrow> Inr r | None \<Rightarrow> Inl (problem NotFound))"

definition audit_role :: "session \<Rightarrow> string \<Rightarrow> (string \<times> json) list \<Rightarrow> string \<Rightarrow> audit_entry" where
  "audit_role s action details addr =
     \<lparr>au_actor = Some (s_user s), au_name = s_username s, au_action = action, au_object = None, au_details = JObject details,
      au_address = Some addr\<rparr>"

definition assign_role ::
  "(string \<Rightarrow> uuid option) \<Rightarrow> hub \<Rightarrow> session \<Rightarrow> string \<Rightarrow> string \<Rightarrow> string \<Rightarrow> string \<Rightarrow> string \<Rightarrow> problem + hub" where
  "assign_role uuid_parse h s addr role_name sid kind name =
     and_then (require_admin s) (\<lambda>_.
     and_then (role_named role_name) (\<lambda>role.
     and_then (case principal_parse uuid_parse sid of Some p \<Rightarrow> Inr p | None \<Rightarrow> Inl (invalid ''principal_sid'')) (\<lambda>p.
     and_then (ensure (principal_check (hb_db h) (hb_groups h) p kind) (invalid ''principal_sid'')) (\<lambda>_.
     and_then (checked_name name ''principal_name'') (\<lambda>n.
     (let k = (principal_show p, site_role_as_str role) in
      if k \<in> set (db_roles (hb_db h)) then Inr h
      else Inr (hub_audit (h\<lparr>hb_db := (hb_db h)\<lparr>db_roles := db_roles (hb_db h) @ [k]\<rparr>, hb_assigned := hm_insert k (kind, n) (hb_assigned h)\<rparr>)
             (audit_role s ''role.assigned''
                [(''role'', JText (site_role_as_str role)), (''principal_sid'', JText (principal_show p)), (''principal_kind'', JText kind),
                 (''principal_name'', JText n)] addr))))))))"

definition revoke_role :: "hub \<Rightarrow> session \<Rightarrow> string \<Rightarrow> string \<Rightarrow> string \<Rightarrow> problem + hub" where
  "revoke_role h s addr role_name sid =
     and_then (require_admin s) (\<lambda>_.
     and_then (role_named role_name) (\<lambda>role.
     (let k = (sid, site_role_as_str role) in
     and_then (ensure (k \<in> set (db_roles (hb_db h))) (problem NotFound)) (\<lambda>_.
     (let n = (case hm_get (hb_assigned h) k of Some (_, n) \<Rightarrow> n | None \<Rightarrow> []);
          kept = filter (\<lambda>x. x \<noteq> k) (db_roles (hb_db h));
          left = length (filter (\<lambda>(_, r). r = site_role_as_str role) kept) in
     and_then (ensure (\<not> (role = Administrator \<and> left = 0)) (problem LastAdministrator)) (\<lambda>_.
       Inr (hub_audit (h\<lparr>hb_db := (hb_db h)\<lparr>db_roles := kept\<rparr>, hb_assigned := hm_remove k (hb_assigned h)\<rparr>)
              (audit_role s ''role.revoked''
                 [(''role'', JText (site_role_as_str role)), (''principal_sid'', JText sid), (''principal_name'', JText n)] addr))))))))"

text \<open>Every role with who has it, the users before the groups, by name.\<close>

definition list_roles :: "(string \<Rightarrow> string) \<Rightarrow> hub \<Rightarrow> session \<Rightarrow> problem + (string \<times> (string \<times> string \<times> string) list) list" where
  "list_roles lower h s =
     and_then (ensure (is_auditor s) (problem Forbidden)) (\<lambda>_.
       (let rows = filter_map (\<lambda>(sid, r). map_option (\<lambda>(kind, n). (r, sid, kind, n)) (hm_get (hb_assigned h) (sid, r))) (db_roles (hb_db h));
            ordered = sort_key (\<lambda>(_, _, kind, _). if kind = ''user'' then 0 else 1 :: nat) (sort_key (\<lambda>(_, _, _, n). lower n) rows)
        in Inr (map (\<lambda>r. (site_role_as_str r, map snd (filter (\<lambda>(x, _). x = site_role_as_str r) ordered))) site_role_all)))"

section \<open>The tables stay right\<close>

lemma grant_columns_object: "grant_columns x = Some (a, b, c, d) \<Longrightarrow> grant_object a b c d = Some x"
  by (cases x) auto

lemma request_columns_object:
  "request_columns x = (a, b, c) \<Longrightarrow> x \<notin> range Collection \<Longrightarrow> x \<notin> range Profile \<Longrightarrow> request_object a b c = Some x"
  by (cases x) (auto simp: request_object_def)

lemma named_object_profile: "named_object kind i = Inr x \<Longrightarrow> x \<notin> range Profile"
  by (auto simp: named_object_def split: if_splits)

lemma role_parse_str [simp]: "role_parse (role_as_str r) = Some r"
  by (cases r) (simp_all add: role_parse_def role_all_def)

lemma put_grant_get:
  assumes "hm_get (put_grant i g gs) j = Some k"
  shows "k = g \<or> hm_get gs j = Some k \<or> (\<exists>b. hm_get gs j = Some b \<and> k = b\<lparr>gr_role := gr_role g, gr_name := gr_name g\<rparr>)"
  using assms by (auto simp: put_grant_def hm.get_put hm_get_update split: option.splits if_splits)

lemma put_grant_table: "hm_ok gs \<Longrightarrow> hm_ok (put_grant i g gs)"
  by (auto simp: put_grant_def hm.ok_put split: option.splits)

lemma put_grant_ok:
  assumes h: "hub_ok h" and g: "grant_ok h g"
  shows "hub_ok (h\<lparr>hb_grants := put_grant i g (hb_grants h)\<rparr>)"
proof (rule hub_ok_grants [OF h put_grant_table [OF hub_ok_tables(7) [OF h]]])
  fix j k
  assume "hm_get (put_grant i g (hb_grants h)) j = Some k"
  from put_grant_get [OF this] show "grant_ok h k"
    using g hub_ok_grantsD [OF h, of j] by (auto simp: grant_ok_def row_object_def)
qed

lemma add_grant_Inr:
  assumes "add_grant uuid_parse rfc stamp h s addr clock now i inp = Inr h'"
  obtains target role p n expires fo de cr co e where
    "named_object (oq_kind (ng_object inp)) (oq_id (ng_object inp)) = Inr target" "role_parse (ng_role inp) = Some role"
    "authorize (load_catalog h now) (session_subject s) Manage target" "principal_parse uuid_parse (ng_sid inp) = Some p"
    "principal_check (hb_db h) (hb_groups h) p (ng_kind inp)" "hm_get (hb_grants h) i = None"
    "grant_columns target = Some (fo, de, cr, co)" "expires = None \<or> ng_expires inp \<noteq> None"
    "h' = hub_audit (h\<lparr>hb_grants := put_grant i
                \<lparr>gr_folder = fo, gr_device = de, gr_credential = cr, gr_collection = co, gr_kind = ng_kind inp, gr_sid = principal_show p,
                 gr_name = n, gr_role = role_as_str role, gr_expires = expires, gr_request = None\<rparr> (hb_grants h)\<rparr>) e"
proof -
  from assms obtain target role p n expires cs where
    target: "named_object (oq_kind (ng_object inp)) (oq_id (ng_object inp)) = Inr target"
    and role: "(case role_parse (ng_role inp) of Some r \<Rightarrow> Inr r | None \<Rightarrow> Inl (invalid ''role'')) = Inr role"
    and p: "(case principal_parse uuid_parse (ng_sid inp) of Some p \<Rightarrow> Inr p | None \<Rightarrow> Inl (invalid ''principal_sid'')) = Inr p"
    and expires: "(case ng_expires inp of
          None \<Rightarrow> Inr None
        | Some t \<Rightarrow> (case rfc t of
            Some at \<Rightarrow> if at > clock then Inr (Some (stamp at)) else Inl (invalid ''expires_at'')
          | None \<Rightarrow> Inl (invalid ''expires_at''))) = Inr expires"
    and a: "authorize (load_catalog h now) (session_subject s) Manage target"
    and check: "principal_check (hb_db h) (hb_groups h) p (ng_kind inp)"
    and cs: "(case grant_columns target of Some cs \<Rightarrow> Inr cs | None \<Rightarrow> Inl (invalid ''kind'')) = Inr cs"
    and rest: "(case cs of (fo, de, cr, co) \<Rightarrow>
     and_then (ensure (hm_get (hb_grants h) i = None) (problem Internal)) (\<lambda>_.
       Inr (hub_audit (h\<lparr>hb_grants := put_grant i
                \<lparr>gr_folder = fo, gr_device = de, gr_credential = cr, gr_collection = co, gr_kind = ng_kind inp, gr_sid = principal_show p,
                 gr_name = n, gr_role = role_as_str role, gr_expires = expires, gr_request = None\<rparr> (hb_grants h)\<rparr>)
              (audit_object s ''grant.added'' target
                 [(''principal_kind'', JText (ng_kind inp)), (''principal_sid'', JText (principal_show p)), (''principal_name'', JText n),
                  (''role'', JText (role_as_str role)), (''expires_at'', json_text (ng_expires inp))] addr)))) = Inr h'"
    unfolding add_grant_def Let_def passed by (elim exE conjE) (rule that, (assumption | rule refl)+)
  obtain fo de cr co where four: "cs = (fo, de, cr, co)" by (cases cs) auto
  show thesis
  proof (rule that [OF target _ a _ check])
    show "role_parse (ng_role inp) = Some role" using role by (simp split: option.splits)
    show "principal_parse uuid_parse (ng_sid inp) = Some p" using p by (simp split: option.splits)
    show "grant_columns target = Some (fo, de, cr, co)" using cs four by (simp split: option.splits)
    show "hm_get (hb_grants h) i = None" using rest by (simp add: four)
    show "expires = None \<or> ng_expires inp \<noteq> None" using expires by (auto split: option.splits)
    show "h' = hub_audit (h\<lparr>hb_grants := put_grant i
                \<lparr>gr_folder = fo, gr_device = de, gr_credential = cr, gr_collection = co, gr_kind = ng_kind inp, gr_sid = principal_show p,
                 gr_name = n, gr_role = role_as_str role, gr_expires = expires, gr_request = None\<rparr> (hb_grants h)\<rparr>)
        (audit_object s ''grant.added'' target
                 [(''principal_kind'', JText (ng_kind inp)), (''principal_sid'', JText (principal_show p)), (''principal_name'', JText n),
                  (''role'', JText (role_as_str role)), (''expires_at'', json_text (ng_expires inp))] addr)"
      using rest by (simp add: four)
  qed
qed

lemma add_grant_ok:
  assumes "add_grant uuid_parse rfc stamp h s addr clock now i inp = Inr h'" and h: "hub_ok h"
  shows "hub_ok h'"
  using assms(1)
proof (rule add_grant_Inr)
  fix target role p n expires fo de cr co e
  assume a: "authorize (load_catalog h now) (session_subject s) Manage target" and cs: "grant_columns target = Some (fo, de, cr, co)"
    and h': "h' = hub_audit (h\<lparr>hb_grants := put_grant i
                \<lparr>gr_folder = fo, gr_device = de, gr_credential = cr, gr_collection = co, gr_kind = ng_kind inp, gr_sid = principal_show p,
                 gr_name = n, gr_role = role_as_str role, gr_expires = expires, gr_request = None\<rparr> (hb_grants h)\<rparr>) e"
  show ?thesis
    unfolding h' hub_audit_ok using authorized_has [OF hub_okD(1) [OF h] a] grant_columns_object [OF cs]
    by (intro put_grant_ok [OF h]) (simp add: grant_ok_def row_object_def)
qed

lemma remove_grant_ok:
  assumes "remove_grant h s addr now i = Inr h'" and h: "hub_ok h"
  shows "hub_ok h'"
proof -
  note t = hub_ok_tables(7) [OF h]
  from assms(1) obtain e where h': "hub_audit (h\<lparr>hb_grants := hm_remove i (hb_grants h)\<rparr>) e = h'"
    unfolding remove_grant_def Let_def passed by (elim exE conjE) (rule that)
  have "hub_ok (h\<lparr>hb_grants := hm_remove i (hb_grants h)\<rparr>)"
    by (rule hub_ok_grants [OF h hm.ok_del [OF t]]) (auto simp: hm.get_del [OF t] hub_ok_grantsD [OF h] split: if_splits)
  then show ?thesis using h' by auto
qed

lemma create_request_Inr:
  assumes "create_request h s addr now i inp = Inr (h', j)"
  obtains target sid role fo de cr reason e where
    "named_object (oq_kind (nr_object inp)) (oq_id (nr_object inp)) = Inr target" "target \<notin> range Collection"
    "session_principal s = Some sid" "may_request (load_catalog h now) (session_subject s) role target" "nr_minutes inp \<in> REQUEST_MINUTES"
    "request_columns target = (fo, de, cr)" "hm_get (hb_requests h) i = None"
    "h' = hub_audit (h\<lparr>hb_requests := hm_insert i
                \<lparr>rq_folder = fo, rq_device = de, rq_credential = cr, rq_requester = s_user s, rq_sid = sid, rq_name = s_username s,
                 rq_role = role_as_str role, rq_minutes = nr_minutes inp, rq_reason = reason, rq_status = ''pending'',
                 rq_decided_by = None, rq_decider = None, rq_expires = None, rq_created = now\<rparr> (hb_requests h)\<rparr>) e"
proof -
  let ?row = "\<lambda>sid role cs. \<lparr>rq_folder = fst cs, rq_device = fst (snd cs), rq_credential = snd (snd cs), rq_requester = s_user s, rq_sid = sid, rq_name = s_username s,
                 rq_role = role_as_str role, rq_minutes = nr_minutes inp, rq_reason = trim (nr_reason inp), rq_status = ''pending'',
                 rq_decided_by = None, rq_decider = None, rq_expires = None, rq_created = now\<rparr>"
  from assms obtain target sid role e where
    target: "named_object (oq_kind (nr_object inp)) (oq_id (nr_object inp)) = Inr target"
    and kind: "case target of Collection _ \<Rightarrow> False | _ \<Rightarrow> True"
    and sid: "(case session_principal s of Some sid \<Rightarrow> Inr sid | None \<Rightarrow> Inl (problem Forbidden)) = Inr sid"
    and may: "may_request (load_catalog h now) (session_subject s) role target" and minutes: "nr_minutes inp \<in> REQUEST_MINUTES"
    and new: "hm_get (hb_requests h) i = None"
    and h': "hub_audit (h\<lparr>hb_requests := hm_insert i (?row sid role (request_columns target)) (hb_requests h)\<rparr>) e = h'"
    unfolding create_request_def Let_def passed
    by (elim exE conjE) (rule that, (assumption | rule refl)+)
  obtain fo de cr where "request_columns target = (fo, de, cr)" by (cases "request_columns target") auto
  with target kind sid may minutes new h' show thesis
    by (intro that) (auto split: object_id.splits option.splits)
qed

lemma put_request_ok:
  "hub_ok h \<Longrightarrow> request_ok h r \<Longrightarrow> hub_ok (h\<lparr>hb_requests := hm_insert i r (hb_requests h)\<rparr>)"
  by (rule hub_ok_requests) (auto simp: hub_ok_tables hm.ok_put hm.get_put hub_ok_requestsD split: if_splits)

lemma create_request_ok:
  assumes "create_request h s addr now i inp = Inr (h', j)" and h: "hub_ok h"
  shows "hub_ok h'"
  using assms(1)
proof (rule create_request_Inr)
  fix target sid role fo de cr reason e
  assume target: "named_object (oq_kind (nr_object inp)) (oq_id (nr_object inp)) = Inr target" "target \<notin> range Collection"
    and may: "may_request (load_catalog h now) (session_subject s) role target" and minutes: "nr_minutes inp \<in> REQUEST_MINUTES"
    and cs: "request_columns target = (fo, de, cr)"
    and h': "h' = hub_audit (h\<lparr>hb_requests := hm_insert i
                \<lparr>rq_folder = fo, rq_device = de, rq_credential = cr, rq_requester = s_user s, rq_sid = sid, rq_name = s_username s,
                 rq_role = role_as_str role, rq_minutes = nr_minutes inp, rq_reason = reason, rq_status = ''pending'',
                 rq_decided_by = None, rq_decider = None, rq_expires = None, rq_created = now\<rparr> (hb_requests h)\<rparr>) e"
  have "hub_has h target" using may effective_has [OF hub_okD(1) [OF h]] by (auto simp: may_request_def split: option.splits)
  then show ?thesis
    unfolding h' hub_audit_ok using request_columns_object [OF cs target(2) named_object_profile [OF target(1)]] may minutes
    by (intro put_request_ok [OF h]) (auto simp: request_ok_def may_request_def REQUEST_MINUTES_def)
qed

lemma decide_Inr:
  assumes "decide rfc h s addr before now i g decision = Inr h'"
  obtains r target e where "hm_get (hb_requests h) i = Some r" "row_request_object r = Some target"
    "authorize (load_catalog h before) (session_subject s) Manage target" "rq_requester r \<noteq> s_user s" "rq_status r = ''pending''"
    "h' = hub_audit (h\<lparr>hb_requests := hm_insert i (decided s now decision r) (hb_requests h),
        hb_grants := (case decision of Approve \<Rightarrow> hm_insert g (given_grant i now r target) (hb_grants h) | Deny \<Rightarrow> hb_grants h)\<rparr>) e"
    "decision = Approve \<longrightarrow> hm_get (hb_grants h) g = None"
proof -
  from assms obtain r target where
    "(case hm_get (hb_requests h) i of Some r \<Rightarrow> Inr r | None \<Rightarrow> Inl (problem NotFound)) = Inr r"
    "(case row_request_object r of Some x \<Rightarrow> Inr x | None \<Rightarrow> Inl (problem NotFound)) = Inr target"
    and a: "authorize (load_catalog h before) (session_subject s) Manage target" and other: "rq_requester r \<noteq> s_user s"
    and pending: "rq_status r = ''pending''"
    unfolding decide_def Let_def passed may_approve_def by (elim exE conjE) (rule that)
  then have r: "hm_get (hb_requests h) i = Some r" and target: "row_request_object r = Some target"
    by (simp_all split: option.splits)
  note d = decide_def Let_def r target may_approve_def hm_update_insert [OF r]
  show thesis
  proof (cases decision)
    case Approve
    have free: "hm_get (hb_grants h) g = None"
      and "\<exists>e. hub_audit (h\<lparr>hb_requests := hm_insert i (decided s now decision r) (hb_requests h),
        hb_grants := hm_insert g (given_grant i now r target) (hb_grants h)\<rparr>) e = h'"
      using assms a other pending Approve by (auto simp: d)
    then obtain e where "h' = hub_audit (h\<lparr>hb_requests := hm_insert i (decided s now decision r) (hb_requests h),
        hb_grants := hm_insert g (given_grant i now r target) (hb_grants h)\<rparr>) e" by blast
    then show thesis using free Approve by (intro that [OF r target a other pending]) simp_all
  next
    case Deny
    have "\<exists>e. hub_audit (h\<lparr>hb_requests := hm_insert i (decided s now decision r) (hb_requests h)\<rparr>) e = h'"
      using assms a other pending Deny by (auto simp: d)
    then obtain e where "h' = hub_audit (h\<lparr>hb_requests := hm_insert i (decided s now decision r) (hb_requests h)\<rparr>) e" by blast
    then show thesis using Deny by (intro that [OF r target a other pending]) simp_all
  qed
qed

lemma row_request_object_cases: "row_request_object r = Some x \<Longrightarrow> x \<notin> range Collection \<and> x \<notin> range Profile"
  by (auto simp: row_request_object_def request_object_def grant_object_iffs)

lemma given_grant_object:
  "row_request_object r = Some x \<Longrightarrow> row_object (given_grant i now r x) = Some x"
  by (cases x) (auto simp: given_grant_def row_object_def dest: row_request_object_cases)

lemma decide_ok:
  assumes "decide rfc h s addr before now i g decision = Inr h'" and h: "hub_ok h"
  shows "hub_ok h'"
  using assms(1)
proof (rule decide_Inr)
  fix r target e
  let ?gs = "case decision of Approve \<Rightarrow> hm_insert g (given_grant i now r target) (hb_grants h) | Deny \<Rightarrow> hb_grants h"
  assume r: "hm_get (hb_requests h) i = Some r" and target: "row_request_object r = Some target"
    and a: "authorize (load_catalog h before) (session_subject s) Manage target"
    and h': "h' = hub_audit (h\<lparr>hb_requests := hm_insert i (decided s now decision r) (hb_requests h), hb_grants := ?gs\<rparr>) e"
  let ?h = "h\<lparr>hb_requests := hm_insert i (decided s now decision r) (hb_requests h)\<rparr>"
  note old = hub_ok_requestsD [OF h r]
  have ok: "hub_ok ?h" using old by (intro put_request_ok [OF h]) (simp add: request_ok_def decided_def)
  have role: "role_parse (rq_role r) \<noteq> None"
    using old role_parse_str [of Connect] role_parse_str [of Reveal] by (auto simp: request_ok_def)
  have "hub_ok (?h\<lparr>hb_grants := ?gs\<rparr>)"
  proof (rule hub_ok_grants [OF ok])
    show "hm_ok ?gs" using hub_ok_tables(7) [OF h] by (cases decision) (simp_all add: hm.ok_put)
    show "grant_ok ?h k" if "hm_get ?gs j = Some k" for j k
    proof (cases "hm_get (hb_grants h) j = Some k")
      case True
      then show ?thesis using hub_ok_grantsD [OF h] by (simp add: grant_ok_def)
    next
      case False
      with that have k: "k = given_grant i now r target" by (cases decision) (auto simp: hm.get_put split: if_splits)
      show ?thesis
        using role authorized_has [OF hub_okD(1) [OF h] a] given_grant_object [OF target, of i now]
        by (simp add: grant_ok_def k) (simp add: given_grant_def)
    qed
  qed
  then show ?thesis by (simp add: h')
qed

lemma cancel_request_ok:
  assumes "cancel_request h s addr i = Inr h'" and h: "hub_ok h"
  shows "hub_ok h'"
proof -
  from assms(1) obtain r e where r: "hm_get (hb_requests h) i = Some r"
    and h': "h' = hub_audit (h\<lparr>hb_requests := hm_update i (\<lambda>r. r\<lparr>rq_status := ''cancelled''\<rparr>) (hb_requests h)\<rparr>) e"
    by (auto simp: cancel_request_def split: option.splits if_splits)
  show ?thesis
    using put_request_ok [OF h, of "r\<lparr>rq_status := ''cancelled''\<rparr>"] hub_ok_requestsD [OF h r]
    by (simp add: h' hm_update_insert [OF r] request_ok_def)
qed

lemma assign_role_ok: "assign_role uuid_parse h s addr rn sid kind name = Inr h' \<Longrightarrow> hub_ok h \<Longrightarrow> hub_ok h'"
  by (auto simp: assign_role_def Let_def hub_ok_tables hm.ok_put intro!: hub_ok_assigned split: if_splits)

lemma revoke_role_ok: "revoke_role h s addr rn sid = Inr h' \<Longrightarrow> hub_ok h \<Longrightarrow> hub_ok h'"
  by (auto simp: revoke_role_def Let_def hub_ok_tables hm.ok_del intro!: hub_ok_assigned split: if_splits)

section \<open>What a grant gives\<close>

lemma insert_new: "hm_get m k = None \<Longrightarrow> hm_insert k v m = m @ [(k, v)]"
  by (induction m) auto

lemma granted_snoc:
  "granted objs (gs @ [g]) now s x = granted objs gs now s x \<union>
     (if active now g \<and> principal g \<in> sids s \<and> above (catalog_new objs gs now) x (object g) then {grant_role g} else {})"
  unfolding granted_def above_new_cong [of objs "gs @ [g]" now gs now] by auto

text \<open>One grant more allows exactly what it gives, on its object and below, while it lasts.\<close>

lemma authorize_snoc:
  "authorize (catalog_new objs (gs @ [g]) now) s needed x \<longleftrightarrow> authorize (catalog_new objs gs now) s needed x
     \<or> contains (catalog_new objs gs now) x \<and> active now g \<and> principal g \<in> sids s \<and> needed \<le> grant_role g
        \<and> above (catalog_new objs gs now) x (object g)"
  unfolding authorize_new granted_snoc contains_new_cong [of objs "gs @ [g]" now x gs now] by auto

lemma hub_grants_snoc:
  assumes "hm_get (hb_grants h) i = None" and "row_grant g = Some k"
  shows "hub_grants (h\<lparr>hb_grants := hm_insert i g (hb_grants h)\<rparr>) = hub_grants h @ [k]"
  using assms by (simp add: hub_grants_def insert_new map_filter_def)

lemma given_grant_row:
  assumes "row_request_object r = Some x" and "rq_role r = role_as_str role"
  shows "row_grant (given_grant i now r x)
    = Some \<lparr>object = x, principal = rq_sid r, grant_role = role, until = Some (epoch (now + rq_minutes r * 60000000000))\<rparr>"
  using given_grant_object [OF assms(1), of i now] assms(2) by (simp add: row_grant_def) (simp add: given_grant_def)

end
