(* ===== verification/TreeApi.thy ===== *)
theory TreeApi
  imports Grants Credentials
begin

text \<open>
  The requests that change the tree of objects, as the routes of \<^verbatim>\<open>crates/server/src/api/mod.rs\<close> hand
  them out, one after the other: what the tables are like after any number of them, who may make
  which change, and that none goes unrecorded.
\<close>

section \<open>Requests\<close>

text \<open>
  What the handlers get from outside: the crates and parameters of the theories below, the time of
  the process, and the time at which the second statement of a decision runs. A new object's
  identifier is drawn by the handler; here it comes with the request.
\<close>

record tree_env =
  te_server :: server
  te_ssh :: ssh_crate
  te_date :: "int \<Rightarrow> nat \<Rightarrow> nat \<Rightarrow> bool"
  te_random :: "string \<Rightarrow> seal_randomness"
  te_uuid_parse :: "string \<Rightarrow> uuid option"
  te_rfc3339 :: "string \<Rightarrow> instant option"
  te_stamp :: "instant \<Rightarrow> instant"
  te_rfc3339_show :: "instant \<Rightarrow> string"
  te_fingerprint :: "string \<Rightarrow> string option"
  te_clock :: instant
  te_later :: instant

datatype tree_request =
    OpenFolder uuid bool
  | CreateFolder uuid new_folder
  | UpdateFolder uuid folder_change
  | DeleteFolder uuid
  | CreateDevice uuid device_input
  | UpdateDevice uuid device_input
  | MoveDevice uuid uuid
  | DeleteDevice uuid
  | ResetHostKey uuid
  | SetKeywords uuid string
  | CreateProfile uuid profile_input
  | UpdateProfile uuid profile_input
  | DeleteProfile uuid
  | CreateCredential uuid credential_input
  | UpdateCredential uuid credential_input
  | DeleteCredential uuid bool
  | RestoreCredential uuid
  | CreateCollection uuid "uuid option" string
  | UpdateCollection uuid "string option" "uuid option option"
  | DeleteCollection uuid
  | AddGrant uuid new_grant
  | RemoveGrant uuid
  | CreateRequest uuid new_request
  | DecideRequest uuid uuid decision
  | CancelRequest uuid
  | AssignRole string string string string
  | RevokeRole string string

text \<open>The tables alone of an answer that also names the new object.\<close>

definition tables_of :: "problem + (hub \<times> uuid) \<Rightarrow> problem + hub" where
  "tables_of x = (case x of Inl e \<Rightarrow> Inl e | Inr (h, _) \<Rightarrow> Inr h)"

fun tree_handle :: "tree_env \<Rightarrow> hub \<Rightarrow> session \<Rightarrow> string \<Rightarrow> instant \<Rightarrow> tree_request \<Rightarrow> problem + hub" where
  "tree_handle v h s addr now (OpenFolder i opened) = set_folder_open h s now i opened"
| "tree_handle v h s addr now (CreateFolder i inp) = tables_of (create_folder h s addr now i inp)"
| "tree_handle v h s addr now (UpdateFolder i inp) = update_folder (sv_lower (te_server v)) h s addr now i inp"
| "tree_handle v h s addr now (DeleteFolder i) = delete_folder h s addr now i"
| "tree_handle v h s addr now (CreateDevice i inp) = tables_of (create_device (te_server v) (te_ssh v) (te_random v) h s addr now i inp)"
| "tree_handle v h s addr now (UpdateDevice i inp) = update_device (te_server v) (te_ssh v) (te_random v) h s addr now i inp"
| "tree_handle v h s addr now (MoveDevice i f) = move_device h s addr now i f"
| "tree_handle v h s addr now (DeleteDevice i) = delete_device h s addr now i"
| "tree_handle v h s addr now (ResetHostKey i) = reset_host_key (te_fingerprint v) h s addr now i"
| "tree_handle v h s addr now (SetKeywords i words) = set_keywords h s addr now i words"
| "tree_handle v h s addr now (CreateProfile i inp) = tables_of (create_profile (te_server v) (te_ssh v) (te_random v) h s addr now i inp)"
| "tree_handle v h s addr now (UpdateProfile i inp) = update_profile (te_server v) (te_ssh v) (te_random v) h s addr now i inp"
| "tree_handle v h s addr now (DeleteProfile i) = delete_profile (sv_lower (te_server v)) h s addr now i"
| "tree_handle v h s addr now (CreateCredential i inp) =
     tables_of (create_credential (te_server v) (te_ssh v) (te_date v) (te_random v) h s addr now i inp)"
| "tree_handle v h s addr now (UpdateCredential i inp) =
     update_credential (te_server v) (te_ssh v) (te_date v) (te_random v) h s addr now i inp"
| "tree_handle v h s addr now (DeleteCredential i purged) = delete_credential h s addr now i purged"
| "tree_handle v h s addr now (RestoreCredential i) = restore_credential h s addr now i"
| "tree_handle v h s addr now (CreateCollection i p n) = tables_of (create_collection h s addr now i p n)"
| "tree_handle v h s addr now (UpdateCollection i n p) = update_collection h s addr now i n p"
| "tree_handle v h s addr now (DeleteCollection i) = delete_collection h s addr now i"
| "tree_handle v h s addr now (AddGrant i inp) = add_grant (te_uuid_parse v) (te_rfc3339 v) (te_stamp v) h s addr (te_clock v) now i inp"
| "tree_handle v h s addr now (RemoveGrant i) = remove_grant h s addr now i"
| "tree_handle v h s addr now (CreateRequest i inp) = tables_of (create_request h s addr now i inp)"
| "tree_handle v h s addr now (DecideRequest i g d) = decide (te_rfc3339_show v) h s addr now (te_later v) i g d"
| "tree_handle v h s addr now (CancelRequest i) = cancel_request h s addr i"
| "tree_handle v h s addr now (AssignRole r sid kind n) = assign_role (te_uuid_parse v) h s addr r sid kind n"
| "tree_handle v h s addr now (RevokeRole r sid) = revoke_role h s addr r sid"

lemma tables_of_Inr [simp]: "tables_of x = Inr h \<longleftrightarrow> (\<exists>i. x = Inr (h, i))"
  by (auto simp: tables_of_def split: sum.splits)

section \<open>The invariant\<close>

inductive tree_step :: "hub \<Rightarrow> hub \<Rightarrow> bool" where
  handled: "tree_handle v h s addr now req = Inr h' \<Longrightarrow> tree_step h h'"

inductive_cases tree_stepE: "tree_step h h'"

lemmas handlers_ok = set_folder_open_ok create_folder_ok update_folder_ok delete_folder_ok create_device_ok update_device_ok move_device_ok
  delete_device_ok reset_host_key_ok set_keywords_ok create_profile_ok update_profile_ok delete_profile_ok create_credential_ok
  update_credential_ok delete_credential_ok restore_credential_ok create_collection_ok update_collection_ok delete_collection_ok
  add_grant_ok remove_grant_ok create_request_ok decide_ok cancel_request_ok assign_role_ok revoke_role_ok

lemma tree_handle_ok: "tree_handle v h s addr now req = Inr h' \<Longrightarrow> hub_ok h \<Longrightarrow> hub_ok h'"
  by (cases req) (auto dest: handlers_ok)

interpretation tree: machine tree_step hub_ok
  by unfold_locales (auto elim!: tree_stepE intro: tree_handle_ok)

text \<open>The tables of a fresh installation: nothing in the tree yet.\<close>

definition empty_hub :: hub where
  "empty_hub = \<lparr>hb_db = empty_db, hb_folders = [], hb_devices = [], hb_profiles = [], hb_collections = [], hb_credentials = [],
     hb_attachments = [], hb_grants = [], hb_requests = [], hb_connectors = [], hb_groups = [], hb_open = [], hb_assigned = []\<rparr>"

lemma empty_hub_ok: "hub_ok (empty_hub\<lparr>hb_db := db, hb_connectors := cs, hb_groups := gs\<rparr>)"
  by (simp add: empty_hub_def hub_ok_def tables_ok_def hm_ok_def folders_ok_def collections_ok_def parents_exist_def folder_edges_def
      collection_edges_def acyclic_def)

section \<open>Every change is recorded\<close>

definition log_of :: "hub \<Rightarrow> audit_entry list" where
  "log_of h = db_audit (hb_db h)"

definition recorded :: "session \<Rightarrow> string \<Rightarrow> hub \<Rightarrow> hub \<Rightarrow> bool" where
  "recorded s addr h h' \<longleftrightarrow>
     (\<exists>e. log_of h' = log_of h @ [e] \<and> au_actor e = Some (s_user s) \<and> au_name e = s_username s \<and> au_address e = Some addr)"

lemma recorded_audit:
  "log_of k = log_of h \<Longrightarrow> hub_audit k (audit_object s act x ds addr) = h' \<Longrightarrow> recorded s addr h h'"
  "log_of k = log_of h \<Longrightarrow> hub_audit k (audit_role s act ds addr) = h' \<Longrightarrow> recorded s addr h h'"
  by (auto simp: recorded_def log_of_def hub_audit_def audit_record_def audit_object_def audit_role_def)

lemma log_of_tables [simp]:
  "log_of (h\<lparr>hb_folders := a\<rparr>) = log_of h" "log_of (h\<lparr>hb_devices := b\<rparr>) = log_of h" "log_of (h\<lparr>hb_profiles := c\<rparr>) = log_of h"
  "log_of (h\<lparr>hb_collections := d\<rparr>) = log_of h" "log_of (h\<lparr>hb_credentials := e\<rparr>) = log_of h" "log_of (h\<lparr>hb_attachments := f\<rparr>) = log_of h"
  "log_of (h\<lparr>hb_grants := g\<rparr>) = log_of h" "log_of (h\<lparr>hb_requests := k\<rparr>) = log_of h" "log_of (h\<lparr>hb_open := l\<rparr>) = log_of h"
  "log_of (h\<lparr>hb_assigned := m\<rparr>) = log_of h" "log_of (drop_secrets n h) = log_of h" "log_of (forget_pins is h) = log_of h"
  by (simp_all add: log_of_def drop_secrets_def forget_pins_def)

lemma log_purge [simp]: "log_of (purge_credentials is h) = log_of h"
  by (simp add: purge_credentials_def Let_def)

lemma log_store: "hub_store sv rnd owner v fld plain h = Inr h' \<Longrightarrow> log_of h' = log_of h"
  by (auto simp: hub_store_def log_of_def split: sum.splits)

lemma log_store_all: "hub_store_all sv rnd owner v fs h = Inr h' \<Longrightarrow> log_of h' = log_of h"
  by (induction sv rnd owner v fs h rule: hub_store_all.induct) (auto dest: log_store)

lemma log_seal: "seal_version sv rnd i v given h = Inr h' \<Longrightarrow> log_of h' = log_of h"
  by (auto simp: seal_version_def dest: log_store_all split: option.splits)

lemma log_carry: "carry sv rnd i v w ns h = Inr h' \<Longrightarrow> log_of h' = log_of h"
proof (induction sv rnd i v w ns h rule: carry.induct)
  case (2 sv rnd i v w n ns h)
  then obtain found k where "(case found of Some plain \<Rightarrow> hub_store sv rnd i w n plain h | None \<Rightarrow> Inr h) = Inr k" and "log_of h' = log_of k"
    by auto
  then show ?case by (cases found) (auto dest: log_store)
qed simp

text \<open>The handlers that only write what they decided, then those that seal secrets.\<close>

lemma folders_recorded:
  "create_folder h s addr now i nf = Inr (h', j) \<Longrightarrow> recorded s addr h h'"
  "update_folder lower h s addr now i fc = Inr h' \<Longrightarrow> recorded s addr h h'"
  "delete_folder h s addr now i = Inr h' \<Longrightarrow> recorded s addr h h'"
  unfolding create_folder_def update_folder_def delete_folder_def Let_def passed
  by (elim exE conjE, erule recorded_audit(1) [rotated], simp)+

lemma devices_recorded:
  "delete_device h s addr now i = Inr h' \<Longrightarrow> recorded s addr h h'"
  "set_keywords h s addr now i words = Inr h' \<Longrightarrow> recorded s addr h h'"
  "delete_profile lower h s addr now i = Inr h' \<Longrightarrow> recorded s addr h h'"
  unfolding delete_device_def set_keywords_def delete_profile_def Let_def passed
  by (elim exE conjE, erule recorded_audit(1) [rotated], simp)+

lemma reset_recorded: "reset_host_key fp h s addr now i = Inr h' \<Longrightarrow> recorded s addr h h'"
  unfolding reset_host_key_def Let_def passed by (auto intro!: recorded_audit(1) [OF _ refl])

lemma sealed_recorded:
  "create_device sv sk rnd h s addr now i di = Inr (h', j) \<Longrightarrow> recorded s addr h h'"
  "update_device sv sk rnd h s addr now i di = Inr h' \<Longrightarrow> recorded s addr h h'"
  "create_profile sv sk rnd h s addr now i inp = Inr (h', j) \<Longrightarrow> recorded s addr h h'"
  unfolding create_device_def update_device_def create_profile_def Let_def passed
  by (elim exE conjE, erule recorded_audit(1) [rotated], drule log_seal, simp)+

lemma update_profile_recorded: "update_profile sv sk rnd h s addr now i inp = Inr h' \<Longrightarrow> recorded s addr h h'"
  unfolding update_profile_def Let_def passed
  by (elim exE conjE, erule recorded_audit(1) [rotated], drule log_seal) simp

lemma create_credential_recorded: "create_credential sv sk date rnd h s addr now i ci = Inr (h', j) \<Longrightarrow> recorded s addr h h'"
  unfolding create_credential_def Let_def passed
  by (elim exE conjE, erule recorded_audit(1) [rotated], drule log_seal, drule log_store_all, drule log_store_all, simp)

lemma update_credential_recorded:
  assumes "update_credential sv sk date rnd h s addr now i ci = Inr h'"
  shows "recorded s addr h h'"
proof -
  from assms obtain changed v w ns rows fs gs given k l m act x ds where
    k: "(if changed then and_then (carry sv rnd i v w ns (h\<lparr>hb_credentials := rows\<rparr>)) (hub_store_all sv rnd i w fs)
        else Inr (h\<lparr>hb_credentials := rows\<rparr>)) = Inr k"
    and l: "seal_version sv rnd i w given k = Inr l" and m: "hub_store_all sv rnd i w gs l = Inr m"
    and h': "hub_audit m (audit_object s act x ds addr) = h'"
    unfolding update_credential_def Let_def passed by (elim exE conjE) (rule that, (assumption | rule refl)+)
  from k have "log_of k = log_of h" by (auto dest!: log_carry log_store_all split: if_splits)
  with log_seal [OF l] log_store_all [OF m] have "log_of m = log_of h" by simp
  then show ?thesis using h' by (rule recorded_audit(1))
qed

lemma collections_recorded:
  "restore_credential h s addr now i = Inr h' \<Longrightarrow> recorded s addr h h'"
  "create_collection h s addr now i p name = Inr (h', j) \<Longrightarrow> recorded s addr h h'"
  "update_collection h s addr now i n place = Inr h' \<Longrightarrow> recorded s addr h h'"
  "delete_collection h s addr now i = Inr h' \<Longrightarrow> recorded s addr h h'"
  unfolding restore_credential_def create_collection_def update_collection_def delete_collection_def Let_def passed
  by (elim exE conjE, erule recorded_audit(1) [rotated], simp)+

lemma delete_credential_recorded: "delete_credential h s addr now i purged = Inr h' \<Longrightarrow> recorded s addr h h' \<or> h' = h"
  unfolding delete_credential_def Let_def passed
  by (auto split: if_splits option.splits intro!: recorded_audit(1) [OF _ refl])

lemma move_device_recorded: "move_device h s addr now i f = Inr h' \<Longrightarrow> recorded s addr h h' \<or> h' = h"
  unfolding move_device_def Let_def passed
  by (auto split: if_splits intro!: recorded_audit(1) [OF _ refl])

lemma requests_recorded:
  "remove_grant h s addr now i = Inr h' \<Longrightarrow> recorded s addr h h'"
  "create_request h s addr now i nr = Inr (h', j) \<Longrightarrow> recorded s addr h h'"
  "cancel_request h s addr i = Inr h' \<Longrightarrow> recorded s addr h h'"
  unfolding remove_grant_def create_request_def cancel_request_def Let_def passed
  by (elim exE conjE, erule recorded_audit(1) [rotated], simp)+

lemma add_grant_recorded: "add_grant up rfc stamp h s addr clock now i inp = Inr h' \<Longrightarrow> recorded s addr h h'"
  unfolding add_grant_def Let_def passed
  by (elim exE conjE) (auto split: prod.splits intro!: recorded_audit(1) [OF _ refl])

lemma decide_recorded: "decide rfc h s addr before now i g d = Inr h' \<Longrightarrow> recorded s addr h h'"
  unfolding decide_def Let_def passed
  by (elim exE conjE, cases d) (auto intro!: recorded_audit(1) [OF _ refl])

lemma roles_recorded:
  "assign_role up h s addr rn sid kind n = Inr h' \<Longrightarrow> recorded s addr h h' \<or> h' = h"
  "revoke_role h s addr rn sid = Inr h' \<Longrightarrow> recorded s addr h h'"
  by (auto simp: assign_role_def revoke_role_def Let_def log_of_def intro!: recorded_audit(2) [OF _ refl] split: if_splits)

lemmas all_recorded = folders_recorded devices_recorded reset_recorded sealed_recorded update_profile_recorded create_credential_recorded
  update_credential_recorded collections_recorded requests_recorded add_grant_recorded decide_recorded roles_recorded(2)

lemma tree_handle_recorded:
  "tree_handle v h s addr now req = Inr h' \<Longrightarrow> recorded s addr h h' \<or> h' = h \<or> (\<exists>i b. req = OpenFolder i b)"
  by (cases req)
    (auto dest: all_recorded delete_credential_recorded move_device_recorded roles_recorded(1))

section \<open>Pointing devices at other machines\<close>

text \<open>Requests after which every device that stays is reached where it was.\<close>

definition keeps_targets :: "hub \<Rightarrow> hub \<Rightarrow> bool" where
  "keeps_targets h h' \<longleftrightarrow> hb_folders h' = hb_folders h
     \<and> (\<forall>k d d'. hm_get (hb_devices h) k = Some d \<and> hm_get (hb_devices h') k = Some d' \<longrightarrow> device_target h d' = device_target h d)"

lemma keeps_targetsI: "hb_folders h' = hb_folders h \<Longrightarrow> hb_devices h' = hb_devices h \<Longrightarrow> keeps_targets h h'"
  by (auto simp: keeps_targets_def)

lemma seal_tables:
  "seal_version sv rnd i v given h = Inr h' \<Longrightarrow> hb_folders h' = hb_folders h \<and> hb_devices h' = hb_devices h"
  by (auto dest!: seal_version_db)

lemma create_device_keeps:
  assumes "create_device sv sk rnd h s addr now i inp = Inr (h', j)" and h: "hub_ok h"
  shows "keeps_targets h h'"
  using assms(1) hub_okD(1) [OF h]
  by (rule create_device_Inr) (auto simp: keeps_targets_def hm.get_put split: if_splits)

lemma delete_device_keeps: "delete_device h s addr now i = Inr h' \<Longrightarrow> hub_ok h \<Longrightarrow> keeps_targets h h'"
  by (auto simp: delete_device_Inr keeps_targets_def hub_audit_def drop_secrets_def hm.get_del hub_ok_tables split: if_splits)

lemma pins_target: "device_target h (d\<lparr>dv_host_key := a, dv_certificate := b\<rparr>) = device_target h d"
  "device_target h (d\<lparr>dv_keywords := k, dv_keywords_by := l\<rparr>) = device_target h d"
  by (simp_all add: device_target_def reached_through_def)

lemma reset_host_key_keeps: "reset_host_key fp h s addr now i = Inr h' \<Longrightarrow> keeps_targets h h'"
  by (auto simp: reset_host_key_def Let_def hub_audit_def forget_pins_def keeps_targets_def hm_get_map_rows pins_target split: if_splits)

lemma set_keywords_keeps: "set_keywords h s addr now i words = Inr h' \<Longrightarrow> keeps_targets h h'"
  by (auto simp: set_keywords_def Let_def hub_audit_def keeps_targets_def hm_get_update pins_target split: if_splits)

lemma set_folder_open_keeps: "set_folder_open h s now i b = Inr h' \<Longrightarrow> keeps_targets h h'"
  by (auto simp: set_folder_open_def Let_def intro: keeps_targetsI split: if_splits)

lemma profiles_keep:
  "create_profile sv sk rnd h s addr now i inp = Inr (h', j) \<Longrightarrow> keeps_targets h h'"
  "delete_profile lower h s addr now i = Inr h' \<Longrightarrow> keeps_targets h h'"
  unfolding create_profile_def delete_profile_def Let_def passed
  by (elim exE conjE, drule seal_tables, rule keeps_targetsI; auto simp: hub_audit_def)
    (elim exE conjE, rule keeps_targetsI; auto simp: hub_audit_def drop_secrets_def)

lemma update_profile_keeps: "update_profile sv sk rnd h s addr now i inp = Inr h' \<Longrightarrow> keeps_targets h h'"
  by (erule update_profile_Inr) (auto intro: keeps_targetsI)

lemma purge_tables [simp]:
  "hb_folders (purge_credentials gone h) = hb_folders h" "hb_devices (purge_credentials gone h) = hb_devices h"
  by (simp_all add: purge_credentials_def Let_def drop_secrets_def)

lemma credentials_keep:
  "create_credential sv sk date rnd h s addr now i ci = Inr (h', j) \<Longrightarrow> keeps_targets h h'"
  "update_credential sv sk date rnd h s addr now i ci = Inr h' \<Longrightarrow> hub_ok h \<Longrightarrow> keeps_targets h h'"
  by (erule create_credential_Inr, auto intro: keeps_targetsI) (erule update_credential_Inr, auto intro: keeps_targetsI)

lemma deletions_keep:
  "delete_credential h s addr now i purged = Inr h' \<Longrightarrow> keeps_targets h h'"
  "restore_credential h s addr now i = Inr h' \<Longrightarrow> keeps_targets h h'"
  by (auto simp: delete_credential_def restore_credential_def Let_def hub_audit_def intro!: keeps_targetsI split: if_splits option.splits)

lemma collections_keep:
  "create_collection h s addr now i p name = Inr (h', j) \<Longrightarrow> keeps_targets h h'"
  "update_collection h s addr now i n place = Inr h' \<Longrightarrow> keeps_targets h h'"
  "delete_collection h s addr now i = Inr h' \<Longrightarrow> keeps_targets h h'"
  by (auto simp: create_collection_def update_collection_def delete_collection_def Let_def hub_audit_def intro!: keeps_targetsI)

lemma grants_keep:
  "add_grant up rfc stamp h s addr clock now i inp = Inr h' \<Longrightarrow> keeps_targets h h'"
  "remove_grant h s addr now i = Inr h' \<Longrightarrow> keeps_targets h h'"
  "create_request h s addr now i nr = Inr (h', j) \<Longrightarrow> keeps_targets h h'"
  "decide show h s addr before now i g d = Inr h' \<Longrightarrow> keeps_targets h h'"
  "cancel_request h s addr i = Inr h' \<Longrightarrow> keeps_targets h h'"
  by (erule add_grant_Inr, auto simp: hub_audit_def intro: keeps_targetsI)
    (auto simp: remove_grant_def cancel_request_def Let_def hub_audit_def intro!: keeps_targetsI elim!: create_request_Inr decide_Inr)

lemma roles_keep:
  "assign_role up h s addr rn sid kind n = Inr h' \<Longrightarrow> keeps_targets h h'"
  "revoke_role h s addr rn sid = Inr h' \<Longrightarrow> keeps_targets h h'"
  by (auto simp: assign_role_def revoke_role_def Let_def hub_audit_def intro!: keeps_targetsI split: if_splits)

lemmas all_keep = set_folder_open_keeps create_device_keeps delete_device_keeps reset_host_key_keeps set_keywords_keeps profiles_keep
  update_profile_keeps credentials_keep deletions_keep collections_keep grants_keep roles_keep

lemma keeps_targets_same:
  assumes "keeps_targets h h'" and "tables_ok h" and "tables_ok h'"
    and "hm_get (hb_devices h) k = Some d" and "hm_get (hb_devices h') k = Some d'"
  shows "device_target h' d' = device_target h d"
  using assms device_target_same [OF assms(2,3)] by (auto simp: keeps_targets_def)

lemma tree_handle_keeps:
  "tree_handle v h s addr now req = Inr h' \<Longrightarrow> hub_ok h \<Longrightarrow> keeps_targets h h'
    \<or> (\<exists>i inp. req = CreateFolder i inp) \<or> (\<exists>i. req = DeleteFolder i) \<or> (\<exists>i inp. req = UpdateFolder i inp)
    \<or> (\<exists>i inp. req = UpdateDevice i inp) \<or> (\<exists>i f. req = MoveDevice i f)"
  by (cases req) (auto dest: all_keep)

text \<open>A changed folder, as the two other handlers that point devices elsewhere see it.\<close>

lemma update_folder_rows:
  assumes "update_folder lower h s addr now i inp = Inr h'" and h: "hub_ok h"
    and "hm_get (hb_devices h) k = Some d" and "hm_get (hb_devices h') k = Some d'"
  shows "d' = d \<or> d' = d\<lparr>dv_host_key := None, dv_certificate := None\<rparr>"
  using assms(1) hub_okD(1) [OF h]
  by (rule update_folder_Inr) (use assms(3,4) in \<open>auto simp: hub_audit_def forget_pins_def hm_get_map_rows split: if_splits\<close>)

lemma update_folder_allowed:
  assumes "update_folder lower h s addr now i inp = Inr h'" and "hub_ok h"
    and "hm_get (hb_devices h) k = Some d" and "hm_get (hb_devices h') k = Some d'"
    and "device_target h' d' \<noteq> device_target h d"
  shows "retarget_allowed (load_catalog h now) (session_subject s) k d d'"
proof -
  note rows = update_folder_rows [OF assms(1-4)]
  from rows assms(5) have "reached_through h' d' \<noteq> reached_through h d" by (auto simp: device_target_def)
  from update_folder_retarget [OF assms(1-4) this] show ?thesis by (auto simp: retarget_allowed_def)
qed

text \<open>
  C3: Whoever makes a request after which a device that uses a login profile is reached at another machine,
  under another address or through another site connector, may use that profile; whoever lets
  a device keep the secrets of its own on the way may see them; and in either case the machine's pinned
  keys are forgotten. So nobody sends a secret they may not use to a machine of their choosing.
\<close>

theorem retarget_safe:
  assumes "tree_handle v h s addr now req = Inr h'" and "hub_ok h"
    and "hm_get (hb_devices h) k = Some d" and "hm_get (hb_devices h') k = Some d'"
    and "device_target h' d' \<noteq> device_target h d"
  shows "retarget_allowed (load_catalog h now) (session_subject s) k d d'"
proof -
  have ok': "hub_ok h'" by (rule tree_handle_ok [OF assms(1,2)])
  have no: "\<not> keeps_targets h h'"
    using keeps_targets_same [OF _ hub_okD(1) [OF assms(2)] hub_okD(1) [OF ok'] assms(3,4)] assms(5) by blast
  from tree_handle_keeps [OF assms(1,2)] no consider i inp where "req = CreateFolder i inp" | i where "req = DeleteFolder i"
    | i inp where "req = UpdateFolder i inp" | i inp where "req = UpdateDevice i inp" | i f where "req = MoveDevice i f"
    by blast
  then show ?thesis
  proof cases
    case 1
    then show ?thesis using assms(1,4,5) create_folder_reached [OF _ assms(2,3)] by (fastforce simp: device_target_def)
  next
    case 2
    then show ?thesis using assms(1,4,5) delete_folder_reached [OF _ assms(2,3)] by (fastforce simp: device_target_def)
  next
    case 3
    then show ?thesis using assms(1) by (simp add: update_folder_allowed [OF _ assms(2-5)])
  next
    case 4
    then show ?thesis using assms(1) by (simp add: update_device_retarget [OF _ assms(2-5)])
  next
    case 5
    then show ?thesis using assms(1) by (simp add: move_device_retarget [OF _ assms(2-5)])
  qed
qed

section \<open>Who may change anything\<close>

text \<open>
  Somebody who is no administrator and whom no grant names that has not run out changes nothing, whatever
  the request: only a request for access of their own they may withdraw.
\<close>

definition outsider :: "hub \<Rightarrow> session \<Rightarrow> instant \<Rightarrow> bool" where
  "outsider h s now \<longleftrightarrow> \<not> is_admin s
     \<and> (\<forall>g \<in> set (hub_grants h). active (epoch now) g \<longrightarrow> principal g \<notin> set (session_sids s))"

lemma outsider_role: "outsider h s now \<Longrightarrow> effective_role (load_catalog h now) (session_subject s) x = None"
  by (auto simp: outsider_def load_catalog_def effective_role_new granted_def session_subject_def)

lemma outsider_authorize: "outsider h s now \<Longrightarrow> \<not> authorize (load_catalog h now) (session_subject s) needed x"
  by (simp add: authorize_def outsider_role)

lemma outsider_sees: "outsider h s now \<Longrightarrow> \<not> (map_of (roles (visible (load_catalog h now) (session_subject s))) x \<noteq> None
    \<or> i \<in> path_only (visible (load_catalog h now) (session_subject s)))"
  unfolding path_only_visible set_shown_above by (simp add: visible_roles_None outsider_role)

lemma outsider_admin: "outsider h s now \<Longrightarrow> \<not> admin (session_subject s)"
  by (simp add: outsider_def session_subject_def)

lemma outsider_places:
  assumes "outsider h s now"
  shows "folder_place (load_catalog h now) (session_subject s) p \<noteq> Inr u"
    and "collection_place (load_catalog h now) (session_subject s) q \<noteq> Inr u"
    and "profile_place (load_catalog h now) (session_subject s) r \<noteq> Inr u"
  using outsider_authorize [OF assms] outsider_admin [OF assms]
  by (auto simp: folder_place_def collection_place_def profile_place_def may_create_top_level_def split: option.splits)

lemma outsider_request:
  assumes "outsider h s now" and "tree_handle v h s addr now req = Inr h'"
  shows "req \<in> range CancelRequest"
proof -
  note no = outsider_authorize [OF assms(1)] outsider_places [OF assms(1)] outsider_role [OF assms(1)]
  have me: "\<not> is_admin s" using assms(1) by (simp add: outsider_def)
  show ?thesis
  proof (cases req)
    case (OpenFolder i b)
    then show ?thesis using assms outsider_sees [OF assms(1), of "Folder i" i] by (auto simp: set_folder_open_def Let_def)
  qed (use assms(2) no me in \<open>auto simp: create_folder_def update_folder_def delete_folder_def create_device_def update_device_def
      move_device_def delete_device_def reset_host_key_def set_keywords_def create_profile_def update_profile_def delete_profile_def
      create_credential_def update_credential_def delete_credential_def restore_credential_def create_collection_def update_collection_def
      delete_collection_def add_grant_def remove_grant_def create_request_def decide_def assign_role_def revoke_role_def require_admin_def
      may_approve_def Let_def\<close>)
qed

section \<open>Properties\<close>

text \<open>A small tree to try them on.\<close>

definition sample_device :: device_row where
  "sample_device = \<lparr>dv_folder = 4, dv_name = ''db'', dv_protocol = ''ssh'', dv_host = ''db.example'', dv_port = 22, dv_auth_mode = ''profile'',
     dv_profile = Some 9, dv_description = [], dv_keyboard_layout = None, dv_connector_mode = ''inherit'', dv_connector = None,
     dv_requires_confirmation = False, dv_username = [], dv_domain = [], dv_secret_version = 0, dv_secret_kind = ''password'',
     dv_key_algorithm = None, dv_key_fingerprint = None, dv_has_certificate = False, dv_host_key = Some ''ssh-ed25519 AAAA'',
     dv_certificate = None, dv_keywords = [], dv_keywords_by = None\<rparr>"

definition sample_profile :: profile_row where
  "sample_profile = \<lparr>pf_folder = Some 3, pf_name = ''root'', pf_username = ''root'', pf_domain = [], pf_secret_kind = ''ssh_key'',
     pf_secret_version = 1, pf_key_algorithm = None, pf_key_fingerprint = None, pf_has_certificate = False\<rparr>"

definition sample_grant :: grant_row where
  "sample_grant = \<lparr>gr_folder = Some 3, gr_device = None, gr_credential = None, gr_collection = None, gr_kind = ''user'', gr_sid = ''S-1'',
     gr_name = ''ann'', gr_role = ''manage'', gr_expires = None, gr_request = None\<rparr>"

definition sample_request :: request_row where
  "sample_request = \<lparr>rq_folder = None, rq_device = Some 5, rq_credential = None, rq_requester = 12, rq_sid = ''S-2'', rq_name = ''bob'',
     rq_role = ''connect'', rq_minutes = 60, rq_reason = ''patching'', rq_status = ''pending'', rq_decided_by = None, rq_decider = None,
     rq_expires = None, rq_created = 0\<rparr>"

definition sample_tree :: hub where
  "sample_tree = empty_hub\<lparr>hb_folders := [(3, \<lparr>fo_parent = None, fo_name = ''site'', fo_connector = None\<rparr>),
       (4, \<lparr>fo_parent = Some 3, fo_name = ''rack'', fo_connector = None\<rparr>)],
     hb_devices := [(5, sample_device)], hb_profiles := [(9, sample_profile)], hb_grants := [(20, sample_grant)],
     hb_requests := [(30, sample_request)], hb_connectors := [7]\<rparr>"

definition sample_manager :: session where
  "sample_manager = \<lparr>s_hash = [], s_id = 1, s_client = ''browser'', s_user = 11, s_username = ''ann'', s_display_name = ''Ann'', s_kind = ''directory'',
     s_sid = Some ''S-1'', s_upn = None, s_groups = [], s_identity = None, s_memberships = [], s_roles = [], s_locked = False, s_confirmed = True\<rparr>"

lemmas tree_samples = sample_tree_def empty_hub_def sample_device_def sample_profile_def sample_grant_def sample_request_def sample_manager_def

definition sample_env :: tree_env where
  "sample_env = \<lparr>te_server = sample_server, te_ssh = sample_ssh, te_date = (\<lambda>_ _ _. True),
     te_random = (\<lambda>_. sample_seal_randomness), te_uuid_parse = (\<lambda>_. None), te_rfc3339 = (\<lambda>_. None), te_stamp = (\<lambda>t. t), te_rfc3339_show = (\<lambda>_. []),
     te_fingerprint = (\<lambda>_. None), te_clock = 0, te_later = 5\<rparr>"

lemma sample_tables [simp]:
  "hb_folders sample_tree = [(3, \<lparr>fo_parent = None, fo_name = ''site'', fo_connector = None\<rparr>),
     (4, \<lparr>fo_parent = Some 3, fo_name = ''rack'', fo_connector = None\<rparr>)]"
  "hb_devices sample_tree = [(5, sample_device)]" "hb_profiles sample_tree = [(9, sample_profile)]" "hb_collections sample_tree = []"
  "hb_credentials sample_tree = []" "hb_attachments sample_tree = []" "hb_grants sample_tree = [(20, sample_grant)]"
  "hb_requests sample_tree = [(30, sample_request)]" "hb_connectors sample_tree = [7]" "hb_open sample_tree = []" "hb_assigned sample_tree = []"
  by (simp_all add: sample_tree_def empty_hub_def)

lemma sample_edges: "folder_edges sample_tree = {(4, 3)}" "collection_edges sample_tree = {}"
  by (auto simp: folder_edges_def collection_edges_def split: if_splits)

lemma acyclic_empty: "acyclic {}"
  by (simp add: acyclic_def)

lemma sample_folders_ok: "folders_ok sample_tree"
  unfolding folders_ok_def parents_exist_def sample_edges by (simp add: hub_has.simps acyclic_empty)

lemma sample_device_ok: "device_ok sample_tree sample_device"
  unfolding device_ok_def profile_suits_def sample_edges by (simp add: hub_has.simps sample_device_def sample_profile_def r_into_rtrancl)

lemma sample_rows_ok: "profile_ok sample_tree sample_profile" "grant_ok sample_tree sample_grant" "request_ok sample_tree sample_request"
  by (simp_all add: profile_ok_def grant_ok_def request_ok_def row_object_def request_object_def hub_has.simps role_parse_def role_all_def
      sample_profile_def sample_grant_def sample_request_def)

lemma sample_tree_ok: "hub_ok sample_tree"
  using sample_folders_ok sample_device_ok sample_rows_ok
  by (simp add: hub_ok_def tables_ok_def hm_ok_def collections_ok_def sample_edges acyclic_empty)

definition sample_change :: folder_change where
  "sample_change = \<lparr>fc_name = None, fc_parent = None, fc_connector = Some (Some 7)\<rparr>"

definition sample_routed :: hub where
  "sample_routed = sample_tree\<lparr>hb_folders := [(3, \<lparr>fo_parent = None, fo_name = ''site'', fo_connector = Some 7\<rparr>),
       (4, \<lparr>fo_parent = Some 3, fo_name = ''rack'', fo_connector = None\<rparr>)]\<rparr>"

definition sample_moved :: hub where
  "sample_moved = hub_audit (forget_pins [5] sample_routed)
     (audit_object sample_manager ''folder.updated'' (Folder 3)
        [(''name'', JNull), (''parent_id'', JNull), (''connector_id'', json_uuid (Some 7)), (''retargeted'', JList [JText (uuid_show 5)])] ''10.0.0.1'')"

lemma requireI: "authorize c s needed x \<Longrightarrow> require c s needed x = Inr ()"
  by simp

lemma sample_rights:
  "authorize (load_catalog sample_tree 0) (session_subject sample_manager) Manage (Folder 3)"
  "authorize (load_catalog sample_tree 0) (session_subject sample_manager) Connect (Profile 9)"
  by code_simp+

lemma sample_below:
  "devices_below sample_tree 3 = [\<lparr>re_id = 5, re_name = ''db'', re_profile = Some 9, re_through = None\<rparr>]"
  "devices_below sample_routed 3 = [\<lparr>re_id = 5, re_name = ''db'', re_profile = Some 9, re_through = Some 7\<rparr>]"
  "out_of_reach to_ascii_lowercase sample_routed = []"
  by code_simp+

lemma sample_moved: "tree_handle sample_env sample_tree sample_manager ''10.0.0.1'' 0 (UpdateFolder 3 sample_change) = Inr sample_moved"
proof -
  have up: "sample_tree\<lparr>hb_folders := hm_update 3 (changed_folder sample_change None) (hb_folders sample_tree)\<rparr> = sample_routed"
    by (simp add: sample_routed_def hm_update_def changed_folder_def sample_change_def)
  have taken: "\<not> folder_taken sample_routed 3 None ''site''"
    by (simp add: folder_taken_def sample_routed_def)
  have low: "sv_lower sample_server = to_ascii_lowercase" by (simp add: sample_server_def)
  have env: "te_server sample_env = sample_server" by (simp add: sample_env_def)
  have row: "hm_get (hb_folders sample_routed) 3 = Some \<lparr>fo_parent = None, fo_name = ''site'', fo_connector = Some 7\<rparr>"
    by (simp add: sample_routed_def)
  have may: "require (load_catalog sample_tree 0) (session_subject sample_manager) Manage (Folder 3) = Inr ()"
    by (rule requireI [OF sample_rights(1)])
  have "refused_devices (load_catalog sample_tree 0) (session_subject sample_manager)
      [\<lparr>re_id = 5, re_name = ''db'', re_profile = Some 9, re_through = Some 7\<rparr>] = []"
    using sample_rights(2) by (simp add: refused_devices_def)
  then have moved: "refused_devices (load_catalog sample_tree 0) (session_subject sample_manager)
      (retargeted (devices_below sample_tree 3) (devices_below sample_routed 3)) = []"
    "map re_id (retargeted (devices_below sample_tree 3) (devices_below sample_routed 3)) = [5]"
    "map (\<lambda>d. JText (uuid_show (re_id d))) (retargeted (devices_below sample_tree 3) (devices_below sample_routed 3)) = [JText (uuid_show 5)]"
    by (simp_all add: retargeted_def sample_below)
  have c: "fc_name sample_change = None" "fc_parent sample_change = None" "fc_connector sample_change = Some (Some 7)"
    by (simp_all add: sample_change_def)
  show ?thesis
    unfolding tree_handle.simps update_folder_def Let_def may and_then_simps env low c option.case folder_move_def up row moved sample_below(3)
    by (simp add: require_connector_def taken sample_moved_def ensure_def json_text_def json_uuid_def)
qed

text \<open>
  C2: The invariant of the tree: after any number of requests, whoever made them, starting from an empty
  installation, every reference leads to a row, neither folders nor collections contain themselves, and
  every login profile a device uses lies in its folder or above it and suits its protocol.
\<close>

theorem tree_stays_sound:
  assumes "tree_step\<^sup>*\<^sup>* (empty_hub\<lparr>hb_db := db, hb_connectors := cs, hb_groups := gs\<rparr>) h"
  shows "hub_ok h"
  using assms empty_hub_ok by (rule tree.reachable_good)

definition sample_new :: new_folder where
  "sample_new = \<lparr>nf_parent = None, nf_name = ''site'', nf_connector = None\<rparr>"

definition sample_chief :: session where
  "sample_chief = sample_manager\<lparr>s_kind := ''break_glass''\<rparr>"

definition sample_first :: hub where
  "sample_first = hub_audit (empty_hub\<lparr>hb_folders := [(3, \<lparr>fo_parent = None, fo_name = ''site'', fo_connector = None\<rparr>)]\<rparr>)
     (audit_object sample_chief ''folder.created'' (Folder 3) [(''name'', JText ''site''), (''parent_id'', JNull), (''connector_id'', JNull)] ''10.0.0.1'')"

lemma sample_first: "tree_handle sample_env empty_hub sample_chief ''10.0.0.1'' 0 (CreateFolder 3 sample_new) = Inr sample_first"
  by (simp add: create_folder_def sample_new_def sample_site folder_place_def may_create_top_level_def session_subject_def is_admin_def
      sample_chief_def require_connector_def folder_taken_def empty_hub_def ensure_def json_uuid_def sample_first_def tables_of_def)

theorem tree_stays_sound_witness: "hub_ok sample_first \<and> hb_folders sample_first \<noteq> []"
proof
  have "tree_step\<^sup>*\<^sup>* (empty_hub\<lparr>hb_db := hb_db empty_hub, hb_connectors := hb_connectors empty_hub, hb_groups := hb_groups empty_hub\<rparr>) sample_first"
    using handled [OF sample_first] by (simp add: r_into_rtranclp)
  then show "hub_ok sample_first" by (rule tree_stays_sound)
  show "hb_folders sample_first \<noteq> []" by (simp add: sample_first_def hub_audit_def)
qed

theorem retarget_safe_witness:
  "retarget_allowed (load_catalog sample_tree 0) (session_subject sample_manager) 5 sample_device
     (sample_device\<lparr>dv_host_key := None\<rparr>)"
proof (rule retarget_safe [OF sample_moved sample_tree_ok])
  show "hm_get (hb_devices sample_tree) 5 = Some sample_device" by simp
  show "hm_get (hb_devices sample_moved) 5 = Some (sample_device\<lparr>dv_host_key := None\<rparr>)"
    by (simp add: sample_moved_def hub_audit_def forget_pins_def sample_routed_def sample_device_def)
  have "tables_ok sample_routed" by (simp add: sample_routed_def tables_ok_def hm_ok_def)
  then have "reached_through sample_moved d = reached_through sample_routed d" for d
    unfolding reached_through_def
    by (rule reached_through_same [OF _ hub_okD(1) [OF tree_handle_ok [OF sample_moved sample_tree_ok]]])
      (simp add: sample_moved_def hub_audit_def forget_pins_def)
  moreover have "folder_connector sample_routed 4 = Some 7" "folder_connector sample_tree 4 = None" by code_simp+
  ultimately show "device_target sample_moved (sample_device\<lparr>dv_host_key := None\<rparr>) \<noteq> device_target sample_tree sample_device"
    by (simp add: device_target_def) (simp add: reached_through_def device_connector_def sample_device_def)
qed

text \<open>
  C12: Nothing in the tree changes unrecorded: a request that was answered and changed anything but the folders
  one has open added exactly one entry to the audit log, with who made it and from where.
\<close>

theorem every_change_recorded:
  assumes "tree_handle v h s addr now req = Inr h'" and "h' \<noteq> h" and "\<And>i b. req \<noteq> OpenFolder i b"
  shows "recorded s addr h h'"
  using tree_handle_recorded [OF assms(1)] assms(2,3) by blast

theorem every_change_recorded_witness: "recorded sample_manager ''10.0.0.1'' sample_tree sample_moved"
proof (rule every_change_recorded [OF sample_moved])
  have "hb_folders sample_moved \<noteq> hb_folders sample_tree"
    by (simp add: sample_moved_def hub_audit_def forget_pins_def sample_routed_def)
  then show "sample_moved \<noteq> sample_tree" by auto
qed simp



text \<open>
  C4: Access on request, approved: somebody else decides, one who manages the object; and from then on the
  requester's principal, and nobody else, may do exactly what was asked for, on the object and what
  lies below it, until the time runs out.
\<close>

theorem approval_exact:
  assumes "decide rfc3339_show h s addr before now i g Approve = Inr h'" and "hub_ok h"
    and "hm_get (hb_requests h) i = Some r" and "row_request_object r = Some target" and "rq_role r = role_as_str role"
  shows "rq_requester r \<noteq> s_user s \<and> authorize (load_catalog h before) (session_subject s) Manage target
    \<and> (authorize (load_catalog h' t) sub needed x \<longleftrightarrow> authorize (load_catalog h t) sub needed x
         \<or> hub_has h x \<and> above (load_catalog h t) x target \<and> rq_sid r \<in> sids sub \<and> needed \<le> role
            \<and> epoch t < epoch (now + rq_minutes r * 60000000000))"
  using assms(1)
proof (rule decide_Inr)
  fix q y e
  assume q: "hm_get (hb_requests h) i = Some q" "row_request_object q = Some y"
    and who: "authorize (load_catalog h before) (session_subject s) Manage y" "rq_requester q \<noteq> s_user s"
    and h': "h' = hub_audit (h\<lparr>hb_requests := hm_insert i (decided s now Approve q) (hb_requests h),
        hb_grants := (case Approve of Approve \<Rightarrow> hm_insert g (given_grant i now q y) (hb_grants h) | Deny \<Rightarrow> hb_grants h)\<rparr>) e"
    and new: "Approve = Approve \<longrightarrow> hm_get (hb_grants h) g = None"
  have same: "q = r" "y = target" using q assms(3,4) by auto
  let ?h = "h\<lparr>hb_requests := hm_insert i (decided s now Approve r) (hb_requests h)\<rparr>"
  let ?g = "\<lparr>object = target, principal = rq_sid r, grant_role = role, until = Some (epoch (now + rq_minutes r * 60000000000))\<rparr>"
  have "hub_grants h' = hub_grants (?h\<lparr>hb_grants := hm_insert g (given_grant i now r target) (hb_grants ?h)\<rparr>)"
    by (simp add: h' same hub_audit_def hub_grants_def)
  also have "\<dots> = hub_grants ?h @ [?g]"
    using new given_grant_row [OF assms(4,5)] by (intro hub_grants_snoc) auto
  finally have "hub_grants h' = hub_grants h @ [?g]" by (simp add: hub_grants_def)
  moreover have "hub_objects h' = hub_objects h" by (simp add: h' hub_audit_def hub_objects_def)
  ultimately have "load_catalog h' t = catalog_new (hub_objects h) (hub_grants h @ [?g]) (epoch t)" by (simp add: load_catalog_def)
  then show ?thesis
    using who unfolding same
    by (auto simp: authorize_snoc load_catalog_def contains_tables [OF hub_okD(1) [OF assms(2)]] active_def)
qed

text \<open>
  A role for remotehub itself is taken away only by an administrator, and never the last administrator's.
\<close>

theorem administrator_remains:
  assumes "revoke_role h s addr name sid = Inr h'" and "(boss, site_role_as_str Administrator) \<in> set (db_roles (hb_db h))"
  shows "is_admin s \<and> (\<exists>other. (other, site_role_as_str Administrator) \<in> set (db_roles (hb_db h')))"
proof -
  from assms(1) obtain role e where role: "site_role_parse name = Some role" and me: "is_admin s"
    and left: "\<not> (role = Administrator \<and> length (filter (\<lambda>(_, r). r = site_role_as_str role)
        (filter (\<lambda>x. x \<noteq> (sid, site_role_as_str role)) (db_roles (hb_db h)))) = 0)"
    and h': "db_roles (hb_db h') = filter (\<lambda>x. x \<noteq> (sid, site_role_as_str role)) (db_roles (hb_db h))"
    by (auto simp: revoke_role_def Let_def require_admin_def role_named_def hub_audit_def audit_record_def split: option.splits)
  show ?thesis
  proof (cases "role = Administrator")
    case True
    with left have "\<exists>p \<in> set (db_roles (hb_db h')). snd p = site_role_as_str Administrator"
      by (force simp: h' filter_empty_conv)
    with me show ?thesis by force
  next
    case False
    then have "site_role_as_str role \<noteq> site_role_as_str Administrator" by (cases role) auto
    with assms(2) me show ?thesis by (auto simp: h')
  qed
qed

definition sample_approved :: hub where
  "sample_approved = projr (decide (\<lambda>_. []) sample_tree sample_manager ''10.0.0.1'' 0 5 30 40 Approve)"

lemma sample_approved: "decide (\<lambda>_. []) sample_tree sample_manager ''10.0.0.1'' 0 5 30 40 Approve = Inr sample_approved"
proof -
  have "may_approve (load_catalog sample_tree 0) (session_subject sample_manager) (Device 5)" by code_simp
  moreover have "row_request_object sample_request = Some (Device 5)" "rq_status sample_request = ''pending''" "rq_requester sample_request \<noteq> s_user sample_manager"
    by (simp_all add: sample_request_def sample_manager_def row_request_object_def request_object_def)
  ultimately show ?thesis by (simp add: sample_approved_def decide_def Let_def ensure_def)
qed

theorem approval_exact_witness:
  "authorize (load_catalog sample_approved 1000000000000) \<lparr>sids = {''S-2''}, admin = False\<rparr> Connect (Device 5)
   \<and> \<not> authorize (load_catalog sample_approved 5000000000000) \<lparr>sids = {''S-2''}, admin = False\<rparr> Connect (Device 5)"
proof -
  note use = approval_exact [OF sample_approved sample_tree_ok, of sample_request "Device 5" Connect]
  have r: "hm_get (hb_requests sample_tree) 30 = Some sample_request" "row_request_object sample_request = Some (Device 5)"
    "rq_role sample_request = role_as_str Connect"
    by (simp_all add: sample_request_def row_request_object_def request_object_def)
  have old: "\<not> authorize (load_catalog sample_tree 5000000000000) \<lparr>sids = {''S-2''}, admin = False\<rparr> Connect (Device 5)" by code_simp
  have "epoch 1000000000000 < epoch (5 + rq_minutes sample_request * 60000000000)"
    "\<not> epoch 5000000000000 < epoch (5 + rq_minutes sample_request * 60000000000)"
    by (simp_all add: sample_request_def epoch_def)
  then show ?thesis
    using use [OF r, of 1000000000000 "\<lparr>sids = {''S-2''}, admin = False\<rparr>" Connect "Device 5"]
      use [OF r, of 5000000000000 "\<lparr>sids = {''S-2''}, admin = False\<rparr>" Connect "Device 5"] old
    by (simp add: hub_has.simps sample_request_def)
qed

definition sample_staff :: hub where
  "sample_staff = empty_hub\<lparr>hb_db := empty_db\<lparr>db_roles := [(''S-1'', ''administrator''), (''S-2'', ''administrator'')]\<rparr>\<rparr>"

definition sample_revoked :: hub where
  "sample_revoked = projr (revoke_role sample_staff (sample_manager\<lparr>s_roles := [''administrator'']\<rparr>) ''10.0.0.1'' ''administrator'' ''S-2'')"

theorem administrator_remains_witness:
  "\<exists>other. (other, site_role_as_str Administrator) \<in> set (db_roles (hb_db sample_revoked))"
proof -
  have "revoke_role sample_staff (sample_manager\<lparr>s_roles := [''administrator'']\<rparr>) ''10.0.0.1'' ''administrator'' ''S-2'' = Inr sample_revoked"
    by (simp add: sample_revoked_def revoke_role_def require_admin_def is_admin_def has_role_def role_named_def site_role_parse_def
        site_role_all_def sample_staff_def sample_manager_def ensure_def Let_def)
  from administrator_remains [OF this, of "''S-1''"] show ?thesis by (auto simp: sample_staff_def)
qed

text \<open>
  Deleting a device leaves nothing of it: not its row, not a grant on it, not a request for it, and not one of its secrets.
\<close>

theorem deleted_device_leaves_nothing:
  assumes "delete_device h s addr now i = Inr h'" and "hub_ok h"
  shows "\<not> hub_has h' (Device i) \<and> unreferenced h' (Device i) \<and> (\<forall>v fld. hm_get (db_secrets (hb_db h')) (i, v, fld) = None)"
proof (intro conjI allI)
  note t = hub_ok_tables [OF assms(2)]
  have h': "hb_devices h' = hm_remove i (hb_devices h)" "hb_grants h' = filter (\<lambda>(_, g). gr_device g \<noteq> Some i) (hb_grants h)"
    "hb_requests h' = filter (\<lambda>(_, r). rq_device r \<noteq> Some i) (hb_requests h)"
    "db_secrets (hb_db h') = filter (\<lambda>((owner, version, _), _). \<not> owner = i) (db_secrets (hb_db h))"
    using assms(1) by (auto simp: delete_device_Inr hub_audit_def audit_record_def drop_secrets_def)
  show "\<not> hub_has h' (Device i)" by (simp add: hub_has.simps h' hm.get_del [OF t(2)])
  show "unreferenced h' (Device i)"
    by (auto simp: unreferenced_def h' row_object_def request_object_def grant_object_iffs dest!: filter_rowsD [OF t(7)] filter_rowsD [OF t(8)])
  show "hm_get (db_secrets (hb_db h')) (i, v, fld) = None" for v fld
    by (auto simp: h' map_of_eq_None_iff)
qed

theorem deleted_device_leaves_nothing_witness:
  "\<exists>h'. delete_device sample_tree sample_manager ''10.0.0.1'' 0 5 = Inr h' \<and> \<not> hub_has h' (Device 5)"
proof -
  have "authorize (load_catalog sample_tree 0) (session_subject sample_manager) Edit (Device 5)" by code_simp
  then obtain h' where "delete_device sample_tree sample_manager ''10.0.0.1'' 0 5 = Inr h'"
    using requireI by (simp add: delete_device_def Let_def)
  with deleted_device_leaves_nothing [OF this sample_tree_ok] show ?thesis by blast
qed

end
