(* ===== verification/Terminal.thy ===== *)
theory Terminal
  imports Connect TreeApi
begin

text \<open>
  An SSH session in the browser: \<^verbatim>\<open>crates/server/src/api/terminal.rs\<close> and the client in
  \<^verbatim>\<open>crates/gateway/src/ssh.rs\<close>. The request and the run after the upgrade are two definitions, because
  other requests may change the tables between them. What the russh crate and the target do is a
  parameter: which key the target presents, how it answers credentials and whether it opens a shell.
\<close>

section \<open>The SSH client\<close>

record public_key =
  hk_data :: bytes
  hk_openssh :: string

datatype server_key = PlainKey public_key | HostCertificate

record ssh_peer =
  sp_presents :: "server_key option"
  sp_handshake :: "string option"
  sp_auth :: "string \<Rightarrow> login \<Rightarrow> string + bool"
  sp_shell :: "string option"

text \<open>
  \<open>sx_cut\<close>: none if opening ends in time; otherwise how many credentials were offered before the time was up.
  \<open>sx_refused\<close> is russh's text for a key the handler does not take.
\<close>

record ssh_net =
  sx_read :: "string \<Rightarrow> string + public_key"
  sx_fingerprint :: "public_key \<Rightarrow> string"
  sx_peer :: "string \<Rightarrow> nat \<Rightarrow> ssh_peer"
  sx_unreachable :: string
  sx_refused :: string
  sx_cut :: "nat option"

datatype ssh_error =
  SshUnreachable string | SshHostKeyChanged string string | SshAuthenticationFailed | SshTimeout | SshProtocol string

text \<open>Credentials leave the server as an offer to a host and port.\<close>

record offer =
  of_host :: string
  of_port :: nat
  of_username :: string
  of_login :: login

record shell =
  sh_host_key :: string
  sh_fingerprint :: string

definition check_server_key :: "public_key option \<Rightarrow> server_key \<Rightarrow> public_key option \<times> bool" where
  "check_server_key pinned k =
     (case k of
        HostCertificate \<Rightarrow> (None, False)
      | PlainKey key \<Rightarrow> (Some key, case pinned of None \<Rightarrow> True | Some p \<Rightarrow> hk_data p = hk_data key))"

text \<open>\<open>client::connect\<close>: the handler sees the key that is presented, and a key it does not take ends the connection.\<close>

definition ssh_connect :: "ssh_net \<Rightarrow> public_key option \<Rightarrow> ssh_peer \<Rightarrow> public_key option \<times> (string + unit)" where
  "ssh_connect sx pinned peer =
     (case sp_presents peer of
        None \<Rightarrow> (None, Inl (sx_unreachable sx))
      | Some k \<Rightarrow>
          (let (seen, ok) = check_server_key pinned k
           in (seen, if \<not> ok then Inl (sx_refused sx) else case sp_handshake peer of Some e \<Rightarrow> Inl e | None \<Rightarrow> Inr ())))"

definition connect_failure :: "ssh_net \<Rightarrow> public_key option \<Rightarrow> public_key option \<Rightarrow> string \<Rightarrow> string \<Rightarrow> ssh_error" where
  "connect_failure sx pinned seen addr e =
     (case (pinned, seen) of
        (Some p, Some k) \<Rightarrow> if hk_data p \<noteq> hk_data k then SshHostKeyChanged (sx_fingerprint sx p) (sx_fingerprint sx k) else SshProtocol e
      | (_, None) \<Rightarrow> SshUnreachable (addr @ '': '' @ e)
      | _ \<Rightarrow> SshProtocol e)"

definition open_inner :: "ssh_net \<Rightarrow> offer \<Rightarrow> string option \<Rightarrow> offer list \<times> (ssh_error + shell)" where
  "open_inner sx target pinned_host_key =
     (case (case pinned_host_key of None \<Rightarrow> Inr None | Some t \<Rightarrow> (case sx_read sx t of Inl e \<Rightarrow> Inl e | Inr k \<Rightarrow> Inr (Some k))) of
        Inl e \<Rightarrow> ([], Inl (SshProtocol (''pinned host key is invalid: '' @ e)))
      | Inr pinned \<Rightarrow>
     (let peer = sx_peer sx (of_host target) (of_port target);
          addr = of_host target @ '':'' @ show_nat (of_port target);
          (seen, connected) = ssh_connect sx pinned peer
      in case connected of
        Inl e \<Rightarrow> ([], Inl (connect_failure sx pinned seen addr e))
      | Inr _ \<Rightarrow>
     (case seen of
        None \<Rightarrow> ([], Inl (SshProtocol ''no host key''))
      | Some host_key \<Rightarrow>
          ([target],
     (case sp_auth peer (of_username target) (of_login target) of
        Inl e \<Rightarrow> Inl (SshProtocol e)
      | Inr taken \<Rightarrow>
          if \<not> taken then Inl SshAuthenticationFailed
          else case sp_shell peer of
            Some e \<Rightarrow> Inl (SshProtocol e)
          | None \<Rightarrow> Inr \<lparr>sh_host_key = hk_openssh host_key, sh_fingerprint = sx_fingerprint sx host_key\<rparr>)))))"

definition ssh_open :: "ssh_net \<Rightarrow> offer \<Rightarrow> string option \<Rightarrow> offer list \<times> (ssh_error + shell)" where
  "ssh_open sx target pinned =
     (let (offers, res) = open_inner sx target pinned
      in case sx_cut sx of None \<Rightarrow> (offers, res) | Some k \<Rightarrow> (take k offers, Inl SshTimeout))"

definition key_fingerprint :: "ssh_net \<Rightarrow> string \<Rightarrow> string option" where
  "key_fingerprint sx openssh = (case sx_read sx openssh of Inr k \<Rightarrow> Some (sx_fingerprint sx k) | Inl _ \<Rightarrow> None)"

definition terminal_problem :: "ssh_error \<Rightarrow> problem" where
  "terminal_problem e =
     (case e of
        SshHostKeyChanged expected presented \<Rightarrow>
          param (param (problem HostKeyChanged) ''expected'' (JText expected)) ''presented'' (JText presented)
      | SshAuthenticationFailed \<Rightarrow> problem TargetAuthFailed
      | SshUnreachable _ \<Rightarrow> problem TargetUnreachable
      | SshTimeout \<Rightarrow> problem TargetUnreachable
      | SshProtocol _ \<Rightarrow> problem ConnectionFailed)"

section \<open>The request\<close>

text \<open>What surrounds a connection: the clock, the directory, the vault, the authority, connectors and targets.\<close>

record connect_env =
  ce_public :: string
  ce_directory :: "(ldap_server \<times> ldap_config) option"
  ce_windows_laps :: "string \<Rightarrow> (string \<times> string) option"
  ce_idle :: instant
  ce_unix :: nat
  ce_server :: server
  ce_b64url :: "string \<Rightarrow> bytes option"
  ce_own_account :: bool
  ce_keys :: ssh_crate
  ce_ca :: "(ssh_certificate \<Rightarrow> string option) option"
  ce_fresh_key :: ssh_private
  ce_routes :: route_env
  ce_board :: switchboard
  ce_net :: ssh_net

definition env_refresh :: "connect_env \<Rightarrow> (string \<Rightarrow> auth_error + string list) option" where
  "env_refresh ce = map_option (\<lambda>(ls, cf). ldap_refresh ls cf (Some (ce_unix ce))) (ce_directory ce)"

definition env_laps :: "connect_env \<Rightarrow> (string \<Rightarrow> laps_error + laps_password) option" where
  "env_laps ce = map_option (\<lambda>(ls, cf). ldap_laps_password ls cf (ce_windows_laps ce)) (ce_directory ce)"

record ready =
  rd_session :: session
  rd_target :: conn_target
  rd_own :: "(problem + conn_credentials) option"

definition desk_db :: "desk \<Rightarrow> database \<Rightarrow> desk" where
  "desk_db d db = d\<lparr>dk_hub := (dk_hub d)\<lparr>hb_db := db\<rparr>\<rparr>"

definition terminal ::
  "connect_env \<Rightarrow> string option \<Rightarrow> string list \<Rightarrow> desk \<Rightarrow> session \<Rightarrow> instant \<Rightarrow> uuid \<Rightarrow> desk \<times> (problem + ready)" where
  "terminal ce origin cookies d s now i =
     (case ws_same_origin (ce_public ce) origin of
        Inl p \<Rightarrow> (d, Inl p)
      | Inr _ \<Rightarrow>
     (let (db, refreshed) = before_connecting (env_refresh ce) (ce_idle ce) now (hb_db (dk_hub d)) s;
          d = desk_db d db
      in (d,
     and_then refreshed (\<lambda>s.
     and_then (find_target (dk_hub d) s now i [''ssh'']) (\<lambda>t.
     and_then (if tg_auth_mode t = ''own'' then
         and_then (own_account (ce_server ce) (ce_b64url ce) (ce_own_account ce) (dk_hub d) s cookies) (\<lambda>own. Inr (Some own))
       else Inr None) (\<lambda>own.
       Inr \<lparr>rd_session = s, rd_target = t, rd_own = own\<rparr>))))))"

section \<open>The run\<close>

definition CONNECT_TIMEOUT :: nat where "CONNECT_TIMEOUT = 15"
definition START_TIMEOUT :: nat where "START_TIMEOUT = 120"

record start_message =
  sm_cols :: nat
  sm_rows :: nat
  sm_username :: "string option"
  sm_password :: "string option"
  sm_purpose :: "string option"

definition clamp :: "nat \<Rightarrow> nat \<Rightarrow> nat \<Rightarrow> nat" where
  "clamp low high n = max low (min high n)"

definition terminal_size :: "nat \<Rightarrow> nat \<Rightarrow> nat \<times> nat" where
  "terminal_size cols rows = (clamp 10 1000 cols, clamp 2 500 rows)"

definition device_entry :: "session \<Rightarrow> string \<Rightarrow> uuid \<Rightarrow> (string \<times> json) list \<Rightarrow> string \<Rightarrow> audit_entry" where
  "device_entry s action i details addr =
     \<lparr>au_actor = Some (s_user s), au_name = s_username s, au_action = action, au_object = Some (''device'', i), au_details = JObject details,
      au_address = Some addr\<rparr>"

definition pin_host_key :: "ssh_net \<Rightarrow> session \<Rightarrow> conn_target \<Rightarrow> string \<Rightarrow> string \<Rightarrow> desk \<Rightarrow> desk \<times> bool" where
  "pin_host_key sx s t key addr d =
     (case hm_get (hb_devices (dk_hub d)) (tg_id t) of
        None \<Rightarrow> (d, False)
      | Some r \<Rightarrow>
          if dv_host_key r \<noteq> None then (d, False)
          else (desk_audit (d\<lparr>dk_hub := (dk_hub d)\<lparr>hb_devices := hm_insert (tg_id t) (r\<lparr>dv_host_key := Some key\<rparr>) (hb_devices (dk_hub d))\<rparr>\<rparr>)
                  (device_entry s ''device.host_key_pinned'' (tg_id t)
                     [(''fingerprint'', case key_fingerprint sx key of Some f \<Rightarrow> JText f | None \<Rightarrow> JNull)] addr), True))"

definition connection_failed :: "session \<Rightarrow> conn_target \<Rightarrow> problem \<Rightarrow> string \<Rightarrow> desk \<Rightarrow> desk" where
  "connection_failed s t p addr d =
     desk_audit d (device_entry s ''connection.failed'' (tg_id t)
       [(''protocol'', JText ''ssh''), (''reason'', JText (error_code_as_str (pr_code p))), (''host'', JText (tg_host t))] addr)"

definition run_credentials :: "connect_env \<Rightarrow> desk \<Rightarrow> ready \<Rightarrow> start_message \<Rightarrow> problem + conn_credentials" where
  "run_credentials ce d rd m =
     (case rd_own rd of
        Some own \<Rightarrow> own
      | None \<Rightarrow>
          if tg_auth_mode (rd_target rd) = ''certificate'' then
            conn_certificate (ce_ca ce) (ce_fresh_key ce) (ce_unix ce) (rd_session rd) (rd_target rd)
          else resolve_credentials (ce_server ce) (ce_keys ce) (env_laps ce) (dk_hub d) (rd_target rd) (sm_username m) (sm_password m))"

text \<open>An opened connection: the shell, the size it was asked for, the journal's entry and whether the key was pinned now.\<close>

record connection =
  co_shell :: shell
  co_size :: "nat \<times> nat"
  co_journal :: "uuid option"
  co_pinned_now :: bool

definition terminal_opened ::
  "connect_env \<Rightarrow> desk \<Rightarrow> ready \<Rightarrow> string \<Rightarrow> conn_credentials \<Rightarrow> shell \<Rightarrow> nat \<times> nat \<Rightarrow> uuid \<Rightarrow> string \<Rightarrow> instant \<Rightarrow> desk \<times> connection" where
  "terminal_opened ce d rd why cred sh dims entry addr now =
     (let s = rd_session rd; t = rd_target rd;
          (d, pinned_now) = (if tg_host_key t = None then pin_host_key (ce_net ce) s t (sh_host_key sh) addr d else (d, False));
          d = desk_audit d (device_entry s ''connection.opened'' (tg_id t)
            [(''protocol'', JText ''ssh''), (''host'', JText (tg_host t)),
             (''port'', JNumber (if 0 \<le> tg_port t \<and> tg_port t < 65536 then tg_port t else 22)), (''username'', JText (cc_username cred)),
             (''auth_mode'', JText (tg_auth_mode t)), (''profile_id'', json_uuid (tg_profile t)), (''purpose'', JText why)] addr);
          (d, journal) = journal_opened s t why entry now d
      in (d, \<lparr>co_shell = sh, co_size = dims, co_journal = journal, co_pinned_now = pinned_now\<rparr>))"

definition terminal_run ::
  "connect_env \<Rightarrow> desk \<Rightarrow> ready \<Rightarrow> start_message option \<Rightarrow> uuid \<Rightarrow> string \<Rightarrow> instant \<Rightarrow> desk \<times> offer list \<times> (problem + connection)" where
  "terminal_run ce d rd start entry addr now =
     (let s = rd_session rd; t = rd_target rd in
     (case start of
        None \<Rightarrow> (d, [], Inl (problem InvalidRequest))
      | Some m \<Rightarrow>
     (case and_then (if tg_requires_confirmation t then require_confirmation s else Inr ()) (\<lambda>_.
           and_then (purpose d s (sm_purpose m)) (\<lambda>why.
           and_then (run_credentials ce d rd m) (\<lambda>cred. Inr (why, cred)))) of
        Inl p \<Rightarrow> (d, [], Inl p)
      | Inr (why, cred) \<Rightarrow>
     (case find_route (ce_routes ce) (ce_board ce) now t EngineServer (s_username s) of
        Inl p \<Rightarrow> (connection_failed s t p addr d, [], Inl p)
      | Inr way \<Rightarrow>
     (let (offers, opened) = ssh_open (ce_net ce)
            \<lparr>of_host = ro_host way, of_port = ro_port way, of_username = cc_username cred, of_login = cc_login cred\<rparr> (tg_host_key t)
      in case opened of
        Inl e \<Rightarrow> (connection_failed s t (terminal_problem e) addr d, offers, Inl (terminal_problem e))
      | Inr sh \<Rightarrow>
          (let (d, c) = terminal_opened ce d rd why cred sh (terminal_size (sm_cols m) (sm_rows m)) entry addr now
           in (d, offers, Inr c)))))))"

section \<open>The relay\<close>

text \<open>
  What reaches the relay, in the order it takes it: input of the browser at the times of the process and
  the database, a new size, the end of the browser, and what the shell sends. \<open>sent\<close> and \<open>shown\<close> say whether
  the other side took it.
\<close>

datatype relay_event =
  Typed bytes instant instant bool bool
  | Resized nat nat
  | BrowserClosed
  | ShellData bytes bool
  | ShellExit "nat option"
  | ShellGone

record relay =
  rl_activity :: activity
  rl_typed :: bytes
  rl_shown :: bytes
  rl_sent :: nat
  rl_received :: nat
  rl_exit :: "nat option"
  rl_sizes :: "(nat \<times> nat) list"
  rl_running :: bool

definition relay_start :: "session \<Rightarrow> instant \<Rightarrow> relay" where
  "relay_start s idle = \<lparr>rl_activity = activity_of s idle, rl_typed = [], rl_shown = [], rl_sent = 0, rl_received = 0, rl_exit = None,
     rl_sizes = [], rl_running = True\<rparr>"

definition relay_step :: "relay_event \<Rightarrow> database \<Rightarrow> relay \<Rightarrow> database \<times> relay" where
  "relay_step ev db r =
     (if \<not> rl_running r then (db, r)
      else case ev of
        Typed data clock now failed sent \<Rightarrow>
          (let (a, db, unlocked) = input (rl_activity r) db clock now failed; r = r\<lparr>rl_activity := a\<rparr>
           in (db,
               if \<not> unlocked then r
               else let r = r\<lparr>rl_sent := rl_sent r + length data\<rparr>
                    in if sent then r\<lparr>rl_typed := rl_typed r @ data\<rparr> else r\<lparr>rl_running := False\<rparr>))
      | Resized cols rows \<Rightarrow> (db, r\<lparr>rl_sizes := rl_sizes r @ [terminal_size cols rows]\<rparr>)
      | BrowserClosed \<Rightarrow> (db, r\<lparr>rl_running := False\<rparr>)
      | ShellData data shown \<Rightarrow>
          (let r = r\<lparr>rl_received := rl_received r + length data\<rparr>
           in (db, if shown then r\<lparr>rl_shown := rl_shown r @ data\<rparr> else r\<lparr>rl_running := False\<rparr>))
      | ShellExit status \<Rightarrow> (db, r\<lparr>rl_exit := status, rl_running := False\<rparr>)
      | ShellGone \<Rightarrow> (db, r\<lparr>rl_running := False\<rparr>))"

definition terminal_end :: "ready \<Rightarrow> connection \<Rightarrow> relay \<Rightarrow> nat \<Rightarrow> string \<Rightarrow> instant \<Rightarrow> desk \<Rightarrow> desk" where
  "terminal_end rd c r lasted addr now d =
     desk_audit (journal_closed (co_journal c) now d) (device_entry (rd_session rd) ''connection.closed'' (tg_id (rd_target rd))
       [(''protocol'', JText ''ssh''), (''seconds'', JNumber (int lasted)), (''bytes_sent'', JNumber (int (rl_sent r))),
        (''bytes_received'', JNumber (int (rl_received r))),
        (''exit_status'', case rl_exit r of Some e \<Rightarrow> JNumber (int e) | None \<Rightarrow> JNull)] addr)"

section \<open>Where credentials go\<close>

lemma check_server_key_True:
  "check_server_key pinned k = (seen, True) \<Longrightarrow> \<exists>key. k = PlainKey key \<and> seen = Some key \<and> (\<forall>p. pinned = Some p \<longrightarrow> hk_data p = hk_data key)"
  by (auto simp: check_server_key_def split: server_key.splits option.splits)

lemma ssh_connect_Inr:
  "ssh_connect sx pinned peer = (seen, Inr u)
    \<Longrightarrow> \<exists>key. sp_presents peer = Some (PlainKey key) \<and> seen = Some key \<and> (\<forall>p. pinned = Some p \<longrightarrow> hk_data p = hk_data key)"
  by (auto simp: ssh_connect_def Let_def split: option.splits prod.splits if_splits dest!: check_server_key_True)

text \<open>The key the target presents is a plain one, and the pinned one if one is pinned.\<close>

definition key_accepted :: "ssh_net \<Rightarrow> string \<Rightarrow> nat \<Rightarrow> string option \<Rightarrow> public_key \<Rightarrow> bool" where
  "key_accepted sx hst port pinned key \<longleftrightarrow> sp_presents (sx_peer sx hst port) = Some (PlainKey key)
     \<and> (\<forall>t. pinned = Some t \<longrightarrow> (\<exists>p. sx_read sx t = Inr p \<and> hk_data p = hk_data key))"

lemma open_inner_offers:
  assumes "open_inner sx target pinned = (offers, res)"
  shows "(\<forall>x \<in> set offers. x = target \<and> (\<exists>key. key_accepted sx (of_host target) (of_port target) pinned key))
    \<and> (\<forall>sh. res = Inr sh \<longrightarrow> (\<exists>key. key_accepted sx (of_host target) (of_port target) pinned key \<and> sh_host_key sh = hk_openssh key
        \<and> sp_auth (sx_peer sx (of_host target) (of_port target)) (of_username target) (of_login target) = Inr True))"
proof (cases "case pinned of None \<Rightarrow> Inr None | Some t \<Rightarrow> (case sx_read sx t of Inl e \<Rightarrow> Inl e | Inr k \<Rightarrow> Inr (Some k))")
  case (Inl e)
  with assms show ?thesis by (auto simp: open_inner_def)
next
  case (Inr pk)
  then have pk: "(pinned = None \<and> pk = None) \<or> (\<exists>t k. pinned = Some t \<and> sx_read sx t = Inr k \<and> pk = Some k)"
    by (auto split: option.splits sum.splits)
  let ?peer = "sx_peer sx (of_host target) (of_port target)"
  obtain seen con where c: "ssh_connect sx pk ?peer = (seen, con)" by (cases "ssh_connect sx pk ?peer")
  note o = assms [unfolded open_inner_def Inr sum.case Let_def c prod.case]
  show ?thesis
  proof (cases con)
    case (Inl e)
    with o show ?thesis by auto
  next
    case con: (Inr u)
    obtain key where key: "sp_presents ?peer = Some (PlainKey key)" "seen = Some key" "\<forall>p. pk = Some p \<longrightarrow> hk_data p = hk_data key"
      using ssh_connect_Inr [OF c [unfolded con]] by blast
    have "key_accepted sx (of_host target) (of_port target) pinned key"
      using key pk by (auto simp: key_accepted_def)
    moreover have "offers = [target]" using o unfolding con key(2) by simp
    moreover have "sh_host_key sh = hk_openssh key \<and> sp_auth ?peer (of_username target) (of_login target) = Inr True" if "res = Inr sh" for sh
      using o that unfolding con key(2) by (auto split: sum.split_asm if_split_asm option.split_asm)
    ultimately show ?thesis by auto
  qed
qed

lemma ssh_open_offers:
  assumes "ssh_open sx target pinned = (offers, res)"
  shows "(\<forall>x \<in> set offers. x = target \<and> (\<exists>key. key_accepted sx (of_host target) (of_port target) pinned key))
    \<and> (\<forall>sh. res = Inr sh \<longrightarrow> (\<exists>key. key_accepted sx (of_host target) (of_port target) pinned key \<and> sh_host_key sh = hk_openssh key
        \<and> sp_auth (sx_peer sx (of_host target) (of_port target)) (of_username target) (of_login target) = Inr True))"
proof -
  obtain os r where o: "open_inner sx target pinned = (os, r)" by (cases "open_inner sx target pinned")
  note i = open_inner_offers [OF o]
  show ?thesis
  proof (cases "sx_cut sx")
    case None
    with assms have eq: "offers = os" "res = r" by (auto simp: ssh_open_def o)
    show ?thesis using i unfolding eq .
  next
    case (Some k)
    with assms have "offers = take k os" "res = Inl SshTimeout" by (auto simp: ssh_open_def o)
    then show ?thesis using i by (auto dest: in_set_takeD)
  qed
qed

lemma find_target_Inr:
  assumes "find_target h s now i protocols = Inr t"
  obtains r role where "hm_get (hb_devices h) i = Some r" "t = target_of h i r" "dv_protocol r \<in> set protocols"
    "effective_role (load_catalog h now) (session_subject s) (Device i) = Some role" "role \<ge> Connect"
  using assms by (auto simp: find_target_def require_def ensure_def split: option.split_asm if_split_asm)

lemma terminal_Inr:
  assumes "terminal ce origin cookies d0 s0 now0 i = (d1, Inr rd)"
  obtains x db where "origin = Some x" "eq_ignore_ascii_case x (ce_public ce)" "d1 = desk_db d0 db"
    "before_connecting (env_refresh ce) (ce_idle ce) now0 (hb_db (dk_hub d0)) s0 = (db, Inr (rd_session rd))"
    "find_target (dk_hub d1) (rd_session rd) now0 i [''ssh''] = Inr (rd_target rd)"
    "tg_auth_mode (rd_target rd) \<noteq> ''own'' \<longrightarrow> rd_own rd = None"
proof -
  have "ws_same_origin (ce_public ce) origin = Inr ()"
    using assms by (cases "ws_same_origin (ce_public ce) origin") (auto simp: terminal_def)
  moreover obtain db res where b: "before_connecting (env_refresh ce) (ce_idle ce) now0 (hb_db (dk_hub d0)) s0 = (db, res)"
    by (cases "before_connecting (env_refresh ce) (ce_idle ce) now0 (hb_db (dk_hub d0)) s0")
  ultimately show thesis
    using assms that [of _ db] by (auto simp: terminal_def Let_def ws_same_origin_def split: option.split_asm if_split_asm)
qed

text \<open>How a run ends: before anything is asked of the network, or with what opening the shell gave.\<close>

lemma terminal_run_cases:
  assumes "terminal_run ce d rd start entry addr now = (d', offers, res)"
  obtains (refused) p where "res = Inl p" "offers = []" "d' = d"
  | (no_route) p where "res = Inl p" "offers = []" "d' = connection_failed (rd_session rd) (rd_target rd) p addr d"
  | (asked) m why cred way opened where "start = Some m" "tg_requires_confirmation (rd_target rd) \<longrightarrow> s_confirmed (rd_session rd)"
      "purpose d (rd_session rd) (sm_purpose m) = Inr why" "run_credentials ce d rd m = Inr cred"
      "find_route (ce_routes ce) (ce_board ce) now (rd_target rd) EngineServer (s_username (rd_session rd)) = Inr way"
      "ssh_open (ce_net ce) \<lparr>of_host = ro_host way, of_port = ro_port way, of_username = cc_username cred, of_login = cc_login cred\<rparr>
         (tg_host_key (rd_target rd)) = (offers, opened)"
      "(\<exists>e. opened = Inl e \<and> res = Inl (terminal_problem e) \<and> d' = connection_failed (rd_session rd) (rd_target rd) (terminal_problem e) addr d)
       \<or> (\<exists>sh c. opened = Inr sh \<and> res = Inr c
            \<and> terminal_opened ce d rd why cred sh (terminal_size (sm_cols m) (sm_rows m)) entry addr now = (d', c))"
proof (cases start)
  case None
  with assms show thesis by (intro refused) (auto simp: terminal_run_def)
next
  case (Some m)
  let ?checks = "and_then (if tg_requires_confirmation (rd_target rd) then require_confirmation (rd_session rd) else Inr ()) (\<lambda>_.
      and_then (purpose d (rd_session rd) (sm_purpose m)) (\<lambda>why. and_then (run_credentials ce d rd m) (\<lambda>cred. Inr (why, cred))))"
  note run = assms [unfolded terminal_run_def Let_def Some option.case]
  show thesis
  proof (cases ?checks)
    case (Inl p)
    with run show thesis by (intro refused) auto
  next
    case (Inr x)
    obtain why cred where x: "x = (why, cred)" by (cases x)
    note run = run [unfolded Inr sum.case x prod.case]
    show thesis
    proof (cases "find_route (ce_routes ce) (ce_board ce) now (rd_target rd) EngineServer (s_username (rd_session rd))")
      case (Inl p)
      with run show thesis by (intro no_route) auto
    next
      case route: (Inr way)
      obtain os opened where o: "ssh_open (ce_net ce) \<lparr>of_host = ro_host way, of_port = ro_port way, of_username = cc_username cred,
          of_login = cc_login cred\<rparr> (tg_host_key (rd_target rd)) = (os, opened)" by fastforce
      note run = run [unfolded route sum.case o prod.case]
      show thesis
      proof (rule asked [OF Some _ _ _ route])
        show "tg_requires_confirmation (rd_target rd) \<longrightarrow> s_confirmed (rd_session rd)"
          using Inr by (auto simp: require_confirmation_def split: if_split_asm)
        show "purpose d (rd_session rd) (sm_purpose m) = Inr why" "run_credentials ce d rd m = Inr cred"
          using Inr x by auto
        show "ssh_open (ce_net ce) \<lparr>of_host = ro_host way, of_port = ro_port way, of_username = cc_username cred,
          of_login = cc_login cred\<rparr> (tg_host_key (rd_target rd)) = (offers, opened)"
          using o run by (auto split: sum.split_asm prod.split_asm)
        show "(\<exists>e. opened = Inl e \<and> res = Inl (terminal_problem e) \<and> d' = connection_failed (rd_session rd) (rd_target rd) (terminal_problem e) addr d)
          \<or> (\<exists>sh c. opened = Inr sh \<and> res = Inr c
            \<and> terminal_opened ce d rd why cred sh (terminal_size (sm_cols m) (sm_rows m)) entry addr now = (d', c))"
          using run by (auto split: sum.split_asm prod.split_asm)
      qed
    qed
  qed
qed

lemma trim_Nil [simp]: "trim [] = []"
  by code_simp

lemma purpose_given:
  "purpose d s given = Inr why \<Longrightarrow> purpose_required d s \<Longrightarrow> \<exists>g. given = Some g \<and> why = trim g \<and> trim g \<noteq> []"
  by (cases given) (auto simp: purpose_def Let_def split: if_splits)

text \<open>The way to a device: straight to its host and port, or to the forward of the connector it is reached through.\<close>

definition on_the_way :: "connect_env \<Rightarrow> instant \<Rightarrow> conn_target \<Rightarrow> string \<Rightarrow> string \<Rightarrow> nat \<Rightarrow> bool" where
  "on_the_way ce now t user hst port \<longleftrightarrow>
     (case tg_connector t of
        None \<Rightarrow> hst = tg_host t \<and> port = port_u16 (tg_port t)
      | Some c \<Rightarrow> is_online (ce_board ce) c \<and> rv_listener (ce_routes ce) = Some (hst, port)
          \<and> find_route (ce_routes ce) (ce_board ce) now t EngineServer user
             = Inr \<lparr>ro_host = hst, ro_port = port,
                 ro_forward = Some (c, authority (tg_host t) (port_u16 (tg_port t)), \<lparr>rr_user = user, rr_device = tg_name t\<rparr>)\<rparr>)"

lemma find_route_on_the_way:
  assumes "find_route (ce_routes ce) (ce_board ce) now t EngineServer user = Inr way"
  shows "on_the_way ce now t user (ro_host way) (ro_port way)"
proof (cases "tg_connector t")
  case None
  with assms show ?thesis by (auto simp: on_the_way_def find_route_def Let_def)
next
  case (Some c)
  then have "is_online (ce_board ce) c" using assms by (auto simp: find_route_def Let_def split: if_split_asm)
  moreover have "\<exists>hst port. rv_listener (ce_routes ce) = Some (hst, port) \<and> way = \<lparr>ro_host = hst, ro_port = port,
      ro_forward = Some (c, authority (tg_host t) (port_u16 (tg_port t)), \<lparr>rr_user = user, rr_device = tg_name t\<rparr>)\<rparr>"
    using assms Some by (auto simp: find_route_def Let_def split: if_split_asm option.split_asm)
  ultimately show ?thesis using assms Some by (auto simp: on_the_way_def)
qed

text \<open>Whose sealed fields a device signs in with: its own, or those of its login profile.\<close>

definition sealed_for :: "hub \<Rightarrow> conn_target \<Rightarrow> (uuid \<times> int \<times> string \<times> string) option" where
  "sealed_for h t =
     (if tg_auth_mode t = ''device'' then
        map_option (\<lambda>r. (tg_id t, dv_secret_version r, dv_secret_kind r, dv_username r)) (hm_get (hb_devices h) (tg_id t))
      else if tg_auth_mode t = ''profile'' then
        Option.bind (tg_profile t) (\<lambda>p. map_option (\<lambda>r. (p, pf_secret_version r, pf_secret_kind r, pf_username r)) (hm_get (hb_profiles h) p))
      else None)"

lemma resolve_sealed:
  assumes "resolve_credentials sv sk laps h t u p = Inr cred" "tg_auth_mode t = ''device'' \<or> tg_auth_mode t = ''profile''"
  shows "\<exists>owner version kind. sealed_for h t = Some (owner, version, kind, cc_username cred)
    \<and> sealed_login sv sk h owner version kind = Inr (cc_login cred)"
  using assms by (auto simp: resolve_credentials_def sealed_for_def split: option.split_asm)

lemma resolve_ask:
  assumes "resolve_credentials sv sk laps h t u p = Inr cred" "tg_auth_mode t = ''ask''"
  shows "\<exists>n q. u = Some n \<and> p = Some q \<and> cc_username cred = trim n \<and> cc_login cred = LoginPassword q"
  using assms by (auto simp: resolve_credentials_def split: option.split_asm if_split_asm)


section \<open>What a run leaves behind\<close>

text \<open>Nothing of the devices changes but the host key of one, where none was pinned.\<close>

definition keys_kept :: "desk \<Rightarrow> desk \<Rightarrow> uuid \<Rightarrow> (string \<Rightarrow> bool) \<Rightarrow> bool" where
  "keys_kept d d' i ok \<longleftrightarrow> (\<forall>k r. hm_get (hb_devices (dk_hub d)) k = Some r \<longrightarrow> hm_get (hb_devices (dk_hub d')) k = Some r
     \<or> k = i \<and> dv_host_key r = None \<and> (\<exists>key. ok key \<and> hm_get (hb_devices (dk_hub d')) k = Some (r\<lparr>dv_host_key := Some key\<rparr>)))"

lemma keys_kept_same: "hb_devices (dk_hub d') = hb_devices (dk_hub d) \<Longrightarrow> keys_kept d d' i ok"
  by (simp add: keys_kept_def)

lemma pin_host_key_frame:
  assumes "pin_host_key sx s t key addr d = (d', pinned_now)"
  shows "(\<exists>es. db_audit (hb_db (dk_hub d')) = db_audit (hb_db (dk_hub d)) @ es) \<and> keys_kept d d' (tg_id t) (\<lambda>p. p = key)"
proof (cases "\<exists>r. hm_get (hb_devices (dk_hub d)) (tg_id t) = Some r \<and> dv_host_key r = None")
  case False
  with assms have "d' = d" by (auto simp: pin_host_key_def split: option.split_asm)
  then show ?thesis by (simp add: keys_kept_same)
next
  case True
  then obtain r where r: "hm_get (hb_devices (dk_hub d)) (tg_id t) = Some r" "dv_host_key r = None" by blast
  obtain e where d': "d' = desk_audit (d\<lparr>dk_hub := (dk_hub d)\<lparr>hb_devices := hm_insert (tg_id t) (r\<lparr>dv_host_key := Some key\<rparr>) (hb_devices (dk_hub d))\<rparr>\<rparr>) e"
    using assms r by (auto simp: pin_host_key_def)
  then have dev: "hb_devices (dk_hub d') = hm_insert (tg_id t) (r\<lparr>dv_host_key := Some key\<rparr>) (hb_devices (dk_hub d))"
    and au: "db_audit (hb_db (dk_hub d')) = db_audit (hb_db (dk_hub d)) @ [e]"
    by (simp_all add: desk_audit_def hub_audit_def audit_record_def)
  show ?thesis using r by (auto simp: keys_kept_def dev au hm.get_put)
qed

lemma journal_opened_frame:
  assumes "journal_opened s t why j now d = (d', entry)"
  shows "dk_hub d' = dk_hub d \<and> (\<forall>e. entry = Some e \<longrightarrow> (\<exists>row. hm_get (dk_journal d') e = Some row \<and> jr_device row = tg_id t
    \<and> jr_user row = s_user s \<and> jr_text row = why \<and> jr_ended row = None))"
  using assms by (auto simp: journal_opened_def hm.get_put split: if_split_asm)

lemma terminal_opened_frame:
  assumes "terminal_opened ce d rd why cred sh dims entry addr now = (d', c)"
  shows "(\<exists>es e details. db_audit (hb_db (dk_hub d')) = db_audit (hb_db (dk_hub d)) @ es \<and> e \<in> set es
        \<and> au_actor e = Some (s_user (rd_session rd)) \<and> au_object e = Some (''device'', tg_id (rd_target rd)) \<and> au_action e = ''connection.opened''
        \<and> au_details e = JObject details \<and> (''purpose'', JText why) \<in> set details)
    \<and> (\<forall>j. co_journal c = Some j \<longrightarrow> (\<exists>row. hm_get (dk_journal d') j = Some row \<and> jr_device row = tg_id (rd_target rd)
        \<and> jr_user row = s_user (rd_session rd) \<and> jr_text row = why \<and> jr_ended row = None))
    \<and> keys_kept d d' (tg_id (rd_target rd)) (\<lambda>p. tg_host_key (rd_target rd) = None \<and> p = sh_host_key sh)"
proof -
  let ?t = "rd_target rd" and ?s = "rd_session rd"
  define step where "step = (if tg_host_key ?t = None then pin_host_key (ce_net ce) ?s ?t (sh_host_key sh) addr d else (d, False))"
  obtain d1 pn where d1: "step = (d1, pn)" by (cases step)
  define e where "e = device_entry ?s ''connection.opened'' (tg_id ?t)
    [(''protocol'', JText ''ssh''), (''host'', JText (tg_host ?t)),
     (''port'', JNumber (if 0 \<le> tg_port ?t \<and> tg_port ?t < 65536 then tg_port ?t else 22)), (''username'', JText (cc_username cred)),
     (''auth_mode'', JText (tg_auth_mode ?t)), (''profile_id'', json_uuid (tg_profile ?t)), (''purpose'', JText why)] addr"
  obtain d2 j where d2: "journal_opened ?s ?t why entry now (desk_audit d1 e) = (d2, j)" by fastforce
  have "terminal_opened ce d rd why cred sh dims entry addr now = (d2, \<lparr>co_shell = sh, co_size = dims, co_journal = j, co_pinned_now = pn\<rparr>)"
    unfolding terminal_opened_def Let_def step_def [symmetric] d1 prod.case e_def [symmetric] d2 ..
  with assms have c: "d' = d2" "co_journal c = j" by auto
  obtain es where es: "db_audit (hb_db (dk_hub d1)) = db_audit (hb_db (dk_hub d)) @ es"
    and kept: "keys_kept d d1 (tg_id ?t) (\<lambda>p. tg_host_key ?t = None \<and> p = sh_host_key sh)"
  proof (cases "tg_host_key ?t = None")
    case True
    with d1 have "pin_host_key (ce_net ce) ?s ?t (sh_host_key sh) addr d = (d1, pn)" by (simp add: step_def)
    from pin_host_key_frame [OF this] True that show thesis by auto
  next
    case False
    with d1 that [of "[]"] show thesis by (simp add: step_def keys_kept_same)
  qed
  note jf = journal_opened_frame [OF d2]
  have "keys_kept d d' (tg_id ?t) (\<lambda>p. tg_host_key ?t = None \<and> p = sh_host_key sh)"
    using kept jf by (simp add: c keys_kept_def desk_audit_def hub_audit_def)
  moreover have "db_audit (hb_db (dk_hub d')) = db_audit (hb_db (dk_hub d)) @ es @ [e]"
    using es jf by (simp add: c desk_audit_def hub_audit_def audit_record_def)
  moreover have "au_actor e = Some (s_user ?s) \<and> au_object e = Some (''device'', tg_id ?t) \<and> au_action e = ''connection.opened''
      \<and> (\<exists>details. au_details e = JObject details \<and> (''purpose'', JText why) \<in> set details)"
    by (simp add: e_def device_entry_def)
  ultimately show ?thesis using jf c by (auto intro!: exI [of _ "es @ [e]"] exI [of _ e])
qed


section \<open>A small instance\<close>

definition sample_key :: public_key where
  "sample_key = \<lparr>hk_data = [1], hk_openssh = ''ssh-ed25519 AAAA''\<rparr>"

definition sample_net :: ssh_net where
  "sample_net = \<lparr>sx_read = (\<lambda>t. if t = ''ssh-ed25519 AAAA'' then Inr sample_key else Inl ''not a key''), sx_fingerprint = (\<lambda>_. ''SHA256:1''),
     sx_peer = (\<lambda>_ _. \<lparr>sp_presents = Some (PlainKey sample_key), sp_handshake = None, sp_auth = (\<lambda>_ _. Inr True), sp_shell = None\<rparr>),
     sx_unreachable = ''no route'', sx_refused = ''unknown key'', sx_cut = None\<rparr>"

definition sample_ce :: connect_env where
  "sample_ce = \<lparr>ce_public = ''https://hub'', ce_directory = None, ce_windows_laps = (\<lambda>_. None), ce_idle = 60, ce_unix = 0,
     ce_server = sample_server, ce_b64url = (\<lambda>_. None), ce_own_account = False, ce_keys = sample_ssh, ce_ca = None,
     ce_fresh_key = \<lparr>pk_algorithm = [], pk_fingerprint = [], pk_public = []\<rparr>,
     ce_routes = \<lparr>rv_check = (\<lambda>_ _. Inl Offline), rv_towards = (\<lambda>_. False), rv_listener = None\<rparr>,
     ce_board = switchboard_default, ce_net = sample_net\<rparr>"

definition sample_asking :: device_row where
  "sample_asking = sample_device\<lparr>dv_auth_mode := ''ask'', dv_profile := None, dv_requires_confirmation := True\<rparr>"

definition sample_desk :: desk where
  "sample_desk = \<lparr>dk_hub = sample_tree\<lparr>hb_devices := [(5, sample_asking)],
      hb_db := empty_db\<lparr>db_users := [(11, sample_user\<lparr>ur_sid := Some ''S-1'', ur_username := ''ann''\<rparr>)],
        db_sessions := [([], (new_row 1 ''web'' 11 [] 0 1000)\<lparr>sr_confirmed := Some 45\<rparr>)]\<rparr>\<rparr>,
     dk_journal = [], dk_purposes = [(''S-1'', (''user'', ''ann''))]\<rparr>"

definition sample_start :: start_message where
  "sample_start = \<lparr>sm_cols = 80, sm_rows = 24, sm_username = Some ''root'', sm_password = Some ''pw'', sm_purpose = Some ''patching''\<rparr>"

definition sample_session :: session where
  "sample_session = the (by_hash (hb_db (dk_hub sample_desk)) [] 60 50)"

definition sample_ready :: ready where
  "sample_ready = \<lparr>rd_session = sample_session, rd_target = target_of (dk_hub sample_desk) 5 sample_asking, rd_own = None\<rparr>"

lemma sample_by_hash: "by_hash (hb_db (dk_hub sample_desk)) [] 60 50 = Some sample_session"
proof -
  have "by_hash (hb_db (dk_hub sample_desk)) [] 60 50 \<noteq> None" by code_simp
  then show ?thesis by (auto simp: sample_session_def)
qed

lemma sample_right: "authorize (load_catalog (dk_hub sample_desk) 50) (session_subject sample_session) Connect (Device 5)"
  by code_simp

lemma sample_target: "find_target (dk_hub sample_desk) sample_session 50 5 [''ssh''] = Inr (rd_target sample_ready)"
proof -
  have "hm_get (hb_devices (dk_hub sample_desk)) 5 = Some sample_asking" by (simp add: sample_desk_def)
  moreover have "dv_protocol sample_asking = ''ssh''" by (simp add: sample_asking_def sample_device_def)
  ultimately show ?thesis using requireI [OF sample_right] by (simp add: find_target_def sample_ready_def ensure_def)
qed

lemma sample_request: "terminal sample_ce (Some ''https://hub'') [] sample_desk (sample_manager\<lparr>s_hash := []\<rparr>) 50 5 = (sample_desk, Inr sample_ready)"
proof -
  have "before_connecting (env_refresh sample_ce) (ce_idle sample_ce) 50 (hb_db (dk_hub sample_desk)) (sample_manager\<lparr>s_hash := []\<rparr>)
      = (hb_db (dk_hub sample_desk), Inr sample_session)"
    by (simp add: before_connecting_def refresh_user_def env_refresh_def sample_ce_def sample_manager_def sample_by_hash)
  moreover have "desk_db sample_desk (hb_db (dk_hub sample_desk)) = sample_desk" by (simp add: desk_db_def)
  moreover have "tg_auth_mode (rd_target sample_ready) = ''ask''" by (simp add: sample_ready_def target_of_def sample_asking_def)
  moreover have "ce_public sample_ce = ''https://hub''" by (simp add: sample_ce_def)
  ultimately show ?thesis by (simp add: terminal_def ws_same_origin_def eq_ignore_ascii_case_def sample_target) (simp add: sample_ready_def)
qed

definition sample_offer :: offer where
  "sample_offer = \<lparr>of_host = ''db.example'', of_port = 22, of_username = ''root'', of_login = LoginPassword ''pw''\<rparr>"

lemma sample_run: "\<exists>d' c. terminal_run sample_ce sample_desk sample_ready (Some sample_start) 70 ''10.0.0.1'' 51 = (d', [sample_offer], Inr c)"
proof -
  let ?t = "rd_target sample_ready" and ?s = "rd_session sample_ready"
  have "trim ''patching'' = ''patching''" "trim ''root'' = ''root''" by (rule trim_visible_ascii; simp)+
  moreover have "length (chars ''patching'') = 8" by code_simp
  ultimately have why: "purpose sample_desk ?s (sm_purpose sample_start) = Inr ''patching''" and root: "trim ''root'' = ''root''"
    by (simp_all add: purpose_def sample_start_def PURPOSE_MAX_def)
  have t: "tg_auth_mode ?t = ''ask''" "tg_host ?t = ''db.example''" "tg_port ?t = 22" "tg_host_key ?t = Some ''ssh-ed25519 AAAA''"
    by (simp_all add: sample_ready_def target_of_def sample_asking_def sample_device_def)
  have own: "rd_own sample_ready = None" by (simp add: sample_ready_def)
  have "reached_through (dk_hub sample_desk) sample_asking = None" by code_simp
  then have c: "tg_connector ?t = None" by (simp add: sample_ready_def target_of_def)
  have "s_confirmed sample_session" by code_simp
  then have conf: "require_confirmation ?s = Inr ()" by (simp add: require_confirmation_def sample_ready_def)
  have cred: "run_credentials sample_ce sample_desk sample_ready sample_start
      = Inr \<lparr>cc_username = ''root'', cc_domain = [], cc_login = LoginPassword ''pw''\<rparr>"
    using t(1) root own by (simp add: run_credentials_def resolve_credentials_def sample_start_def)
  have route: "find_route (ce_routes sample_ce) (ce_board sample_ce) 51 ?t EngineServer (s_username ?s)
      = Inr \<lparr>ro_host = ''db.example'', ro_port = 22, ro_forward = None\<rparr>"
    using c t by (simp add: find_route_def port_u16_def)
  have "ssh_open (ce_net sample_ce) sample_offer (tg_host_key ?t) = ([sample_offer], Inr \<lparr>sh_host_key = ''ssh-ed25519 AAAA'', sh_fingerprint = ''SHA256:1''\<rparr>)"
    using t(4) by (simp add: ssh_open_def open_inner_def ssh_connect_def check_server_key_def sample_ce_def sample_net_def sample_key_def Let_def)
  then show ?thesis
    using why conf cred route by (simp add: terminal_run_def Let_def sample_offer_def split: prod.split)
qed



end
