(* ===== verification/Reveal.thy ===== *)
theory Reveal
  imports Connect TreeApi
begin

text \<open>
  Showing and copying stored credentials, \<^verbatim>\<open>crates/server/src/api/reveal.rs\<close>: of the vault, of a device and of a
  login profile, and the current one-time code of an entry of the vault.
\<close>

section \<open>What is shown\<close>

record revealed =
  rv_username :: string
  rv_domain :: string
  rv_password :: "string option"
  rv_private_key :: "string option"
  rv_passphrase :: "string option"
  rv_certificate :: "string option"
  rv_fields :: "(string \<times> string) list"
  rv_totp :: "string option"

record shown_code =
  sc_code :: string
  sc_remaining :: nat
  sc_period :: nat

definition reveal_open :: "server \<Rightarrow> hub \<Rightarrow> uuid \<Rightarrow> int \<Rightarrow> string \<Rightarrow> string \<Rightarrow> string \<Rightarrow> problem + revealed" where
  "reveal_open sv h owner version kind user dmn =
     (let empty = \<lparr>rv_username = user, rv_domain = dmn, rv_password = None, rv_private_key = None, rv_passphrase = None,
            rv_certificate = None, rv_fields = [], rv_totp = None\<rparr>
      in if kind = ''ssh_key'' then
           and_then (stored_text sv h owner version PRIVATE_KEY_FIELD) (\<lambda>k.
           and_then (stored_text sv h owner version PASSPHRASE_FIELD) (\<lambda>p.
           and_then (stored_text sv h owner version CERTIFICATE_FIELD) (\<lambda>c.
             Inr (empty\<lparr>rv_private_key := k, rv_passphrase := p, rv_certificate := c\<rparr>))))
         else and_then (stored_text sv h owner version PASSWORD_FIELD) (\<lambda>p. Inr (empty\<lparr>rv_password := p\<rparr>)))"

definition reveal_purpose :: "string \<Rightarrow> problem + string" where
  "reveal_purpose p = (if p \<in> {''show'', ''copy'', ''export''} then Inr p else Inl (invalid ''purpose''))"

fun reveal_fields :: "server \<Rightarrow> hub \<Rightarrow> uuid \<Rightarrow> int \<Rightarrow> string list \<Rightarrow> problem + (string \<times> string) list" where
  "reveal_fields sv h i version [] = Inr []"
| "reveal_fields sv h i version (n # ns) =
     and_then (stored_text sv h i version (secret_name n)) (\<lambda>v.
     and_then (reveal_fields sv h i version ns) (\<lambda>rest. Inr ((n, case v of Some t \<Rightarrow> t | None \<Rightarrow> []) # rest)))"

text \<open>\<open>field LIKE 'field:%' ORDER BY field\<close>, without the prefix.\<close>

definition sealed_names :: "hub \<Rightarrow> uuid \<Rightarrow> int \<Rightarrow> string list" where
  "sealed_names h i version =
     map (drop 6) (sort (map (\<lambda>((_, _, f), _). f)
       (filter (\<lambda>((owner, v, f), _). owner = i \<and> v = version \<and> take 6 f = ''field:'') (db_secrets (hb_db h)))))"

section \<open>The handlers\<close>

definition reveal_credential ::
  "server \<Rightarrow> hub \<Rightarrow> session \<Rightarrow> string \<Rightarrow> instant \<Rightarrow> uuid \<Rightarrow> string \<Rightarrow> int option \<Rightarrow> problem + (hub \<times> revealed)" where
  "reveal_credential sv h s addr now i why asked =
     and_then (reveal_purpose why) (\<lambda>_.
     and_then (require (load_catalog h now) (session_subject s) Reveal (Credential i)) (\<lambda>_.
     and_then (require_confirmation s) (\<lambda>_.
     and_then (case hm_get (hb_credentials h) i of Some r \<Rightarrow> Inr r | None \<Rightarrow> Inl (problem Internal)) (\<lambda>r.
     (let version = (case asked of Some v \<Rightarrow> v | None \<Rightarrow> cr_version r) in
     and_then (ensure (1 \<le> version \<and> version \<le> cr_version r) (invalid ''version'')) (\<lambda>_.
     (let names = (if version = cr_version r then map fi_name (filter fi_protected (cr_fields r)) else sealed_names h i version) in
     and_then (reveal_open sv h i version ''password'' (cr_username r) []) (\<lambda>x.
     and_then (reveal_fields sv h i version names) (\<lambda>fs.
     and_then (if why = ''export'' then stored_text sv h i version TOTP_FIELD else Inr None) (\<lambda>t.
       Inr (hub_audit h (audit_object s ''credential.revealed'' (Credential i)
              [(''purpose'', JText why), (''version'', JNumber version)] addr), x\<lparr>rv_fields := fs, rv_totp := t\<rparr>)))))))))))"

definition current_code :: "server \<Rightarrow> hub \<Rightarrow> uuid \<Rightarrow> nat \<Rightarrow> problem + shown_code" where
  "current_code sv h i unix =
     and_then (case hm_get (hb_credentials h) i of Some r \<Rightarrow> Inr r | None \<Rightarrow> Inl (problem Internal)) (\<lambda>r.
     and_then (ensure (cr_has_totp r) (problem NotFound)) (\<lambda>_.
     and_then (stored_required sv h i (cr_version r) TOTP_FIELD) (\<lambda>t.
       case params_parse (sv_b32_decode sv) t of
         None \<Rightarrow> Inl (problem Internal)
       | Some p \<Rightarrow> Inr \<lparr>sc_code = fst (code_at (sv_hmac sv) p unix), sc_remaining = snd (code_at (sv_hmac sv) p unix), sc_period = tp_period p\<rparr>)))"

definition credential_code ::
  "server \<Rightarrow> hub \<Rightarrow> session \<Rightarrow> string \<Rightarrow> instant \<Rightarrow> nat \<Rightarrow> uuid \<Rightarrow> string \<Rightarrow> problem + (hub \<times> shown_code)" where
  "credential_code sv h s addr now unix i why =
     and_then (ensure (why \<in> {''show'', ''copy''}) (invalid ''purpose'')) (\<lambda>_.
     and_then (require (load_catalog h now) (session_subject s) Reveal (Credential i)) (\<lambda>_.
     and_then (require_confirmation s) (\<lambda>_.
     and_then (current_code sv h i unix) (\<lambda>c.
       Inr (hub_audit h (audit_object s ''credential.code_shown'' (Credential i) [(''purpose'', JText why)] addr), c)))))"

text \<open>The versions of the secrets, newest first; the column with their times is left out.\<close>

definition credential_versions :: "hub \<Rightarrow> session \<Rightarrow> instant \<Rightarrow> uuid \<Rightarrow> problem + int list" where
  "credential_versions h s now i =
     and_then (require (load_catalog h now) (session_subject s) Reveal (Credential i)) (\<lambda>_.
       Inr (rev (remdups_adj (sort (map (\<lambda>((_, v, _), _). v) (filter (\<lambda>((owner, _, _), _). owner = i) (db_secrets (hb_db h))))))))"

definition reveal_device :: "server \<Rightarrow> hub \<Rightarrow> session \<Rightarrow> string \<Rightarrow> instant \<Rightarrow> uuid \<Rightarrow> string \<Rightarrow> problem + (hub \<times> revealed)" where
  "reveal_device sv h s addr now i why =
     and_then (reveal_purpose why) (\<lambda>_.
     and_then (require (load_catalog h now) (session_subject s) Reveal (Device i)) (\<lambda>_.
     and_then (require_confirmation s) (\<lambda>_.
     and_then (case hm_get (hb_devices h) i of Some r \<Rightarrow> Inr r | None \<Rightarrow> Inl (problem Internal)) (\<lambda>r.
     and_then (ensure (dv_secret_version r \<noteq> 0) (problem NotFound)) (\<lambda>_.
     and_then (reveal_open sv h i (dv_secret_version r) (dv_secret_kind r) (dv_username r) (dv_domain r)) (\<lambda>x.
       Inr (hub_audit h (audit_object s ''credential.revealed'' (Device i) [(''purpose'', JText why)] addr), x)))))))"

definition reveal_profile :: "server \<Rightarrow> hub \<Rightarrow> session \<Rightarrow> string \<Rightarrow> instant \<Rightarrow> uuid \<Rightarrow> string \<Rightarrow> problem + (hub \<times> revealed)" where
  "reveal_profile sv h s addr now i why =
     and_then (reveal_purpose why) (\<lambda>_.
     and_then (require (load_catalog h now) (session_subject s) Reveal (Profile i)) (\<lambda>_.
     and_then (require_confirmation s) (\<lambda>_.
     and_then (case hm_get (hb_profiles h) i of Some r \<Rightarrow> Inr r | None \<Rightarrow> Inl (problem Internal)) (\<lambda>r.
     and_then (reveal_open sv h i (pf_secret_version r) (pf_secret_kind r) (pf_username r) (pf_domain r)) (\<lambda>x.
       Inr (hub_audit h (audit_object s ''credential.revealed'' (Profile i) [(''purpose'', JText why)] addr), x))))))"

section \<open>Nothing is shown unseen\<close>

datatype reveal_request = AskCredential uuid "int option" | AskCode uuid nat | AskDevice uuid | AskProfile uuid

fun reveal_object :: "reveal_request \<Rightarrow> object_id" where
  "reveal_object (AskCredential i _) = Credential i"
| "reveal_object (AskCode i _) = Credential i"
| "reveal_object (AskDevice i) = Device i"
| "reveal_object (AskProfile i) = Profile i"

fun reveal_handle ::
  "server \<Rightarrow> hub \<Rightarrow> session \<Rightarrow> string \<Rightarrow> instant \<Rightarrow> string \<Rightarrow> reveal_request \<Rightarrow> problem + (hub \<times> (revealed + shown_code))" where
  "reveal_handle sv h s addr now why (AskCredential i v) =
     and_then (reveal_credential sv h s addr now i why v) (\<lambda>(h, x). Inr (h, Inl x))"
| "reveal_handle sv h s addr now why (AskCode i unix) =
     and_then (credential_code sv h s addr now unix i why) (\<lambda>(h, c). Inr (h, Inr c))"
| "reveal_handle sv h s addr now why (AskDevice i) = and_then (reveal_device sv h s addr now i why) (\<lambda>(h, x). Inr (h, Inl x))"
| "reveal_handle sv h s addr now why (AskProfile i) = and_then (reveal_profile sv h s addr now i why) (\<lambda>(h, x). Inr (h, Inl x))"

text \<open>A text that is sealed for this owner.\<close>

definition sealed_text :: "server \<Rightarrow> hub \<Rightarrow> uuid \<Rightarrow> string \<Rightarrow> bool" where
  "sealed_text sv h owner t \<longleftrightarrow> (\<exists>version fld. hub_load sv h owner version fld = Inr (Some (as_bytes t)))"

lemma as_bytes_text [simp]: "as_bytes (bytes_text b) = b"
  using unat_byte by (auto simp: as_bytes_def bytes_text_def intro!: map_idI)

lemma bytes_text_as_bytes [simp]: "bytes_text (as_bytes t) = t"
  by (simp add: as_bytes_def bytes_text_def unat_of_nat comp_def map_idI)

lemma stored_text_Some:
  assumes "stored_text sv h owner version fld = Inr (Some t)"
  shows "hub_load sv h owner version fld = Inr (Some (as_bytes t))"
proof -
  obtain found where f: "hub_load sv h owner version fld = Inr found"
    "(case found of None \<Rightarrow> Inr None | Some b \<Rightarrow> (case from_utf8 (bytes_text b) of Some t \<Rightarrow> Inr (Some t) | None \<Rightarrow> Inl (problem Internal))) = Inr (Some t)"
    using assms unfolding stored_text_def passed by blast
  then obtain b where b: "found = Some b" "from_utf8 (bytes_text b) = Some t" by (auto split: option.split_asm)
  then have "t = bytes_text b" by (simp add: from_utf8_iff)
  with f b show ?thesis by simp
qed

lemma stored_text_sealed: "stored_text sv h owner version fld = Inr (Some t) \<Longrightarrow> sealed_text sv h owner t"
  unfolding sealed_text_def using stored_text_Some by blast

lemma reveal_fields_sealed:
  assumes "reveal_fields sv h i version ns = Inr fs"
  shows "map fst fs = ns \<and> (\<forall>v \<in> snd ` set fs. v \<noteq> [] \<longrightarrow> sealed_text sv h i v)"
  using assms
proof (induction ns arbitrary: fs)
  case (Cons n ns)
  then obtain v rest where v: "stored_text sv h i version (secret_name n) = Inr v" "reveal_fields sv h i version ns = Inr rest"
    and fs: "fs = (n, case v of Some t \<Rightarrow> t | None \<Rightarrow> []) # rest" by auto
  have "sealed_text sv h i t" if "v = Some t" for t using v that stored_text_sealed by blast
  then show ?case using Cons.IH [OF v(2)] fs by (auto split: option.splits)
qed simp

text \<open>Everything that is shown of stored secrets.\<close>

definition shown_texts :: "revealed \<Rightarrow> string set" where
  "shown_texts x = set_option (rv_password x) \<union> set_option (rv_private_key x) \<union> set_option (rv_passphrase x) \<union> set_option (rv_certificate x)
     \<union> set_option (rv_totp x) \<union> {v \<in> snd ` set (rv_fields x). v \<noteq> []}"

lemma reveal_open_sealed:
  "reveal_open sv h owner version kind user dmn = Inr x \<Longrightarrow> rv_fields x = [] \<and> rv_totp x = None \<and> (\<forall>t \<in> shown_texts x. sealed_text sv h owner t)"
  by (auto simp: reveal_open_def Let_def shown_texts_def dest: stored_text_sealed split: if_split_asm)

lemma require_confirmation_Inr [simp]: "require_confirmation s = Inr x \<longleftrightarrow> s_confirmed s"
  by (simp add: require_confirmation_def)

text \<open>The entry every handler writes before it answers.\<close>

definition reveal_entry :: "session \<Rightarrow> object_id \<Rightarrow> string \<Rightarrow> audit_entry \<Rightarrow> bool" where
  "reveal_entry s x why a \<longleftrightarrow> au_actor a = Some (s_user s) \<and> au_object a = Some (object_kind x, object_uuid x)
     \<and> au_action a \<in> {''credential.revealed'', ''credential.code_shown''}
     \<and> (\<exists>details. au_details a = JObject details \<and> (''purpose'', JText why) \<in> set details)"

lemma reveal_purpose_Inr: "reveal_purpose why = Inr x \<longleftrightarrow> x = why \<and> why \<in> {''show'', ''copy'', ''export''}"
  by (auto simp: reveal_purpose_def)

lemma reveal_credential_Inr:
  assumes "reveal_credential sv h s addr now i why v = Inr (h', y)"
  obtains version names user x fs t a where "reveal_open sv h i version ''password'' user [] = Inr x"
    "reveal_fields sv h i version names = Inr fs" "(if why = ''export'' then stored_text sv h i version TOTP_FIELD else Inr None) = Inr t"
    "y = x\<lparr>rv_fields := fs, rv_totp := t\<rparr>" "h' = hub_audit h a" "reveal_entry s (Credential i) why a"
    "authorize (load_catalog h now) (session_subject s) Reveal (Credential i)" "s_confirmed s" "reveal_purpose why = Inr why"
proof -
  obtain z user version names x fs t where r: "authorize (load_catalog h now) (session_subject s) Reveal (Credential i)" "s_confirmed s"
    "reveal_purpose why = Inr z"
    and o: "reveal_open sv h i version ''password'' user [] = Inr x" "reveal_fields sv h i version names = Inr fs"
    "(if why = ''export'' then stored_text sv h i version TOTP_FIELD else Inr None) = Inr t"
    and e: "hub_audit h (audit_object s ''credential.revealed'' (Credential i) [(''purpose'', JText why), (''version'', JNumber version)] addr) = h'"
      "x\<lparr>rv_fields := fs, rv_totp := t\<rparr> = y"
    using assms unfolding reveal_credential_def Let_def passed require_confirmation_Inr
    by (elim exE conjE) (rule that, assumption+)
  have "reveal_entry s (Credential i) why (audit_object s ''credential.revealed'' (Credential i) [(''purpose'', JText why), (''version'', JNumber version)] addr)"
    by (auto simp: reveal_entry_def audit_object_def)
  moreover have "reveal_purpose why = Inr why" using r(3) by (auto simp: reveal_purpose_Inr)
  ultimately show thesis using that o r e by blast
qed

text \<open>
  C8: A stored secret is shown only to whom it may be, and never unseen. If a request to reveal an entry of the vault, a
  device's own credentials or a login profile, or for a one-time code, is answered, the caller has the right to
  reveal that object and has confirmed who they are; the audit log has got exactly one new entry, which names
  the caller, the object and the purpose, and nothing else has changed; and every secret in the answer is one that is
  sealed for that very object. A one-time code is never answered to an export.
\<close>

theorem reveal_guarded:
  assumes "reveal_handle sv h s addr now why req = Inr (h', out)"
  shows "authorize (load_catalog h now) (session_subject s) Reveal (reveal_object req) \<and> s_confirmed s
    \<and> why \<in> {''show'', ''copy'', ''export''}
    \<and> (\<exists>a. h' = hub_audit h a \<and> reveal_entry s (reveal_object req) why a)
    \<and> (case out of
         Inl x \<Rightarrow> \<forall>t \<in> shown_texts x. sealed_text sv h (object_uuid (reveal_object req)) t
       | Inr c \<Rightarrow> why \<noteq> ''export'')"
proof (cases req)
  case (AskCredential i v)
  obtain h'' y where c: "reveal_credential sv h s addr now i why v = Inr (h'', y)" "h' = h''" "out = Inl y"
    using assms by (auto simp: AskCredential)
  obtain version names user x fs t a where x: "reveal_open sv h i version ''password'' user [] = Inr x"
    and f: "reveal_fields sv h i version names = Inr fs" and t: "(if why = ''export'' then stored_text sv h i version TOTP_FIELD else Inr None) = Inr t"
    and y: "y = x\<lparr>rv_fields := fs, rv_totp := t\<rparr>" "h'' = hub_audit h a" "reveal_entry s (Credential i) why a"
    and may: "authorize (load_catalog h now) (session_subject s) Reveal (Credential i)" "s_confirmed s" "reveal_purpose why = Inr why"
    by (rule reveal_credential_Inr [OF c(1)])
  have "\<forall>u \<in> shown_texts y. sealed_text sv h i u"
  proof
    fix u
    assume "u \<in> shown_texts y"
    then consider "u \<in> shown_texts x" | "t = Some u" | "u \<in> snd ` set fs" "u \<noteq> []" by (auto simp: shown_texts_def y(1))
    then show "sealed_text sv h i u"
      using reveal_open_sealed [OF x] reveal_fields_sealed [OF f] t stored_text_sealed by cases (auto split: if_split_asm)
  qed
  with c y may show ?thesis by (auto simp: AskCredential reveal_purpose_def split: if_split_asm)
next
  case (AskCode i unix)
  with assms show ?thesis
    by (auto simp: credential_code_def passed reveal_entry_def audit_object_def)
next
  case (AskDevice i)
  with assms show ?thesis
    by (auto simp: reveal_device_def reveal_purpose_Inr passed reveal_entry_def audit_object_def dest: reveal_open_sealed)
next
  case (AskProfile i)
  with assms show ?thesis
    by (auto simp: reveal_profile_def reveal_purpose_Inr passed reveal_entry_def audit_object_def dest: reveal_open_sealed)
qed

section \<open>What was stored is what is shown\<close>

lemma check_fields_loop_result:
  "check_fields_loop acc fs = Inr ch \<Longrightarrow>
     ch_sealed ch = ch_sealed acc @ concat (map (\<lambda>f. case fn_value f of Some v \<Rightarrow> if fn_protected f then [(trim (fn_name f), v)] else [] | None \<Rightarrow> []) fs)
     \<and> map fi_name (filter fi_protected (ch_stored ch)) = map fi_name (filter fi_protected (ch_stored acc)) @ map (trim \<circ> fn_name) (filter fn_protected fs)
     \<and> ch_kept ch = ch_kept acc @ map (trim \<circ> fn_name) (filter (\<lambda>f. fn_protected f \<and> fn_value f = None) fs)"
  by (induction acc fs rule: check_fields_loop.induct) (auto simp: Let_def passed split: option.splits)

lemma check_details_fields: "check_details date inp = Inr d \<Longrightarrow> check_fields (ci_fields inp) = Inr (cd_fields d)"
  unfolding check_details_def Let_def passed by auto

text \<open>The protected fields a form gives, as they are kept.\<close>

definition given_fields :: "credential_input \<Rightarrow> (string \<times> string) list" where
  "given_fields inp = map (\<lambda>f. (trim (fn_name f), the (fn_value f))) (filter fn_protected (ci_fields inp))"

lemma check_fields_given:
  assumes "check_fields fs = Inr ch" "ch_kept ch = []"
  shows "ch_sealed ch = map (\<lambda>f. (trim (fn_name f), the (fn_value f))) (filter fn_protected fs)
    \<and> map fi_name (filter fi_protected (ch_stored ch)) = map fst (ch_sealed ch)
    \<and> (\<forall>f \<in> set fs. fn_protected f \<longrightarrow> fn_value f \<noteq> None)"
proof -
  have l: "check_fields_loop \<lparr>ch_stored = [], ch_sealed = [], ch_kept = []\<rparr> fs = Inr ch" using assms(1) by (simp add: check_fields_def passed)
  have all: "\<forall>f \<in> set fs. fn_protected f \<longrightarrow> fn_value f \<noteq> None"
    using check_fields_loop_result [OF l] assms(2) by (auto simp: filter_empty_conv)
  then have "concat (map (\<lambda>f. case fn_value f of Some v \<Rightarrow> if fn_protected f then [(trim (fn_name f), v)] else [] | None \<Rightarrow> []) fs)
      = map (\<lambda>f. (trim (fn_name f), the (fn_value f))) (filter fn_protected fs)"
    by (induction fs) (auto split: option.splits)
  then show ?thesis using check_fields_loop_result [OF l] all by (simp add: comp_def)
qed

lemma stored_text_loaded:
  "hub_load sv h owner version fld = Inr (Some (as_bytes t)) \<Longrightarrow> from_utf8 t = Some t \<Longrightarrow> stored_text sv h owner version fld = Inr (Some t)"
  by (simp add: stored_text_def bytes_text_as_bytes)

lemma reveal_fields_loaded:
  assumes "\<forall>(n, v) \<in> set fs. hub_load sv h i version (secret_name n) = Inr (Some (as_bytes v)) \<and> from_utf8 v = Some v"
  shows "reveal_fields sv h i version (map fst fs) = Inr fs"
  using assms by (induction fs) (auto simp: stored_text_loaded)

text \<open>
  C21: What is stored in the vault is what is shown. After an entry was made, whoever may reveal it and has confirmed who they are gets
  an answer with its user name, exactly the password that was given, and every protected field of the form under its name with its value, in
  their order; the texts are Rust strings, valid UTF-8.
\<close>

theorem created_then_revealed:
  assumes "create_credential sv sk date rnd h s addr now i inp = Inr (h1, j)" and "server_ok sv" and "\<And>f. randomness_ok (rnd f)"
    and "in_password (ci_secrets inp) = Some p" "from_utf8 p = Some p"
    and "\<forall>f \<in> set (ci_fields inp). \<forall>v. fn_value f = Some v \<longrightarrow> from_utf8 v = Some v"
    and "authorize (load_catalog h1 now1) (session_subject s1) Reveal (Credential j)" and "s_confirmed s1"
  shows "\<exists>h2 x. reveal_credential sv h1 s1 addr1 now1 j ''show'' None = Inr (h2, x) \<and> rv_password x = Some p
    \<and> rv_fields x = given_fields inp \<and> plain_text (ci_username inp) ''username'' = Inr (rv_username x)"
proof -
  from assms(1) obtain n user given d t totp row k l m e where user: "plain_text (ci_username inp) ''username'' = Inr user"
    and given: "new_secrets sk ''password'' (ci_secrets inp) = Inr given" and d: "check_details date inp = Inr d" and kept: "ch_kept (cd_fields d) = []"
    and row: "row = \<lparr>cr_collection = ci_collection inp, cr_name = n, cr_username = user, cr_version = 1, cr_url = cd_url d, cr_notes = cd_notes d,
           cr_icon = cd_icon d, cr_fields = ch_stored (cd_fields d), cr_tags = cd_tags d, cr_expires_on = cd_expires_on d,
           cr_has_totp = (totp \<noteq> None), cr_deleted = None\<rparr>"
    and k: "seal_version sv rnd i 1 given (h\<lparr>hb_credentials := hm_insert i row (hb_credentials h)\<rparr>) = Inr k"
    and l: "hub_store_all sv rnd i 1 (sealed_fields (cd_fields d)) k = Inr l"
    and m: "hub_store_all sv rnd i 1 (totp_fields totp) l = Inr m" and h1: "hub_audit m e = h1" and j: "i = j"
    unfolding create_credential_def Let_def passed by (elim exE conjE) (rule that, (assumption | rule refl)+)
  have g: "given = Some (PasswordSecret p)" using given assms(4) by (auto simp: new_secrets_def)
  note loads_k = seal_version_loads [OF k assms(2,3)] and loads_l = hub_store_all_loads [OF l assms(2,3)] and loads_m = hub_store_all_loads [OF m assms(2,3)]
  have keep: "loads_kept sv k h1" "loads_kept sv l h1" using loads_l loads_m loads_kept_trans [of sv k l m] by (simp_all add: h1 [symmetric] loads_kept_def)
  have pw: "stored_text sv h1 i 1 PASSWORD_FIELD = Inr (Some p)"
    using loads_k g loads_keptD [OF keep(1)] assms(5) by (intro stored_text_loaded) auto
  note cf = check_fields_given [OF check_details_fields [OF d] kept]
  have sealed: "ch_sealed (cd_fields d) = given_fields inp" using cf by (simp add: given_fields_def)
  have "\<forall>(f, v) \<in> set (given_fields inp). hub_load sv h1 i 1 (secret_name f) = Inr (Some (as_bytes v)) \<and> from_utf8 v = Some v"
  proof (intro ballI, unfold split_paired_all prod.case)
    fix f v
    assume fv: "(f, v) \<in> set (given_fields inp)"
    then have "(secret_name f, as_bytes v) \<in> set (sealed_fields (cd_fields d))" by (auto simp: sealed_fields_def sealed)
    then have "hub_load sv l i 1 (secret_name f) = Inr (Some (as_bytes v))" using loads_l by blast
    moreover have "from_utf8 v = Some v" using fv cf assms(6) by (auto simp: given_fields_def)
    ultimately show "hub_load sv h1 i 1 (secret_name f) = Inr (Some (as_bytes v)) \<and> from_utf8 v = Some v" using loads_keptD [OF keep(2)] by blast
  qed
  then have fs: "reveal_fields sv h1 i 1 (map fst (given_fields inp)) = Inr (given_fields inp)" by (rule reveal_fields_loaded)
  have "hb_credentials m = hm_insert i row (hb_credentials h)"
    using hub_store_all_db [OF m] hub_store_all_db [OF l] seal_version_db [OF k] by auto
  then have cred: "hm_get (hb_credentials h1) i = Some row" by (auto simp: h1 [symmetric] hub_audit_def hm.get_put)
  have names: "map fi_name (filter fi_protected (cr_fields row)) = map fst (given_fields inp)" using cf by (simp add: row sealed)
  have v: "cr_version row = 1" "cr_username row = user" by (simp_all add: row)
  have may: "require (load_catalog h1 now1) (session_subject s1) Reveal (Credential i) = Inr ()" using assms(7) j by (simp add: requireI)
  show ?thesis
    using assms(8) user unfolding j [symmetric]
    by (simp add: reveal_credential_def reveal_purpose_def may cred v names fs reveal_open_def pw ensure_def require_confirmation_def)
qed

section \<open>A small instance\<close>

lemma owner_may:
  assumes "tables_ok h" "hub_has h x"
  shows "authorize (load_catalog h now) (session_subject sample_owner) needed x"
proof -
  have "contains (catalog_new (hub_objects h) gs t) x" for gs t using assms by (subst contains_tables) simp_all
  then show ?thesis unfolding load_catalog_def authorize_new by (simp add: session_subject_def is_admin_def sample_owner_def)
qed

lemma from_utf8_ascii: "ascii t \<Longrightarrow> from_utf8 t = Some t"
  unfolding from_utf8_iff
  by (rule conjI [OF refl], rule exI [of _ "map of_char t"]) (auto simp: from_chars_ascii list_all_iff ascii_def scalar_def)

lemma old_text: "from_utf8 ''old'' = Some ''old''" "from_utf8 ''new'' = Some ''new''"
  by (rule from_utf8_ascii; simp add: ascii_def)+

lemma owner_confirmed: "s_confirmed sample_owner"
  by (simp add: sample_owner_def)

theorem reveal_guarded_witness:
  "\<exists>h' x. reveal_handle sample_server sample_vault sample_owner ''10.0.0.1'' 0 ''show'' (AskCredential 6 None) = Inr (h', Inl x)
    \<and> rv_password x = Some ''old'' \<and> (\<exists>a. h' = hub_audit sample_vault a \<and> reveal_entry sample_owner (Credential 6) ''show'' a)"
proof -
  have t: "tables_ok sample_vault" by (simp add: tables_ok_def hm_ok_def sample_vault_def)
  have may: "require (load_catalog sample_vault 0) (session_subject sample_owner) Reveal (Credential 6) = Inr ()"
    by (rule requireI [OF owner_may [OF t]]) (simp add: hub_has.simps sample_vault_def)
  have get: "hm_get (hb_credentials sample_vault) 6 = Some sample_entry" by (simp add: sample_vault_def)
  have pw: "stored_text sample_server sample_vault 6 1 PASSWORD_FIELD = Inr (Some ''old'')"
    by (rule stored_text_loaded [OF sample_vault_load old_text(1)])
  have entry: "cr_version sample_entry = 1" "cr_fields sample_entry = []" "cr_username sample_entry = []" by (simp_all add: sample_entry_def)
  have "\<exists>h' x. reveal_handle sample_server sample_vault sample_owner ''10.0.0.1'' 0 ''show'' (AskCredential 6 None) = Inr (h', Inl x) \<and> rv_password x = Some ''old''"
    by (simp add: reveal_credential_def reveal_purpose_def may get entry pw reveal_open_def ensure_def require_confirmation_def owner_confirmed)
  then obtain h' x where r: "reveal_handle sample_server sample_vault sample_owner ''10.0.0.1'' 0 ''show'' (AskCredential 6 None) = Inr (h', Inl x)"
    "rv_password x = Some ''old''" by blast
  from reveal_guarded [OF r(1)] r show ?thesis by auto
qed

definition sample_empty :: hub where
  "sample_empty = sample_vault\<lparr>hb_credentials := [], hb_db := empty_db\<rparr>"

lemma sample_created:
  "\<exists>x e. create_credential sample_server sample_ssh (\<lambda>_ _ _. True) (\<lambda>_. sample_seal_randomness) sample_empty sample_owner ''10.0.0.1'' 0 6 sample_edit
     = Inr (hub_audit (sample_empty\<lparr>hb_credentials := [(6, sample_entry)], hb_db := x\<rparr>) e, 6)"
proof -
  have t: "tables_ok sample_empty" by (simp add: tables_ok_def hm_ok_def sample_empty_def sample_vault_def)
  have may: "require (load_catalog sample_empty 0) (session_subject sample_owner) Edit (Collection 8) = Inr ()"
    by (rule requireI [OF owner_may [OF t]]) (simp add: hub_has.simps sample_empty_def sample_vault_def)
  obtain st where "store sample_aead sample_keyring sample_seal_randomness [] 6 1 PASSWORD_FIELD (as_bytes ''new'') = Inr st"
    using sample_store [of 1 6 PASSWORD_FIELD "as_bytes ''new''"] by auto
  then have seal: "\<exists>x. seal_version sample_server (\<lambda>_. sample_seal_randomness) 6 1 (Some (PasswordSecret ''new'')) (sample_empty\<lparr>hb_credentials := rows\<rparr>)
      = Inr (sample_empty\<lparr>hb_credentials := rows, hb_db := x\<rparr>)" for rows
    by (simp add: seal_version_def hub_store_def sample_server_def sample_empty_def empty_db_def) blast
  have fields: "ci_name sample_edit = ''site''" "ci_username sample_edit = []" "ci_collection sample_edit = 8" "ci_totp sample_edit = None"
    "ci_secrets sample_edit = \<lparr>in_password = Some ''new'', in_private_key = None, in_passphrase = None, in_certificate = None\<rparr>"
    by (simp_all add: sample_edit_def)
  have none: "hb_credentials sample_empty = []" by (simp add: sample_empty_def)
  obtain x where x: "seal_version sample_server (\<lambda>_. sample_seal_randomness) 6 1 (Some (PasswordSecret ''new'')) (sample_empty\<lparr>hb_credentials := [(6, sample_entry)]\<rparr>)
      = Inr (sample_empty\<lparr>hb_credentials := [(6, sample_entry)], hb_db := x\<rparr>)" using seal by blast
  then show ?thesis
    unfolding create_credential_def fields sample_site and_then_simps Let_def may sample_details
    by (simp add: new_secrets_def totp_input_def fields sample_details_def ensure_def credential_taken_def none
        sealed_fields_def totp_fields_def sample_entry_def) blast
qed

theorem created_then_revealed_witness:
  "\<exists>h1 h2 x. create_credential sample_server sample_ssh (\<lambda>_ _ _. True) (\<lambda>_. sample_seal_randomness) sample_empty sample_owner ''10.0.0.1'' 0 6 sample_edit
      = Inr (h1, 6)
    \<and> reveal_credential sample_server h1 sample_owner ''10.0.0.1'' 0 6 ''show'' None = Inr (h2, x) \<and> rv_password x = Some ''new''"
proof -
  obtain y e where c: "create_credential sample_server sample_ssh (\<lambda>_ _ _. True) (\<lambda>_. sample_seal_randomness) sample_empty sample_owner ''10.0.0.1'' 0 6 sample_edit
     = Inr (hub_audit (sample_empty\<lparr>hb_credentials := [(6, sample_entry)], hb_db := y\<rparr>) e, 6)" using sample_created by blast
  let ?h1 = "hub_audit (sample_empty\<lparr>hb_credentials := [(6, sample_entry)], hb_db := y\<rparr>) e"
  have t: "tables_ok ?h1" by (simp add: tables_ok_def hm_ok_def sample_empty_def sample_vault_def hub_audit_def)
  have "authorize (load_catalog ?h1 0) (session_subject sample_owner) Reveal (Credential 6)"
    by (rule owner_may [OF t]) (simp add: hub_has.simps hub_audit_def)
  from created_then_revealed [OF c sample_server_ok sample_keyring_ok(3) _ _ _ this, of "''new''" "''10.0.0.1''"] c show ?thesis
    by (auto simp: sample_edit_def old_text owner_confirmed)
qed

end
