(* ===== verification/Personal.thy ===== *)
theory Personal
  imports Hub
begin

text \<open>
  The personal vault, \<^verbatim>\<open>crates/server/src/api/personal.rs\<close>, and its recovery with the organisation's key,
  \<^verbatim>\<open>crates/server/src/api/recovery.rs\<close>. The browser encrypts; the server keeps ciphertext and wrapped keys.
  The readers of UUIDs (of the \<open>uuid\<close> crate, and PostgreSQL's cast) and of base64, the length of a JSON text and the check of a point on the curve are parameters.
\<close>

section \<open>The tables\<close>

record unlock_row =
  un_user :: uuid
  un_kind :: string
  un_params :: json
  un_wrapped :: bytes
  un_label :: string
  un_created :: instant

record sealed_row =
  sl_user :: uuid
  sl_nonce :: bytes
  sl_ciphertext :: bytes
  sl_created :: instant

record recovery_key_row =
  ky_public :: bytes
  ky_by :: string
  ky_created :: instant

record recovery_row =
  rc_user :: uuid
  rc_kind :: string
  rc_reason :: string
  rc_requester :: uuid
  rc_requester_name :: string
  rc_approver :: "string option"
  rc_approved :: "instant option"
  rc_completed :: "instant option"
  rc_created :: instant

record vaults =
  pv_db :: database
  pv_unlocks :: "(uuid, unlock_row) hashmap"
  pv_entries :: "(uuid, sealed_row) hashmap"
  pv_files :: "(uuid, sealed_row) hashmap"
  pv_search :: "(uuid, bytes \<times> bytes) hashmap"
  pv_keys :: "(uuid, recovery_key_row) hashmap"
  pv_recoveries :: "(uuid, recovery_row) hashmap"

record vault_env =
  ve_uuid :: "string \<Rightarrow> uuid option"
  ve_pg_uuid :: "string \<Rightarrow> uuid option"
  ve_b64 :: "string \<Rightarrow> bytes option"
  ve_json_length :: "json \<Rightarrow> nat"
  ve_point :: "bytes \<Rightarrow> bool"

definition SCHEME :: string where "SCHEME = ''e2e_user_v1''"

definition vaults_audit :: "vaults \<Rightarrow> audit_entry \<Rightarrow> vaults" where
  "vaults_audit pv e = pv\<lparr>pv_db := audit_record (pv_db pv) e\<rparr>"

definition personal_entry :: "session \<Rightarrow> string \<Rightarrow> (string \<times> json) list \<Rightarrow> string \<Rightarrow> audit_entry" where
  "personal_entry s action details addr =
     \<lparr>au_actor = Some (s_user s), au_name = s_username s, au_action = action, au_object = Some (''user'', s_user s), au_details = JObject details,
      au_address = Some addr\<rparr>"

section \<open>The owner's requests\<close>

text \<open>\<open>ORDER BY created_at DESC, id LIMIT 1\<close>.\<close>

definition organisation_key :: "vaults \<Rightarrow> (uuid \<times> recovery_key_row) option" where
  "organisation_key pv =
     (case sort_key (\<lambda>(i, k). (- ky_created k, i)) (pv_keys pv) of [] \<Rightarrow> None | k # _ \<Rightarrow> Some k)"

record personal_vault =
  vt_scheme :: string
  vt_unlocks :: "(uuid \<times> unlock_row) list"
  vt_entries :: "(uuid \<times> sealed_row) list"
  vt_search :: "(bytes \<times> bytes) option"
  vt_organisation_key :: "(uuid \<times> bytes) option"

definition entries_of :: "vaults \<Rightarrow> uuid \<Rightarrow> (uuid \<times> sealed_row) list" where
  "entries_of pv u = sort_key (\<lambda>(_, r). sl_created r) (filter (\<lambda>(_, r). sl_user r = u) (pv_entries pv))"

definition load_vault :: "vaults \<Rightarrow> uuid \<Rightarrow> personal_vault" where
  "load_vault pv u =
     \<lparr>vt_scheme = SCHEME, vt_unlocks = sort_key (\<lambda>(_, r). un_created r) (filter (\<lambda>(_, r). un_user r = u) (pv_unlocks pv)),
      vt_entries = entries_of pv u, vt_search = hm_get (pv_search pv) u,
      vt_organisation_key = map_option (\<lambda>(i, k). (i, ky_public k)) (organisation_key pv)\<rparr>"

text \<open>\<open>params["name"].as_str()\<close>.\<close>

definition json_text_at :: "json \<Rightarrow> string \<Rightarrow> string option" where
  "json_text_at j n = (case j of JObject fs \<Rightarrow> (case map_of fs n of Some (JText t) \<Rightarrow> Some t | _ \<Rightarrow> None) | _ \<Rightarrow> None)"

record new_unlock =
  nu_kind :: string
  nu_params :: json
  nu_wrapped :: bytes
  nu_label :: string

definition wrap_fits :: "vault_env \<Rightarrow> vaults \<Rightarrow> json \<Rightarrow> bool" where
  "wrap_fits ve pv params \<longleftrightarrow>
     organisation_key pv \<noteq> None
     \<and> Option.bind (json_text_at params ''key_id'') (ve_uuid ve) = map_option fst (organisation_key pv)
     \<and> (case Option.bind (json_text_at params ''ephemeral'') (ve_b64 ve) of Some p \<Rightarrow> length p = 65 | None \<Rightarrow> False)"

text \<open>\<open>DELETE FROM personal_vault_unlocks WHERE user_id = ... AND kind = ...\<close>.\<close>

definition drop_kind :: "(uuid, unlock_row) hashmap \<Rightarrow> uuid \<Rightarrow> string \<Rightarrow> (uuid, unlock_row) hashmap" where
  "drop_kind m u kind = filter (\<lambda>(_, r). \<not> (un_user r = u \<and> un_kind r = kind)) m"

text \<open>The row to be made has a new identifier; a second row of one kind but \<open>passkey\<close> is refused by the table.\<close>

definition add_unlock :: "vault_env \<Rightarrow> vaults \<Rightarrow> session \<Rightarrow> string \<Rightarrow> instant \<Rightarrow> uuid \<Rightarrow> new_unlock \<Rightarrow> problem + vaults" where
  "add_unlock ve pv s addr now i inp =
     and_then (ensure (nu_kind inp \<in> {''passkey'', ''passphrase'', ''recovery'', ''organisation''}) (invalid ''kind'')) (\<lambda>_.
     and_then (ensure (case nu_params inp of JObject _ \<Rightarrow> ve_json_length ve (nu_params inp) \<le> 2048 | _ \<Rightarrow> False) (invalid ''params'')) (\<lambda>_.
     and_then (ensure (16 \<le> length (nu_wrapped inp) \<and> length (nu_wrapped inp) \<le> 256) (invalid ''wrapped_key'')) (\<lambda>_.
     (let label = trim (nu_label inp) in
     and_then (ensure (length (chars label) \<le> 100) (invalid ''label'')) (\<lambda>_.
     and_then (ensure (nu_kind inp = ''organisation'' \<longrightarrow> wrap_fits ve pv (nu_params inp)) (invalid ''params'')) (\<lambda>_.
     (let unlocks = (if nu_kind inp \<noteq> ''passkey'' then drop_kind (pv_unlocks pv) (s_user s) (nu_kind inp)
            else pv_unlocks pv) in
     and_then (ensure (hm_get unlocks i = None) (problem Internal)) (\<lambda>_.
       Inr (vaults_audit (pv\<lparr>pv_unlocks := hm_insert i \<lparr>un_user = s_user s, un_kind = nu_kind inp, un_params = nu_params inp,
               un_wrapped = nu_wrapped inp, un_label = label, un_created = now\<rparr> unlocks\<rparr>)
             (personal_entry s ''personal.unlock_added'' [(''unlock_id'', JText (uuid_show i)), (''kind'', JText (nu_kind inp))] addr))))))))))"

definition remove_unlock :: "vaults \<Rightarrow> session \<Rightarrow> string \<Rightarrow> uuid \<Rightarrow> problem + vaults" where
  "remove_unlock pv s addr i =
     (let mine = filter (\<lambda>(_, r). un_user r = s_user s) (pv_unlocks pv) in
     and_then (case hm_get mine i of Some r \<Rightarrow> Inr (un_kind r) | None \<Rightarrow> Inl (problem NotFound)) (\<lambda>kind.
     and_then (ensure (kind \<noteq> ''organisation'') (problem Forbidden)) (\<lambda>_.
     and_then (ensure (length (filter (\<lambda>(_, r). un_kind r \<noteq> ''organisation'') mine) \<noteq> 1) (problem LastUnlock)) (\<lambda>_.
       Inr (vaults_audit (pv\<lparr>pv_unlocks := hm_remove i (pv_unlocks pv)\<rparr>)
             (personal_entry s ''personal.unlock_removed'' [(''unlock_id'', JText (uuid_show i)), (''kind'', JText kind)] addr))))))"

text \<open>\<open>INSERT ... ON CONFLICT (id) DO UPDATE ... WHERE user_id\<close> is the caller's: none if the row is someone else's.\<close>

definition upsert_sealed ::
  "(uuid, sealed_row) hashmap \<Rightarrow> uuid \<Rightarrow> uuid \<Rightarrow> bytes \<Rightarrow> bytes \<Rightarrow> instant \<Rightarrow> (uuid, sealed_row) hashmap option" where
  "upsert_sealed m u i nonce ciphertext now =
     (case hm_get m i of
        None \<Rightarrow> Some (hm_insert i \<lparr>sl_user = u, sl_nonce = nonce, sl_ciphertext = ciphertext, sl_created = now\<rparr> m)
      | Some r \<Rightarrow> if sl_user r = u then Some (hm_insert i (r\<lparr>sl_nonce := nonce, sl_ciphertext := ciphertext\<rparr>) m) else None)"

definition save_entry :: "vaults \<Rightarrow> session \<Rightarrow> string \<Rightarrow> instant \<Rightarrow> uuid \<Rightarrow> bytes \<Rightarrow> bytes \<Rightarrow> problem + vaults" where
  "save_entry pv s addr now i nonce ciphertext =
     and_then (ensure (length nonce = 12) (invalid ''nonce'')) (\<lambda>_.
     and_then (ensure (16 \<le> length ciphertext \<and> length ciphertext \<le> 65536) (invalid ''ciphertext'')) (\<lambda>_.
     and_then (ensure (list_ex (\<lambda>(_, r). un_user r = s_user s) (pv_unlocks pv)) (invalid ''vault'')) (\<lambda>_.
     and_then (case upsert_sealed (pv_entries pv) (s_user s) i nonce ciphertext now of Some m \<Rightarrow> Inr m | None \<Rightarrow> Inl (problem NotFound)) (\<lambda>m.
       Inr (vaults_audit (pv\<lparr>pv_entries := m\<rparr>) (personal_entry s ''personal.entry_saved'' [(''entry_id'', JText (uuid_show i))] addr))))))"

definition owned :: "(uuid, sealed_row) hashmap \<Rightarrow> uuid \<Rightarrow> uuid \<Rightarrow> problem + sealed_row" where
  "owned m u i = (case hm_get m i of Some r \<Rightarrow> if sl_user r = u then Inr r else Inl (problem NotFound) | None \<Rightarrow> Inl (problem NotFound))"

definition delete_entry :: "vaults \<Rightarrow> session \<Rightarrow> string \<Rightarrow> uuid \<Rightarrow> problem + vaults" where
  "delete_entry pv s addr i =
     and_then (owned (pv_entries pv) (s_user s) i) (\<lambda>_.
       Inr (vaults_audit (pv\<lparr>pv_entries := hm_remove i (pv_entries pv)\<rparr>)
             (personal_entry s ''personal.entry_deleted'' [(''entry_id'', JText (uuid_show i))] addr)))"

definition save_file :: "vaults \<Rightarrow> session \<Rightarrow> string \<Rightarrow> instant \<Rightarrow> uuid \<Rightarrow> bytes \<Rightarrow> bytes \<Rightarrow> problem + vaults" where
  "save_file pv s addr now i nonce ciphertext =
     and_then (ensure (length nonce = 12) (invalid ''nonce'')) (\<lambda>_.
     and_then (ensure (16 \<le> length ciphertext \<and> length ciphertext \<le> 5 * 1024 * 1024 + 16) (invalid ''ciphertext'')) (\<lambda>_.
     and_then (case upsert_sealed (pv_files pv) (s_user s) i nonce ciphertext now of Some m \<Rightarrow> Inr m | None \<Rightarrow> Inl (problem NotFound)) (\<lambda>m.
       Inr (vaults_audit (pv\<lparr>pv_files := m\<rparr>)
             (personal_entry s ''personal.attachment_saved''
               [(''attachment_id'', JText (uuid_show i)), (''size'', JNumber (int (length ciphertext) - 16))] addr)))))"

definition read_file :: "vaults \<Rightarrow> session \<Rightarrow> uuid \<Rightarrow> problem + sealed_row" where
  "read_file pv s i = owned (pv_files pv) (s_user s) i"

definition delete_file :: "vaults \<Rightarrow> session \<Rightarrow> string \<Rightarrow> uuid \<Rightarrow> problem + vaults" where
  "delete_file pv s addr i =
     and_then (owned (pv_files pv) (s_user s) i) (\<lambda>_.
       Inr (vaults_audit (pv\<lparr>pv_files := hm_remove i (pv_files pv)\<rparr>)
             (personal_entry s ''personal.attachment_deleted'' [(''attachment_id'', JText (uuid_show i))] addr)))"

definition save_search :: "vaults \<Rightarrow> session \<Rightarrow> bytes \<Rightarrow> bytes \<Rightarrow> problem + vaults" where
  "save_search pv s nonce ciphertext =
     and_then (ensure (length nonce = 12) (invalid ''nonce'')) (\<lambda>_.
     and_then (ensure (16 \<le> length ciphertext \<and> length ciphertext \<le> 65536) (invalid ''ciphertext'')) (\<lambda>_.
       Inr (pv\<lparr>pv_search := hm_insert (s_user s) (nonce, ciphertext) (pv_search pv)\<rparr>)))"

definition reset_vault :: "vaults \<Rightarrow> session \<Rightarrow> string \<Rightarrow> problem + vaults" where
  "reset_vault pv s addr =
     (let gone = length (filter (\<lambda>(_, r). sl_user r = s_user s) (pv_entries pv)) in
      Inr (vaults_audit (pv\<lparr>pv_entries := filter (\<lambda>(_, r). sl_user r \<noteq> s_user s) (pv_entries pv),
              pv_search := hm_remove (s_user s) (pv_search pv),
              pv_files := filter (\<lambda>(_, r). sl_user r \<noteq> s_user s) (pv_files pv),
              pv_unlocks := filter (\<lambda>(_, r). un_user r \<noteq> s_user s) (pv_unlocks pv)\<rparr>)
            (personal_entry s ''personal.vault_reset'' [(''entries'', JNumber (int gone))] addr)))"

section \<open>The organisation's key\<close>

definition recovery_entry :: "session \<Rightarrow> string \<Rightarrow> uuid option \<Rightarrow> (string \<times> json) list \<Rightarrow> string \<Rightarrow> audit_entry" where
  "recovery_entry s action user details addr =
     \<lparr>au_actor = Some (s_user s), au_name = s_username s, au_action = action, au_object = map_option (\<lambda>u. (''user'', u)) user,
      au_details = JObject details, au_address = Some addr\<rparr>"

definition require_admin :: "session \<Rightarrow> problem + unit" where
  "require_admin s = ensure (is_admin s) (problem Forbidden)"

definition names_key :: "uuid \<Rightarrow> unlock_row \<Rightarrow> bool" where
  "names_key k r \<longleftrightarrow> un_kind r = ''organisation'' \<and> json_text_at (un_params r) ''key_id'' = Some (uuid_show k)"

text \<open>The keys, newest first, with the vaults wrapped for them; and every user with a vault, with the key theirs is wrapped for.\<close>

definition covered_by :: "vault_env \<Rightarrow> vaults \<Rightarrow> uuid \<Rightarrow> problem + uuid option" where
  "covered_by ve pv u =
     (case filter (\<lambda>(_, r). un_user r = u \<and> un_kind r = ''organisation'') (pv_unlocks pv) of
        [] \<Rightarrow> Inr None
      | [(_, r)] \<Rightarrow>
          (case json_text_at (un_params r) ''key_id'' of
             None \<Rightarrow> Inr None
           | Some t \<Rightarrow> (case ve_pg_uuid ve t of Some k \<Rightarrow> Inr (Some k) | None \<Rightarrow> Inl (problem Internal)))
      | _ \<Rightarrow> Inl (problem Internal))"

fun covered_all :: "vault_env \<Rightarrow> vaults \<Rightarrow> uuid list \<Rightarrow> problem + (uuid \<times> uuid option) list" where
  "covered_all ve pv [] = Inr []"
| "covered_all ve pv (u # us) = and_then (covered_by ve pv u) (\<lambda>k. and_then (covered_all ve pv us) (\<lambda>ks. Inr ((u, k) # ks)))"

definition list_keys ::
  "vault_env \<Rightarrow> (string \<Rightarrow> string) \<Rightarrow> vaults \<Rightarrow> session \<Rightarrow> problem + (uuid \<times> recovery_key_row \<times> nat) list \<times> (uuid \<times> uuid option) list" where
  "list_keys ve lower pv s =
     and_then (require_admin s) (\<lambda>_.
     (let ks = map (\<lambda>(i, k). (i, k, length (filter (\<lambda>(_, r). names_key i r) (pv_unlocks pv)))) (sort_key (\<lambda>(i, k). (- ky_created k, i)) (pv_keys pv));
          users = sort_key (\<lambda>(u, r). (lower (ur_display_name r), u))
            (filter (\<lambda>(u, _). list_ex (\<lambda>(_, r). un_user r = u) (pv_unlocks pv)) (db_users (pv_db pv))) in
     and_then (covered_all ve pv (map fst users)) (\<lambda>covered. Inr (ks, covered))))"

text \<open>Keeping the master key for the new key afterwards is \<open>escrow::keep\<close>, which works on a table of its own.\<close>

definition create_key :: "vault_env \<Rightarrow> vaults \<Rightarrow> session \<Rightarrow> string \<Rightarrow> instant \<Rightarrow> uuid \<Rightarrow> bytes \<Rightarrow> problem + vaults" where
  "create_key ve pv s addr now i public_key =
     and_then (require_admin s) (\<lambda>_.
     and_then (ensure (ve_point ve public_key) (invalid ''public_key'')) (\<lambda>_.
     and_then (ensure (hm_get (pv_keys pv) i = None) (problem Internal)) (\<lambda>_.
       Inr (vaults_audit (pv\<lparr>pv_keys := hm_insert i \<lparr>ky_public = public_key, ky_by = s_username s, ky_created = now\<rparr> (pv_keys pv)\<rparr>)
             (recovery_entry s ''recovery_key.created'' None [(''key_id'', JText (uuid_show i))] addr)))))"

definition delete_key :: "vaults \<Rightarrow> session \<Rightarrow> string \<Rightarrow> uuid \<Rightarrow> problem + vaults" where
  "delete_key pv s addr i =
     and_then (require_admin s) (\<lambda>_.
     and_then (case organisation_key pv of Some (newest, _) \<Rightarrow> Inr newest | None \<Rightarrow> Inl (problem NotFound)) (\<lambda>newest.
     and_then (ensure (\<not> (list_ex (\<lambda>(_, r). names_key i r) (pv_unlocks pv) \<or> newest = i)) (problem RecoveryKeyInUse)) (\<lambda>_.
     and_then (ensure (hm_get (pv_keys pv) i \<noteq> None) (problem NotFound)) (\<lambda>_.
       Inr (vaults_audit (pv\<lparr>pv_keys := hm_remove i (pv_keys pv)\<rparr>)
             (recovery_entry s ''recovery_key.deleted'' None [(''key_id'', JText (uuid_show i))] addr))))))"

section \<open>Recoveries\<close>

definition day :: instant where
  "day = 24 * 60 * minute"

definition recovery_status :: "instant \<Rightarrow> recovery_row \<Rightarrow> string" where
  "recovery_status now r =
     (if rc_completed r \<noteq> None then ''completed''
      else case rc_approved r of
        None \<Rightarrow> ''pending''
      | Some t \<Rightarrow> if t > now - day then ''approved'' else ''expired'')"

text \<open>A recovery whose user exists.\<close>

definition find_recovery :: "vaults \<Rightarrow> uuid \<Rightarrow> problem + recovery_row" where
  "find_recovery pv i =
     (case hm_get (pv_recoveries pv) i of
        Some r \<Rightarrow> if hm_get (db_users (pv_db pv)) (rc_user r) = None then Inl (problem NotFound) else Inr r
      | None \<Rightarrow> Inl (problem NotFound))"

definition list_recoveries :: "vaults \<Rightarrow> session \<Rightarrow> instant \<Rightarrow> problem + (uuid \<times> recovery_row \<times> string \<times> bool) list" where
  "list_recoveries pv s now =
     and_then (ensure (is_admin s \<or> has_role s SecurityOfficer) (problem Forbidden)) (\<lambda>_.
       Inr (map (\<lambda>(i, r). (i, r, recovery_status now r, rc_requester r = s_user s))
         (take 200 (sort_key (\<lambda>(_, r). - rc_created r)
           (filter (\<lambda>(_, r). hm_get (db_users (pv_db pv)) (rc_user r) \<noteq> None) (pv_recoveries pv))))))"

definition create_recovery ::
  "vaults \<Rightarrow> session \<Rightarrow> string \<Rightarrow> instant \<Rightarrow> uuid \<Rightarrow> uuid \<Rightarrow> string \<Rightarrow> string \<Rightarrow> problem + vaults" where
  "create_recovery pv s addr now i user kind why =
     and_then (require_admin s) (\<lambda>_.
     and_then (ensure (kind \<in> {''passphrase'', ''handover''}) (invalid ''kind'')) (\<lambda>_.
     (let why = trim why in
     and_then (ensure (\<not> (why = [] \<or> length (chars why) > 500)) (invalid ''reason'')) (\<lambda>_.
     and_then (ensure (list_ex (\<lambda>(_, r). un_user r = user \<and> un_kind r = ''organisation'') (pv_unlocks pv)) (problem VaultNotCovered)) (\<lambda>_.
     and_then (ensure (hm_get (pv_recoveries pv) i = None
         \<and> \<not> list_ex (\<lambda>(_, r). rc_user r = user \<and> rc_completed r = None) (pv_recoveries pv)) (problem RecoveryOpen)) (\<lambda>_.
       Inr (vaults_audit (pv\<lparr>pv_recoveries := hm_insert i \<lparr>rc_user = user, rc_kind = kind, rc_reason = why, rc_requester = s_user s,
               rc_requester_name = s_username s, rc_approver = None, rc_approved = None, rc_completed = None, rc_created = now\<rparr> (pv_recoveries pv)\<rparr>)
             (recovery_entry s ''vault_recovery.requested'' (Some user)
               [(''recovery_id'', JText (uuid_show i)), (''kind'', JText kind), (''reason'', JText why)] addr))))))))"

definition approve_recovery :: "vaults \<Rightarrow> session \<Rightarrow> string \<Rightarrow> instant \<Rightarrow> uuid \<Rightarrow> problem + vaults" where
  "approve_recovery pv s addr now i =
     and_then (ensure (has_role s SecurityOfficer) (problem Forbidden)) (\<lambda>_.
     and_then (find_recovery pv i) (\<lambda>found.
     and_then (ensure (rc_requester found \<noteq> s_user s) (problem OwnRequest)) (\<lambda>_.
     and_then (ensure (rc_approved found = None \<and> rc_completed found = None) (problem RequestDecided)) (\<lambda>_.
       Inr (vaults_audit (pv\<lparr>pv_recoveries := hm_insert i (found\<lparr>rc_approver := Some (s_username s), rc_approved := Some now\<rparr>) (pv_recoveries pv)\<rparr>)
             (recovery_entry s ''vault_recovery.approved'' (Some (rc_user found)) [(''recovery_id'', JText (uuid_show i))] addr))))))"

definition cancel_recovery :: "vaults \<Rightarrow> session \<Rightarrow> string \<Rightarrow> uuid \<Rightarrow> problem + vaults" where
  "cancel_recovery pv s addr i =
     and_then (require_admin s) (\<lambda>_.
     and_then (case hm_get (pv_recoveries pv) i of
         Some r \<Rightarrow> if rc_completed r = None then Inr (rc_user r) else Inl (problem NotFound)
       | None \<Rightarrow> Inl (problem NotFound)) (\<lambda>user.
       Inr (vaults_audit (pv\<lparr>pv_recoveries := hm_remove i (pv_recoveries pv)\<rparr>)
             (recovery_entry s ''vault_recovery.cancelled'' (Some user) [(''recovery_id'', JText (uuid_show i))] addr))))"

definition ready_recovery :: "vaults \<Rightarrow> session \<Rightarrow> instant \<Rightarrow> uuid \<Rightarrow> problem + recovery_row" where
  "ready_recovery pv s now i =
     and_then (require_admin s) (\<lambda>_.
     and_then (find_recovery pv i) (\<lambda>found.
     and_then (ensure (rc_requester found = s_user s) (problem Forbidden)) (\<lambda>_.
     and_then (ensure (recovery_status now found = ''approved'') (problem RecoveryNotReady)) (\<lambda>_.
       Inr found))))"

record sealed_vault =
  sd_unlock :: "json \<times> bytes \<times> bytes"
  sd_entries :: "(uuid \<times> sealed_row) list"

definition organisation_unlock :: "vaults \<Rightarrow> uuid \<Rightarrow> (json \<times> bytes \<times> bytes) option" where
  "organisation_unlock pv u =
     (case concat (map (\<lambda>(_, r). if un_user r = u \<and> un_kind r = ''organisation'' then
            map (\<lambda>(_, k). (un_params r, un_wrapped r, ky_public k)) (filter (\<lambda>(i, _). names_key i r) (pv_keys pv)) else []) (pv_unlocks pv)) of
        [] \<Rightarrow> None
      | x # _ \<Rightarrow> Some x)"

definition recovery_vault :: "vaults \<Rightarrow> session \<Rightarrow> string \<Rightarrow> instant \<Rightarrow> uuid \<Rightarrow> problem + (vaults \<times> sealed_vault)" where
  "recovery_vault pv s addr now i =
     and_then (ready_recovery pv s now i) (\<lambda>found.
     and_then (case organisation_unlock pv (rc_user found) of Some u \<Rightarrow> Inr u | None \<Rightarrow> Inl (problem VaultNotCovered)) (\<lambda>u.
       Inr (vaults_audit pv (recovery_entry s ''vault_recovery.opened'' (Some (rc_user found)) [(''recovery_id'', JText (uuid_show i))] addr),
            \<lparr>sd_unlock = u, sd_entries = entries_of pv (rc_user found)\<rparr>)))"

definition recovery_file :: "vaults \<Rightarrow> session \<Rightarrow> instant \<Rightarrow> uuid \<Rightarrow> uuid \<Rightarrow> problem + sealed_row" where
  "recovery_file pv s now i file =
     and_then (ready_recovery pv s now i) (\<lambda>found. owned (pv_files pv) (rc_user found) file)"

text \<open>For a forgotten passphrase, the vault key wrapped for the one-time recovery key replaces the owner's recovery key.\<close>

definition one_time_unlock :: "vaults \<Rightarrow> recovery_row \<Rightarrow> instant \<Rightarrow> uuid \<Rightarrow> bytes option \<Rightarrow> problem + vaults" where
  "one_time_unlock pv found now new wrapped_key =
     (if rc_kind found \<noteq> ''passphrase'' then Inr pv
      else case wrapped_key of
        None \<Rightarrow> Inl (invalid ''wrapped_key'')
      | Some w \<Rightarrow>
          if \<not> (16 \<le> length w \<and> length w \<le> 256) then Inl (invalid ''wrapped_key'')
          else if hm_get (drop_kind (pv_unlocks pv) (rc_user found) ''recovery'') new \<noteq> None then Inl (problem Internal)
          else Inr (pv\<lparr>pv_unlocks := hm_insert new \<lparr>un_user = rc_user found, un_kind = ''recovery'',
                 un_params = JObject [(''one_time'', JBool True)], un_wrapped = w, un_label = [], un_created = now\<rparr>
                 (drop_kind (pv_unlocks pv) (rc_user found) ''recovery'')\<rparr>))"

definition complete_recovery ::
  "vaults \<Rightarrow> session \<Rightarrow> string \<Rightarrow> instant \<Rightarrow> uuid \<Rightarrow> uuid \<Rightarrow> bytes option \<Rightarrow> problem + vaults" where
  "complete_recovery pv s addr now i new wrapped_key =
     and_then (ready_recovery pv s now i) (\<lambda>found.
     and_then (one_time_unlock (pv\<lparr>pv_recoveries := hm_insert i (found\<lparr>rc_completed := Some now\<rparr>) (pv_recoveries pv)\<rparr>) found now new wrapped_key) (\<lambda>pv.
       Inr (vaults_audit pv (recovery_entry s ''vault_recovery.completed'' (Some (rc_user found))
              [(''recovery_id'', JText (uuid_show i)), (''kind'', JText (rc_kind found))] addr))))"

section \<open>Requests in the order they are handled\<close>

datatype vault_request =
  AddUnlock uuid new_unlock
  | RemoveUnlock uuid
  | SaveEntry uuid bytes bytes
  | DeleteEntry uuid
  | SaveFile uuid bytes bytes
  | DeleteFile uuid
  | SaveSearch bytes bytes
  | ResetVault
  | CreateKey uuid bytes
  | DeleteKey uuid
  | AskRecovery uuid uuid string string
  | ApproveRecovery uuid
  | CancelRecovery uuid
  | OpenRecovery uuid
  | CompleteRecovery uuid uuid "bytes option"

fun vault_handle :: "vault_env \<Rightarrow> vaults \<Rightarrow> session \<Rightarrow> string \<Rightarrow> instant \<Rightarrow> vault_request \<Rightarrow> problem + vaults" where
  "vault_handle ve pv s addr now (AddUnlock i inp) = add_unlock ve pv s addr now i inp"
| "vault_handle ve pv s addr now (RemoveUnlock i) = remove_unlock pv s addr i"
| "vault_handle ve pv s addr now (SaveEntry i nonce ct) = save_entry pv s addr now i nonce ct"
| "vault_handle ve pv s addr now (DeleteEntry i) = delete_entry pv s addr i"
| "vault_handle ve pv s addr now (SaveFile i nonce ct) = save_file pv s addr now i nonce ct"
| "vault_handle ve pv s addr now (DeleteFile i) = delete_file pv s addr i"
| "vault_handle ve pv s addr now (SaveSearch nonce ct) = save_search pv s nonce ct"
| "vault_handle ve pv s addr now ResetVault = reset_vault pv s addr"
| "vault_handle ve pv s addr now (CreateKey i public_key) = create_key ve pv s addr now i public_key"
| "vault_handle ve pv s addr now (DeleteKey i) = delete_key pv s addr i"
| "vault_handle ve pv s addr now (AskRecovery i user kind why) = create_recovery pv s addr now i user kind why"
| "vault_handle ve pv s addr now (ApproveRecovery i) = approve_recovery pv s addr now i"
| "vault_handle ve pv s addr now (CancelRecovery i) = cancel_recovery pv s addr i"
| "vault_handle ve pv s addr now (OpenRecovery i) = and_then (recovery_vault pv s addr now i) (\<lambda>(pv, _). Inr pv)"
| "vault_handle ve pv s addr now (CompleteRecovery i new w) = complete_recovery pv s addr now i new w"

text \<open>
  The requests that were answered since the tables were empty, each with its caller and time; the rest of
  the database is changed by others in between.
\<close>

definition no_vaults :: "vaults \<Rightarrow> bool" where
  "no_vaults pv \<longleftrightarrow> pv_unlocks pv = [] \<and> pv_entries pv = [] \<and> pv_files pv = [] \<and> pv_search pv = [] \<and> pv_keys pv = [] \<and> pv_recoveries pv = []"

inductive happened :: "vault_env \<Rightarrow> vaults \<Rightarrow> (session \<times> instant \<times> vault_request) list \<Rightarrow> bool" for ve where
  start: "no_vaults pv \<Longrightarrow> happened ve pv []"
| answered: "happened ve pv es \<Longrightarrow> vault_handle ve pv s addr now req = Inr pv' \<Longrightarrow> happened ve pv' (es @ [(s, now, req)])"
| elsewhere: "happened ve pv es \<Longrightarrow> happened ve (pv\<lparr>pv_db := db\<rparr>) es"

lemmas vault_handlers = add_unlock_def remove_unlock_def save_entry_def delete_entry_def save_file_def delete_file_def save_search_def
  reset_vault_def create_key_def delete_key_def create_recovery_def approve_recovery_def cancel_recovery_def recovery_vault_def
  complete_recovery_def require_admin_def vaults_audit_def

section \<open>Four eyes\<close>

text \<open>
  The history of a recovery: an administrator asked for it, and, if it is approved, a security officer
  approved it later who is someone else.
\<close>

definition asked_for :: "(session \<times> instant \<times> vault_request) list \<Rightarrow> uuid \<Rightarrow> recovery_row \<Rightarrow> bool" where
  "asked_for es i r \<longleftrightarrow> (\<exists>xs s1 t1 why ys. es = xs @ (s1, t1, AskRecovery i (rc_user r) (rc_kind r) why) # ys
     \<and> is_admin s1 \<and> s_user s1 = rc_requester r
     \<and> (\<forall>t. rc_approved r = Some t \<longrightarrow> (\<exists>us s2 vs. ys = us @ (s2, t, ApproveRecovery i) # vs
          \<and> has_role s2 SecurityOfficer \<and> s_user s2 \<noteq> rc_requester r)))"

lemma asked_for_later:
  assumes "asked_for es i r"
  shows "asked_for (es @ [e]) i r"
proof -
  obtain xs s1 t1 why ys where es: "es = xs @ (s1, t1, AskRecovery i (rc_user r) (rc_kind r) why) # ys" and s1: "is_admin s1" "s_user s1 = rc_requester r"
    and ys: "\<forall>t. rc_approved r = Some t \<longrightarrow> (\<exists>us s2 vs. ys = us @ (s2, t, ApproveRecovery i) # vs \<and> has_role s2 SecurityOfficer \<and> s_user s2 \<noteq> rc_requester r)"
    using assms unfolding asked_for_def by blast
  have "\<exists>us s2 vs. ys @ [e] = us @ (s2, t, ApproveRecovery i) # vs \<and> has_role s2 SecurityOfficer \<and> s_user s2 \<noteq> rc_requester r"
    if "rc_approved r = Some t" for t
  proof -
    from ys that obtain us s2 vs where "ys = us @ (s2, t, ApproveRecovery i) # vs" "has_role s2 SecurityOfficer" "s_user s2 \<noteq> rc_requester r" by blast
    then have "ys @ [e] = us @ (s2, t, ApproveRecovery i) # (vs @ [e])" "has_role s2 SecurityOfficer" "s_user s2 \<noteq> rc_requester r" by simp_all
    then show ?thesis by blast
  qed
  moreover have "es @ [e] = xs @ (s1, t1, AskRecovery i (rc_user r) (rc_kind r) why) # (ys @ [e])" using es by simp
  ultimately show ?thesis using s1 unfolding asked_for_def by blast
qed

lemma asked_for_new:
  "is_admin s \<Longrightarrow> rc_requester r = s_user s \<Longrightarrow> rc_approved r = None \<Longrightarrow> asked_for (es @ [(s, now, AskRecovery i (rc_user r) (rc_kind r) why)]) i r"
  unfolding asked_for_def by (rule exI [of _ es], rule exI [of _ s], rule exI [of _ now], rule exI [of _ why], rule exI [of _ "[]"]) simp

lemma asked_for_approved:
  assumes "asked_for es i q" "has_role s SecurityOfficer" "rc_requester q \<noteq> s_user s"
  shows "asked_for (es @ [(s, now, ApproveRecovery i)]) i (q\<lparr>rc_approver := a, rc_approved := Some now\<rparr>)"
proof -
  obtain xs s1 t1 why ys where es: "es = xs @ (s1, t1, AskRecovery i (rc_user q) (rc_kind q) why) # ys" and s1: "is_admin s1" "s_user s1 = rc_requester q"
    using assms(1) unfolding asked_for_def by blast
  have "es @ [(s, now, ApproveRecovery i)] = xs @ (s1, t1, AskRecovery i (rc_user q) (rc_kind q) why) # (ys @ [(s, now, ApproveRecovery i)])"
    using es by simp
  then show ?thesis using s1 assms(2,3) unfolding asked_for_def by fastforce
qed

text \<open>What a request does to the recoveries: nothing, a new one, an approval or the end.\<close>

definition recovery_change :: "vaults \<Rightarrow> session \<Rightarrow> instant \<Rightarrow> vault_request \<Rightarrow> uuid \<Rightarrow> recovery_row \<Rightarrow> bool" where
  "recovery_change pv s now req i r \<longleftrightarrow> hm_get (pv_recoveries pv) i = Some r
      \<or> (\<exists>why. req = AskRecovery i (rc_user r) (rc_kind r) why \<and> is_admin s \<and> rc_requester r = s_user s \<and> rc_approved r = None)
      \<or> (\<exists>q. hm_get (pv_recoveries pv) i = Some q \<and> req = ApproveRecovery i \<and> has_role s SecurityOfficer \<and> rc_requester q \<noteq> s_user s
          \<and> r = q\<lparr>rc_approver := Some (s_username s), rc_approved := Some now\<rparr>)
      \<or> (\<exists>q. hm_get (pv_recoveries pv) i = Some q \<and> r = q\<lparr>rc_completed := Some now\<rparr>)"

lemma find_recovery_Inr: "find_recovery pv i = Inr r \<Longrightarrow> hm_get (pv_recoveries pv) i = Some r"
  by (auto simp: find_recovery_def split: option.split_asm if_split_asm)

lemma ready_recovery_Inr:
  assumes "ready_recovery pv s now i = Inr r"
  shows "is_admin s \<and> hm_get (pv_recoveries pv) i = Some r \<and> rc_requester r = s_user s \<and> rc_completed r = None
    \<and> (\<exists>t. rc_approved r = Some t \<and> now - day < t)"
  using assms find_recovery_Inr
  by (auto simp: ready_recovery_def require_admin_def passed recovery_status_def split: if_split_asm option.split_asm)

lemma one_time_unlock_Inr:
  assumes "one_time_unlock pv found now new w = Inr pv'"
  obtains "rc_kind found \<noteq> ''passphrase''" "pv' = pv"
  | x where "rc_kind found = ''passphrase''" "un_user x = rc_user found" "un_kind x = ''recovery''"
      "hm_get (drop_kind (pv_unlocks pv) (rc_user found) ''recovery'') new = None"
      "pv' = pv\<lparr>pv_unlocks := hm_insert new x (drop_kind (pv_unlocks pv) (rc_user found) ''recovery'')\<rparr>"
proof (cases "rc_kind found = ''passphrase''")
  case False
  with assms that(1) show thesis by (simp add: one_time_unlock_def)
next
  case True
  then obtain v where v: "w = Some v" "16 \<le> length v \<and> length v \<le> 256" "hm_get (drop_kind (pv_unlocks pv) (rc_user found) ''recovery'') new = None"
    using assms by (auto simp: one_time_unlock_def split: option.split_asm if_split_asm)
  show thesis
    by (rule that(2) [OF True _ _ v(3), where x = "\<lparr>un_user = rc_user found, un_kind = ''recovery'',
          un_params = JObject [(''one_time'', JBool True)], un_wrapped = v, un_label = [], un_created = now\<rparr>"])
      (use assms True v in \<open>simp_all add: one_time_unlock_def\<close>)
qed

lemma complete_recovery_Inr:
  assumes "complete_recovery pv s addr now i new w = Inr pv'"
  obtains found q e where "ready_recovery pv s now i = Inr found"
    and "one_time_unlock (pv\<lparr>pv_recoveries := hm_insert i (found\<lparr>rc_completed := Some now\<rparr>) (pv_recoveries pv)\<rparr>) found now new w = Inr q"
    and "pv' = vaults_audit q e"
  using assms unfolding complete_recovery_def passed by blast

lemma one_time_recoveries: "one_time_unlock pv found now new w = Inr pv' \<Longrightarrow> pv_recoveries pv' = pv_recoveries pv"
  by (erule one_time_unlock_Inr) simp_all

lemma recoveries_step:
  assumes "vault_handle ve pv s addr now req = Inr pv'" "hm_get (pv_recoveries pv') i = Some r"
  shows "recovery_change pv s now req i r"
proof (cases req)
  case (AskRecovery j user kind why)
  with assms show ?thesis
    by (auto simp: create_recovery_def require_admin_def vaults_audit_def Let_def passed recovery_change_def hm.get_put split: if_split_asm)
next
  case (ApproveRecovery j)
  with assms show ?thesis
    by (auto simp: approve_recovery_def vaults_audit_def passed recovery_change_def hm.get_put dest: find_recovery_Inr split: if_split_asm)
next
  case (CancelRecovery j)
  with assms show ?thesis
    by (auto simp: cancel_recovery_def require_admin_def vaults_audit_def passed recovery_change_def delete_conv' split: if_split_asm option.split_asm)
next
  case (CompleteRecovery j new w)
  with assms(1) have "complete_recovery pv s addr now j new w = Inr pv'" by simp
  then obtain found where "ready_recovery pv s now j = Inr found" "pv_recoveries pv' = hm_insert j (found\<lparr>rc_completed := Some now\<rparr>) (pv_recoveries pv)"
    by (rule complete_recovery_Inr) (auto simp: vaults_audit_def dest: one_time_recoveries)
  with assms(2) ready_recovery_Inr show ?thesis by (fastforce simp: recovery_change_def hm.get_put split: if_split_asm)
qed (use assms in \<open>auto simp: vault_handlers Let_def passed recovery_change_def split: if_split_asm option.split_asm prod.split_asm\<close>)

lemma happened_asked:
  assumes "happened ve pv es"
  shows "hm_get (pv_recoveries pv) i = Some r \<Longrightarrow> asked_for es i r"
  using assms
proof (induction arbitrary: i r)
  case (start pv)
  then show ?case by (simp add: no_vaults_def)
next
  case (answered pv es s addr now req pv')
  consider "hm_get (pv_recoveries pv) i = Some r"
    | why where "req = AskRecovery i (rc_user r) (rc_kind r) why" "is_admin s" "rc_requester r = s_user s" "rc_approved r = None"
    | q where "hm_get (pv_recoveries pv) i = Some q" "req = ApproveRecovery i" "has_role s SecurityOfficer" "rc_requester q \<noteq> s_user s"
        "r = q\<lparr>rc_approver := Some (s_username s), rc_approved := Some now\<rparr>"
    | q where "hm_get (pv_recoveries pv) i = Some q" "r = q\<lparr>rc_completed := Some now\<rparr>"
    using recoveries_step [OF answered.hyps(2) answered.prems] unfolding recovery_change_def by blast
  then show ?case
  proof cases
    case 1
    then show ?thesis by (intro asked_for_later answered.IH)
  next
    case 2
    then show ?thesis by (simp add: asked_for_new)
  next
    case 3
    then show ?thesis using asked_for_approved [OF answered.IH] by simp
  next
    case 4
    have "asked_for (es @ [(s, now, req)]) i q" by (intro asked_for_later answered.IH 4)
    then show ?thesis by (simp add: asked_for_def 4)
  qed
next
  case (elsewhere pv es db)
  then show ?case by simp
qed

text \<open>
  C9: Nobody opens another's vault alone. Whoever is handed the sealed vault of a user for recovery is an
  administrator who asked for this recovery themselves, and since then a security officer who is someone else has
  approved it, less than a day ago; that they opened it is in the audit log. What is handed out are
  this user's entries and the vault key as it is wrapped for the organisation, nothing more.
\<close>

theorem recovery_four_eyes:
  assumes "happened ve pv es" and "recovery_vault pv s addr now i = Inr (pv', out)"
  shows "is_admin s \<and> (\<exists>r t xs s1 t1 why us s2 vs. hm_get (pv_recoveries pv) i = Some r
      \<and> es = xs @ (s1, t1, AskRecovery i (rc_user r) (rc_kind r) why) # us @ (s2, t, ApproveRecovery i) # vs
      \<and> s_user s1 = s_user s \<and> is_admin s1 \<and> s_user s2 \<noteq> s_user s \<and> has_role s2 SecurityOfficer \<and> now - day < t
      \<and> (\<exists>a. pv' = vaults_audit pv a \<and> au_actor a = Some (s_user s) \<and> au_action a = ''vault_recovery.opened'' \<and> au_object a = Some (''user'', rc_user r))
      \<and> sd_entries out = entries_of pv (rc_user r) \<and> organisation_unlock pv (rc_user r) = Some (sd_unlock out))"
proof -
  obtain r u where r: "ready_recovery pv s now i = Inr r" and u: "organisation_unlock pv (rc_user r) = Some u"
    and out: "pv' = vaults_audit pv (recovery_entry s ''vault_recovery.opened'' (Some (rc_user r)) [(''recovery_id'', JText (uuid_show i))] addr)"
      "out = \<lparr>sd_unlock = u, sd_entries = entries_of pv (rc_user r)\<rparr>"
    using assms(2) by (auto simp: recovery_vault_def split: option.split_asm)
  obtain t where a: "is_admin s" "hm_get (pv_recoveries pv) i = Some r" "rc_requester r = s_user s" "rc_approved r = Some t" "now - day < t"
    using ready_recovery_Inr [OF r] by blast
  obtain xs s1 t1 why us s2 vs where "es = xs @ (s1, t1, AskRecovery i (rc_user r) (rc_kind r) why) # us @ (s2, t, ApproveRecovery i) # vs"
    "is_admin s1" "s_user s1 = rc_requester r" "has_role s2 SecurityOfficer" "s_user s2 \<noteq> rc_requester r"
    using happened_asked [OF assms(1) a(2)] a(4) unfolding asked_for_def by blast
  moreover have "\<exists>a. pv' = vaults_audit pv a \<and> au_actor a = Some (s_user s) \<and> au_action a = ''vault_recovery.opened'' \<and> au_object a = Some (''user'', rc_user r)"
    using out(1) by (auto simp: recovery_entry_def)
  moreover have "sd_entries out = entries_of pv (rc_user r)" "organisation_unlock pv (rc_user r) = Some (sd_unlock out)" using u out(2) by simp_all
  ultimately show ?thesis using a by metis
qed

section \<open>The invariant of the tables\<close>

definition has_unlock :: "vaults \<Rightarrow> uuid \<Rightarrow> bool" where
  "has_unlock pv u \<longleftrightarrow> (\<exists>i r. hm_get (pv_unlocks pv) i = Some r \<and> un_user r = u)"

definition own_unlock :: "vaults \<Rightarrow> uuid \<Rightarrow> bool" where
  "own_unlock pv u \<longleftrightarrow> (\<exists>i r. hm_get (pv_unlocks pv) i = Some r \<and> un_user r = u \<and> un_kind r \<noteq> ''organisation'')"

definition kinds_ok :: "(uuid, unlock_row) hashmap \<Rightarrow> bool" where
  "kinds_ok m \<longleftrightarrow> (\<forall>i j r q. hm_get m i = Some r \<longrightarrow> hm_get m j = Some q \<longrightarrow> un_user r = un_user q \<longrightarrow> un_kind r = un_kind q
     \<longrightarrow> un_kind r \<noteq> ''passkey'' \<longrightarrow> i = j)"

definition vaults_ok :: "vaults \<Rightarrow> bool" where
  "vaults_ok pv \<longleftrightarrow> hm_ok (pv_unlocks pv) \<and> hm_ok (pv_entries pv) \<and> hm_ok (pv_files pv) \<and> hm_ok (pv_search pv) \<and> hm_ok (pv_recoveries pv)
     \<and> kinds_ok (pv_unlocks pv)
     \<and> (\<forall>i r. hm_get (pv_entries pv) i = Some r \<longrightarrow> has_unlock pv (sl_user r))
     \<and> (\<forall>i j r q. hm_get (pv_recoveries pv) i = Some r \<longrightarrow> hm_get (pv_recoveries pv) j = Some q \<longrightarrow> rc_user r = rc_user q
          \<longrightarrow> rc_completed r = None \<longrightarrow> rc_completed q = None \<longrightarrow> i = j)"

lemma drop_kind_get:
  "hm_ok m \<Longrightarrow> hm_get (drop_kind m u k) i = Some r \<longleftrightarrow> hm_get m i = Some r \<and> \<not> (un_user r = u \<and> un_kind r = k)"
  unfolding drop_kind_def by (subst hm_get_filter) (auto split: option.splits)

lemma drop_kind_ok: "hm_ok m \<Longrightarrow> hm_ok (drop_kind m u k)"
  by (simp add: drop_kind_def)

lemma kinds_ok_replace:
  assumes "hm_ok m" "kinds_ok m"
  shows "kinds_ok (hm_insert i x (drop_kind m (un_user x) (un_kind x)))"
proof -
  have "hm_get m j = Some q \<and> \<not> (un_user q = un_user x \<and> un_kind q = un_kind x)"
    if "hm_get (hm_insert i x (drop_kind m (un_user x) (un_kind x))) j = Some q" "j \<noteq> i" for j q
    using that drop_kind_get [OF assms(1)] by (simp add: hm.get_put)
  moreover have "hm_get (hm_insert i x (drop_kind m (un_user x) (un_kind x))) i = Some x" by (simp add: hm.get_put)
  ultimately show ?thesis using assms(2) unfolding kinds_ok_def by (metis option.inject)
qed

lemma kinds_ok_passkey: "kinds_ok m \<Longrightarrow> hm_get m i = None \<Longrightarrow> un_kind x = ''passkey'' \<Longrightarrow> kinds_ok (hm_insert i x m)"
  by (auto simp: kinds_ok_def hm.get_put split: if_split_asm)

lemma kinds_ok_sub: "kinds_ok m \<Longrightarrow> (\<And>i r. hm_get m' i = Some r \<Longrightarrow> hm_get m i = Some r) \<Longrightarrow> kinds_ok m'"
  unfolding kinds_ok_def by blast

text \<open>
  How a request changes the unlocks: not at all, one more that may replace those of its kind, one less of
  several, or none are left of a vault that is started over.
\<close>

inductive unlocks_change :: "vaults \<Rightarrow> session \<Rightarrow> vault_request \<Rightarrow> (uuid, unlock_row) hashmap \<Rightarrow> bool" for pv s req where
  same: "unlocks_change pv s req (pv_unlocks pv)"
| replaced: "unlocks_change pv s req (hm_insert i x (drop_kind (pv_unlocks pv) (un_user x) (un_kind x)))"
    if "hm_get (drop_kind (pv_unlocks pv) (un_user x) (un_kind x)) i = None"
      "un_user x = s_user s \<or> un_kind x = ''recovery'' \<and> (\<exists>j w r. req = CompleteRecovery j i w \<and> hm_get (pv_recoveries pv) j = Some r \<and> un_user x = rc_user r)"
| another: "unlocks_change pv s req (hm_insert i x (pv_unlocks pv))"
    if "hm_get (pv_unlocks pv) i = None" "un_kind x = ''passkey''" "un_user x = s_user s"
| removed: "unlocks_change pv s req (hm_remove i (pv_unlocks pv))"
    if "hm_get (pv_unlocks pv) i = Some r" "un_user r = s_user s" "un_kind r \<noteq> ''organisation''"
      "length (filter (\<lambda>(_, r). un_kind r \<noteq> ''organisation'') (filter (\<lambda>(_, r). un_user r = s_user s) (pv_unlocks pv))) \<noteq> 1"
| over: "unlocks_change pv s req (filter (\<lambda>(_, r). un_user r \<noteq> s_user s) (pv_unlocks pv))" if "req = ResetVault"

lemma unlocks_step:
  assumes "vault_handle ve pv s addr now req = Inr pv'" and ok: "hm_ok (pv_unlocks pv)"
  shows "unlocks_change pv s req (pv_unlocks pv')"
proof (cases req)
  case (AddUnlock i inp)
  define x where "x = \<lparr>un_user = s_user s, un_kind = nu_kind inp, un_params = nu_params inp, un_wrapped = nu_wrapped inp, un_label = trim (nu_label inp), un_created = now\<rparr>"
  have "add_unlock ve pv s addr now i inp = Inr pv'" using assms(1) AddUnlock by simp
  then have "pv_unlocks pv' = hm_insert i x (if nu_kind inp \<noteq> ''passkey'' then drop_kind (pv_unlocks pv) (s_user s) (nu_kind inp) else pv_unlocks pv)
      \<and> hm_get (if nu_kind inp \<noteq> ''passkey'' then drop_kind (pv_unlocks pv) (s_user s) (nu_kind inp) else pv_unlocks pv) i = None"
    unfolding add_unlock_def Let_def passed x_def by (auto simp: vaults_audit_def)
  moreover have "un_user x = s_user s" "un_kind x = nu_kind inp" by (simp_all add: x_def)
  ultimately show ?thesis
    using unlocks_change.another [of pv i x s req] unlocks_change.replaced [of pv x i s req] by (cases "nu_kind inp = ''passkey''") simp_all
next
  case (RemoveUnlock i)
  have "remove_unlock pv s addr i = Inr pv'" using assms(1) RemoveUnlock by simp
  then obtain r where r: "hm_get (filter (\<lambda>(_, r). un_user r = s_user s) (pv_unlocks pv)) i = Some r"
    and rest: "un_kind r \<noteq> ''organisation''"
      "length (filter (\<lambda>(_, r). un_kind r \<noteq> ''organisation'') (filter (\<lambda>(_, r). un_user r = s_user s) (pv_unlocks pv))) \<noteq> 1"
      "pv_unlocks pv' = hm_remove i (pv_unlocks pv)"
    unfolding remove_unlock_def Let_def passed by (auto simp: vaults_audit_def split: option.split_asm)
  have "hm_get (pv_unlocks pv) i = Some r \<and> un_user r = s_user s"
    using r hm_get_filter [OF ok] by (auto split: option.split_asm if_split_asm)
  with rest show ?thesis using unlocks_change.removed by simp
next
  case ResetVault
  with assms(1) have "pv_unlocks pv' = filter (\<lambda>(_, r). un_user r \<noteq> s_user s) (pv_unlocks pv)"
    by (auto simp: reset_vault_def Let_def vaults_audit_def)
  then show ?thesis using unlocks_change.over [OF ResetVault] by simp
next
  case (CompleteRecovery j new w)
  with assms(1) obtain found q e where r: "ready_recovery pv s now j = Inr found"
    and o: "one_time_unlock (pv\<lparr>pv_recoveries := hm_insert j (found\<lparr>rc_completed := Some now\<rparr>) (pv_recoveries pv)\<rparr>) found now new w = Inr q"
    and e: "pv' = vaults_audit q e"
    by (auto elim: complete_recovery_Inr)
  from o show ?thesis
  proof (cases rule: one_time_unlock_Inr)
    case 1
    then show ?thesis using e by (simp add: unlocks_change.same vaults_audit_def)
  next
    case (2 x)
    then have "pv_unlocks pv' = hm_insert new x (drop_kind (pv_unlocks pv) (un_user x) (un_kind x))"
      "hm_get (drop_kind (pv_unlocks pv) (un_user x) (un_kind x)) new = None" using e by (simp_all add: vaults_audit_def)
    then show ?thesis using unlocks_change.replaced [of pv x new s req] ready_recovery_Inr [OF r] CompleteRecovery 2 by auto
  qed
qed (use assms(1) in \<open>auto simp: vault_handlers Let_def passed unlocks_change.same split: option.split_asm prod.split_asm\<close>)

lemma mine_left:
  assumes "hm_ok m" "hm_get m i = Some r" "P (i, r)" "length (filter P m) \<noteq> 1"
  shows "\<exists>j q. hm_get (hm_remove i m) j = Some q \<and> P (j, q)"
proof -
  have d: "distinct (filter P m)" using assms(1) by (auto simp: hm_ok_def distinct_map)
  have i: "(i, r) \<in> set (filter P m)" using assms(2,3) by (auto dest: map_of_SomeD)
  have "set (filter P m) \<noteq> {(i, r)}"
    using assms(4) distinct_card [OF d] by (auto simp: card_1_singleton_iff)
  then obtain j q where j: "(j, q) \<in> set m" "P (j, q)" "(j, q) \<noteq> (i, r)" using i by auto
  have "hm_get m j = Some q" using j(1) assms(1) by (simp add: hm_ok_def)
  moreover from this j(3) assms(2) have "j \<noteq> i" by auto
  ultimately show ?thesis using j(2) by (auto simp: delete_conv')
qed

lemma unlocks_survive:
  assumes "\<And>j r. hm_get (pv_unlocks pv) j = Some r
      \<Longrightarrow> (\<exists>k v. hm_get m k = Some v \<and> un_user v = un_user r \<and> (un_kind r \<noteq> ''organisation'' \<longrightarrow> un_kind v \<noteq> ''organisation'')) \<or> Q (un_user r)"
  shows "(\<forall>u. own_unlock pv u \<longrightarrow> own_unlock (pv\<lparr>pv_unlocks := m\<rparr>) u \<or> Q u) \<and> (\<forall>u. has_unlock pv u \<longrightarrow> has_unlock (pv\<lparr>pv_unlocks := m\<rparr>) u \<or> Q u)"
proof (intro conjI allI impI)
  fix u
  assume "own_unlock pv u"
  then obtain i r where r: "hm_get (pv_unlocks pv) i = Some r" "un_user r = u" "un_kind r \<noteq> ''organisation''" unfolding own_unlock_def by blast
  from assms [OF r(1)] r(2,3) show "own_unlock (pv\<lparr>pv_unlocks := m\<rparr>) u \<or> Q u" unfolding own_unlock_def by auto
next
  fix u
  assume "has_unlock pv u"
  then obtain i r where r: "hm_get (pv_unlocks pv) i = Some r" "un_user r = u" unfolding has_unlock_def by blast
  from assms [OF r(1)] r(2) show "has_unlock (pv\<lparr>pv_unlocks := m\<rparr>) u \<or> Q u" unfolding has_unlock_def by auto
qed

lemma unlocks_kept:
  assumes "unlocks_change pv s req m" and ok: "hm_ok (pv_unlocks pv)" "kinds_ok (pv_unlocks pv)"
  shows "(hm_ok m \<and> kinds_ok m)
    \<and> (\<forall>u. own_unlock pv u \<longrightarrow> own_unlock (pv\<lparr>pv_unlocks := m\<rparr>) u \<or> req = ResetVault \<and> u = s_user s)
    \<and> (\<forall>u. has_unlock pv u \<longrightarrow> has_unlock (pv\<lparr>pv_unlocks := m\<rparr>) u \<or> req = ResetVault \<and> u = s_user s)"
  (is "?ok \<and> ?rest")
  using assms(1)
proof cases
  case same
  then show ?thesis using ok by simp
next
  case (replaced x i)
  note m = replaced(1) and new = replaced(2)
  have here: "hm_get m i = Some x" by (simp add: m hm.get_put)
  have there: "hm_get m j = Some q" if "hm_get (pv_unlocks pv) j = Some q" "\<not> (un_user q = un_user x \<and> un_kind q = un_kind x)" for j q
  proof -
    have "hm_get (drop_kind (pv_unlocks pv) (un_user x) (un_kind x)) j = Some q" using that drop_kind_get [OF ok(1)] by blast
    with new show ?thesis by (auto simp: m hm.get_put)
  qed
  have "?rest"
  proof (rule unlocks_survive, rule disjI1)
    fix j r
    assume r: "hm_get (pv_unlocks pv) j = Some r"
    show "\<exists>k v. hm_get m k = Some v \<and> un_user v = un_user r \<and> (un_kind r \<noteq> ''organisation'' \<longrightarrow> un_kind v \<noteq> ''organisation'')"
      using here there [OF r] r by (cases "un_user r = un_user x \<and> un_kind r = un_kind x") auto
  qed
  moreover have ?ok unfolding m using ok by (simp add: drop_kind_ok hm.ok_put kinds_ok_replace)
  ultimately show ?thesis by blast
next
  case (another i x)
  then have there: "hm_get (pv_unlocks pv) j = Some q \<Longrightarrow> hm_get m j = Some q" for j q by (auto simp: hm.get_put)
  have ?rest by (rule unlocks_survive) (blast intro: there)
  moreover have ?ok using another ok by (simp add: hm.ok_put kinds_ok_passkey)
  ultimately show ?thesis by blast
next
  case (removed i r)
  note m = removed(1) and r = removed(2-4) and several = removed(5)
  have g: "hm_get m k = Some v \<longleftrightarrow> hm_get (pv_unlocks pv) k = Some v \<and> k \<noteq> i" for k v by (auto simp: m delete_conv')
  obtain j q where q: "hm_get m j = Some q" "un_user q = s_user s" "un_kind q \<noteq> ''organisation''"
    using mine_left [OF ok(1) r(1), of "\<lambda>(_, r). un_user r = s_user s \<and> un_kind r \<noteq> ''organisation''"] r several
    by (auto simp: m conj_commute split_def)
  have ?rest
  proof (rule unlocks_survive, rule disjI1)
    fix k v
    assume v: "hm_get (pv_unlocks pv) k = Some v"
    show "\<exists>l w. hm_get m l = Some w \<and> un_user w = un_user v \<and> (un_kind v \<noteq> ''organisation'' \<longrightarrow> un_kind w \<noteq> ''organisation'')"
      using v r q g by (cases "k = i") auto
  qed
  moreover have ?ok using ok kinds_ok_sub [OF ok(2), of m] g by (simp add: m hm.ok_del)
  ultimately show ?thesis by blast
next
  case over
  note m = over(1)
  have g: "hm_get m k = Some v \<longleftrightarrow> hm_get (pv_unlocks pv) k = Some v \<and> un_user v \<noteq> s_user s" for k v
    unfolding m using ok(1) by (subst hm_get_filter) (auto split: option.splits)
  have ?rest by (rule unlocks_survive) (use g over(2) in blast)
  moreover have ?ok using ok kinds_ok_sub [OF ok(2), of m] g by (simp add: m)
  ultimately show ?thesis by blast
qed

text \<open>Of each table what the answer to a request leaves behind.\<close>

lemma upsert_sealed_Some:
  assumes "upsert_sealed m u i nonce ct now = Some m'" "hm_ok m"
  shows "hm_ok m' \<and> (\<forall>j r. hm_get m' j = Some r \<longrightarrow> hm_get m j = Some r \<or> sl_user r = u)
    \<and> (\<forall>j r. sl_user r \<noteq> u \<longrightarrow> (hm_get m' j = Some r \<longleftrightarrow> hm_get m j = Some r))"
  using assms by (auto simp: upsert_sealed_def hm.get_put hm.ok_put split: option.split_asm if_split_asm)

lemma owned_Inr: "owned m u i = Inr r \<longleftrightarrow> hm_get m i = Some r \<and> sl_user r = u"
  by (auto simp: owned_def split: option.split)

lemma filter_user_get:
  "hm_ok m \<Longrightarrow> hm_get (filter (\<lambda>(_, r). sl_user r \<noteq> u) m) i = Some r \<longleftrightarrow> hm_get m i = Some r \<and> sl_user r \<noteq> u"
  by (subst hm_get_filter) (auto split: option.splits)

lemma has_unlock_list: "list_ex (\<lambda>(_, r). un_user r = u) (pv_unlocks pv) \<Longrightarrow> hm_ok (pv_unlocks pv) \<Longrightarrow> has_unlock pv u"
  by (auto simp: list_ex_iff has_unlock_def hm_ok_def intro: map_of_is_SomeI)

definition sealed_ok :: "vaults \<Rightarrow> bool" where
  "sealed_ok pv \<longleftrightarrow> hm_ok (pv_entries pv) \<and> hm_ok (pv_files pv) \<and> hm_ok (pv_search pv) \<and> hm_ok (pv_recoveries pv)"

lemma tables_step:
  assumes "vault_handle ve pv s addr now req = Inr pv'" and ok: "sealed_ok pv"
  shows "sealed_ok pv'"
proof (cases req)
  case (CompleteRecovery j new w)
  with assms(1) have "complete_recovery pv s addr now j new w = Inr pv'" by simp
  then show ?thesis using ok
    by (elim complete_recovery_Inr one_time_unlock_Inr) (simp_all add: sealed_ok_def vaults_audit_def hm.ok_put)
qed (use assms in \<open>auto simp: vault_handlers Let_def passed sealed_ok_def hm.ok_put hm.ok_del
  dest: upsert_sealed_Some split: option.split_asm prod.split_asm if_split_asm\<close>)

lemma one_time_sealed:
  "one_time_unlock pv found now new w = Inr pv' \<Longrightarrow>
    pv_entries pv' = pv_entries pv \<and> pv_files pv' = pv_files pv \<and> pv_search pv' = pv_search pv"
  by (erule one_time_unlock_Inr) simp_all

lemma entries_step:
  assumes "vault_handle ve pv s addr now req = Inr pv'" and ok: "sealed_ok pv" "hm_ok (pv_unlocks pv)"
    and r: "hm_get (pv_entries pv') i = Some r"
  shows "(hm_get (pv_entries pv) i = Some r \<or> has_unlock pv (sl_user r)) \<and> \<not> (req = ResetVault \<and> sl_user r = s_user s)"
proof (cases req)
  case (SaveEntry j nonce ct)
  then have "save_entry pv s addr now j nonce ct = Inr pv'" using assms(1) by simp
  then obtain m where m: "upsert_sealed (pv_entries pv) (s_user s) j nonce ct now = Some m" "pv_entries pv' = m" "has_unlock pv (s_user s)"
    unfolding save_entry_def passed using has_unlock_list [OF _ ok(2)] by (auto simp: vaults_audit_def split: option.split_asm)
  have "hm_ok (pv_entries pv)" using ok by (simp add: sealed_ok_def)
  with upsert_sealed_Some [OF m(1)] r m(2) have "hm_get (pv_entries pv) i = Some r \<or> sl_user r = s_user s" by blast
  with m(3) SaveEntry show ?thesis by auto
next
  case ResetVault
  then have "pv_entries pv' = filter (\<lambda>(_, r). sl_user r \<noteq> s_user s) (pv_entries pv)"
    using assms(1) by (auto simp: reset_vault_def Let_def vaults_audit_def)
  with r show ?thesis using ok(1) by (simp add: filter_user_get sealed_ok_def)
next
  case (CompleteRecovery j new w)
  with assms(1) have "complete_recovery pv s addr now j new w = Inr pv'" by simp
  then have "pv_entries pv' = pv_entries pv" by (rule complete_recovery_Inr) (auto simp: vaults_audit_def dest: one_time_sealed)
  with r CompleteRecovery show ?thesis by simp
qed (use assms in \<open>auto simp: vault_handlers Let_def passed delete_conv' split: option.split_asm prod.split_asm if_split_asm\<close>)

lemma open_recovery_step:
  assumes "vault_handle ve pv s addr now req = Inr pv'" "hm_get (pv_recoveries pv') i = Some r" "rc_completed r = None"
  shows "(\<exists>q. hm_get (pv_recoveries pv) i = Some q \<and> rc_user q = rc_user r \<and> rc_completed q = None)
    \<or> (\<exists>kind why. req = AskRecovery i (rc_user r) kind why)"
  using recoveries_step [OF assms(1,2)] assms(3) unfolding recovery_change_def by auto

lemma asked_alone:
  assumes "vault_handle ve pv s addr now (AskRecovery i u kind why) = Inr pv'" "hm_get (pv_recoveries pv) j = Some q" "rc_user q = u"
  shows "rc_completed q \<noteq> None"
  using assms by (auto simp: create_recovery_def Let_def passed list_ex_iff dest: map_of_SomeD)

lemma recoveries_unique_step:
  assumes "vault_handle ve pv s addr now req = Inr pv'"
    and old: "\<And>i j r q. hm_get (pv_recoveries pv) i = Some r \<Longrightarrow> hm_get (pv_recoveries pv) j = Some q \<Longrightarrow> rc_user r = rc_user q
      \<Longrightarrow> rc_completed r = None \<Longrightarrow> rc_completed q = None \<Longrightarrow> i = j"
    and r: "hm_get (pv_recoveries pv') i = Some r" "rc_completed r = None" and q: "hm_get (pv_recoveries pv') j = Some q" "rc_completed q = None"
    and "rc_user r = rc_user q"
  shows "i = j"
proof -
  have alone: "rc_user x \<noteq> rc_user r \<or> rc_completed x \<noteq> None" if "req = AskRecovery k (rc_user r) kind why" "hm_get (pv_recoveries pv) l = Some x"
    for k kind why l x
    using asked_alone [OF assms(1) [unfolded that(1)] that(2)] by blast
  have q': "(\<exists>x. hm_get (pv_recoveries pv) j = Some x \<and> rc_user x = rc_user r \<and> rc_completed x = None)
      \<or> (\<exists>kind why. req = AskRecovery j (rc_user r) kind why)"
    using open_recovery_step [OF assms(1) q] \<open>rc_user r = rc_user q\<close> by simp
  from open_recovery_step [OF assms(1) r] show ?thesis
  proof (elim disjE exE conjE)
    fix x
    assume x: "hm_get (pv_recoveries pv) i = Some x" "rc_user x = rc_user r" "rc_completed x = None"
    with q' old [OF x(1)] alone [OF _ x(1)] show ?thesis by metis
  next
    fix kind why
    assume a: "req = AskRecovery i (rc_user r) kind why"
    with q' alone [OF a] show ?thesis by fastforce
  qed
qed

lemma vaults_ok_sealed: "vaults_ok pv \<Longrightarrow> sealed_ok pv"
  by (simp add: vaults_ok_def sealed_ok_def)

lemma has_unlock_same: "pv_unlocks pv' = m \<Longrightarrow> has_unlock (pv\<lparr>pv_unlocks := m\<rparr>) u = has_unlock pv' u"
  by (simp add: has_unlock_def)

lemma own_unlock_same: "pv_unlocks pv' = m \<Longrightarrow> own_unlock (pv\<lparr>pv_unlocks := m\<rparr>) u = own_unlock pv' u"
  by (simp add: own_unlock_def)

lemma vaults_step:
  assumes h: "vault_handle ve pv s addr now req = Inr pv'" and ok: "vaults_ok pv"
  shows "vaults_ok pv'" "own_unlock pv u \<Longrightarrow> own_unlock pv' u \<or> req = ResetVault \<and> u = s_user s"
proof -
  have u: "hm_ok (pv_unlocks pv)" "kinds_ok (pv_unlocks pv)" using ok by (simp_all add: vaults_ok_def)
  note kept = unlocks_kept [OF unlocks_step [OF h u(1)] u]
  show "own_unlock pv u \<Longrightarrow> own_unlock pv' u \<or> req = ResetVault \<and> u = s_user s"
    using kept by (simp add: own_unlock_same)
  have "has_unlock pv' (sl_user r)" if "hm_get (pv_entries pv') i = Some r" for i r
    using entries_step [OF h vaults_ok_sealed [OF ok] u(1) that] kept ok by (auto simp: has_unlock_same vaults_ok_def)
  moreover have "i = j" if "hm_get (pv_recoveries pv') i = Some r" "hm_get (pv_recoveries pv') j = Some q" "rc_user r = rc_user q"
      "rc_completed r = None" "rc_completed q = None" for i j r q
    using recoveries_unique_step [OF h _ that(1,4,2,5,3)] ok unfolding vaults_ok_def by blast
  ultimately show "vaults_ok pv'"
    using kept tables_step [OF h vaults_ok_sealed [OF ok]] unfolding vaults_ok_def sealed_ok_def by blast
qed

lemma happened_ok: "happened ve pv es \<Longrightarrow> vaults_ok pv"
proof (induction rule: happened.induct)
  case (start pv)
  then show ?case by (simp add: no_vaults_def vaults_ok_def kinds_ok_def hm_ok_def)
next
  case (answered pv es s addr now req pv')
  show ?case by (rule vaults_step(1) [OF answered.hyps(2) answered.IH])
next
  case (elsewhere pv es db)
  then show ?case by (simp add: vaults_ok_def has_unlock_def)
qed

text \<open>
  C24: The tables of the personal vaults stay consistent: identifiers are unique, a vault has at most one unlock of
  every kind but \<open>passkey\<close>, the owner of an entry has an unlock, and a user has at most one recovery
  under way. And no request locks a user out: whoever has an unlock of their own (not just the organisation's)
  keeps one, unless they start their vault over themselves.
\<close>

theorem vaults_stay_ok:
  assumes "happened ve pv es"
  shows "vaults_ok pv \<and> (\<forall>s addr now req pv' u. vault_handle ve pv s addr now req = Inr pv' \<longrightarrow> own_unlock pv u
    \<longrightarrow> own_unlock pv' u \<or> req = ResetVault \<and> u = s_user s)"
  using happened_ok [OF assms] vaults_step(2) by blast

section \<open>Only the owner changes a vault\<close>

lemma sealed_step:
  assumes "vault_handle ve pv s addr now req = Inr pv'" and ok: "sealed_ok pv" and "u \<noteq> s_user s"
  shows "(\<forall>i r. sl_user r = u \<longrightarrow> (hm_get (pv_entries pv') i = Some r \<longleftrightarrow> hm_get (pv_entries pv) i = Some r)
      \<and> (hm_get (pv_files pv') i = Some r \<longleftrightarrow> hm_get (pv_files pv) i = Some r))
    \<and> hm_get (pv_search pv') u = hm_get (pv_search pv) u"
proof (cases req)
  case (SaveEntry j nonce ct)
  then have "save_entry pv s addr now j nonce ct = Inr pv'" using assms(1) by simp
  then obtain m where m: "upsert_sealed (pv_entries pv) (s_user s) j nonce ct now = Some m" "pv_entries pv' = m" "pv_files pv' = pv_files pv"
      "pv_search pv' = pv_search pv"
    unfolding save_entry_def passed by (auto simp: vaults_audit_def split: option.split_asm)
  then show ?thesis using upsert_sealed_Some [OF m(1)] ok assms(3) by (simp add: sealed_ok_def)
next
  case (SaveFile j nonce ct)
  then have "save_file pv s addr now j nonce ct = Inr pv'" using assms(1) by simp
  then obtain m where m: "upsert_sealed (pv_files pv) (s_user s) j nonce ct now = Some m" "pv_files pv' = m" "pv_entries pv' = pv_entries pv"
      "pv_search pv' = pv_search pv"
    unfolding save_file_def passed by (auto simp: vaults_audit_def split: option.split_asm)
  then show ?thesis using upsert_sealed_Some [OF m(1)] ok assms(3) by (simp add: sealed_ok_def)
next
  case ResetVault
  then have "pv_entries pv' = filter (\<lambda>(_, r). sl_user r \<noteq> s_user s) (pv_entries pv)" "pv_files pv' = filter (\<lambda>(_, r). sl_user r \<noteq> s_user s) (pv_files pv)"
    "pv_search pv' = hm_remove (s_user s) (pv_search pv)"
    using assms(1) by (auto simp: reset_vault_def Let_def vaults_audit_def)
  then show ?thesis using ok assms(3) by (simp add: filter_user_get sealed_ok_def delete_conv')
next
  case (CompleteRecovery j new w)
  with assms(1) have "complete_recovery pv s addr now j new w = Inr pv'" by simp
  then have "pv_entries pv' = pv_entries pv \<and> pv_files pv' = pv_files pv \<and> pv_search pv' = pv_search pv"
    by (rule complete_recovery_Inr) (auto simp: vaults_audit_def dest: one_time_sealed)
  then show ?thesis by simp
qed (use assms in \<open>auto simp: vault_handlers Let_def passed owned_Inr delete_conv' hm.get_put split: option.split_asm prod.split_asm if_split_asm\<close>)

text \<open>The one change to someone else's unlocks.\<close>

definition recovers :: "vaults \<Rightarrow> session \<Rightarrow> instant \<Rightarrow> vault_request \<Rightarrow> uuid \<Rightarrow> bool" where
  "recovers pv s now req u \<longleftrightarrow> (\<exists>j new w r. req = CompleteRecovery j new w \<and> ready_recovery pv s now j = Inr r \<and> rc_user r = u \<and> rc_kind r = ''passphrase'')"

lemma completed_recovers:
  assumes "complete_recovery pv s addr now j new w = Inr pv'" and "pv_unlocks pv' \<noteq> pv_unlocks pv"
  shows "\<exists>r x. ready_recovery pv s now j = Inr r \<and> rc_kind r = ''passphrase'' \<and> un_user x = rc_user r \<and> un_kind x = ''recovery''
    \<and> hm_get (drop_kind (pv_unlocks pv) (un_user x) (un_kind x)) new = None
    \<and> pv_unlocks pv' = hm_insert new x (drop_kind (pv_unlocks pv) (un_user x) (un_kind x))"
proof (rule complete_recovery_Inr [OF assms(1)])
  fix found q e
  assume r: "ready_recovery pv s now j = Inr found" and e: "pv' = vaults_audit q e"
    and "one_time_unlock (pv\<lparr>pv_recoveries := hm_insert j (found\<lparr>rc_completed := Some now\<rparr>) (pv_recoveries pv)\<rparr>) found now new w = Inr q"
  from this(3) show ?thesis
    by (rule one_time_unlock_Inr) (use r e assms(2) in \<open>auto simp: vaults_audit_def\<close>)
qed

lemma replaced_get:
  assumes "hm_ok m" "hm_get (drop_kind m (un_user x) (un_kind x)) i = None" "\<not> (un_user r = un_user x \<and> un_kind r = un_kind x)"
  shows "hm_get (hm_insert i x (drop_kind m (un_user x) (un_kind x))) j = Some r \<longleftrightarrow> hm_get m j = Some r"
  using drop_kind_get [OF assms(1), of "un_user x" "un_kind x" j r] assms(2,3) by (auto simp: hm.get_put)

lemma others_unlocks_step:
  assumes h: "vault_handle ve pv s addr now req = Inr pv'" and ok: "hm_ok (pv_unlocks pv)" and u: "un_user r \<noteq> s_user s"
    and no: "un_kind r = ''recovery'' \<longrightarrow> \<not> recovers pv s now req (un_user r)"
  shows "hm_get (pv_unlocks pv') i = Some r \<longleftrightarrow> hm_get (pv_unlocks pv) i = Some r"
  using unlocks_step [OF h ok]
proof cases
  case same
  then show ?thesis by simp
next
  case (replaced x j)
  note m = replaced(1) and new = replaced(2)
  show ?thesis
  proof (cases "un_user x = s_user s \<or> pv_unlocks pv' = pv_unlocks pv")
    case True
    then show ?thesis using replaced_get [OF ok new] u m by metis
  next
    case False
    with replaced(3) obtain k w where req: "req = CompleteRecovery k j w" by blast
    then have c: "complete_recovery pv s addr now k j w = Inr pv'" using h by simp
    from completed_recovers [OF c] False obtain q y where q: "ready_recovery pv s now k = Inr q" "rc_kind q = ''passphrase''"
        "un_user y = rc_user q" "un_kind y = ''recovery''" "hm_get (drop_kind (pv_unlocks pv) (un_user y) (un_kind y)) j = None"
        "pv_unlocks pv' = hm_insert j y (drop_kind (pv_unlocks pv) (un_user y) (un_kind y))" by blast
    then have "recovers pv s now req (un_user y)" using req by (auto simp: recovers_def)
    then show ?thesis using replaced_get [OF ok q(5)] no q(4,6) by metis
  qed
next
  case (another j x)
  then show ?thesis using u by (auto simp: hm.get_put)
next
  case (removed j q)
  then show ?thesis using u by (auto simp: delete_conv')
next
  case over
  then show ?thesis using u ok by (subst over(1), subst hm_get_filter) (auto split: option.splits)
qed

text \<open>
  C25: Only its owner changes a personal vault. Whoever sends whichever request, the entries, attachments, search
  index and unlocks of every other user stay exactly as they are, also when the request names an identifier
  that is someone else's. The one exception is the end of an approved recovery of a forgotten passphrase, which
  replaces that user's recovery key and nothing else.
\<close>

theorem others_vaults_untouched:
  assumes "happened ve pv es" and "vault_handle ve pv s addr now req = Inr pv'" and "u \<noteq> s_user s"
  shows "(\<forall>i r. sl_user r = u \<longrightarrow> (hm_get (pv_entries pv') i = Some r \<longleftrightarrow> hm_get (pv_entries pv) i = Some r)
      \<and> (hm_get (pv_files pv') i = Some r \<longleftrightarrow> hm_get (pv_files pv) i = Some r))
    \<and> hm_get (pv_search pv') u = hm_get (pv_search pv) u
    \<and> (\<forall>i r. un_user r = u \<longrightarrow> un_kind r \<noteq> ''recovery'' \<or> \<not> recovers pv s now req u
      \<longrightarrow> (hm_get (pv_unlocks pv') i = Some r \<longleftrightarrow> hm_get (pv_unlocks pv) i = Some r))"
proof -
  have ok: "vaults_ok pv" by (rule happened_ok [OF assms(1)])
  then have "hm_ok (pv_unlocks pv)" by (simp add: vaults_ok_def)
  then show ?thesis
    using sealed_step [OF assms(2) vaults_ok_sealed [OF ok] assms(3)] others_unlocks_step [OF assms(2)] assms(3) by auto
qed

section \<open>A key named in another form\<close>

lemma hm_insert_new: "hm_get m i = None \<Longrightarrow> hm_insert i x m = m @ [(i, x)]"
  by (induction m) auto

lemma covered_by_Inl: "covered_by ve pv u = Inl e \<Longrightarrow> e = problem Internal"
  by (auto simp: covered_by_def split: list.split_asm option.split_asm prod.split_asm)

lemma covered_all_Inl: "covered_by ve pv u = Inl e \<Longrightarrow> u \<in> set us \<Longrightarrow> covered_all ve pv us = Inl (problem Internal)"
proof (induction us)
  case (Cons v us)
  show ?case
  proof (cases "covered_by ve pv v")
    case (Inl d)
    then show ?thesis using covered_by_Inl by fastforce
  next
    case (Inr k)
    with Cons have "u \<in> set us" by auto
    with Cons Inr show ?thesis by simp
  qed
qed simp

text \<open>
  The \<open>uuid\<close> crate also reads a UUID after \<open>urn:uuid:\<close>, PostgreSQL does not. Once a user has stored an unlock for
  the organisation that names its key like this, no administrator can list the recovery keys.
\<close>

lemma foreign_key_form:
  assumes add: "add_unlock ve pv s addr now i inp = Inr pv'" and kind: "nu_kind inp = ''organisation''"
    and t: "json_text_at (nu_params inp) ''key_id'' = Some t" "ve_pg_uuid ve t = None"
    and user: "(s_user s, row) \<in> set (db_users (pv_db pv))" and admin: "is_admin a"
  shows "list_keys ve lower pv' a = Inl (problem Internal)"
proof -
  have a: "pv_unlocks pv' = drop_kind (pv_unlocks pv) (s_user s) ''organisation'' @ [(i, \<lparr>un_user = s_user s, un_kind = ''organisation'',
      un_params = nu_params inp, un_wrapped = nu_wrapped inp, un_label = trim (nu_label inp), un_created = now\<rparr>)]"
    (is "_ = _ @ [(i, ?x)]") and db: "db_users (pv_db pv') = db_users (pv_db pv)"
    using add kind by (auto simp: add_unlock_def Let_def passed vaults_audit_def hm_insert_new audit_record_def)
  have "filter (\<lambda>(_, r). un_user r = s_user s \<and> un_kind r = ''organisation'') (pv_unlocks pv') = [(i, ?x)]"
    unfolding a by (auto simp: drop_kind_def filter_empty_conv)
  then have c: "covered_by ve pv' (s_user s) = Inl (problem Internal)" using t by (simp add: covered_by_def)
  have "list_ex (\<lambda>(_, r). un_user r = s_user s) (pv_unlocks pv')" by (simp add: a)
  with user db have "s_user s \<in> fst ` set (filter (\<lambda>(u, _). list_ex (\<lambda>(_, r). un_user r = u) (pv_unlocks pv')) (db_users (pv_db pv')))"
    by force
  then have "covered_all ve pv' (map fst (sort_key (\<lambda>(u, r). (lower (ur_display_name r), u))
      (filter (\<lambda>(u, _). list_ex (\<lambda>(_, r). un_user r = u) (pv_unlocks pv')) (db_users (pv_db pv'))))) = Inl (problem Internal)"
    by (intro covered_all_Inl [OF c]) simp
  then show ?thesis using admin by (simp add: list_keys_def require_admin_def ensure_def Let_def)
qed

section \<open>A forgotten passphrase\<close>

definition sample_vault_person :: "uuid \<Rightarrow> string list \<Rightarrow> session" where
  "sample_vault_person u held = \<lparr>s_hash = [], s_id = u, s_client = ''browser'', s_user = u, s_username = ''bob'', s_display_name = ''Bob'', s_kind = ''directory'',
     s_sid = None, s_upn = None, s_groups = [], s_identity = None, s_memberships = [], s_roles = held, s_locked = False, s_confirmed = True\<rparr>"

abbreviation sample_administrator :: session where
  "sample_administrator \<equiv> sample_vault_person 5 [''administrator'']"

abbreviation sample_officer :: session where
  "sample_officer \<equiv> sample_vault_person 6 [''security_officer'']"

abbreviation sample_owner_7 :: session where
  "sample_owner_7 \<equiv> sample_vault_person 7 []"

definition sample_vault_env :: vault_env where
  "sample_vault_env = \<lparr>ve_uuid = (\<lambda>t. if t = uuid_show 20 then Some 20 else None), ve_pg_uuid = (\<lambda>t. if t = uuid_show 20 then Some 20 else None),
     ve_b64 = (\<lambda>t. Some (replicate 65 0)), ve_json_length = (\<lambda>_. 90), ve_point = (\<lambda>p. length p = 65)\<rparr>"

definition sample_unlock :: "string \<Rightarrow> json \<Rightarrow> unlock_row" where
  "sample_unlock kind params = \<lparr>un_user = 7, un_kind = kind, un_params = params, un_wrapped = replicate 16 0, un_label = [], un_created = 1\<rparr>"

definition sample_wrap :: json where
  "sample_wrap = JObject [(''key_id'', JText (uuid_show 20)), (''ephemeral'', JText ''BA'')]"

definition sample_asked_recovery :: recovery_row where
  "sample_asked_recovery = \<lparr>rc_user = 7, rc_kind = ''passphrase'', rc_reason = ''lost'', rc_requester = 5, rc_requester_name = ''bob'', rc_approver = None,
     rc_approved = None, rc_completed = None, rc_created = 2\<rparr>"

definition sample_vaults :: "(uuid, unlock_row) hashmap \<Rightarrow> (uuid, sealed_row) hashmap \<Rightarrow> (uuid, recovery_row) hashmap \<Rightarrow> vaults" where
  "sample_vaults us es rs = \<lparr>pv_db = empty_db\<lparr>db_users := [(7, sample_user)]\<rparr>, pv_unlocks = us, pv_entries = es, pv_files = [], pv_search = [],
     pv_keys = [(20, \<lparr>ky_public = replicate 65 0, ky_by = ''bob'', ky_created = 0\<rparr>)], pv_recoveries = rs\<rparr>"

definition sample_unlocks :: "(uuid, unlock_row) hashmap" where
  "sample_unlocks = [(30, sample_unlock ''passphrase'' (JObject [])), (31, sample_unlock ''organisation'' sample_wrap)]"

definition sample_new_unlock :: "string \<Rightarrow> json \<Rightarrow> new_unlock" where
  "sample_new_unlock kind params = \<lparr>nu_kind = kind, nu_params = params, nu_wrapped = replicate 16 0, nu_label = []\<rparr>"

definition sample_sealed_row :: sealed_row where
  "sample_sealed_row = \<lparr>sl_user = 7, sl_nonce = replicate 12 0, sl_ciphertext = replicate 16 0, sl_created = 1\<rparr>"

definition sample_history :: "(session \<times> instant \<times> vault_request) list" where
  "sample_history = [(sample_administrator, 0, CreateKey 20 (replicate 65 0)), (sample_owner_7, 1, AddUnlock 30 (sample_new_unlock ''passphrase'' (JObject []))),
     (sample_owner_7, 1, AddUnlock 31 (sample_new_unlock ''organisation'' sample_wrap)), (sample_owner_7, 1, SaveEntry 40 (replicate 12 0) (replicate 16 0)),
     (sample_administrator, 2, AskRecovery 50 7 ''passphrase'' ''lost''), (sample_officer, 3, ApproveRecovery 50)]"

abbreviation sample_approved_vaults :: vaults where
  "sample_approved_vaults \<equiv> sample_vaults sample_unlocks [(40, sample_sealed_row)] [(50, sample_asked_recovery\<lparr>rc_approver := Some ''bob'', rc_approved := Some 3\<rparr>)]"

lemma happened_next:
  assumes "happened ve pv es" "vault_handle ve pv s addr now req = Inr (vaults_audit q e)"
  shows "happened ve q (es @ [(s, now, req)])"
  using happened.elsewhere [OF happened.answered [OF assms], of "pv_db q"] by (simp add: vaults_audit_def)

lemmas sample_vault_simps = sample_vault_env_def sample_vault_person_def sample_vaults_def sample_new_unlock_def sample_unlock_def sample_unlocks_def sample_wrap_def
  sample_asked_recovery_def sample_sealed_row_def require_admin_def is_admin_def has_role_def ensure_def Let_def

lemma trim_empty: "trim [] = []"
  by (simp add: trim_visible_ascii visible_ascii_def)

lemma sample_happened: "happened sample_vault_env sample_approved_vaults sample_history"
proof -
  let ?ve = sample_vault_env
  have 0: "happened ?ve (sample_vaults [] [] []\<lparr>pv_keys := []\<rparr>) []" by (rule happened.start) (simp add: no_vaults_def sample_vaults_def)
  have 1: "happened ?ve (sample_vaults [] [] []) [(sample_administrator, 0, CreateKey 20 (replicate 65 0))]"
    using happened_next [OF 0, where s = sample_administrator and now = 0 and req = "CreateKey 20 (replicate 65 0)" and q = "sample_vaults [] [] []" and addr = "[]"]
    by (simp add: create_key_def sample_vault_simps)
  have 2: "happened ?ve (sample_vaults [hd sample_unlocks] [] []) (take 2 sample_history)"
    using happened_next [OF 1, where s = sample_owner_7 and now = 1 and req = "AddUnlock 30 (sample_new_unlock ''passphrase'' (JObject []))"
        and q = "sample_vaults [hd sample_unlocks] [] []" and addr = "[]"]
    by (simp add: add_unlock_def drop_kind_def trim_empty chars_ascii ascii_def sample_vault_simps sample_history_def)
  have 3: "happened ?ve (sample_vaults sample_unlocks [] []) (take 3 sample_history)"
    using happened_next [OF 2, where s = sample_owner_7 and now = 1 and req = "AddUnlock 31 (sample_new_unlock ''organisation'' sample_wrap)"
        and q = "sample_vaults sample_unlocks [] []" and addr = "[]"]
    by (simp add: add_unlock_def drop_kind_def trim_empty chars_ascii ascii_def wrap_fits_def organisation_key_def json_text_at_def
        sample_vault_simps sample_history_def)
  have 4: "happened ?ve (sample_vaults sample_unlocks [(40, sample_sealed_row)] []) (take 4 sample_history)"
    using happened_next [OF 3, where s = sample_owner_7 and now = 1 and req = "SaveEntry 40 (replicate 12 0) (replicate 16 0)"
        and q = "sample_vaults sample_unlocks [(40, sample_sealed_row)] []" and addr = "[]"]
    by (simp add: save_entry_def upsert_sealed_def sample_vault_simps sample_history_def)
  have lost: "trim ''lost'' = ''lost''" "length (chars ''lost'') = 4" by (simp_all add: trim_visible_ascii visible_ascii_def chars_ascii ascii_def)
  have 5: "happened ?ve (sample_vaults sample_unlocks [(40, sample_sealed_row)] [(50, sample_asked_recovery)]) (take 5 sample_history)"
    using happened_next [OF 4, where s = sample_administrator and now = 2 and req = "AskRecovery 50 7 ''passphrase'' ''lost''"
        and q = "sample_vaults sample_unlocks [(40, sample_sealed_row)] [(50, sample_asked_recovery)]" and addr = "[]"]
    by (simp add: create_recovery_def lost sample_vault_simps sample_history_def)
  show ?thesis
    using happened_next [OF 5, where s = sample_officer and now = 3 and req = "ApproveRecovery 50" and q = sample_approved_vaults and addr = "[]"]
    by (simp add: approve_recovery_def find_recovery_def sample_vault_simps sample_history_def)
qed

lemma sample_ready:
  "ready_recovery sample_approved_vaults sample_administrator 4 50 = Inr (sample_asked_recovery\<lparr>rc_approver := Some ''bob'', rc_approved := Some 3\<rparr>)"
  by (simp add: ready_recovery_def find_recovery_def recovery_status_def day_def minute_def sample_vault_simps)

theorem recovery_four_eyes_witness:
  "\<exists>pv' out. recovery_vault sample_approved_vaults sample_administrator [] 4 50 = Inr (pv', out) \<and> sd_entries out = [(40, sample_sealed_row)]
    \<and> (\<exists>s2 t. (s2, t, ApproveRecovery 50) \<in> set sample_history \<and> s_user s2 \<noteq> 5)"
proof -
  have "\<exists>pv' out. recovery_vault sample_approved_vaults sample_administrator [] 4 50 = Inr (pv', out)"
    unfolding recovery_vault_def sample_ready
    by (simp add: organisation_unlock_def names_key_def json_text_at_def sample_vault_simps)
  then obtain pv' out where v: "recovery_vault sample_approved_vaults sample_administrator [] 4 50 = Inr (pv', out)" by blast
  from recovery_four_eyes [OF sample_happened v] obtain s2 t r xs s1 t1 why us vs
    where "sample_history = xs @ (s1, t1, AskRecovery 50 (rc_user r) (rc_kind r) why) # us @ (s2, t, ApproveRecovery 50) # vs"
      "s_user s2 \<noteq> s_user sample_administrator" "sd_entries out = entries_of sample_approved_vaults (rc_user r)"
      "hm_get (pv_recoveries sample_approved_vaults) 50 = Some r" by blast
  moreover from this have "sd_entries out = [(40, sample_sealed_row)]" by (auto simp: entries_of_def sample_vault_simps)
  moreover have "s_user sample_administrator = 5" by (simp add: sample_vault_person_def)
  ultimately show ?thesis using v by (metis in_set_conv_decomp append.assoc append_Cons)
qed

theorem vaults_stay_ok_witness:
  "vaults_ok sample_approved_vaults \<and> (\<exists>p. remove_unlock sample_approved_vaults sample_owner_7 [] 30 = Inl p)
    \<and> (\<exists>pv'. vault_handle sample_vault_env sample_approved_vaults sample_owner_7 [] 4 (DeleteEntry 40) = Inr pv' \<and> own_unlock pv' 7)"
proof -
  have "hm_get (pv_unlocks sample_approved_vaults) 30 = Some (sample_unlock ''passphrase'' (JObject []))" by (simp add: sample_vaults_def sample_unlocks_def)
  then have "own_unlock sample_approved_vaults 7" unfolding own_unlock_def by (force simp: sample_unlock_def)
  moreover have "\<exists>p. remove_unlock sample_approved_vaults sample_owner_7 [] 30 = Inl p" by (simp add: remove_unlock_def sample_vault_simps)
  moreover have "\<exists>pv'. vault_handle sample_vault_env sample_approved_vaults sample_owner_7 [] 4 (DeleteEntry 40) = Inr pv'"
    by (simp add: delete_entry_def owned_def sample_vault_simps)
  ultimately show ?thesis using vaults_stay_ok [OF sample_happened] by blast
qed

theorem others_vaults_untouched_witness:
  "\<exists>pv'. vault_handle sample_vault_env sample_approved_vaults sample_administrator [] 4 (CompleteRecovery 50 60 (Some (replicate 16 0))) = Inr pv'
    \<and> hm_get (pv_unlocks pv') 30 = Some (sample_unlock ''passphrase'' (JObject [])) \<and> hm_get (pv_entries pv') 40 = Some sample_sealed_row"
proof -
  have "\<exists>pv'. vault_handle sample_vault_env sample_approved_vaults sample_administrator [] 4 (CompleteRecovery 50 60 (Some (replicate 16 0))) = Inr pv'"
    unfolding vault_handle.simps complete_recovery_def sample_ready
    by (simp add: one_time_unlock_def drop_kind_def sample_vault_simps)
  then obtain pv' where h: "vault_handle sample_vault_env sample_approved_vaults sample_administrator [] 4 (CompleteRecovery 50 60 (Some (replicate 16 0))) = Inr pv'" by blast
  have "hm_get (pv_unlocks sample_approved_vaults) 30 = Some (sample_unlock ''passphrase'' (JObject []))" "hm_get (pv_entries sample_approved_vaults) 40 = Some sample_sealed_row"
    by (simp_all add: sample_vaults_def sample_unlocks_def)
  moreover have "un_user (sample_unlock ''passphrase'' (JObject [])) = 7" "un_kind (sample_unlock ''passphrase'' (JObject [])) \<noteq> ''recovery''"
      "sl_user sample_sealed_row = 7" "(7::nat) \<noteq> s_user sample_administrator" by (simp_all add: sample_unlock_def sample_sealed_row_def sample_vault_person_def)
  ultimately show ?thesis using others_vaults_untouched [OF sample_happened h] h by blast
qed

end
