(* ===== verification/Spec2Isabelle.thy ===== *)
theory Spec2Isabelle
  imports Catalog Agent Guacamole WebUi Switchboard Directory Terminal Reveal Personal
begin

text \<open>
  A verification of remotehub, a gateway through which people reach the devices of many sites in
  their browser. It has two programs of its own, and this development follows both.

  \<^bold>\<open>The parts and how they interact.\<close> The \<^emph>\<open>server\<close> (\<^verbatim>\<open>crates/server\<close>) keeps folders, devices, login
  profiles, collections and credentials in a database, decides who may see and use what
  (\<^verbatim>\<open>crates/model\<close>), seals secrets (\<^verbatim>\<open>crates/vault\<close>), signs people in against a directory
  (\<^verbatim>\<open>crates/directory\<close>) and passes their screens and keystrokes on to guacd (\<^verbatim>\<open>crates/gateway\<close>). At a
  site a \<^emph>\<open>connector\<close> (\<^verbatim>\<open>crates/connector\<close>) dials out to the server and connects to targets in its
  network, but only to those the customer has opened; the customer opens and closes them in the
  connector's own web interface. One-time passwords (\<^verbatim>\<open>crates/totp\<close>) serve both.

  \<^bold>\<open>Ground.\<close> \<open>Prelude\<close> holds the names of types, the two dictionaries of Rust's library as one
  interface (locale \<open>dict\<close>, interpreted for \<open>HashMap\<close> and \<open>BTreeMap\<close>), and the locale \<open>machine\<close> of a
  transition relation with an invariant, which \<open>Access\<close>, \<open>WebUi\<close>, \<open>Sessions\<close> and \<open>TreeApi\<close> interpret on their
  own steps. \<open>Strings\<close> holds the functions of \<open>str\<close> and \<open>char\<close> on UTF-8 bytes, \<open>Network\<close> addresses and
  their ranges (\<^verbatim>\<open>connector/src/network.rs\<close>).

  \<^bold>\<open>Permissions.\<close> \<open>Catalog\<close> is \<^verbatim>\<open>model/src/lib.rs\<close>: roles, objects in two trees, grants and every decision
  over them. The walk up a tree is a loop that stops at an object it has seen; its recursion is bounded
  by the containers not yet seen. It is shown that \<open>authorize\<close> decides exactly what a declarative
  reading of the grants says, that the walk ends in any table, and what is visible.

  \<^bold>\<open>The connector.\<close> \<open>Inventory\<close>, \<open>Journal\<close>, \<open>Access\<close>, \<open>Requests\<close>, \<open>Users\<close>, \<open>WebUi\<close> and \<open>Agent\<close> are the files
  of these names (\<open>WebUi\<close> is \<^verbatim>\<open>ui.rs\<close>). The data directory is a state whose writes may fail, each file on
  its own; the gate is the snapshot the running connector decides by. It is shown that no
  sequence of operations breaks the directory, that connections go only to open addresses in allowed
  networks and are cancelled on a change, that a removed device is closed, that without a session nothing
  changes, and which answers of the server are taken.

  \<^bold>\<open>Sealed secrets.\<close> \<open>Vault\<close> is \<^verbatim>\<open>vault/src\<close> with \<^verbatim>\<open>server/src/secrets.rs\<close> and \<^verbatim>\<open>server/src/escrow.rs\<close>. The cipher, base64 and
  the elliptic curve are parameters with their documented laws as hypotheses (\<open>aead_ok\<close> and others);
  the keyring is the locale \<open>key_provider\<close>, interpreted for the key file. It is shown that a secret opens to its
  text, also after a rotation, and for no other owner, version or field, and that the recovery key restores the file.

  \<^bold>\<open>Signing in.\<close> \<open>Totp\<close>, \<open>Webauthn\<close>, \<open>Factors\<close> (\<^verbatim>\<open>second_factor.rs\<close>, \<^verbatim>\<open>break_glass.rs\<close>), \<open>Sessions\<close> (\<^verbatim>\<open>session.rs\<close>) and
  \<open>SignIn\<close> (\<^verbatim>\<open>auth.rs\<close>, \<^verbatim>\<open>api/session.rs\<close>, \<^verbatim>\<open>api/confirm.rs\<close>) work on the tables of \<open>Database\<close>, which also has the problems and the
  entries of the audit log. Codes that count once are the locale \<open>one_time_codes\<close>, interpreted for apps,
  break-glass accounts and confirmations. It is shown when a session starts and whose it is, that codes
  and answers of security keys work once, that a locked session stays locked until it is confirmed, and
  that the limiter implements a count of failures and lets in again.

  \<^bold>\<open>The tree and its requests.\<close> \<open>Principals\<close> (SIDs, principals, the client's address behind proxies), \<open>Hub\<close> (the tables and
  what the handlers share), \<open>Forest\<close> (when the tables are sound, and what keeps them so), \<open>Folders\<close>, \<open>Devices\<close>,
  \<open>Grants\<close>, \<open>Credentials\<close> (\<^verbatim>\<open>api/catalog.rs\<close>, \<^verbatim>\<open>api/profiles.rs\<close>, \<^verbatim>\<open>api/requests.rs\<close>, \<^verbatim>\<open>api/roles.rs\<close>, \<^verbatim>\<open>api/fields.rs\<close>,
  \<^verbatim>\<open>api/collections.rs\<close>) and \<open>TreeApi\<close>, which puts all handlers into one transition relation. A handler returns a
  problem, and its transaction is dropped, or the changed tables; foreign keys and unique indexes of
  the migrations are conditions of the statements. It is shown that the tables stay sound, that a secret is
  sent to another machine only by someone who may use it, that every change is in the audit log, that outsiders
  change nothing, and what an approval gives.

  \<^bold>\<open>The directory.\<close> \<open>Directory\<close> is \<^verbatim>\<open>directory/src\<close>: names and filters, signing in, refreshing, searching, local administrator
  passwords and the check of the settings, over an LDAP server that is a parameter. It is shown what the directory
  has to say for a session to start.

  \<^bold>\<open>Connecting.\<close> \<open>Switchboard\<close> (\<^verbatim>\<open>server/src/connectors.rs\<close>) keeps the connectors that are online, the streams and checks asked of
  them and their answers, as events in any order. \<open>Connect\<close> (\<^verbatim>\<open>api/connect.rs\<close>, \<^verbatim>\<open>refresh.rs\<close>, \<^verbatim>\<open>api/journal.rs\<close>, \<^verbatim>\<open>ssh_ca.rs\<close>) finds the
  target, the way to it and the credentials; \<open>Terminal\<close> (\<^verbatim>\<open>api/terminal.rs\<close>, \<^verbatim>\<open>gateway/src/ssh.rs\<close>) is a connection from the request to its
  end; \<open>Reveal\<close> (\<^verbatim>\<open>api/reveal.rs\<close>) shows secrets. It is shown that only the connector asked answers, that the
  directory's word counts before every connection, to which server credentials are offered and whose they
  are, that connections are recorded, who is shown a secret and that it is the one stored.

  \<^bold>\<open>Personal vaults.\<close> \<open>Personal\<close> is \<^verbatim>\<open>api/personal.rs\<close> and \<^verbatim>\<open>api/recovery.rs\<close>: sealed entries, the ways to unlock them, and recovery with
  the organisation's key. It is shown over any history of requests that nobody opens another's vault alone, that
  the tables stay consistent, that nobody is locked out and that only the owner changes a vault.

  \<^bold>\<open>The display.\<close> \<open>Guacamole\<close> is \<^verbatim>\<open>gateway/src/guacamole.rs\<close> and the relay of \<^verbatim>\<open>api/display.rs\<close>: instructions survive encoding,
  parsing does not depend on how the bytes arrive, and of what a browser sends only allowed
  instructions reach guacd, no input while the session is locked.

  \<^bold>\<open>Bounds and loops.\<close> Every loop of the modelled sources is a terminating function, by structure or with a
  measure; no fuel is used. Integers keep their width where the code relies on it (time steps, counters
  of security keys, address bits, CBOR lengths); identifiers are opaque numbers and times are integers
  of nanoseconds. Requests are handled one after the other: interleavings of two transactions are not modelled,
  except for the connector's table of connections, where the order of check and entry is a step of its own.

  \<^bold>\<open>Not modelled.\<close> The browser interface in \<^verbatim>\<open>web\<close> (another language); sockets, TLS, HTTP and WebSocket
  frames, the protocol of LDAP, the clients of Kratos, Caddy and SMTP (input and output over libraries);
  reading configuration and starting processes; the Windows service; the hash chain of the audit
  log, which is a trigger of the database; pages of HTML. The remaining handlers of the server are
  listed with their state in the manifest.
\<close>

end
